(* ===== verification/Prelude.thy ===== *)
theory Prelude
  imports Main "HOL-Library.Word"
begin

unbundle bit_operations_syntax

text \<open>
  Shared vocabulary of the development: the machine types of a 32-bit x86 kernel, the
  byte-addressed memory every pointer of the C code points into, the rounding macros of
  \<^verbatim>\<open>include/stdlib.h\<close>, and the generic lemmas about them that the component
  theories use. Addresses and \<^verbatim>\<open>size_t\<close> values are \<open>32 word\<close>; objects of more than
  one byte are stored little endian, as the 80386 does.
\<close>

named_theorems mem_simps \<open>reading back what was written to memory\<close>
named_theorems apart_intros \<open>separation of memory regions\<close>

section \<open>Machine types\<close>

type_synonym addr = "32 word"
type_synonym u8 = "8 word"
type_synonym u16 = "16 word"
type_synonym u32 = "32 word"
type_synonym u64 = "64 word"
type_synonym mem = "addr \<Rightarrow> u8"

abbreviation NULL :: addr where "NULL \<equiv> 0"

section \<open>Rounding (include/stdlib.h)\<close>

definition MIN_u32 :: "u32 \<Rightarrow> u32 \<Rightarrow> u32" where
  "MIN_u32 a b = (if a < b then a else b)"

definition ROUNDUP :: "u32 \<Rightarrow> u32 \<Rightarrow> u32" where
  "ROUNDUP a b = (a + (b - 1)) AND NOT (b - 1)"

definition ROUNDDOWN :: "u32 \<Rightarrow> u32 \<Rightarrow> u32" where
  "ROUNDDOWN a b = a AND NOT (b - 1)"

lemma unat_lt32: "unat (x :: u32) < 4294967296"
  using unsigned_less [of x] by simp

lemma unat_exp32: "k < 32 \<Longrightarrow> unat (2 ^ k :: u32) = 2 ^ k"
proof -
  assume "k < 32"
  then have "(2 :: nat) ^ k < 2 ^ 32" by (intro power_strict_increasing) auto
  moreover have "unat (2 ^ k :: u32) = take_bit 32 (2 ^ k)"
    using unsigned_of_nat [of "2 ^ k", where 'b = 32, where 'a = nat] by simp
  ultimately show ?thesis using \<open>k < 32\<close> by (simp add: take_bit_nat_eq_self)
qed

lemma unat_mask32: "k < 32 \<Longrightarrow> unat (mask k :: u32) = 2 ^ k - 1"
  by (simp add: mask_eq_exp_minus_1 unat_exp32 unat_minus_one)

lemma and_not_mask_eq: "a AND NOT (mask k) = push_bit k (drop_bit k (a::'a::len word))"
  by (rule bit_word_eqI) (auto simp: bit_simps)
lemma unat_and_not_mask:
  "unat (a AND NOT (mask k) :: u32) = unat a div 2 ^ k * 2 ^ k"
proof -
  have "unat a < 2 ^ 32" using unsigned_less [of a] by simp
  then have lt: "unat a div 2 ^ k * 2 ^ k < 2 ^ 32"
    by (rule le_less_trans [rotated]) simp
  have "unat (push_bit k (drop_bit k a)) = take_bit 32 (push_bit k (drop_bit k (unat a)))"
    by (simp only: unsigned_push_bit_eq unat_drop_bit_eq) simp
  then have "unat (push_bit k (drop_bit k a)) = take_bit 32 (unat a div 2 ^ k * 2 ^ k)"
    by (simp only: push_bit_eq_mult drop_bit_eq_div)
  then show ?thesis
    using lt by (simp add: and_not_mask_eq take_bit_eq_mod)
qed
lemma power_of_two_word:
  assumes "w AND (w - 1) = (0 :: u32)" "w \<noteq> 0"
  shows "\<exists>k<32. w = 2 ^ k"
proof -
  have ex: "\<exists>n. bit w n"
  proof (rule ccontr)
    assume "\<nexists>n. bit w n"
    then have "w = 0" by (intro bit_word_eqI) simp
    with assms(2) show False by simp
  qed
  have bd: "bit w n \<Longrightarrow> n \<le> 31" for n using bit_imp_le_length [of w n] by simp
  define k where "k = (GREATEST n. bit w n)"
  have Pk: "bit w k" unfolding k_def using ex bd by (metis GreatestI_nat)
  have gr: "bit w n \<Longrightarrow> n \<le> k" for n unfolding k_def using bd by (metis Greatest_le_nat)
  have k32: "k < 32" using bd [OF Pk] by simp
  have nb: "\<not> bit (w - 1) k"
  proof
    assume "bit (w - 1) k"
    with Pk have "bit (w AND (w - 1)) k" by (simp add: bit_and_iff)
    with assms(1) show False by simp
  qed
  have "take_bit (Suc k) w = w"
    by (rule bit_word_eqI) (use gr in \<open>auto simp: bit_simps less_Suc_eq_le\<close>)
  then have "unat w = take_bit (Suc k) (unat w)"
    by (metis unsigned_take_bit_eq)
  then have up: "unat w < 2 ^ Suc k"
    by (metis take_bit_nat_less_exp)
  have lo: "2 ^ k \<le> unat w"
  proof (rule ccontr)
    assume "\<not> 2 ^ k \<le> unat w"
    then have "unat w div 2 ^ k = 0" by simp
    moreover from Pk have "bit (unat w) k" by (simp add: bit_unsigned_iff)
    ultimately show False by (simp add: bit_iff_odd)
  qed
  have "unat w = 2 ^ k"
  proof (rule ccontr)
    assume ne: "unat w \<noteq> 2 ^ k"
    then have "unat (w - 1) = unat w - 1" using assms(2) by (simp add: unat_minus_one)
    then have "unat (w - 1) div 2 ^ k = 1" using lo up ne
      by (intro div_nat_eqI) auto
    then have "bit (unat (w - 1)) k" by (simp add: bit_iff_odd)
    then have "bit (w - 1) k" by (simp add: bit_unsigned_iff)
    with nb show False by simp
  qed
  then have "w = 2 ^ k" using k32
    by (simp add: word_unat_eq_iff unat_exp32)
  then show ?thesis using k32 by blast
qed

lemma unat_ROUNDDOWN:
  "k < 32 \<Longrightarrow> unat (ROUNDDOWN a (2 ^ k)) = unat a div 2 ^ k * 2 ^ k"
  by (simp add: ROUNDDOWN_def unat_and_not_mask flip: mask_eq_exp_minus_1)

lemma unat_ROUNDUP:
  assumes "k < 32" "unat a + 2 ^ k \<le> 2 ^ 32"
  shows "unat (ROUNDUP a (2 ^ k)) = (unat a + (2 ^ k - 1)) div 2 ^ k * 2 ^ k"
proof -
  have m: "unat (mask k :: u32) = 2 ^ k - 1"
    using assms(1) by (rule unat_mask32)
  have "unat (a + mask k) = unat a + (2 ^ k - 1)"
    using assms(2) by (subst unat_add_lem [THEN iffD1]) (unfold m, simp_all)
  then show ?thesis
    by (simp add: ROUNDUP_def unat_and_not_mask flip: mask_eq_exp_minus_1)
qed

lemma ROUNDUP_bounds:
  assumes "k < 32" "unat a + 2 ^ k \<le> 2 ^ 32"
  shows "unat a \<le> unat (ROUNDUP a (2 ^ k))" and "unat (ROUNDUP a (2 ^ k)) < unat a + 2 ^ k"
    and "2 ^ k dvd unat (ROUNDUP a (2 ^ k))"
proof -
  let ?r = "(unat a + (2 ^ k - 1)) div 2 ^ k * 2 ^ k"
  have e: "unat (ROUNDUP a (2 ^ k)) = ?r" by (rule unat_ROUNDUP [OF assms])
  have "?r + (unat a + (2 ^ k - 1)) mod 2 ^ k = unat a + (2 ^ k - 1)" by (rule div_mult_mod_eq)
  moreover have "(unat a + (2 ^ k - 1)) mod 2 ^ k < 2 ^ k" by simp
  ultimately show "unat a \<le> unat (ROUNDUP a (2 ^ k))" "unat (ROUNDUP a (2 ^ k)) < unat a + 2 ^ k"
    unfolding e by linarith+
  show "2 ^ k dvd unat (ROUNDUP a (2 ^ k))" unfolding e by simp
qed

section \<open>Regions of memory\<close>

text \<open>
  \<open>region a n\<close> holds the addresses of the \<open>n\<close> bytes at \<open>a\<close> (addresses wrap). Two regions
  are \<open>apart\<close> when they share no byte.
\<close>

definition region :: "addr \<Rightarrow> nat \<Rightarrow> addr set" where
  "region a n = {x. unat (x - a) < n}"

definition apart :: "addr \<Rightarrow> nat \<Rightarrow> addr \<Rightarrow> nat \<Rightarrow> bool" where
  "apart a n b k \<longleftrightarrow> n \<le> unat (b - a) \<and> k \<le> unat (a - b)"

lemma in_region_iff: "x \<in> region a n \<longleftrightarrow> unat (x - a) < n"
  by (simp add: region_def)

lemma apart_sym: "apart a n b k \<longleftrightarrow> apart b k a n"
  by (auto simp: apart_def)

lemma apart_mono: "apart a n b k \<Longrightarrow> n' \<le> n \<Longrightarrow> k' \<le> k \<Longrightarrow> apart a n' b k'"
  by (auto simp: apart_def)

lemma unat_diff_swap:
  assumes "a \<noteq> b"
  shows "unat (a - b :: u32) = 2 ^ 32 - unat (b - a)"
  using assms unat_lt32 [of a] unat_lt32 [of b] by (simp add: unat_sub_if' word_unat_eq_iff) arith

lemma apart_neq: "apart a n b k \<Longrightarrow> 0 < n \<or> 0 < k \<Longrightarrow> a \<noteq> b"
  by (auto simp: apart_def)

lemma apart_fields:
  assumes "apart a n b k" and "unat i + s \<le> n" and "unat j + t \<le> k" and "0 < n" and "0 < s" and "0 < t"
  shows "apart (a + i) s (b + j) t"
proof -
  define d where "d = b - a"
  have ne: "a \<noteq> b" using assms(1,4) by (rule_tac apart_neq) auto
  have d: "n \<le> unat d" "k \<le> 2 ^ 32 - unat d" and dl: "unat d < 2 ^ 32"
    using assms(1) unat_diff_swap [OF ne] unsigned_less [of d] by (auto simp: apart_def d_def)
  have "d + j - i = (b + j) - (a + i)" by (simp add: d_def)
  moreover have s: "unat (d + j) = unat d + unat j"
    using d dl assms(3,6) by (intro unat_add_lem [THEN iffD1]) auto
  moreover have "unat (d + j - i) = unat (d + j) - unat i"
    using s d assms(2) by (intro unat_sub) (simp add: word_le_nat_alt)
  ultimately have e: "unat ((b + j) - (a + i)) = unat d + unat j - unat i"
    by (simp only:)
  have "unat d + unat j - unat i \<noteq> 0" using d assms(2,5) by linarith
  then have "(a + i) \<noteq> (b + j)" using e by auto
  then have "unat ((a + i) - (b + j)) = 2 ^ 32 - (unat d + unat j - unat i)"
    by (simp add: unat_diff_swap e)
  then show ?thesis using e d dl assms by (auto simp: apart_def)
qed

lemma apart_field_left:
  "apart a n b k \<Longrightarrow> unat i + s \<le> n \<Longrightarrow> 0 < s \<Longrightarrow> 0 < k \<Longrightarrow> apart (a + i) s b k"
  using apart_fields [of a n b k i s 0 k] by auto

lemma apart_field_right:
  "apart a n b k \<Longrightarrow> unat j + t \<le> k \<Longrightarrow> 0 < t \<Longrightarrow> 0 < n \<Longrightarrow> apart a n (b + j) t"
  using apart_fields [of a n b k 0 n j t] by auto

lemma apart_nat:
  assumes "unat a + n \<le> unat b" and "unat b + k \<le> 2 ^ 32" and "0 < n"
  shows "apart a n b k"
proof -
  have "unat (b - a) = unat b - unat a" using assms(1) by (intro unat_sub) (simp add: word_le_nat_alt)
  moreover have "unat (a - b) = 2 ^ 32 - unat (b - a)" using assms by (intro unat_diff_swap) auto
  ultimately show ?thesis
    using assms by (simp add: apart_def) arith
qed

lemma apart_iff_disjoint:
  assumes "0 < n" "0 < k"
  shows "apart a n b k \<longleftrightarrow> region a n \<inter> region b k = {}"
proof
  assume ap: "apart a n b k"
  show "region a n \<inter> region b k = {}"
  proof (rule ccontr)
    assume "region a n \<inter> region b k \<noteq> {}"
    then obtain x where x: "unat (x - a) < n" "unat (x - b) < k" by (auto simp: region_def)
    have "apart (a + (x - a)) 1 (b + (x - b)) 1"
      using ap x assms by (intro apart_fields) auto
    then show False by (simp add: apart_def)
  qed
next
  assume dis: "region a n \<inter> region b k = {}"
  have "b \<in> region b k" "a \<in> region a n" using assms by (simp_all add: region_def)
  then have "b \<notin> region a n" "a \<notin> region b k" using dis by auto
  then show "apart a n b k" by (auto simp: region_def apart_def)
qed

section \<open>Loads and stores\<close>

definition ld16 :: "mem \<Rightarrow> addr \<Rightarrow> u16" where
  "ld16 m a = ucast (m a) OR push_bit 8 (ucast (m (a + 1)))"

definition st16 :: "mem \<Rightarrow> addr \<Rightarrow> u16 \<Rightarrow> mem" where
  "st16 m a v = m(a := ucast v, a + 1 := ucast (drop_bit 8 v))"

definition ld32 :: "mem \<Rightarrow> addr \<Rightarrow> u32" where
  "ld32 m a = ucast (m a) OR push_bit 8 (ucast (m (a + 1)))
     OR push_bit 16 (ucast (m (a + 2))) OR push_bit 24 (ucast (m (a + 3)))"

definition st32 :: "mem \<Rightarrow> addr \<Rightarrow> u32 \<Rightarrow> mem" where
  "st32 m a v = m(a := ucast v, a + 1 := ucast (drop_bit 8 v),
     a + 2 := ucast (drop_bit 16 v), a + 3 := ucast (drop_bit 24 v))"

lemma ld32_st32_same [mem_simps]: "ld32 (st32 m a v) a = v"
proof (rule bit_word_eqI)
  fix n assume "n < LENGTH(32)"
  then consider "n < 8" | "8 \<le> n" "n < 16" | "16 \<le> n" "n < 24" | "24 \<le> n" "n < 32" by force
  then show "bit (ld32 (st32 m a v) a) n = bit v n"
    by cases (auto simp: ld32_def st32_def bit_simps)
qed

lemma ld16_st16_same [mem_simps]: "ld16 (st16 m a v) a = v"
proof (rule bit_word_eqI)
  fix n assume "n < LENGTH(16)"
  then consider "n < 8" | "8 \<le> n" "n < 16" by force
  then show "bit (ld16 (st16 m a v) a) n = bit v n"
    by cases (auto simp: ld16_def st16_def bit_simps)
qed

lemma region_small:
  "region a 4 = {a, a + 1, a + 2, a + 3}" "region a 2 = {a, a + 1}" "region a 1 = {a}"
  for a :: addr
proof -
  have "unat y < 4 \<longleftrightarrow> unat y = unat (0 :: u32) \<or> unat y = unat (1 :: u32) \<or> unat y = unat (2 :: u32) \<or> unat y = unat (3 :: u32)"
    "unat y < 2 \<longleftrightarrow> unat y = unat (0 :: u32) \<or> unat y = unat (1 :: u32)" for y :: u32
    by auto
  then have "unat (x - a) < 4 \<longleftrightarrow> x - a \<in> {0, 1, 2, 3}" "unat (x - a) < 2 \<longleftrightarrow> x - a \<in> {0, 1}" 
    "unat (x - a) < 1 \<longleftrightarrow> x - a = 0" for x :: addr
    by (simp_all only: flip: word_unat_eq_iff) (auto simp: unat_0_iff)
  then show "region a 4 = {a, a + 1, a + 2, a + 3}" "region a 2 = {a, a + 1}" "region a 1 = {a}"
    by (auto simp: region_def algebra_simps)
qed

lemma st32_frame [mem_simps]: "x \<notin> region a 4 \<Longrightarrow> st32 m a v x = m x"
  by (auto simp: st32_def region_small)

lemma st16_frame [mem_simps]: "x \<notin> region a 2 \<Longrightarrow> st16 m a v x = m x"
  by (auto simp: st16_def region_small)

lemma ld32_cong: "(\<And>x. x \<in> region a 4 \<Longrightarrow> m x = m' x) \<Longrightarrow> ld32 m a = ld32 m' a"
  by (simp add: ld32_def region_small)

lemma ld16_cong: "(\<And>x. x \<in> region a 2 \<Longrightarrow> m x = m' x) \<Longrightarrow> ld16 m a = ld16 m' a"
  by (simp add: ld16_def region_small)

lemma ld32_st32_apart [mem_simps]: "apart a 4 b 4 \<Longrightarrow> ld32 (st32 m a v) b = ld32 m b"
  by (rule ld32_cong, rule st32_frame) (auto simp: apart_iff_disjoint)

lemma ld16_st16_apart [mem_simps]: "apart a 2 b 2 \<Longrightarrow> ld16 (st16 m a v) b = ld16 m b"
  by (rule ld16_cong, rule st16_frame) (auto simp: apart_iff_disjoint)

text \<open>Two memories that agree outside a set of addresses: the frame of an operation.\<close>

definition frame :: "addr set \<Rightarrow> mem \<Rightarrow> mem \<Rightarrow> bool" where
  "frame R m m' \<longleftrightarrow> (\<forall>x. x \<notin> R \<longrightarrow> m' x = m x)"

lemma frame_refl [simp]: "frame R m m"
  by (simp add: frame_def)

lemma frame_trans: "frame R m m' \<Longrightarrow> frame R m' m'' \<Longrightarrow> frame R m m''"
  by (simp add: frame_def)

lemma frame_mono: "frame R m m' \<Longrightarrow> R \<subseteq> R' \<Longrightarrow> frame R' m m'"
  by (auto simp: frame_def)

lemma frame_st32: "frame R m m' \<Longrightarrow> region a 4 \<subseteq> R \<Longrightarrow> frame R m (st32 m' a v)"
  by (auto simp: frame_def st32_frame subset_eq)

lemma frame_ld32: "frame R m m' \<Longrightarrow> region a 4 \<inter> R = {} \<Longrightarrow> ld32 m' a = ld32 m a"
  by (rule ld32_cong) (auto simp: frame_def)

lemma unat_add_le: "unat (x + y :: u32) \<le> unat x + unat y"
  by (simp add: unat_word_ariths)

lemma region_field:
  assumes "unat i + s \<le> n"
  shows "region (a + i) s \<subseteq> region a n"
proof
  fix x assume "x \<in> region (a + i) s"
  then have "unat (x - (a + i)) < s" by (simp add: region_def)
  moreover have "unat (i + (x - (a + i))) \<le> unat i + unat (x - (a + i))" by (rule unat_add_le)
  ultimately show "x \<in> region a n" using assms by (simp add: region_def)
qed

lemma region_mono: "n \<le> k \<Longrightarrow> region a n \<subseteq> region a k"
  by (auto simp: region_def)

text \<open>Writing back what is there, and writing twice.\<close>

lemma st32_st32_same: "st32 (st32 m a v) a w = st32 m a w"
  by (rule ext) (simp add: st32_def)

lemma word_bytes:
  "ucast (ucast x0 OR push_bit 8 b OR push_bit 16 c OR push_bit 24 d :: u32) = (x0 :: u8)"
  "ucast (drop_bit 8 (ucast x0 OR push_bit 8 (ucast x1) OR push_bit 16 c OR push_bit 24 d :: u32)) = (x1 :: u8)"
  "ucast (drop_bit 16 (ucast x0 OR push_bit 8 (ucast x1) OR push_bit 16 (ucast x2) OR push_bit 24 d :: u32)) = (x2 :: u8)"
  "ucast (drop_bit 24 (ucast x0 OR push_bit 8 (ucast x1) OR push_bit 16 (ucast x2) OR push_bit 24 (ucast x3) :: u32)) = (x3 :: u8)"
  for x0 :: u8
  by (rule bit_word_eqI; auto simp: bit_simps dest: bit_imp_le_length)+

lemma st32_ld32_same: "st32 m a (ld32 m a) = m"
proof -
  have "ucast (ld32 m a) = m a" "ucast (drop_bit 8 (ld32 m a)) = m (a + 1)"
    "ucast (drop_bit 16 (ld32 m a)) = m (a + 2)" "ucast (drop_bit 24 (ld32 m a)) = m (a + 3)"
    unfolding ld32_def word_bytes by (rule refl)+
  then show ?thesis by (auto simp: st32_def)
qed

end
