(* ===== verification/LinkedList.thy ===== *)
theory LinkedList
  imports Prelude
begin

text \<open>
  The intrusive doubly linked list of \<^verbatim>\<open>include/list.h\<close>. A \<^verbatim>\<open>struct list_node\<close> is the
  two pointers \<^verbatim>\<open>prev\<close> (offset 0) and \<^verbatim>\<open>next\<close> (offset 4) inside the object that is
  linked; a list is a ring of nodes through a head node that belongs to no object. Every
  function is translated pointer assignment by pointer assignment on the byte memory.
  The abstraction \<open>dll m h xs\<close> says that the ring at \<open>h\<close> holds the nodes \<open>xs\<close> in this
  order; the lemmas show which list each operation leaves and which bytes it touches.
\<close>

section \<open>Nodes\<close>

definition node_prev :: "mem \<Rightarrow> addr \<Rightarrow> addr" where "node_prev m p = ld32 m p"
definition node_next :: "mem \<Rightarrow> addr \<Rightarrow> addr" where "node_next m p = ld32 m (p + 4)"
definition set_prev :: "mem \<Rightarrow> addr \<Rightarrow> addr \<Rightarrow> mem" where "set_prev m p v = st32 m p v"
definition set_next :: "mem \<Rightarrow> addr \<Rightarrow> addr \<Rightarrow> mem" where "set_next m p v = st32 m (p + 4) v"

definition containerof :: "addr \<Rightarrow> u32 \<Rightarrow> addr" where
  "containerof ptr off = ptr - off"

section \<open>Operations\<close>

definition list_initialize :: "mem \<Rightarrow> addr \<Rightarrow> mem" where
  "list_initialize m l = (let m = set_next m l l in set_prev m l l)"

definition list_clear_node :: "mem \<Rightarrow> addr \<Rightarrow> mem" where
  "list_clear_node m item = (let m = set_next m item NULL in set_prev m item NULL)"

definition list_in_list :: "mem \<Rightarrow> addr \<Rightarrow> bool" where
  "list_in_list m item = (if node_prev m item = 0 \<and> node_next m item = 0 then False else True)"

definition list_add_head :: "mem \<Rightarrow> addr \<Rightarrow> addr \<Rightarrow> mem" where
  "list_add_head m l item =
    (let m = set_next m item (node_next m l);
         m = set_prev m item l;
         m = set_prev m (node_next m l) item
     in set_next m l item)"

definition list_add_after :: "mem \<Rightarrow> addr \<Rightarrow> addr \<Rightarrow> mem" where
  "list_add_after m entry new_entry = list_add_head m entry new_entry"

definition list_add_tail :: "mem \<Rightarrow> addr \<Rightarrow> addr \<Rightarrow> mem" where
  "list_add_tail m l item =
    (let m = set_prev m item (node_prev m l);
         m = set_next m item l;
         m = set_next m (node_prev m l) item
     in set_prev m l item)"

definition list_add_before :: "mem \<Rightarrow> addr \<Rightarrow> addr \<Rightarrow> mem" where
  "list_add_before m entry new_entry = list_add_tail m entry new_entry"

definition list_delete :: "mem \<Rightarrow> addr \<Rightarrow> mem" where
  "list_delete m item =
    (let m = set_prev m (node_next m item) (node_prev m item);
         m = set_next m (node_prev m item) (node_next m item);
         m = set_next m item NULL
     in set_prev m item NULL)"

definition list_remove_head :: "mem \<Rightarrow> addr \<Rightarrow> addr \<times> mem" where
  "list_remove_head m l =
    (if node_next m l \<noteq> l then (let item = node_next m l in (item, list_delete m item))
     else (NULL, m))"

definition list_remove_head_type :: "mem \<Rightarrow> addr \<Rightarrow> u32 \<Rightarrow> addr \<times> mem" where
  "list_remove_head_type m l off =
    (case list_remove_head m l of (nod, m') \<Rightarrow> (if nod \<noteq> 0 then containerof nod off else NULL, m'))"

definition list_remove_tail :: "mem \<Rightarrow> addr \<Rightarrow> addr \<times> mem" where
  "list_remove_tail m l =
    (if node_prev m l \<noteq> l then (let item = node_prev m l in (item, list_delete m item))
     else (NULL, m))"

definition list_remove_tail_type :: "mem \<Rightarrow> addr \<Rightarrow> u32 \<Rightarrow> addr \<times> mem" where
  "list_remove_tail_type m l off =
    (case list_remove_tail m l of (nod, m') \<Rightarrow> (if nod \<noteq> 0 then containerof nod off else NULL, m'))"

definition list_peek_head :: "mem \<Rightarrow> addr \<Rightarrow> addr" where
  "list_peek_head m l = (if node_next m l \<noteq> l then node_next m l else NULL)"

definition list_peek_head_type :: "mem \<Rightarrow> addr \<Rightarrow> u32 \<Rightarrow> addr" where
  "list_peek_head_type m l off =
    (let nod = list_peek_head m l in if nod \<noteq> 0 then containerof nod off else NULL)"

definition list_peek_tail :: "mem \<Rightarrow> addr \<Rightarrow> addr" where
  "list_peek_tail m l = (if node_prev m l \<noteq> l then node_prev m l else NULL)"

definition list_peek_tail_type :: "mem \<Rightarrow> addr \<Rightarrow> u32 \<Rightarrow> addr" where
  "list_peek_tail_type m l off =
    (let nod = list_peek_tail m l in if nod \<noteq> 0 then containerof nod off else NULL)"

definition list_prev :: "mem \<Rightarrow> addr \<Rightarrow> addr \<Rightarrow> addr" where
  "list_prev m l item = (if node_prev m item \<noteq> l then node_prev m item else NULL)"

definition list_prev_type :: "mem \<Rightarrow> addr \<Rightarrow> addr \<Rightarrow> u32 \<Rightarrow> addr" where
  "list_prev_type m l item off =
    (let nod = list_prev m l item in if nod \<noteq> 0 then containerof nod off else NULL)"

definition list_prev_wrap :: "mem \<Rightarrow> addr \<Rightarrow> addr \<Rightarrow> addr" where
  "list_prev_wrap m l item =
    (if node_prev m item \<noteq> l then node_prev m item
     else if node_prev m (node_prev m item) \<noteq> l then node_prev m (node_prev m item)
     else NULL)"

definition list_prev_wrap_type :: "mem \<Rightarrow> addr \<Rightarrow> addr \<Rightarrow> u32 \<Rightarrow> addr" where
  "list_prev_wrap_type m l item off =
    (let nod = list_prev_wrap m l item in if nod \<noteq> 0 then containerof nod off else NULL)"

definition list_next :: "mem \<Rightarrow> addr \<Rightarrow> addr \<Rightarrow> addr" where
  "list_next m l item = (if node_next m item \<noteq> l then node_next m item else NULL)"

definition list_next_type :: "mem \<Rightarrow> addr \<Rightarrow> addr \<Rightarrow> u32 \<Rightarrow> addr" where
  "list_next_type m l item off =
    (let nod = list_next m l item in if nod \<noteq> 0 then containerof nod off else NULL)"

definition list_next_wrap :: "mem \<Rightarrow> addr \<Rightarrow> addr \<Rightarrow> addr" where
  "list_next_wrap m l item =
    (if node_next m item \<noteq> l then node_next m item
     else if node_next m (node_next m item) \<noteq> l then node_next m (node_next m item)
     else NULL)"

definition list_next_wrap_type :: "mem \<Rightarrow> addr \<Rightarrow> addr \<Rightarrow> u32 \<Rightarrow> addr" where
  "list_next_wrap_type m l item off =
    (let nod = list_next_wrap m l item in if nod \<noteq> 0 then containerof nod off else NULL)"

definition list_is_empty :: "mem \<Rightarrow> addr \<Rightarrow> bool" where
  "list_is_empty m l = (if node_next m l = l then True else False)"

text \<open>
  The traversal macro \<^verbatim>\<open>list_for_every\<close>: the nodes it visits, in order. A ring that never
  comes back to \<open>l\<close> is \<open>None\<close>.
\<close>

partial_function (option) nodes_from :: "mem \<Rightarrow> addr \<Rightarrow> addr \<Rightarrow> addr list option" where
  "nodes_from m l node =
    (if node \<noteq> l then Option.bind (nodes_from m l (node_next m node)) (\<lambda>ns. Some (node # ns))
     else Some [])"

definition list_for_every :: "mem \<Rightarrow> addr \<Rightarrow> addr list option" where
  "list_for_every m l = nodes_from m l (node_next m l)"

definition list_for_every_entry :: "mem \<Rightarrow> addr \<Rightarrow> u32 \<Rightarrow> addr list option" where
  "list_for_every_entry m l off = map_option (map (\<lambda>n. containerof n off)) (list_for_every m l)"

partial_function (option) list_length_loop :: "mem \<Rightarrow> addr \<Rightarrow> addr \<Rightarrow> u32 \<Rightarrow> u32 option" where
  "list_length_loop m l node cnt =
    (if node \<noteq> l then list_length_loop m l (node_next m node) (cnt + 1) else Some cnt)"

definition list_length :: "mem \<Rightarrow> addr \<Rightarrow> u32 option" where
  "list_length m l = list_length_loop m l (node_next m l) 0"

section \<open>Separated nodes\<close>

definition sep8 :: "addr \<Rightarrow> addr \<Rightarrow> bool" where
  "sep8 a b \<longleftrightarrow> a = b \<or> apart a 8 b 8"

lemma sep8_refl [simp]: "sep8 a a"
  by (simp add: sep8_def)

lemma sep8_sym: "sep8 a b \<longleftrightarrow> sep8 b a"
  by (auto simp: sep8_def apart_sym)

definition separated :: "addr set \<Rightarrow> bool" where
  "separated A \<longleftrightarrow> (\<forall>a\<in>A. \<forall>b\<in>A. sep8 a b)"

lemma separatedD: "separated A \<Longrightarrow> a \<in> A \<Longrightarrow> b \<in> A \<Longrightarrow> sep8 a b"
  by (auto simp: separated_def)

lemma separated_subset: "separated A \<Longrightarrow> B \<subseteq> A \<Longrightarrow> separated B"
  by (auto simp: separated_def)

lemma separated_insert:
  "separated (insert a A) \<longleftrightarrow> separated A \<and> (\<forall>b\<in>A. sep8 a b)"
  by (auto simp: separated_def) (metis sep8_sym)+

lemma prev_next_apart: "apart a 4 (a + 4) 4" "apart (a + 4) 4 a 4"
  by (simp_all add: apart_def)

lemma field_upd [mem_simps]:
  "node_next (set_next m a v) a = v"
  "node_prev (set_prev m a v) a = v"
  "node_prev (set_next m a v) a = node_prev m a"
  "node_next (set_prev m a v) a = node_next m a"
  by (simp_all add: node_next_def node_prev_def set_next_def set_prev_def mem_simps prev_next_apart)

lemma field_upd_apart [mem_simps]:
  assumes "apart a 8 b 8"
  shows "node_next (set_next m a v) b = node_next m b"
    and "node_prev (set_prev m a v) b = node_prev m b"
    and "node_prev (set_next m a v) b = node_prev m b"
    and "node_next (set_prev m a v) b = node_next m b"
  using apart_fields [OF assms, of 4 4 4 4] apart_fields [OF assms, of 0 4 0 4]
    apart_fields [OF assms, of 4 4 0 4] apart_fields [OF assms, of 0 4 4 4]
  by (simp_all add: node_next_def node_prev_def set_next_def set_prev_def mem_simps)

lemma field_upd_sep:
  assumes "sep8 a b"
  shows "node_next (set_next m a v) b = (if a = b then v else node_next m b)"
    and "node_prev (set_prev m a v) b = (if a = b then v else node_prev m b)"
    and "node_prev (set_next m a v) b = node_prev m b"
    and "node_next (set_prev m a v) b = node_next m b"
  using assms by (auto simp: mem_simps sep8_def)

section \<open>The ring as a list\<close>

definition links :: "mem \<Rightarrow> addr \<Rightarrow> addr \<Rightarrow> bool" where
  "links m p q \<longleftrightarrow> node_next m p = q \<and> node_prev m q = p"

definition dll :: "mem \<Rightarrow> addr \<Rightarrow> addr list \<Rightarrow> bool" where
  "dll m h xs \<longleftrightarrow> successively (links m) (h # xs @ [h])
     \<and> distinct (h # xs) \<and> 0 \<notin> set (h # xs) \<and> separated (set (h # xs))"

lemma dllD:
  assumes "dll m h xs"
  shows "distinct (h # xs)" "0 \<notin> set (h # xs)" "separated (set (h # xs))" "h \<noteq> 0" "h \<notin> set xs"
  using assms by (auto simp: dll_def)

lemma successively_cong_ends:
  assumes "successively P zs"
    and "\<And>a b. a \<in> set (butlast zs) \<Longrightarrow> b \<in> set (tl zs) \<Longrightarrow> P a b \<Longrightarrow> Q a b"
  shows "successively Q zs"
  using assms
proof (induction zs rule: induct_list012)
  case (3 x y zs)
  then have "P x y" "Q x y" by auto
  moreover have "successively Q (y # zs)"
    using 3 by (intro "3.IH"(2)) (auto split: if_splits dest: in_set_butlastD)
  ultimately show ?case by simp
qed auto

lemma dll_split:
  "successively (links m) (h # (xs @ ys) @ [h]) \<longleftrightarrow>
     successively (links m) (h # xs) \<and> successively (links m) (ys @ [h])
     \<and> links m (last (h # xs)) (hd (ys @ [h]))"
  using successively_append_iff [of "links m" "h # xs" "ys @ [h]"] by auto

text \<open>Memories that agree on the fields of the nodes hold the same list.\<close>

lemma dll_cong:
  assumes "dll m h xs"
    and "\<And>p. p \<in> set (h # xs) \<Longrightarrow> node_next m' p = node_next m p \<and> node_prev m' p = node_prev m p"
  shows "dll m' h xs"
proof -
  have "successively (links m') (h # xs @ [h])"
    by (rule successively_cong_ends [where P = "links m"])
      (use assms in \<open>auto simp: dll_def links_def dest: in_set_butlastD\<close>)
  then show ?thesis using assms(1) by (simp add: dll_def)
qed

lemma dll_frame:
  assumes "dll m h xs" and "frame R m m'" and "\<And>p. p \<in> set (h # xs) \<Longrightarrow> region p 8 \<inter> R = {}"
  shows "dll m' h xs"
proof (rule dll_cong [OF assms(1)])
  fix p assume "p \<in> set (h # xs)"
  then have d: "region p 8 \<inter> R = {}" by (rule assms(3))
  have "region p 4 \<subseteq> region p 8" "region (p + 4) 4 \<subseteq> region p 8"
    by (simp_all add: region_mono region_field)
  then show "node_next m' p = node_next m p \<and> node_prev m' p = node_prev m p"
    using d by (auto simp: node_next_def node_prev_def intro!: frame_ld32 [OF assms(2)])
qed

text \<open>Linking one node between two neighbours of the ring.\<close>

lemma dll_insert:
  assumes "dll m h (xs @ ys)"
    and p: "p = last (h # xs)" and q: "q = hd (ys @ [h])"
    and item: "item \<noteq> 0" "item \<notin> set (h # xs @ ys)" "separated (insert item (set (h # xs @ ys)))"
    and new: "links m' p item" "links m' item q"
    and next_same: "\<And>a. a \<in> set (h # xs @ ys) \<Longrightarrow> a \<noteq> p \<Longrightarrow> node_next m' a = node_next m a"
    and prev_same: "\<And>a. a \<in> set (h # xs @ ys) \<Longrightarrow> a \<noteq> q \<Longrightarrow> node_prev m' a = node_prev m a"
  shows "dll m' h (xs @ item # ys)"
proof -
  have d: "distinct (h # xs @ ys)" and s: "successively (links m) (h # xs)" "successively (links m) (ys @ [h])"
    using assms(1) dll_split [of m h xs ys] by (auto simp: dll_def)
  have left: "successively (links m') (h # xs)"
  proof (rule successively_cong_ends [OF s(1)])
    fix a b assume ab: "a \<in> set (butlast (h # xs))" "b \<in> set (tl (h # xs))" "links m a b"
    have "a \<noteq> p"
      using ab(1) d p by (metis append_butlast_last_id distinct_append disjoint_iff distinct.simps(2)
          list.discI list.set_intros(1) not_distinct_conv_prefix append_Cons)
    moreover have "b \<noteq> q" using ab(2) d q by (cases ys) auto
    moreover have "a \<in> set (h # xs @ ys)" using ab(1) by (auto dest: in_set_butlastD split: if_splits)
    ultimately show "links m' a b"
      using ab next_same [of a] prev_same [of b] by (simp add: links_def)
  qed
  have right: "successively (links m') (ys @ [h])"
  proof (rule successively_cong_ends [OF s(2)])
    fix a b assume ab: "a \<in> set (butlast (ys @ [h]))" "b \<in> set (tl (ys @ [h]))" "links m a b"
    have "a \<noteq> p" using ab(1) d p by (cases xs rule: rev_cases) (auto simp: butlast_append)
    moreover have "b \<noteq> q" using ab(2) d q by (cases ys) auto
    ultimately show "links m' a b"
      using ab next_same [of a] prev_same [of b] by (cases ys) (auto simp: links_def)
  qed
  have "successively (links m') ((h # xs) @ (item # ys @ [h]))"
    by (subst successively_append_iff) (use left right new p q in \<open>auto simp: successively_Cons\<close>)
  then show ?thesis using item assms(1) d by (auto simp: dll_def insert_commute)
qed

text \<open>Unlinking one node: its neighbours of the ring point at each other.\<close>

lemma dll_remove:
  assumes "dll m h (xs @ item # ys)"
    and p: "p = last (h # xs)" and q: "q = hd (ys @ [h])"
    and new: "links m' p q"
    and next_same: "\<And>a. a \<in> set (h # xs @ ys) \<Longrightarrow> a \<noteq> p \<Longrightarrow> node_next m' a = node_next m a"
    and prev_same: "\<And>a. a \<in> set (h # xs @ ys) \<Longrightarrow> a \<noteq> q \<Longrightarrow> node_prev m' a = node_prev m a"
  shows "dll m' h (xs @ ys)"
proof -
  have d: "distinct (h # xs @ ys)" and sep: "separated (set (h # xs @ ys))"
    using assms(1) by (auto simp: dll_def elim: separated_subset)
  have s: "successively (links m) (h # xs)" "successively (links m) (ys @ [h])"
    using assms(1) dll_split [of m h xs "item # ys"] by (auto simp: dll_def successively_Cons)
  have left: "successively (links m') (h # xs)"
  proof (rule successively_cong_ends [OF s(1)])
    fix a b assume ab: "a \<in> set (butlast (h # xs))" "b \<in> set (tl (h # xs))" "links m a b"
    have "a \<noteq> p"
      using ab(1) d p by (metis append_butlast_last_id distinct_append disjoint_iff distinct.simps(2)
          list.discI list.set_intros(1) not_distinct_conv_prefix append_Cons)
    moreover have "b \<noteq> q" using ab(2) d q by (cases ys) auto
    moreover have "a \<in> set (h # xs @ ys)" using ab(1) by (auto dest: in_set_butlastD split: if_splits)
    ultimately show "links m' a b"
      using ab next_same [of a] prev_same [of b] by (simp add: links_def)
  qed
  have right: "successively (links m') (ys @ [h])"
  proof (rule successively_cong_ends [OF s(2)])
    fix a b assume ab: "a \<in> set (butlast (ys @ [h]))" "b \<in> set (tl (ys @ [h]))" "links m a b"
    have "a \<noteq> p" using ab(1) d p by (cases xs rule: rev_cases) (auto simp: butlast_append)
    moreover have "b \<noteq> q" using ab(2) d q by (cases ys) auto
    ultimately show "links m' a b"
      using ab next_same [of a] prev_same [of b] by (cases ys) (auto simp: links_def)
  qed
  have "successively (links m') ((h # xs) @ (ys @ [h]))"
    by (subst successively_append_iff) (use left right new p q in auto)
  then show ?thesis using assms(1) d sep by (auto simp: dll_def)
qed

lemma dll_neighbours:
  assumes "dll m h (xs @ ys)"
  shows "node_next m (last (h # xs)) = hd (ys @ [h])" and "node_prev m (hd (ys @ [h])) = last (h # xs)"
  using assms dll_split [of m h xs ys] unfolding dll_def links_def by blast+

lemma dll_fields:
  assumes "dll m h (xs @ item # ys)"
  shows "node_prev m item = last (h # xs)" and "node_next m item = hd (ys @ [h])"
  using dll_neighbours [of m h xs "item # ys"] dll_neighbours [of m h "xs @ [item]" ys] assms by auto

lemma dll_head:
  assumes "dll m h xs"
  shows "node_next m h = hd (xs @ [h])" and "node_prev m h = last (h # xs)"
  using dll_neighbours [of m h "[]" xs] dll_neighbours [of m h xs "[]"] assms by auto

section \<open>What each operation leaves\<close>

text \<open>A node that may be linked into the ring: not null, not in it, sharing no byte with it.\<close>

definition fresh_node :: "addr \<Rightarrow> addr list \<Rightarrow> addr \<Rightarrow> bool" where
  "fresh_node h xs item \<longleftrightarrow> item \<noteq> 0 \<and> (\<forall>p \<in> set (h # xs). apart item 8 p 8)"

lemma fresh_nodeD:
  assumes "fresh_node h xs item" and "dll m h xs"
  shows "item \<noteq> 0" "item \<notin> set (h # xs)" "separated (insert item (set (h # xs)))"
proof -
  show "item \<noteq> 0" using assms(1) by (simp add: fresh_node_def)
  show "item \<notin> set (h # xs)" using assms(1) by (auto simp: fresh_node_def apart_def)
  show "separated (insert item (set (h # xs)))"
    using assms dllD(3) by (auto simp: fresh_node_def separated_insert sep8_def)
qed

lemma list_initialize_dll: "h \<noteq> 0 \<Longrightarrow> dll (list_initialize m h) h []"
  by (simp add: dll_def links_def list_initialize_def Let_def mem_simps separated_def)

text \<open>\<open>list_add_head\<close> on any node of the ring links the item after that node.\<close>

lemma list_add_head_after:
  assumes "dll m h (xs @ ys)" and "fresh_node h (xs @ ys) item" and p: "p = last (h # xs)"
  shows "dll (list_add_head m p item) h (xs @ item # ys)"
proof -
  define q where "q = hd (ys @ [h])"
  let ?N = "insert item (set (h # xs @ ys))"
  note f = fresh_nodeD [OF assms(2,1)]
  have sep: "\<And>a b. a \<in> ?N \<Longrightarrow> b \<in> ?N \<Longrightarrow> sep8 a b" using f(3) by (rule separatedD)
  have pN: "p \<in> set (h # xs @ ys)" and qN: "q \<in> set (h # xs @ ys)"
    by (auto simp: p q_def hd_append last_in_set)
  have ne: "\<And>a. a \<in> set (h # xs @ ys) \<Longrightarrow> item \<noteq> a" using f(2) by metis
  have nx: "node_next m p = q" "node_prev m q = p"
    unfolding p q_def using assms(1) by (rule dll_neighbours)+
  show ?thesis
    by (rule dll_insert [OF assms(1) p q_def f])
      (use pN qN nx ne in \<open>auto simp: list_add_head_def Let_def links_def field_upd_sep sep simp del: set_simps\<close>)
qed

text \<open>\<open>list_add_tail\<close> on any node of the ring links the item before that node.\<close>

lemma list_add_tail_before:
  assumes "dll m h (xs @ ys)" and "fresh_node h (xs @ ys) item" and q: "q = hd (ys @ [h])"
  shows "dll (list_add_tail m q item) h (xs @ item # ys)"
proof -
  define p where "p = last (h # xs)"
  let ?N = "insert item (set (h # xs @ ys))"
  note f = fresh_nodeD [OF assms(2,1)]
  have sep: "\<And>a b. a \<in> ?N \<Longrightarrow> b \<in> ?N \<Longrightarrow> sep8 a b" using f(3) by (rule separatedD)
  have pN: "p \<in> set (h # xs @ ys)" and qN: "q \<in> set (h # xs @ ys)"
    by (auto simp: q p_def hd_append last_in_set)
  have ne: "\<And>a. a \<in> set (h # xs @ ys) \<Longrightarrow> item \<noteq> a" using f(2) by metis
  have nx: "node_next m p = q" "node_prev m q = p"
    unfolding q p_def using assms(1) by (rule dll_neighbours)+
  show ?thesis
    by (rule dll_insert [OF assms(1) p_def q f])
      (use pN qN nx ne in \<open>auto simp: list_add_tail_def Let_def links_def field_upd_sep sep simp del: set_simps\<close>)
qed

lemma list_delete_dll:
  assumes "dll m h (xs @ item # ys)"
  shows "dll (list_delete m item) h (xs @ ys)"
    and "\<not> list_in_list (list_delete m item) item"
proof -
  define p q where "p = last (h # xs)" and "q = hd (ys @ [h])"
  let ?N = "insert item (set (h # xs @ ys))"
  have sep: "\<And>a b. a \<in> ?N \<Longrightarrow> b \<in> ?N \<Longrightarrow> sep8 a b"
    using dllD(3) [OF assms] by (rule separatedD) auto
  have pN: "p \<in> set (h # xs @ ys)" and qN: "q \<in> set (h # xs @ ys)"
    by (auto simp: q_def p_def hd_append last_in_set)
  have ne: "\<And>a. a \<in> set (h # xs @ ys) \<Longrightarrow> item \<noteq> a" using dllD(1) [OF assms] by auto
  have nx: "node_prev m item = p" "node_next m item = q"
    unfolding q_def p_def using assms by (rule dll_fields)+
  show "dll (list_delete m item) h (xs @ ys)"
    by (rule dll_remove [OF assms p_def q_def])
      (use pN qN nx ne in \<open>auto simp: list_delete_def Let_def links_def field_upd_sep sep simp del: set_simps\<close>)
  show "\<not> list_in_list (list_delete m item) item"
    by (simp add: list_delete_def Let_def list_in_list_def mem_simps)
qed

text \<open>The macros' uses at the two ends of the list.\<close>

lemma list_add_head_dll:
  "dll m h xs \<Longrightarrow> fresh_node h xs item \<Longrightarrow> dll (list_add_head m h item) h (item # xs)"
  using list_add_head_after [of m h "[]" xs item h] by simp

lemma list_add_tail_dll:
  "dll m h xs \<Longrightarrow> fresh_node h xs item \<Longrightarrow> dll (list_add_tail m h item) h (xs @ [item])"
  using list_add_tail_before [of m h xs "[]" item h] by simp

lemma list_remove_head_dll:
  assumes "dll m h xs"
  shows "list_remove_head m h =
      (case xs of [] \<Rightarrow> (NULL, m) | x # _ \<Rightarrow> (x, list_delete m x))"
    and "dll (snd (list_remove_head m h)) h (tl xs)"
    and "fst (list_remove_head m h) = (if xs = [] then NULL else hd xs)"
proof -
  show e: "list_remove_head m h = (case xs of [] \<Rightarrow> (NULL, m) | x # _ \<Rightarrow> (x, list_delete m x))"
    using dll_head(1) [OF assms] dllD(5) [OF assms]
    by (cases xs) (auto simp: list_remove_head_def Let_def)
  show "dll (snd (list_remove_head m h)) h (tl xs)"
    using assms list_delete_dll(1) [of m h "[]"] by (cases xs) (auto simp: e)
  show "fst (list_remove_head m h) = (if xs = [] then NULL else hd xs)"
    by (cases xs) (auto simp: e)
qed

lemma list_remove_tail_dll:
  assumes "dll m h xs"
  shows "fst (list_remove_tail m h) = (if xs = [] then NULL else last xs)"
    and "dll (snd (list_remove_tail m h)) h (butlast xs)"
proof -
  have "xs = [] \<or> (last xs \<in> set xs \<and> xs = butlast xs @ [last xs])" by (cases xs) auto
  then show "fst (list_remove_tail m h) = (if xs = [] then NULL else last xs)"
    and "dll (snd (list_remove_tail m h)) h (butlast xs)"
    using dll_head(2) [OF assms] dllD(5) [OF assms] assms
      list_delete_dll(1) [of m h "butlast xs" "last xs" "[]"]
    by (auto simp: list_remove_tail_def Let_def)
qed

lemma list_peek_dll:
  assumes "dll m h xs"
  shows "list_peek_head m h = (if xs = [] then NULL else hd xs)"
    and "list_peek_tail m h = (if xs = [] then NULL else last xs)"
    and "list_is_empty m h \<longleftrightarrow> xs = []"
proof -
  have "xs = [] \<or> (hd xs \<in> set xs \<and> last xs \<in> set xs)" by (cases xs) auto
  then show "list_peek_head m h = (if xs = [] then NULL else hd xs)"
    "list_peek_tail m h = (if xs = [] then NULL else last xs)" "list_is_empty m h \<longleftrightarrow> xs = []"
    using dll_head [OF assms] dllD(5) [OF assms]
    by (auto simp: list_peek_head_def list_peek_tail_def list_is_empty_def hd_append split: if_splits)
qed

lemma list_prev_dll:
  assumes "dll m h (xs @ item # ys)"
  shows "list_prev m h item = (if xs = [] then NULL else last xs)"
proof -
  have "xs = [] \<or> last xs \<in> set xs" by (cases xs) auto
  then show ?thesis
    using dll_fields(1) [OF assms] dllD(5) [OF assms] by (auto simp: list_prev_def)
qed

lemma list_next_dll:
  assumes "dll m h (xs @ item # ys)"
  shows "list_next m h item = (if ys = [] then NULL else hd ys)"
proof -
  have "ys = [] \<or> hd ys \<in> set ys" by (cases ys) auto
  then show ?thesis
    using dll_fields(2) [OF assms] dllD(5) [OF assms] by (auto simp: list_next_def)
qed

text \<open>The wrapping variants skip the head once: from either end they go to the other end.\<close>

lemma list_wrap_dll:
  assumes "dll m h (xs @ item # ys)"
  shows "list_next_wrap m h item = hd (ys @ xs @ [item])"
    and "list_prev_wrap m h item = last (item # ys @ xs)"
proof -
  let ?zs = "xs @ item # ys"
  have "ys = [] \<or> hd ys \<in> set ys" "xs = [] \<or> last xs \<in> set xs" by (cases ys; simp) (cases xs; simp)
  moreover have "hd (?zs @ [h]) \<noteq> h" "last (h # ?zs) \<noteq> h"
    using dllD(5) [OF assms] by (auto simp: hd_append dest: last_in_set split: if_splits)
  ultimately show "list_next_wrap m h item = hd (ys @ xs @ [item])"
      "list_prev_wrap m h item = last (item # ys @ xs)"
    using dll_fields [OF assms] dll_head [OF assms] dllD(5) [OF assms]
    by (auto simp: list_next_wrap_def list_prev_wrap_def hd_append)
qed

section \<open>Traversal\<close>

lemma nodes_from_suffix:
  "dll m h (xs @ ys) \<Longrightarrow> nodes_from m h (hd (ys @ [h])) = Some ys"
proof (induction ys arbitrary: xs)
  case Nil
  then show ?case by (simp add: nodes_from.simps)
next
  case (Cons y ys)
  then have "nodes_from m h (hd (ys @ [h])) = Some ys" by (intro Cons.IH [of "xs @ [y]"]) simp
  moreover have "node_next m y = hd (ys @ [h])" "y \<noteq> h"
    using dll_fields(2) [OF Cons.prems] dllD(5) [OF Cons.prems] by auto
  ultimately show ?case by (simp add: nodes_from.simps [of m h y])
qed

text \<open>The traversal ends after visiting exactly the nodes of the list, in order.\<close>

lemma list_for_every_dll: "dll m h xs \<Longrightarrow> list_for_every m h = Some xs"
  using nodes_from_suffix [of m h "[]" xs] dll_head(1) [of m h xs] by (simp add: list_for_every_def)

lemma list_length_loop_eq:
  "nodes_from m h p = Some ns \<Longrightarrow> list_length_loop m h p c = Some (c + of_nat (length ns))"
proof (induction ns arbitrary: p c)
  case Nil
  then show ?case
    by (subst list_length_loop.simps, subst (asm) nodes_from.simps) (auto split: if_splits bind_splits)
next
  case (Cons n ns)
  from Cons.prems have "p \<noteq> h \<and> p = n \<and> nodes_from m h (node_next m p) = Some ns"
    unfolding nodes_from.simps [of m h p] by (auto split: if_splits bind_splits)
  then show ?case using Cons.IH [of "node_next m p" "c + 1"]
    by (auto simp: list_length_loop.simps [of m h n] add.assoc)
qed

lemma list_length_dll: "dll m h xs \<Longrightarrow> list_length m h = Some (of_nat (length xs))"
  using list_for_every_dll [of m h xs] list_length_loop_eq [of m h "node_next m h" xs 0]
  by (simp add: list_length_def list_for_every_def)

section \<open>What each operation touches\<close>

definition nodes_region :: "addr set \<Rightarrow> addr set" where
  "nodes_region N = (\<Union>p\<in>N. region p 8)"

lemma frame_fields:
  "frame (nodes_region N) m m' \<Longrightarrow> p \<in> N \<Longrightarrow> frame (nodes_region N) m (set_next m' p v)"
  "frame (nodes_region N) m m' \<Longrightarrow> p \<in> N \<Longrightarrow> frame (nodes_region N) m (set_prev m' p v)"
proof -
  assume "p \<in> N"
  then have "region p 8 \<subseteq> nodes_region N" by (auto simp: nodes_region_def)
  moreover have "region p 4 \<subseteq> region p 8" "region (p + 4) 4 \<subseteq> region p 8"
    by (simp_all add: region_mono region_field)
  ultimately have *: "region p 4 \<subseteq> nodes_region N" "region (p + 4) 4 \<subseteq> nodes_region N" by auto
  assume "frame (nodes_region N) m m'"
  then show "frame (nodes_region N) m (set_next m' p v)" "frame (nodes_region N) m (set_prev m' p v)"
    by (auto simp: set_next_def set_prev_def intro!: frame_st32 *)
qed

lemma list_add_head_frame:
  assumes "dll m h (xs @ ys)" and "fresh_node h (xs @ ys) item" and p: "p = last (h # xs)"
  shows "frame (nodes_region {p, hd (ys @ [h]), item}) m (list_add_head m p item)"
proof -
  have "p \<in> set (h # xs @ ys)" by (auto simp: p)
  then have sep: "sep8 item p" and ne: "item \<noteq> p"
    using separatedD [OF fresh_nodeD(3) [OF assms(2,1)], of item p] fresh_nodeD(2) [OF assms(2,1)]
    by auto
  then have "node_next (set_prev (set_next m item x) item p) p = hd (ys @ [h])" for x
    using dll_neighbours(1) [OF assms(1)] by (simp add: field_upd_sep p)
  then show ?thesis by (simp add: list_add_head_def Let_def frame_fields)
qed

lemma list_add_tail_frame:
  assumes "dll m h (xs @ ys)" and "fresh_node h (xs @ ys) item" and q: "q = hd (ys @ [h])"
  shows "frame (nodes_region {last (h # xs), q, item}) m (list_add_tail m q item)"
proof -
  have "q \<in> set (h # xs @ ys)" by (auto simp: q hd_append)
  then have sep: "sep8 item q" and ne: "item \<noteq> q"
    using separatedD [OF fresh_nodeD(3) [OF assms(2,1)], of item q] fresh_nodeD(2) [OF assms(2,1)]
    by auto
  then have "node_prev (set_next (set_prev m item x) item q) q = last (h # xs)" for x
    using dll_neighbours(2) [OF assms(1)] by (simp add: field_upd_sep q)
  then show ?thesis by (simp add: list_add_tail_def Let_def frame_fields)
qed

lemma list_delete_frame:
  assumes "dll m h (xs @ item # ys)"
  shows "frame (nodes_region {last (h # xs), item, hd (ys @ [h])}) m (list_delete m item)"
proof -
  let ?q = "hd (ys @ [h])"
  have "?q \<in> set (h # xs @ item # ys)" by (auto simp: hd_append)
  then have sep: "sep8 ?q item" using separatedD [OF dllD(3) [OF assms], of ?q item] by auto
  have "?q \<noteq> item" using dllD(1) [OF assms] by (auto simp: hd_append)
  then have "node_prev (set_prev m ?q x) item = last (h # xs)" for x
    using dll_fields [OF assms] sep by (simp add: field_upd_sep)
  then show ?thesis using dll_fields [OF assms]
    by (simp add: list_delete_def Let_def frame_fields)
qed

section \<open>Properties\<close>

text \<open>
  Linking a node that is not null and overlaps no node of the ring: \<open>list_add_head\<close> on any
  node of the ring (\<^verbatim>\<open>list_add_after\<close>, or the head itself) puts the item right after it, and
  \<open>list_add_tail\<close> on any node (\<^verbatim>\<open>list_add_before\<close>, or the head) right before it; only the two
  neighbours and the item are written.
\<close>

theorem list_insert_anywhere:
  assumes "dll m h (xs @ ys)" "fresh_node h (xs @ ys) item"
  shows "dll (list_add_head m (last (h # xs)) item) h (xs @ item # ys)
    \<and> dll (list_add_tail m (hd (ys @ [h])) item) h (xs @ item # ys)
    \<and> (\<forall>a. (\<forall>p\<in>{last (h # xs), hd (ys @ [h]), item}. a \<notin> region p 8) \<longrightarrow>
        list_add_head m (last (h # xs)) item a = m a \<and> list_add_tail m (hd (ys @ [h])) item a = m a)"
  using list_add_head_after [OF assms refl] list_add_tail_before [OF assms refl]
    list_add_head_frame [OF assms refl] list_add_tail_frame [OF assms refl]
  by (simp add: frame_def nodes_region_def)

theorem list_insert_anywhere_witness:
  "dll (list_add_tail (list_initialize (\<lambda>_. 0) 0x100) 0x100 0x200) 0x100 [0x200]"
proof -
  have "dll (list_initialize (\<lambda>_. 0) 0x100) 0x100 ([] @ [])" by (simp add: list_initialize_dll)
  moreover have "fresh_node 0x100 ([] @ []) 0x200" by (simp add: fresh_node_def apart_def)
  ultimately show ?thesis using list_insert_anywhere by fastforce
qed

text \<open>
  \<open>list_delete\<close> unlinks a node wherever it is in the ring: the others keep their order, the
  node is no longer in a list, and only it and its two neighbours are written. A traversal
  from the head then visits exactly the others, once each and in order, and \<open>list_length\<close>
  counts them.
\<close>

theorem list_delete_anywhere:
  assumes "dll m h (xs @ item # ys)"
  shows "dll (list_delete m item) h (xs @ ys) \<and> \<not> list_in_list (list_delete m item) item
    \<and> list_for_every (list_delete m item) h = Some (xs @ ys)
    \<and> list_length (list_delete m item) h = Some (of_nat (length (xs @ ys)))
    \<and> (\<forall>a. (\<forall>p\<in>{last (h # xs), item, hd (ys @ [h])}. a \<notin> region p 8) \<longrightarrow> list_delete m item a = m a)"
  using list_delete_dll [OF assms] list_for_every_dll [OF list_delete_dll(1) [OF assms]]
    list_length_dll [OF list_delete_dll(1) [OF assms]] list_delete_frame [OF assms]
  by (simp add: frame_def nodes_region_def)

theorem list_delete_anywhere_witness:
  "list_for_every (list_delete (list_add_tail (list_initialize (\<lambda>_. 0) 0x100) 0x100 0x200) 0x200) 0x100 = Some []"
proof -
  have "dll (list_initialize (\<lambda>_. 0) 0x100) 0x100 []" by (simp add: list_initialize_dll)
  then have "dll (list_add_tail (list_initialize (\<lambda>_. 0) 0x100) 0x100 0x200) 0x100 ([] @ 0x200 # [])"
    using list_add_tail_dll [of _ "0x100" "[]" "0x200"] by (simp add: fresh_node_def apart_def)
  then show ?thesis using list_delete_anywhere by fastforce
qed

end
