(* ===== verification/SafeTraversal.thy ===== *)
theory SafeTraversal
  imports LinkedList
begin

text \<open>
  The traversal macros of \<^verbatim>\<open>include/list.h\<close> whose body may delete the current node. A loop is the list
  of the nodes it visits with the memory it leaves; a ring that never comes back to \<open>l\<close> is \<open>None\<close>. The
  body is a function on the memory.
\<close>

partial_function (option) safe_loop :: "(mem \<Rightarrow> addr \<Rightarrow> mem) \<Rightarrow> addr \<Rightarrow> mem \<Rightarrow> addr \<Rightarrow> addr \<Rightarrow> (addr list \<times> mem) option" where
  "safe_loop body l m node temp_node =
    (if node \<noteq> l then
       (let m = body m node
        in Option.bind (safe_loop body l m temp_node (node_next m temp_node)) (\<lambda>(ns, m). Some (node # ns, m)))
     else Some ([], m))"

definition list_for_every_safe :: "(mem \<Rightarrow> addr \<Rightarrow> mem) \<Rightarrow> mem \<Rightarrow> addr \<Rightarrow> (addr list \<times> mem) option" where
  "list_for_every_safe body m l = (let node = node_next m l in safe_loop body l m node (node_next m node))"

partial_function (option) entry_safe_loop ::
    "(mem \<Rightarrow> addr \<Rightarrow> mem) \<Rightarrow> addr \<Rightarrow> u32 \<Rightarrow> mem \<Rightarrow> addr \<Rightarrow> addr \<Rightarrow> (addr list \<times> mem) option" where
  "entry_safe_loop body l member m entry temp_entry =
    (if entry + member \<noteq> l then
       (let m = body m entry
        in Option.bind (entry_safe_loop body l member m temp_entry (containerof (node_next m (temp_entry + member)) member))
             (\<lambda>(es, m). Some (entry # es, m)))
     else Some ([], m))"

definition list_for_every_entry_safe :: "(mem \<Rightarrow> addr \<Rightarrow> mem) \<Rightarrow> mem \<Rightarrow> addr \<Rightarrow> u32 \<Rightarrow> (addr list \<times> mem) option" where
  "list_for_every_entry_safe body m l member =
    (let entry = containerof (node_next m l) member
     in entry_safe_loop body l member m entry (containerof (node_next m (entry + member)) member))"

section \<open>A body that may delete the current node\<close>

text \<open>The body's contract: at a node of the list it keeps the node or unlinks it, and leaves the rest
  of the ring as it is.\<close>

definition unlinks :: "addr \<Rightarrow> (addr \<Rightarrow> bool) \<Rightarrow> (mem \<Rightarrow> addr \<Rightarrow> mem) \<Rightarrow> bool" where
  "unlinks h P body \<longleftrightarrow>
    (\<forall>m xs n ys. dll m h (xs @ n # ys) \<longrightarrow> dll (body m n) h (xs @ (if P n then ys else n # ys)))"

lemma list_delete_unlinks: "unlinks h P (\<lambda>m n. if P n then list_delete m n else m)"
  unfolding unlinks_def using list_delete_dll(1) by auto

lemma safe_loop_filters:
  assumes "unlinks h P body"
  shows "dll m h (xs @ ys) \<Longrightarrow> t = node_next m (hd (ys @ [h])) \<Longrightarrow>
    \<exists>m'. safe_loop body h m (hd (ys @ [h])) t = Some (ys, m') \<and> dll m' h (xs @ filter (\<lambda>n. \<not> P n) ys)"
proof (induction ys arbitrary: xs m t)
  case Nil
  then show ?case by (simp add: safe_loop.simps)
next
  case (Cons y ys)
  let ?m = "body m y" and ?zs = "if P y then xs else xs @ [y]"
  have t: "t = hd (ys @ [h])" "y \<noteq> h" using dll_fields(2) [OF Cons.prems(1)] dllD(5) [OF Cons.prems(1)] Cons.prems(2) by auto
  have "dll ?m h (?zs @ ys)" using assms Cons.prems(1) by (cases "P y") (fastforce simp: unlinks_def)+
  from Cons.IH [OF this refl] obtain m' where
    "safe_loop body h ?m (hd (ys @ [h])) (node_next ?m (hd (ys @ [h]))) = Some (ys, m')"
    "dll m' h (?zs @ filter (\<lambda>n. \<not> P n) ys)" by blast
  then show ?case using t by (subst safe_loop.simps) (auto simp: Let_def)
qed

text \<open>The traversal visits every node once and in order, whatever it deletes, and leaves the nodes that
  the body keeps.\<close>

lemma safe_traversal:
  assumes "unlinks h P body" "dll m h xs"
  shows "\<exists>m'. list_for_every_safe body m h = Some (xs, m') \<and> dll m' h (filter (\<lambda>n. \<not> P n) xs)"
  using safe_loop_filters [OF assms(1), of m "[]" xs] assms(2) dll_head(1) [OF assms(2)]
  by (simp add: list_for_every_safe_def Let_def)

text \<open>The loop over the entries is the loop over their nodes.\<close>

lemma entry_safe_loop_nodes:
  assumes "unlinks h P body"
  shows "dll m h (xs @ ys) \<Longrightarrow> t = node_next m (hd (ys @ [h])) \<Longrightarrow>
    entry_safe_loop (\<lambda>m e. body m (e + off)) h off m (containerof (hd (ys @ [h])) off) (containerof t off)
      = map_option (\<lambda>(ns, m). (map (\<lambda>n. containerof n off) ns, m)) (safe_loop body h m (hd (ys @ [h])) t)"
proof (induction ys arbitrary: xs m t)
  case Nil
  then show ?case by (simp add: safe_loop.simps entry_safe_loop.simps containerof_def)
next
  case (Cons y ys)
  let ?m = "body m y" and ?zs = "if P y then xs else xs @ [y]" and ?n = "hd (ys @ [h])"
  have t: "t = ?n" "y \<noteq> h" using dll_fields(2) [OF Cons.prems(1)] dllD(5) [OF Cons.prems(1)] Cons.prems(2) by auto
  have "dll ?m h (?zs @ ys)" using assms Cons.prems(1) by (cases "P y") (fastforce simp: unlinks_def)+
  note IH = Cons.IH [OF this refl]
  have e: "entry_safe_loop (\<lambda>m e. body m (e + off)) h off m (containerof y off) (containerof ?n off)
    = Option.bind (entry_safe_loop (\<lambda>m e. body m (e + off)) h off ?m (containerof ?n off) (containerof (node_next ?m ?n) off))
        (\<lambda>(es, m). Some (containerof y off # es, m))"
    by (subst entry_safe_loop.simps) (simp add: containerof_def t(2) Let_def)
  have s: "safe_loop body h m y ?n = Option.bind (safe_loop body h ?m ?n (node_next ?m ?n)) (\<lambda>(ns, m). Some (y # ns, m))"
    by (subst safe_loop.simps) (simp add: t(2) Let_def)
  show ?case unfolding t(1) append_Cons list.sel(1) e s IH
    by (cases "safe_loop body h ?m ?n (node_next ?m ?n)") auto
qed

lemma safe_entry_traversal:
  assumes "unlinks h P body" "dll m h xs"
  shows "\<exists>m'. list_for_every_entry_safe (\<lambda>m e. body m (e + off)) m h off = Some (map (\<lambda>n. containerof n off) xs, m')
    \<and> dll m' h (filter (\<lambda>n. \<not> P n) xs)"
  using safe_loop_filters [OF assms(1), of m "[]" xs, OF _ refl] entry_safe_loop_nodes [OF assms(1), of m "[]" xs, OF _ refl]
    assms(2) dll_head(1) [OF assms(2)]
  by (auto simp: list_for_every_entry_safe_def containerof_def Let_def)

text \<open>
  Emptying a list while walking it. The loop of \<^verbatim>\<open>list_for_every_entry_safe\<close> whose body deletes the entries
  that satisfy \<open>P\<close> ends, visits every entry once and in order, and leaves exactly the others, in
  their order, in a well-formed list.
\<close>

theorem delete_while_walking:
  assumes "dll m h xs"
  shows "\<exists>m'. list_for_every_entry_safe (\<lambda>m e. if P (e + off) then list_delete m (e + off) else m) m h off
      = Some (map (\<lambda>n. containerof n off) xs, m') \<and> dll m' h (filter (\<lambda>n. \<not> P n) xs)"
  using safe_entry_traversal [OF list_delete_unlinks assms, of P off] .

end
