(* ===== verification/CString.thy ===== *)
theory CString
  imports Prelude
begin

text \<open>
  The freestanding C library's string functions (\<^verbatim>\<open>string.c\<close>), on the byte memory.
  \<^verbatim>\<open>memcpy\<close> and \<^verbatim>\<open>memset\<close> are the \<^verbatim>\<open>rep movsb\<close> and \<^verbatim>\<open>rep stosb\<close> instructions with the
  direction flag clear: one byte at a time, upwards. Shown here: what a copy leaves in
  memory even when the two ranges overlap, the frame of both, and that \<^verbatim>\<open>strlen\<close>
  returns the length of every C string.
\<close>

section \<open>Definitions\<close>

fun rep_movsb :: "mem \<Rightarrow> addr \<Rightarrow> addr \<Rightarrow> nat \<Rightarrow> mem" where
  "rep_movsb m dest src 0 = m"
| "rep_movsb m dest src (Suc n) = rep_movsb (m(dest := m src)) (dest + 1) (src + 1) n"

definition memcpy :: "mem \<Rightarrow> addr \<Rightarrow> addr \<Rightarrow> u32 \<Rightarrow> addr \<times> mem" where
  "memcpy m dest src count = (dest, rep_movsb m dest src (unat count))"

fun rep_stosb :: "mem \<Rightarrow> addr \<Rightarrow> u8 \<Rightarrow> nat \<Rightarrow> mem" where
  "rep_stosb m dest al 0 = m"
| "rep_stosb m dest al (Suc n) = rep_stosb (m(dest := al)) (dest + 1) al n"

definition memset :: "mem \<Rightarrow> addr \<Rightarrow> u32 \<Rightarrow> u32 \<Rightarrow> addr \<times> mem" where
  "memset m dest c count = (dest, rep_stosb m dest (ucast c) (unat count))"

text \<open>The loop of \<open>strlen\<close> runs until it meets a zero byte; \<open>None\<close> is a loop that never ends.\<close>

partial_function (option) strlen_loop :: "mem \<Rightarrow> addr \<Rightarrow> u32 \<Rightarrow> u32 option" where
  "strlen_loop m s i = (if m (s + i) \<noteq> 0 then strlen_loop m s (i + 1) else Some i)"

definition strlen :: "mem \<Rightarrow> addr \<Rightarrow> u32 option" where
  "strlen m s = strlen_loop m s 0"

text \<open>A C string: the bytes \<open>bs\<close>, none of them zero, at \<open>p\<close>, and a zero byte after them.\<close>

definition cstring :: "mem \<Rightarrow> addr \<Rightarrow> u8 list \<Rightarrow> bool" where
  "cstring m p bs \<longleftrightarrow> 0 \<notin> set bs \<and> length bs < 2 ^ 32
     \<and> (\<forall>i < length bs. m (p + of_nat i) = bs ! i) \<and> m (p + of_nat (length bs)) = 0"

section \<open>Copying and filling\<close>

lemma region_Suc:
  assumes "Suc n \<le> 2 ^ 32"
  shows "x \<in> region d (Suc n) \<longleftrightarrow> x = d \<or> x \<in> region (d + 1) n"
proof (cases "x = d")
  case True
  then show ?thesis by (simp add: region_def)
next
  case False
  have "x - (d + 1) = x - d - 1" by simp
  moreover have "x - d \<noteq> 0" using False by simp
  ultimately have "Suc (unat (x - (d + 1))) = unat (x - d)"
    by (metis Suc_pred' unat_gt_0 unat_minus_one)
  then show ?thesis using False by (auto simp: region_def)
qed

lemma region_0 [simp]: "region a 0 = {}"
  by (simp add: region_def)

lemma rep_movsb_eq:
  assumes "n \<le> 2 ^ 32" and "dest = src \<or> n \<le> unat (dest - src)"
  shows "rep_movsb m dest src n x = (if x \<in> region dest n then m (src + (x - dest)) else m x)"
  using assms
proof (induction n arbitrary: m dest src)
  case 0
  then show ?case by simp
next
  case (Suc n)
  let ?m = "m(dest := m src)"
  have "rep_movsb ?m (dest + 1) (src + 1) n x =
      (if x \<in> region (dest + 1) n then ?m (src + 1 + (x - (dest + 1))) else ?m x)"
    using Suc.prems by (intro Suc.IH) auto
  moreover have "src + 1 + (x - (dest + 1)) = src + (x - dest)" by simp
  moreover have "?m (src + (x - dest)) = m (src + (x - dest))" if x: "x \<in> region (dest + 1) n"
  proof (cases "src + (x - dest) = dest")
    case True
    then have e: "x - dest = dest - src" by (simp add: algebra_simps)
    have "x \<in> region dest (Suc n)" using x Suc.prems(1) by (simp add: region_Suc)
    with e Suc.prems(2) have "dest = src" by (simp add: region_def)
    then show ?thesis using True by simp
  qed simp
  ultimately show ?case
    using Suc.prems(1) by (auto simp: region_Suc)
qed

text \<open>Without any condition: nothing outside the destination changes, and a byte whose source
  has not been overwritten yet arrives unchanged.\<close>

lemma rep_movsb_frame:
  "n \<le> 2 ^ 32 \<Longrightarrow> x \<notin> region dest n \<Longrightarrow> rep_movsb m dest src n x = m x"
  by (induction n arbitrary: m dest src) (auto simp: region_Suc)

lemma rep_movsb_at:
  assumes "n \<le> 2 ^ 32" "i < n" "src + of_nat i \<notin> region dest i"
  shows "rep_movsb m dest src n (dest + of_nat i) = m (src + of_nat i)"
  using assms
proof (induction n arbitrary: m dest src i)
  case 0
  then show ?case by simp
next
  case (Suc n)
  let ?m = "m(dest := m src)"
  show ?case
  proof (cases i)
    case 0
    have "dest \<notin> region (dest + 1) n"
      using Suc.prems(1) by (simp add: region_def unsigned_minus_1_eq_mask mask_eq_exp_minus_1)
    then show ?thesis using 0 Suc.prems(1) by (simp add: rep_movsb_frame)
  next
    case (Suc j)
    have nin: "src + of_nat i \<noteq> dest" "src + 1 + of_nat j \<notin> region (dest + 1) j"
      using Suc Suc.prems region_Suc [of j "src + of_nat i" dest] by (auto simp: add.assoc)
    have "rep_movsb ?m (dest + 1) (src + 1) n (dest + 1 + of_nat j) = ?m (src + 1 + of_nat j)"
      using Suc Suc.prems nin(2) by (intro Suc.IH) auto
    then show ?thesis using Suc nin(1) by (simp add: add.assoc)
  qed
qed

lemma rep_stosb_eq:
  assumes "n \<le> 2 ^ 32"
  shows "rep_stosb m dest al n x = (if x \<in> region dest n then al else m x)"
  using assms by (induction n arbitrary: m dest) (auto simp: region_Suc)

text \<open>
  \<open>memcpy\<close> copies upwards: whenever the destination does not lie strictly inside the
  source range (above its start), each destination byte ends up with the source byte it
  had before the call, even when the ranges overlap from below, and no other byte changes.
\<close>

theorem memcpy_copies:
  assumes "dest = src \<or> unat count \<le> unat (dest - src)"
  shows "memcpy m dest src count =
    (dest, \<lambda>x. if x \<in> region dest (unat count) then m (src + (x - dest)) else m x)"
  using assms unat_lt32 [of count] by (auto simp: memcpy_def rep_movsb_eq)

theorem memcpy_copies_witness:
  "memcpy (\<lambda>a. ucast a) 0xB8000 0xB80A0 3840 =
    (0xB8000, \<lambda>x. if x \<in> region 0xB8000 (unat (3840 :: u32)) then ucast (0xB80A0 + (x - 0xB8000)) else ucast x)"
  by (rule memcpy_copies) (simp add: word_le_nat_alt)

section \<open>String length\<close>

lemma strlen_loop_cstring:
  assumes "cstring m p bs" and "i \<le> length bs"
  shows "strlen_loop m p (of_nat i) = Some (of_nat (length bs))"
  using assms(2)
proof (induction "length bs - i" arbitrary: i)
  case 0
  then show ?case using assms(1) by (simp add: strlen_loop.simps cstring_def)
next
  case (Suc k)
  then have "m (p + of_nat i) \<noteq> 0"
    using assms(1) by (metis cstring_def diff_is_0_eq' le_neq_implies_less nat.distinct(1) nth_mem order_refl)
  moreover have "strlen_loop m p (of_nat (Suc i)) = Some (of_nat (length bs))"
    using Suc by (intro Suc.hyps) auto
  ultimately show ?case by (simp add: strlen_loop.simps [of m p "of_nat i"] add.commute)
qed

text \<open>
  \<^verbatim>\<open>strlen\<close> of a C string returns, with the number of bytes in front of the first zero
  byte, wherever in memory the string is (its bytes may wrap around the address space).
\<close>

theorem strlen_correct:
  assumes "cstring m p bs"
  shows "strlen m p = Some (of_nat (length bs))"
  using strlen_loop_cstring [OF assms, of 0] by (simp add: strlen_def)

theorem strlen_correct_witness:
  "strlen (\<lambda>a. if a = 0xFFFFFFFF then 104 else if a = 0 then 105 else 0) 0xFFFFFFFF = Some 2"
proof -
  have "cstring (\<lambda>a. if a = 0xFFFFFFFF then 104 else if a = 0 then 105 else 0) 0xFFFFFFFF [104, 105]"
    by (auto simp: cstring_def less_Suc_eq)
  from strlen_correct [OF this] show ?thesis by simp
qed

end
