(* ===== verification/FreeList.thy ===== *)
theory FreeList
  imports Prelude
begin

text \<open>
  What the free list of \<^verbatim>\<open>miniheap.c\<close> stands for: a list of chunks \<open>(address, length)\<close> in
  address order that never touch. The three list functions are the reference for the
  pointer code of theory \<open>MiniHeap\<close>: putting a chunk in and merging it with its
  neighbours, taking the first chunk that is large enough, and the totals. They are
  verified against the set of bytes the list covers, which is the contract of the
  allocator's pool.
\<close>

type_synonym chunk = "addr \<times> u32"

definition sizeof_free_heap_chunk :: u32 where "sizeof_free_heap_chunk = 12"

definition chunk_end :: "chunk \<Rightarrow> nat" where
  "chunk_end c = unat (fst c) + unat (snd c)"

definition span :: "chunk \<Rightarrow> nat set" where
  "span c = {unat (fst c) ..< chunk_end c}"

definition spans :: "chunk list \<Rightarrow> nat set" where
  "spans cs = (\<Union>c\<in>set cs. span c)"

definition total :: "chunk list \<Rightarrow> nat" where
  "total cs = sum_list (map (\<lambda>c. unat (snd c)) cs)"

definition chunk_ok :: "chunk \<Rightarrow> bool" where
  "chunk_ok c \<longleftrightarrow> 12 \<le> unat (fst c) \<and> 12 \<le> unat (snd c) \<and> chunk_end c < 2 ^ 32"

definition before :: "chunk \<Rightarrow> chunk \<Rightarrow> bool" where
  "before c d \<longleftrightarrow> chunk_end c < unat (fst d)"

definition free_ok :: "chunk list \<Rightarrow> bool" where
  "free_ok cs \<longleftrightarrow> (\<forall>c\<in>set cs. chunk_ok c) \<and> sorted_wrt before cs"

section \<open>Inserting a chunk\<close>

definition below :: "addr \<Rightarrow> chunk list \<Rightarrow> chunk list" where
  "below c cs = takeWhile (\<lambda>d. \<not> c < fst d) cs"

definition above :: "addr \<Rightarrow> chunk list \<Rightarrow> chunk list" where
  "above c cs = dropWhile (\<lambda>d. \<not> c < fst d) cs"

definition merge_prev :: "chunk list \<Rightarrow> chunk \<Rightarrow> chunk list \<times> chunk" where
  "merge_prev xs c =
    (if xs \<noteq> [] \<and> fst (last xs) + snd (last xs) = fst c
     then (butlast xs, fst (last xs), snd (last xs) + snd c) else (xs, c))"

definition merge_next :: "chunk \<Rightarrow> chunk list \<Rightarrow> chunk \<times> chunk list" where
  "merge_next c ys =
    (if ys \<noteq> [] \<and> fst c + snd c = fst (hd ys)
     then ((fst c, snd c + snd (hd ys)), tl ys) else (c, ys))"

definition fl_insert :: "chunk list \<Rightarrow> chunk \<Rightarrow> chunk list" where
  "fl_insert cs c =
    (let (xs, c') = merge_prev (below (fst c) cs) c;
         (c'', ys) = merge_next c' (above (fst c) cs)
     in xs @ c'' # ys)"

definition fl_insert_base :: "chunk list \<Rightarrow> chunk \<Rightarrow> addr" where
  "fl_insert_base cs c = fst (snd (merge_prev (below (fst c) cs) c))"

section \<open>Taking a chunk\<close>

definition fl_fit :: "u32 \<Rightarrow> chunk \<Rightarrow> bool" where
  "fl_fit sz c \<longleftrightarrow> sz \<le> snd c"

definition fl_rest :: "u32 \<Rightarrow> chunk \<Rightarrow> chunk list" where
  "fl_rest sz c =
    (if snd c > sz + sizeof_free_heap_chunk then [(fst c + sz, snd c - sz)] else [])"

definition fl_taken :: "u32 \<Rightarrow> chunk \<Rightarrow> chunk" where
  "fl_taken sz c =
    (if snd c > sz + sizeof_free_heap_chunk then (fst c, sz) else c)"

definition fl_alloc :: "u32 \<Rightarrow> chunk list \<Rightarrow> (chunk \<times> chunk list) option" where
  "fl_alloc sz cs =
    (case dropWhile (\<lambda>c. \<not> fl_fit sz c) cs of
       [] \<Rightarrow> None
     | c # ys \<Rightarrow> Some (fl_taken sz c,
         takeWhile (\<lambda>c. \<not> fl_fit sz c) cs @ fl_rest sz c @ ys))"

section \<open>Chunks\<close>

lemma spans_simps [simp]:
  "spans [] = {}" "spans (c # cs) = span c \<union> spans cs" "spans (xs @ ys) = spans xs \<union> spans ys"
  by (auto simp: spans_def)

lemma total_simps [simp]:
  "total [] = 0" "total (c # cs) = unat (snd c) + total cs" "total (xs @ ys) = total xs + total ys"
  by (auto simp: total_def)

lemma free_ok_Nil [simp]: "free_ok []"
  by (simp add: free_ok_def)

lemma free_ok_Cons: "free_ok (c # cs) \<longleftrightarrow> chunk_ok c \<and> free_ok cs \<and> (\<forall>d\<in>set cs. before c d)"
  by (auto simp: free_ok_def)

lemma free_ok_append:
  "free_ok (xs @ ys) \<longleftrightarrow> free_ok xs \<and> free_ok ys \<and> (\<forall>c\<in>set xs. \<forall>d\<in>set ys. before c d)"
  by (auto simp: free_ok_def sorted_wrt_append)

lemma chunk_okD:
  assumes "chunk_ok c"
  shows "12 \<le> unat (snd c)" "chunk_end c < 2 ^ 32" "fst c \<noteq> 0"
    "unat (fst c + snd c) = chunk_end c" "unat (fst c) < chunk_end c"
  using assms unat_add_lem [of "fst c" "snd c"] by (auto simp: chunk_ok_def chunk_end_def)

lemma chunk_adjacent_iff:
  "chunk_ok c \<Longrightarrow> fst c + snd c = a \<longleftrightarrow> chunk_end c = unat a"
  using chunk_okD(4) [of c] by (auto simp: word_unat_eq_iff)

lemma chunk_ok_join:
  assumes "chunk_ok c" "chunk_ok d" "chunk_end c = unat (fst d)"
  shows "unat (snd c + snd d) = unat (snd c) + unat (snd d)" "chunk_ok (fst c, snd c + snd d)"
    "chunk_end (fst c, snd c + snd d) = chunk_end d" "span (fst c, snd c + snd d) = span c \<union> span d"
proof -
  show e: "unat (snd c + snd d) = unat (snd c) + unat (snd d)"
    using assms by (intro unat_add_lem [THEN iffD1]) (auto simp: chunk_ok_def chunk_end_def)
  show "chunk_ok (fst c, snd c + snd d)" "chunk_end (fst c, snd c + snd d) = chunk_end d"
      "span (fst c, snd c + snd d) = span c \<union> span d"
    using assms e by (auto simp: chunk_ok_def chunk_end_def span_def)
qed

lemma span_disjoint_iff:
  assumes "chunk_ok c" "chunk_ok d"
  shows "span c \<inter> span d = {} \<longleftrightarrow> chunk_end c \<le> unat (fst d) \<or> chunk_end d \<le> unat (fst c)"
  using chunk_okD(5) [OF assms(1)] chunk_okD(5) [OF assms(2)]
  by (auto simp: span_def ivl_disj_un disjoint_iff)

section \<open>Insertion keeps the pool\<close>

lemma below_above: "below c cs @ above c cs = cs"
  by (simp add: below_def above_def)

text \<open>A chunk that overlaps nothing has the chunks below it to its left, the others to its right.\<close>

lemma below_above_sides:
  assumes "free_ok cs" "chunk_ok c" "span c \<inter> spans cs = {}"
  shows "\<forall>d\<in>set (below (fst c) cs). chunk_end d \<le> unat (fst c)"
    and "\<forall>d\<in>set (above (fst c) cs). chunk_end c \<le> unat (fst d)"
proof -
  have disj: "chunk_end c \<le> unat (fst d) \<or> chunk_end d \<le> unat (fst c)" if "d \<in> set cs" for d
    using assms that span_disjoint_iff [of c d] by (auto simp: free_ok_def spans_def)
  show "\<forall>d\<in>set (below (fst c) cs). chunk_end d \<le> unat (fst c)"
  proof
    fix d assume d: "d \<in> set (below (fst c) cs)"
    then have "d \<in> set cs" "unat (fst d) \<le> unat (fst c)"
      by (auto simp: below_def word_less_nat_alt dest: set_takeWhileD)
    then show "chunk_end d \<le> unat (fst c)"
      using disj [of d] chunk_okD(5) [OF assms(2)] by auto
  qed
  show "\<forall>d\<in>set (above (fst c) cs). chunk_end c \<le> unat (fst d)"
  proof (cases "above (fst c) cs")
    case (Cons y ys)
    then have y: "fst c < fst y"
      by (metis above_def hd_dropWhile list.distinct(1) list.sel(1))
    have "free_ok (y # ys)" "y \<in> set cs"
      using assms(1) below_above [of "fst c" cs] Cons free_ok_append
      by (metis, metis in_set_conv_decomp)
    moreover from this have "chunk_end c \<le> unat (fst y)"
      using disj [of y] y chunk_okD(5) [of y] by (auto simp: word_less_nat_alt free_ok_def)
    ultimately show ?thesis
      using Cons chunk_okD(5) [of y] by (fastforce simp: free_ok_Cons before_def)
  qed simp
qed

lemma merge_prev_ok:
  assumes "free_ok xs" "chunk_ok c" "\<forall>d\<in>set xs. chunk_end d \<le> unat (fst c)"
    and "merge_prev xs c = (xs', c')"
  shows "free_ok xs'" "chunk_ok c'" "\<forall>d\<in>set xs'. before d c'" "chunk_end c' = chunk_end c"
    "spans xs' \<union> span c' = spans xs \<union> span c" "total xs' + unat (snd c') = total xs + unat (snd c)"
    "span c \<subseteq> span c'"
proof -
  have "free_ok xs' \<and> chunk_ok c' \<and> (\<forall>d\<in>set xs'. before d c') \<and> chunk_end c' = chunk_end c
    \<and> spans xs' \<union> span c' = spans xs \<union> span c \<and> total xs' + unat (snd c') = total xs + unat (snd c)
    \<and> span c \<subseteq> span c'"
  proof (cases "xs \<noteq> [] \<and> fst (last xs) + snd (last xs) = fst c")
    case True
    then obtain ys y where xs: "xs = ys @ [y]" by (cases xs rule: rev_cases) auto
    have y: "chunk_ok y" using assms(1) by (simp add: xs free_ok_append free_ok_Cons)
    have adj: "chunk_end y = unat (fst c)" using True y by (simp add: xs chunk_adjacent_iff)
    show ?thesis
      using True assms(1,2,4) chunk_ok_join [OF y assms(2) adj]
      by (auto simp: xs merge_prev_def free_ok_append free_ok_Cons before_def)
  next
    case False
    have "before d c" if "d \<in> set xs" for d
    proof -
      have "last xs \<in> set xs" using that by (cases xs) auto
      then have "chunk_end (last xs) \<noteq> unat (fst c)"
        using False that assms(1) chunk_adjacent_iff [of "last xs" "fst c"]
        by (auto simp: free_ok_def)
      moreover have "d = last xs \<or> before d (last xs)"
        using that assms(1) by (cases xs rule: rev_cases) (auto simp: free_ok_append)
      moreover have "chunk_end (last xs) \<le> unat (fst c)" "chunk_ok (last xs)"
        using that assms(1,3) by (cases xs rule: rev_cases; auto simp: free_ok_def)+
      ultimately show ?thesis
        using chunk_okD(5) [of "last xs"] by (auto simp: before_def)
    qed
    then show ?thesis using False assms by (auto simp: merge_prev_def)
  qed
  then show "free_ok xs'" "chunk_ok c'" "\<forall>d\<in>set xs'. before d c'" "chunk_end c' = chunk_end c"
    "spans xs' \<union> span c' = spans xs \<union> span c" "total xs' + unat (snd c') = total xs + unat (snd c)"
    "span c \<subseteq> span c'"
    by auto
qed

lemma merge_next_ok:
  assumes "free_ok ys" "chunk_ok c" "\<forall>d\<in>set ys. chunk_end c \<le> unat (fst d)"
    and "merge_next c ys = (c', ys')"
  shows "free_ok ys'" "chunk_ok c'" "\<forall>d\<in>set ys'. before c' d" "fst c' = fst c"
    "span c' \<union> spans ys' = span c \<union> spans ys" "unat (snd c') + total ys' = unat (snd c) + total ys"
    "span c \<subseteq> span c'"
proof -
  have "free_ok ys' \<and> chunk_ok c' \<and> (\<forall>d\<in>set ys'. before c' d) \<and> fst c' = fst c
    \<and> span c' \<union> spans ys' = span c \<union> spans ys \<and> unat (snd c') + total ys' = unat (snd c) + total ys
    \<and> span c \<subseteq> span c'"
  proof (cases "ys \<noteq> [] \<and> fst c + snd c = fst (hd ys)")
    case True
    then obtain y zs where ys: "ys = y # zs" by (cases ys) auto
    have y: "chunk_ok y" using assms(1) by (simp add: ys free_ok_Cons)
    have adj: "chunk_end c = unat (fst y)" using True assms(2) by (simp add: ys chunk_adjacent_iff)
    show ?thesis
      using True assms(1,2,4) chunk_ok_join [OF assms(2) y adj]
      by (auto simp: ys merge_next_def free_ok_Cons before_def)
  next
    case False
    have "before c d" if "d \<in> set ys" for d
    proof -
      have "chunk_end c \<noteq> unat (fst (hd ys))"
        using False that assms(2) chunk_adjacent_iff [of c "fst (hd ys)"] by auto
      moreover have "d = hd ys \<or> before (hd ys) d" "chunk_ok (hd ys)" "chunk_end c \<le> unat (fst (hd ys))"
        using that assms(1,3) by (cases ys; auto simp: free_ok_Cons)+
      ultimately show ?thesis
        using chunk_okD(5) [of "hd ys"] by (auto simp: before_def)
    qed
    then show ?thesis using False assms by (auto simp: merge_next_def)
  qed
  then show "free_ok ys'" "chunk_ok c'" "\<forall>d\<in>set ys'. before c' d" "fst c' = fst c"
    "span c' \<union> spans ys' = span c \<union> spans ys" "unat (snd c') + total ys' = unat (snd c) + total ys"
    "span c \<subseteq> span c'"
    by auto
qed

text \<open>
  Inserting a chunk that overlaps no free chunk keeps the list sorted and fully merged, adds
  exactly the bytes of the chunk to the pool and its length to the total; the address
  \<open>fl_insert_base\<close> is that of the chunk it became part of.
\<close>

lemma fl_insert_pool:
  assumes "free_ok cs" "chunk_ok c" "span c \<inter> spans cs = {}"
  shows "free_ok (fl_insert cs c)"
    and "spans (fl_insert cs c) = spans cs \<union> span c"
    and "total (fl_insert cs c) = total cs + unat (snd c)"
    and "\<exists>d\<in>set (fl_insert cs c). fst d = fl_insert_base cs c \<and> span c \<subseteq> span d"
proof -
  let ?xs = "below (fst c) cs" and ?ys = "above (fst c) cs"
  obtain xs' c' where p: "merge_prev ?xs c = (xs', c')" by (cases "merge_prev ?xs c")
  obtain c'' ys' where n: "merge_next c' ?ys = (c'', ys')" by (cases "merge_next c' ?ys")
  note sides = below_above_sides [OF assms]
  have ok: "free_ok ?xs" "free_ok ?ys" using assms(1) below_above [of "fst c" cs] free_ok_append by metis+
  note P = merge_prev_ok [OF ok(1) assms(2) sides(1) p]
  note N = merge_next_ok [OF ok(2) P(2), unfolded P(4), OF sides(2) n]
  have e: "fl_insert cs c = xs' @ c'' # ys'" by (simp add: fl_insert_def p n)
  have "before x d" if "x \<in> set xs'" "d \<in> set ys'" for x d
    using that P(3) N(2,3,4) chunk_okD(5) [of c''] by (force simp: before_def)
  then show "free_ok (fl_insert cs c)"
    using P(1,3) N(1,2,3,4) by (auto simp: e free_ok_append free_ok_Cons before_def)
  have "spans cs = spans ?xs \<union> spans ?ys" "total cs = total ?xs + total ?ys"
    using below_above [of "fst c" cs] spans_simps(3) total_simps(3) by metis+
  then show "spans (fl_insert cs c) = spans cs \<union> span c" "total (fl_insert cs c) = total cs + unat (snd c)"
    using P(5,6) N(5,6) by (auto simp: e)
  show "\<exists>d\<in>set (fl_insert cs c). fst d = fl_insert_base cs c \<and> span c \<subseteq> span d"
    using P(7) N(4,7) by (auto simp: e fl_insert_base_def p)
qed

section \<open>Allocation keeps the pool\<close>

lemma fl_taken_rest:
  assumes "chunk_ok c" "fl_fit sz c" "12 \<le> unat sz"
  shows "chunk_ok (fl_taken sz c)" "sz \<le> snd (fl_taken sz c)" "fst (fl_taken sz c) = fst c"
    "free_ok (fl_rest sz c)" "span (fl_taken sz c) \<union> spans (fl_rest sz c) = span c"
    "span (fl_taken sz c) \<inter> spans (fl_rest sz c) = {}"
    "unat (snd (fl_taken sz c)) + total (fl_rest sz c) = unat (snd c)"
    "\<forall>d\<in>set (fl_rest sz c). chunk_end d = chunk_end c \<and> unat (fst c) < unat (fst d)"
proof -
  show "sz \<le> snd (fl_taken sz c)" "fst (fl_taken sz c) = fst c"
    using assms(2) by (auto simp: fl_taken_def fl_fit_def)
  have "unat sz \<le> unat (snd c)" using assms(2) by (simp add: fl_fit_def word_le_nat_alt)
  then have e: "unat (snd c - sz) = unat (snd c) - unat sz"
      "unat (fst c + sz) = unat (fst c) + unat sz"
    using assms(2) chunk_okD(2) [OF assms(1)]
    by (auto simp: fl_fit_def unat_sub chunk_end_def intro!: unat_add_lem [THEN iffD1])
  have "unat (sz + 12) = unat sz + 12"
    using \<open>unat sz \<le> unat (snd c)\<close> assms(1)
    by (subst unat_add_lem [THEN iffD1]) (auto simp: chunk_ok_def chunk_end_def)
  then have big: "12 < unat (snd c) - unat sz" if "snd c > sz + sizeof_free_heap_chunk"
    using that by (simp add: sizeof_free_heap_chunk_def word_less_nat_alt)
  have "chunk_ok (fl_taken sz c) \<and> free_ok (fl_rest sz c) \<and> span (fl_taken sz c) \<union> spans (fl_rest sz c) = span c
    \<and> span (fl_taken sz c) \<inter> spans (fl_rest sz c) = {}
    \<and> unat (snd (fl_taken sz c)) + total (fl_rest sz c) = unat (snd c)
    \<and> (\<forall>d\<in>set (fl_rest sz c). chunk_end d = chunk_end c \<and> unat (fst c) < unat (fst d))"
  proof (cases "snd c > sz + sizeof_free_heap_chunk")
    case True
    then show ?thesis
      using True e big assms \<open>unat sz \<le> unat (snd c)\<close>
      by (auto simp: fl_taken_def fl_rest_def chunk_ok_def chunk_end_def span_def free_ok_def)
  qed (use assms(1) in \<open>simp add: fl_taken_def fl_rest_def\<close>)
  then show "chunk_ok (fl_taken sz c)" "free_ok (fl_rest sz c)"
    "span (fl_taken sz c) \<union> spans (fl_rest sz c) = span c"
    "span (fl_taken sz c) \<inter> spans (fl_rest sz c) = {}"
    "unat (snd (fl_taken sz c)) + total (fl_rest sz c) = unat (snd c)"
    "\<forall>d\<in>set (fl_rest sz c). chunk_end d = chunk_end c \<and> unat (fst c) < unat (fst d)"
    by blast+
qed

lemma fl_alloc_Some:
  assumes "free_ok cs" "12 \<le> unat sz" "fl_alloc sz cs = Some (b, cs')"
  obtains xs c ys where "cs = xs @ c # ys" "\<forall>d\<in>set xs. \<not> fl_fit sz d" "fl_fit sz c"
    "b = fl_taken sz c" "cs' = xs @ fl_rest sz c @ ys" "chunk_ok c"
proof -
  let ?P = "\<lambda>c. \<not> fl_fit sz c"
  obtain c ys where d: "dropWhile ?P cs = c # ys" and b: "b = fl_taken sz c"
      "cs' = takeWhile ?P cs @ fl_rest sz c @ ys"
    using assms(3) by (auto simp: fl_alloc_def split: list.splits)
  have "cs = takeWhile ?P cs @ c # ys" by (metis d takeWhile_dropWhile_id)
  moreover have "fl_fit sz c" using hd_dropWhile [of ?P cs] d by simp
  moreover have "c \<in> set cs" using d by (metis list.set_intros(1) set_dropWhileD)
  moreover from this have "chunk_ok c" using assms(1) by (simp add: free_ok_def)
  moreover have "\<forall>d\<in>set (takeWhile ?P cs). \<not> fl_fit sz d" by (auto dest: set_takeWhileD)
  ultimately show ?thesis using that b by blast
qed

text \<open>
  Allocation carves the block out of the pool: what is left is still sorted and merged, the
  block is as large as asked, and the bytes are split between the two.
\<close>

lemma fl_alloc_pool:
  assumes "free_ok cs" "12 \<le> unat sz" "fl_alloc sz cs = Some (b, cs')"
  shows "free_ok cs'" and "chunk_ok b" and "sz \<le> snd b"
    and "spans cs = spans cs' \<union> span b" and "span b \<inter> spans cs' = {}"
    and "total cs = total cs' + unat (snd b)"
proof -
  obtain xs c ys where s: "cs = xs @ c # ys" "fl_fit sz c" "b = fl_taken sz c"
      "cs' = xs @ fl_rest sz c @ ys" "chunk_ok c"
    using fl_alloc_Some [OF assms] by metis
  note T = fl_taken_rest [OF s(5,2) assms(2)]
  have ok: "free_ok xs" "free_ok ys" "\<forall>x\<in>set xs. before x c" "\<forall>y\<in>set ys. before c y"
      "\<forall>x\<in>set xs. \<forall>y\<in>set ys. before x y"
    using assms(1) by (auto simp: s free_ok_append free_ok_Cons)
  then show "free_ok cs'" using T(4,8) by (fastforce simp: s(4) free_ok_append before_def)
  show "chunk_ok b" "sz \<le> snd b" using T(1,2) by (simp_all add: s(3))
  show "spans cs = spans cs' \<union> span b" "total cs = total cs' + unat (snd b)"
    using T(5,7) by (auto simp: s(1,3,4))
  have "span b \<subseteq> span c" using T(5) by (auto simp: s(3))
  moreover have "span c \<inter> span x = {}" if "x \<in> set xs \<union> set ys" for x
    using that ok s(5) by (subst span_disjoint_iff) (auto simp: free_ok_def before_def)
  ultimately show "span b \<inter> spans cs' = {}" using T(6) by (auto simp: s(3,4) spans_def)
qed

text \<open>Allocation fails only when no chunk is large enough.\<close>

lemma fl_alloc_None: "fl_alloc sz cs = None \<longleftrightarrow> (\<forall>c\<in>set cs. snd c < sz)"
proof -
  have "fl_alloc sz cs = None \<longleftrightarrow> dropWhile (\<lambda>c. \<not> fl_fit sz c) cs = []"
    by (cases "dropWhile (\<lambda>c. \<not> fl_fit sz c) cs") (simp_all add: fl_alloc_def del: dropWhile_eq_Nil_conv)
  then show ?thesis by (simp add: fl_fit_def not_le)
qed

text \<open>
  A fully merged list that covers an interval is the single chunk of that interval: nothing
  stays fragmented.
\<close>

lemma free_ok_interval:
  assumes "free_ok cs" "spans cs = {lo ..< hi}" "lo < hi"
  shows "\<exists>c. cs = [c] \<and> unat (fst c) = lo \<and> chunk_end c = hi"
proof (cases cs)
  case Nil
  then show ?thesis using assms by auto
next
  case (Cons c ds)
  have c: "chunk_ok c" "\<forall>d\<in>set ds. before c d" using assms(1) by (auto simp: Cons free_ok_Cons)
  have "chunk_end c \<notin> spans cs"
    using c by (auto simp: Cons spans_def span_def before_def)
  moreover have "chunk_end c - 1 \<in> spans cs" "unat (fst c) \<in> spans cs"
    using chunk_okD(5) [OF c(1)] by (auto simp: Cons span_def)
  ultimately have e: "chunk_end c = hi" using assms(2) by auto
  have "ds = []"
  proof (rule ccontr)
    assume "ds \<noteq> []"
    then obtain d where "d \<in> set ds" by (cases ds) auto
    moreover from this have "chunk_ok d" using assms(1) by (auto simp: Cons free_ok_Cons free_ok_def)
    ultimately have "unat (fst d) \<in> spans cs" "hi < unat (fst d)"
      using c(2) e chunk_okD(5) [of d] by (auto simp: Cons spans_def span_def before_def)
    then show False using assms(2) by auto
  qed
  moreover have "unat (fst c) = lo" using assms(2,3) chunk_okD(5) [OF c(1)] e
    by (simp add: Cons \<open>ds = []\<close> span_def atLeastLessThan_eq_iff)
  ultimately show ?thesis using e Cons by auto
qed

end
