(* ===== verification/Ctype.thy ===== *)
theory Ctype
  imports Prelude
begin

text \<open>
  Character classes and case mapping, \<^verbatim>\<open>ctype.c\<close>. The argument is a C \<^verbatim>\<open>int\<close>: a 32-bit word
  compared as a signed number, so that a negative \<^verbatim>\<open>char\<close> is in no class but control. The
  results 0 and 1 of the predicates are HOL truth values.
\<close>

section \<open>Definitions\<close>

definition isblank :: "u32 \<Rightarrow> bool" where
  "isblank c = (c = 32 \<or> c = 9)"

definition isspace :: "u32 \<Rightarrow> bool" where
  "isspace c = (c = 32 \<or> c = 12 \<or> c = 10 \<or> c = 13 \<or> c = 9 \<or> c = 11)"

definition islower :: "u32 \<Rightarrow> bool" where
  "islower c = (97 \<le>s c \<and> c \<le>s 122)"

definition isupper :: "u32 \<Rightarrow> bool" where
  "isupper c = (65 \<le>s c \<and> c \<le>s 90)"

definition isdigit :: "u32 \<Rightarrow> bool" where
  "isdigit c = (48 \<le>s c \<and> c \<le>s 57)"

definition isalpha :: "u32 \<Rightarrow> bool" where
  "isalpha c = (isupper c \<or> islower c)"

definition isalnum :: "u32 \<Rightarrow> bool" where
  "isalnum c = (isalpha c \<or> isdigit c)"

definition isxdigit :: "u32 \<Rightarrow> bool" where
  "isxdigit c = (isdigit c \<or> (97 \<le>s c \<and> c \<le>s 102) \<or> (65 \<le>s c \<and> c \<le>s 70))"

definition isgraph :: "u32 \<Rightarrow> bool" where
  "isgraph c = (32 <s c \<and> c <s 0x7F)"

definition iscntrl :: "u32 \<Rightarrow> bool" where
  "iscntrl c = (c <s 32 \<or> c = 0x7F)"

definition isprint :: "u32 \<Rightarrow> bool" where
  "isprint c = (0x20 \<le>s c \<and> c <s 0x7F)"

definition ispunct :: "u32 \<Rightarrow> bool" where
  "ispunct c = (isgraph c \<and> \<not> isalnum c)"

definition tolower :: "u32 \<Rightarrow> u32" where
  "tolower c = (if 65 \<le>s c \<and> c \<le>s 90 then c + (97 - 65) else c)"

definition toupper :: "u32 \<Rightarrow> u32" where
  "toupper c = (if 97 \<le>s c \<and> c \<le>s 122 then c + (65 - 97) else c)"

section \<open>Classes as ranges of integers\<close>

lemma sint_eq_iff: "(c :: u32) = d \<longleftrightarrow> sint c = sint d"
  by (auto intro: signed_word_eqI)

lemmas class_defs = isblank_def isspace_def islower_def isupper_def isdigit_def isalpha_def isalnum_def
  isxdigit_def isgraph_def iscntrl_def isprint_def ispunct_def

lemmas class_ranges = class_defs sint_eq_iff word_sle_eq word_sless_alt

lemma sint_add_small:
  assumes "- 1000 \<le> sint (c :: u32)" "sint c \<le> 1000" "- 1000 \<le> sint d" "sint d \<le> 1000"
  shows "sint (c + d) = sint c + sint d"
  using assms by (simp add: sint_word_ariths signed_take_bit_int_eq_self)

section \<open>Properties\<close>

text \<open>
  The classes are consistent. Every value up to 127 (negative ones included) is in exactly
  one of: control character, space, letter or digit, punctuation; printable means graphic or
  space; the white space other than the space itself is control; letters are exactly one of
  upper and lower case, and hexadecimal digits are letters or digits.
\<close>

theorem ctype_classes:
  assumes "c \<le>s 127"
  shows "length (filter id [iscntrl c, c = 32, isalnum c, ispunct c]) = 1
    \<and> (isprint c \<longleftrightarrow> isgraph c \<or> c = 32) \<and> (isspace c \<and> c \<noteq> 32 \<longrightarrow> iscntrl c)
    \<and> (isblank c \<longrightarrow> isspace c) \<and> (isalpha c \<longrightarrow> isupper c \<noteq> islower c)
    \<and> (isxdigit c \<longrightarrow> isalnum c)"
  using assms by (auto simp: class_ranges)

theorem ctype_classes_witness:
  "length (filter id [iscntrl 65, 65 = (32 :: u32), isalnum 65, ispunct 65]) = 1"
  using ctype_classes [of 65] by simp

text \<open>
  Case mapping, on every \<^verbatim>\<open>int\<close>: the two functions undo each other on letters, are
  idempotent, change nothing but letters of the other case and keep the class of letters.
\<close>

theorem case_mapping:
  "(islower c \<longrightarrow> isupper (toupper c) \<and> tolower (toupper c) = c)
    \<and> (isupper c \<longrightarrow> islower (tolower c) \<and> toupper (tolower c) = c)
    \<and> (\<not> islower c \<longrightarrow> toupper c = c) \<and> (\<not> isupper c \<longrightarrow> tolower c = c)"
proof -
  have *: "sint (c - 32) = sint c - 32" if "97 \<le> sint c" "sint c \<le> 122"
    using sint_add_small [of c "- 32"] that by simp
  have "sint (c + 32) = sint c + 32" if "65 \<le> sint c" "sint c \<le> 90"
    using sint_add_small [of c 32] that by simp
  with * show ?thesis
    by (auto simp: islower_def isupper_def tolower_def toupper_def word_sle_eq)
qed

theorem case_mapping_witness: "toupper 97 = 65 \<and> tolower 65 = 97 \<and> toupper 123 = 123"
proof -
  have "islower 97" "isupper 65" "\<not> islower 123" by code_simp+
  then show ?thesis using case_mapping [of 97] case_mapping [of 123] by (auto simp: toupper_def tolower_def)
qed

end
