(* ===== verification/Vga.thy ===== *)
theory Vga
  imports CString Ctype
begin

text \<open>
  The text console, \<^verbatim>\<open>hw/vga.c\<close>: 25 lines of 80 cells of 16 bits at 0xb8000, and the static
  cursor \<^verbatim>\<open>col\<close>, \<^verbatim>\<open>line\<close>. The screen is memory; the abstraction \<open>screen\<close> reads it as a list
  of cells with the cursor, and every operation is shown to be the list operation a terminal
  performs, for as long as the cursor is on the screen, which every operation keeps.
\<close>

section \<open>The driver\<close>

definition vga :: addr where "vga = 0xB8000"
definition SCREEN_WIDTH :: u32 where "SCREEN_WIDTH = 80"
definition SCREEN_HEIGHT :: u32 where "SCREEN_HEIGHT = 25"

record vga_state =
  vcol :: u32
  vline :: u32

definition vga_store :: "mem \<Rightarrow> u32 \<Rightarrow> u16 \<Rightarrow> mem" where
  "vga_store m i v = st16 m (vga + 2 * i) v"

text \<open>\<open>for (i = from; i < to; i++) vga[i] = 0x720\<close>.\<close>

function (sequential) vga_fill :: "mem \<Rightarrow> u32 \<Rightarrow> u32 \<Rightarrow> mem" where
  "vga_fill m i n = (if i < n then vga_fill (vga_store m i 0x720) (i + 1) n else m)"
  by pat_completeness auto
termination
proof (relation "measure (\<lambda>(_, i, n). unat n - unat i)")
  show "((m', i + 1, n), (m, i, n)) \<in> measure (\<lambda>(_, i, n). unat n - unat i)"
    if "i < n" for m m' :: mem and i n :: u32
    using that unat_lt32 [of n] by (subst in_measure) (auto simp: word_less_nat_alt unat_word_ariths)
qed auto

text \<open>The port writes that hide the cursor, then the cleared screen.\<close>

definition vga_console_init :: "bool \<Rightarrow> mem \<Rightarrow> (u16 \<times> u8) list \<times> mem" where
  "vga_console_init clear m =
    ([(0x3D4, 0x0A), (0x3D5, 0x20)],
     if clear then vga_fill m 0 (SCREEN_WIDTH * SCREEN_HEIGHT) else m)"

definition vga_console_scrup :: "mem \<Rightarrow> mem" where
  "vga_console_scrup m =
    (let m = snd (memcpy m vga (vga + 2 * SCREEN_WIDTH) ((SCREEN_HEIGHT - 1) * SCREEN_WIDTH * 2))
     in vga_fill m ((SCREEN_HEIGHT - 1) * SCREEN_WIDTH) ((SCREEN_HEIGHT - 1) * SCREEN_WIDTH + SCREEN_WIDTH))"

definition vga_console_putchar :: "mem \<Rightarrow> vga_state \<Rightarrow> u8 \<Rightarrow> mem \<times> vga_state" where
  "vga_console_putchar m s c =
    (let (m, s) =
       (if c = 10 then (m, s\<lparr>vline := vline s + 1\<rparr>)
        else if c = 13 then (m, s\<lparr>vcol := 0\<rparr>)
        else if c = 9 then (m, s\<lparr>vcol := ROUNDUP (vcol s + 1) 4\<rparr>)
        else if isprint (scast c) then
          (vga_store m (vline s * SCREEN_WIDTH + vcol s) (0xF00 OR (scast c AND 0x7F)), s\<lparr>vcol := vcol s + 1\<rparr>)
        else (m, s));
       s = (if vcol s \<ge> SCREEN_WIDTH then s\<lparr>vcol := 0, vline := vline s + 1\<rparr> else s)
     in if vline s = SCREEN_HEIGHT then (vga_console_scrup m, s\<lparr>vline := vline s - 1\<rparr>) else (m, s))"

declare vga_fill.simps [simp del]

section \<open>The screen as a list\<close>

definition cell_addr :: "nat \<Rightarrow> addr" where "cell_addr i = vga + 2 * of_nat i"

definition cells :: "mem \<Rightarrow> u16 list" where
  "cells m = map (\<lambda>i. ld16 m (cell_addr i)) [0..<2000]"

definition vga_region :: "addr set" where "vga_region = region vga 4000"

definition on_screen :: "vga_state \<Rightarrow> bool" where
  "on_screen s \<longleftrightarrow> vcol s < 80 \<and> vline s < 25"

lemma length_cells [simp]: "length (cells m) = 2000"
  by (simp add: cells_def)

lemma unat_cell: "i < 2000 \<Longrightarrow> unat (cell_addr i) = 0xB8000 + 2 * i"
  by (simp add: cell_addr_def vga_def unat_word_ariths unsigned_of_nat take_bit_nat_eq_self)

lemma cell_apart: "i < 2000 \<Longrightarrow> j < 2000 \<Longrightarrow> i \<noteq> j \<Longrightarrow> apart (cell_addr i) 2 (cell_addr j) 2"
  using apart_nat [of "cell_addr i" 2 "cell_addr j" 2] apart_nat [of "cell_addr j" 2 "cell_addr i" 2] apart_sym
  by (auto simp: unat_cell nat_neq_iff)

lemma cells_st16: "i < 2000 \<Longrightarrow> cells (st16 m (cell_addr i) v) = (cells m)[i := v]"
  by (rule nth_equalityI) (auto simp: cells_def nth_list_update mem_simps cell_apart)

lemma cell_region: "i < 2000 \<Longrightarrow> region (cell_addr i) 2 \<subseteq> vga_region"
  using region_field [of "2 * of_nat i" 2 4000 vga]
  by (simp add: vga_region_def cell_addr_def unat_word_ariths unsigned_of_nat take_bit_nat_eq_self)

lemma frame_st16: "frame R m m' \<Longrightarrow> region a 2 \<subseteq> R \<Longrightarrow> frame R m (st16 m' a v)"
  by (auto simp: frame_def st16_frame subset_eq)

lemma vga_store_cell:
  assumes "unat i < 2000"
  shows "cells (vga_store m i v) = (cells m)[unat i := v]" "frame vga_region m (vga_store m i v)"
proof -
  have a: "vga + 2 * i = cell_addr (unat i)" by (simp add: cell_addr_def)
  show "cells (vga_store m i v) = (cells m)[unat i := v]" "frame vga_region m (vga_store m i v)"
    using assms by (auto simp: vga_store_def a cells_st16 intro!: frame_st16 cell_region)
qed

lemma vga_fill_cells:
  assumes "unat n \<le> 2000" "unat i \<le> unat n"
  shows "cells (vga_fill m i n) = take (unat i) (cells m) @ replicate (unat n - unat i) 0x720 @ drop (unat n) (cells m)
    \<and> frame vga_region m (vga_fill m i n)"
  using assms(2)
proof (induction "unat n - unat i" arbitrary: i m)
  case 0
  then have "\<not> i < n" "unat i = unat n" by (simp_all add: word_less_nat_alt)
  then show ?case by (subst (1 2) vga_fill.simps) simp
next
  case (Suc k)
  then have i: "i < n" "unat i < 2000" "unat (i + 1) = unat i + 1"
    using assms(1) by (auto simp: word_less_nat_alt unat_word_ariths)
  let ?m = "vga_store m i 0x720"
  have "cells (vga_fill ?m (i + 1) n) = take (unat (i + 1)) (cells ?m) @ replicate (unat n - unat (i + 1)) 0x720 @ drop (unat n) (cells ?m)
      \<and> frame vga_region ?m (vga_fill ?m (i + 1) n)"
    using Suc.hyps(2) i by (intro Suc.hyps(1)) (auto simp: word_less_nat_alt)
  moreover have "take (unat i + 1) ((cells m)[unat i := 0x720]) = take (unat i) (cells m) @ [0x720]"
    using i(2) by (simp add: take_Suc_conv_app_nth)
  moreover have "replicate (unat n - unat i) (0x720 :: u16) = 0x720 # replicate (unat n - unat (i + 1)) 0x720"
    using Suc.hyps(2) i(3) by (metis Suc_diff_Suc add.commute plus_1_eq_Suc replicate_Suc zero_less_Suc zero_less_diff)
  moreover have "drop (unat n) ((cells m)[unat i := 0x720]) = drop (unat n) (cells m)"
    using i(1) by (simp add: word_less_nat_alt)
  ultimately show ?case
    using i vga_store_cell [OF i(2), of m "0x720"] frame_trans
    by (subst (1 2) vga_fill.simps) auto
qed

text \<open>The upward copy moves every line to the one above it.\<close>

lemma memcpy_scroll:
  assumes m': "m' = snd (memcpy m vga (vga + 2 * SCREEN_WIDTH) ((SCREEN_HEIGHT - 1) * SCREEN_WIDTH * 2))"
  shows "cells m' = drop 80 (cells m) @ drop 1920 (cells m)" "frame vga_region m m'"
proof -
  have m'': "m' x = (if x \<in> region vga 3840 then m (vga + 160 + (x - vga)) else m x)" for x
    unfolding m' memcpy_def SCREEN_WIDTH_def SCREEN_HEIGHT_def by (simp add: rep_movsb_eq vga_def)
  show "frame vga_region m m'"
    by (auto simp: frame_def m'' vga_region_def region_def)
  have "ld16 m' (cell_addr i) = ld16 m (cell_addr (if i < 1920 then i + 80 else i))" if "i < 2000" for i
  proof -
    have c: "cell_addr i - vga = 2 * of_nat i" by (simp add: cell_addr_def)
    have u: "unat (2 * of_nat i :: u32) = 2 * i" "unat (2 * of_nat i + 1 :: u32) = 2 * i + 1"
      using that by (simp_all add: unat_word_ariths unsigned_of_nat take_bit_nat_eq_self)
    have r: "cell_addr i \<in> region vga 3840 \<longleftrightarrow> i < 1920" "cell_addr i + 1 \<in> region vga 3840 \<longleftrightarrow> i < 1920"
      using u by (auto simp: region_def cell_addr_def)
    have "cell_addr (i + 80) = vga + 160 + (cell_addr i - vga)" by (simp add: cell_addr_def)
    then show ?thesis using r by (simp add: ld16_def m'' algebra_simps)
  qed
  then show "cells m' = drop 80 (cells m) @ drop 1920 (cells m)"
    by (intro nth_equalityI) (auto simp: cells_def nth_append add.commute)
qed

definition blank :: u16 where "blank = 0x720"

lemma scrup_cells:
  "cells (vga_console_scrup m) = drop 80 (cells m) @ replicate 80 blank" "frame vga_region m (vga_console_scrup m)"
proof -
  define m1 where "m1 = snd (memcpy m vga (vga + 2 * SCREEN_WIDTH) ((SCREEN_HEIGHT - 1) * SCREEN_WIDTH * 2))"
  note M = memcpy_scroll [OF m1_def]
  have e: "vga_console_scrup m = vga_fill m1 1920 2000"
    by (simp add: vga_console_scrup_def m1_def SCREEN_WIDTH_def SCREEN_HEIGHT_def)
  have f: "cells (vga_fill m1 1920 2000) = take 1920 (cells m1) @ replicate 80 0x720 @ drop 2000 (cells m1)
      \<and> frame vga_region m1 (vga_fill m1 1920 2000)"
    using vga_fill_cells [of 2000 1920 m1] by simp
  then show "cells (vga_console_scrup m) = drop 80 (cells m) @ replicate 80 blank"
    by (simp add: e M(1) blank_def)
  show "frame vga_region m (vga_console_scrup m)" using frame_trans [OF M(2)] f by (simp add: e)
qed

section \<open>A terminal\<close>

text \<open>The abstract terminal: 2000 cells in reading order and the cursor.\<close>

record screen =
  s_cells :: "u16 list"
  s_row :: nat
  s_col :: nat

definition scr_scroll :: "screen \<Rightarrow> screen" where
  "scr_scroll t = (if s_row t = 25
     then t\<lparr>s_cells := drop 80 (s_cells t) @ replicate 80 blank, s_row := 24\<rparr> else t)"

definition scr_wrap :: "screen \<Rightarrow> screen" where
  "scr_wrap t = (if 80 \<le> s_col t then t\<lparr>s_col := 0, s_row := s_row t + 1\<rparr> else t)"

definition scr_char :: "u8 \<Rightarrow> screen \<Rightarrow> screen" where
  "scr_char c t =
    (if c = 10 then t\<lparr>s_row := s_row t + 1\<rparr>
     else if c = 13 then t\<lparr>s_col := 0\<rparr>
     else if c = 9 then t\<lparr>s_col := 4 * (s_col t div 4 + 1)\<rparr>
     else if 32 \<le> unat c \<and> unat c < 127 then
       t\<lparr>s_cells := (s_cells t)[80 * s_row t + s_col t := 0xF00 OR ucast c], s_col := s_col t + 1\<rparr>
     else t)"

definition scr_put :: "screen \<Rightarrow> u8 \<Rightarrow> screen" where
  "scr_put t c = scr_scroll (scr_wrap (scr_char c t))"

definition screen_of :: "mem \<Rightarrow> vga_state \<Rightarrow> screen" where
  "screen_of m s = \<lparr>s_cells = cells m, s_row = unat (vline s), s_col = unat (vcol s)\<rparr>"

section \<open>The driver is a terminal\<close>

lemma isprint_char: "isprint (scast (c :: u8)) \<longleftrightarrow> 32 \<le> unat c \<and> unat c < 127"
proof -
  have "sint (scast c :: u32) = sint c"
    using sint_greater_eq [of c] sint_less [of c] by (simp add: signed_scast_eq signed_take_bit_int_eq_self)
  moreover have "uint c = (if sint c < 0 then sint c + 256 else sint c)"
  proof -
    have "uint c = sint c mod 256" "sint c mod 256 = (sint c + 256) mod 256"
      by (simp_all add: uint_sint take_bit_eq_mod)
    then show ?thesis using sint_greater_eq [of c] sint_less [of c]
      by (cases "sint c < 0") (simp_all del: mod_add_self2)
  qed
  ultimately show ?thesis
    using sint_greater_eq [of c] sint_less [of c]
    by (auto split: if_splits simp: isprint_def word_sle_eq word_sless_alt unat_eq_nat_uint)
qed

lemma char_cell: "unat (c :: u8) < 127 \<Longrightarrow> 0xF00 OR (scast c AND 0x7F) = (0xF00 OR ucast c :: u16)"
proof -
  assume c: "unat c < 127"
  then have "take_bit 7 c = c"
    by (simp add: word_unat_eq_iff unsigned_take_bit_eq take_bit_nat_eq_self)
  then have "\<not> bit c n" if "7 \<le> n" for n
    using that by (metis bit_take_bit_iff not_le)
  moreover have "n < 7 \<Longrightarrow> bit (0x7F :: u16) n" for n
  proof -
    have "(0x7F :: u16) = mask 7" by (simp add: mask_eq_exp_minus_1)
    then show "n < 7 \<Longrightarrow> bit (0x7F :: u16) n" by (simp only: bit_mask_iff) auto
  qed
  ultimately have "scast c AND 0x7F = (ucast c :: u16)"
    by (intro bit_word_eqI) (auto simp: bit_simps min_def not_le)
  then show ?thesis by simp
qed

lemma tab_stop: "unat col < 80 \<Longrightarrow> unat (ROUNDUP (col + 1) 4) = 4 * (unat col div 4 + 1)"
proof -
  assume c: "unat col < 80"
  then have "unat (col + 1) = unat col + 1" by (simp add: unat_word_ariths)
  moreover have "(4 + unat col) div 4 = 1 + unat col div 4" by simp
  ultimately show ?thesis using c unat_ROUNDUP [of 2 "col + 1"] by simp
qed

definition step_char :: "mem \<Rightarrow> vga_state \<Rightarrow> u8 \<Rightarrow> mem \<times> vga_state" where
  "step_char m s c =
    (if c = 10 then (m, s\<lparr>vline := vline s + 1\<rparr>)
     else if c = 13 then (m, s\<lparr>vcol := 0\<rparr>)
     else if c = 9 then (m, s\<lparr>vcol := ROUNDUP (vcol s + 1) 4\<rparr>)
     else if isprint (scast c) then
       (vga_store m (vline s * SCREEN_WIDTH + vcol s) (0xF00 OR (scast c AND 0x7F)), s\<lparr>vcol := vcol s + 1\<rparr>)
     else (m, s))"

lemma step_char_refines:
  assumes "on_screen s" "step_char m s c = (m', s')"
  shows "screen_of m' s' = scr_char c (screen_of m s)" "unat (vcol s') \<le> 80" "unat (vline s') \<le> 25"
    "unat (vcol s') = 80 \<longrightarrow> unat (vline s') < 25" "frame vga_region m m'"
proof -
  have u: "unat (vcol s) < 80" "unat (vline s) < 25" using assms(1) by (simp_all add: on_screen_def word_less_nat_alt)
  have i: "unat (vcol s + 1) = unat (vcol s) + 1" "unat (vline s + 1) = unat (vline s) + 1"
      "unat (vline s * SCREEN_WIDTH + vcol s) = 80 * unat (vline s) + unat (vcol s)"
    using u by (simp_all add: unat_word_ariths SCREEN_WIDTH_def)
  have t: "unat (vcol s) div 4 \<le> 19" using u(1) by simp
  have lt: "80 * unat (vline s) + unat (vcol s) < 2000" using u by simp
  note P = vga_store_cell [of "vline s * SCREEN_WIDTH + vcol s", unfolded i(3), OF lt]
  have "screen_of m' s' = scr_char c (screen_of m s) \<and> unat (vcol s') \<le> 80 \<and> unat (vline s') \<le> 25
    \<and> (unat (vcol s') = 80 \<longrightarrow> unat (vline s') < 25) \<and> frame vga_region m m'"
    using assms(2) u i t tab_stop [OF u(1)] P
    by (auto simp: step_char_def scr_char_def screen_of_def isprint_char char_cell split: if_splits)
  then show "screen_of m' s' = scr_char c (screen_of m s)" "unat (vcol s') \<le> 80" "unat (vline s') \<le> 25"
    "unat (vcol s') = 80 \<longrightarrow> unat (vline s') < 25" "frame vga_region m m'" by blast+
qed

text \<open>One character: the driver does what the terminal does and stays on the screen.\<close>

lemma putchar_refines:
  assumes "on_screen s" "vga_console_putchar m s c = (m', s')"
  shows "on_screen s'" "screen_of m' s' = scr_put (screen_of m s) c" "frame vga_region m m'"
proof -
  obtain m1 s1 where 1: "step_char m s c = (m1, s1)" by force
  define s2 where "s2 = (if vcol s1 \<ge> SCREEN_WIDTH then s1\<lparr>vcol := 0, vline := vline s1 + 1\<rparr> else s1)"
  note S = step_char_refines [OF assms(1) 1]
  have 2: "screen_of m1 s2 = scr_wrap (scr_char c (screen_of m s))" "unat (vcol s2) < 80" "unat (vline s2) \<le> 25"
    using S(2-4) unfolding S(1) [symmetric]
    by (auto simp: s2_def scr_wrap_def screen_of_def SCREEN_WIDTH_def word_le_nat_alt unat_word_ariths)
  have "vga_console_putchar m s c = (if vline s2 = SCREEN_HEIGHT then (vga_console_scrup m1, s2\<lparr>vline := vline s2 - 1\<rparr>) else (m1, s2))"
    unfolding vga_console_putchar_def step_char_def [symmetric] 1 Let_def prod.case s2_def ..
  then have 3: "(m', s') = (if vline s2 = SCREEN_HEIGHT then (vga_console_scrup m1, s2\<lparr>vline := vline s2 - 1\<rparr>) else (m1, s2))"
    using assms(2) by simp
  have h: "vline s2 = SCREEN_HEIGHT \<longleftrightarrow> unat (vline s2) = 25" by (simp add: SCREEN_HEIGHT_def word_unat_eq_iff)
  have "screen_of m' s' = scr_scroll (screen_of m1 s2) \<and> unat (vcol s') < 80 \<and> unat (vline s') < 25 \<and> frame vga_region m1 m'"
    using 3 2(2,3) scrup_cells [of m1] h
    by (auto simp: scr_scroll_def screen_of_def SCREEN_HEIGHT_def split: if_splits)
  then show "on_screen s'" "screen_of m' s' = scr_put (screen_of m s) c" "frame vga_region m m'"
    using 2(1) frame_trans [OF S(5)] by (simp_all add: on_screen_def word_less_nat_alt scr_put_def)
qed

end
