(* ===== verification/Numbers.thy ===== *)
theory Numbers
  imports Prelude "HOL-Library.Char_ord"
begin

unbundle bit_operations_syntax

text \<open>
  Number to text conversion of \<^verbatim>\<open>printf.c\<close>: \<^verbatim>\<open>longlong_to_string\<close> and \<^verbatim>\<open>longlong_to_hexstring\<close>
  write the digits backwards from the end of the caller's buffer. A buffer is the list of its
  bytes, an index is the \<^verbatim>\<open>size_t\<close> of the code, and a store outside the buffer is \<open>None\<close>.
  Shown: the 32 bytes of \<^verbatim>\<open>num_buffer\<close> are enough for every 64-bit value, the text is the
  decimal or hexadecimal numeral without leading zeros, and it reads back as the value.
\<close>

section \<open>Flags\<close>

abbreviation ch :: "char \<Rightarrow> u8" where "ch c \<equiv> of_char c"

definition LONGFLAG :: u32 where "LONGFLAG = 0x00000001"
definition LONGLONGFLAG :: u32 where "LONGLONGFLAG = 0x00000002"
definition HALFFLAG :: u32 where "HALFFLAG = 0x00000004"
definition HALFHALFFLAG :: u32 where "HALFHALFFLAG = 0x00000008"
definition SIZETFLAG :: u32 where "SIZETFLAG = 0x00000010"
definition INTMAXFLAG :: u32 where "INTMAXFLAG = 0x00000020"
definition PTRDIFFFLAG :: u32 where "PTRDIFFFLAG = 0x00000040"
definition ALTFLAG :: u32 where "ALTFLAG = 0x00000080"
definition CAPSFLAG :: u32 where "CAPSFLAG = 0x00000100"
definition SHOWSIGNFLAG :: u32 where "SHOWSIGNFLAG = 0x00000200"
definition SIGNEDFLAG :: u32 where "SIGNEDFLAG = 0x00000400"
definition LEFTFORMATFLAG :: u32 where "LEFTFORMATFLAG = 0x00000800"
definition LEADZEROFLAG :: u32 where "LEADZEROFLAG = 0x00001000"
definition BLANKPOSFLAG :: u32 where "BLANKPOSFLAG = 0x00002000"

lemmas flag_defs = LONGFLAG_def LONGLONGFLAG_def HALFFLAG_def HALFHALFFLAG_def SIZETFLAG_def
  INTMAXFLAG_def PTRDIFFFLAG_def ALTFLAG_def CAPSFLAG_def SHOWSIGNFLAG_def SIGNEDFLAG_def
  LEFTFORMATFLAG_def LEADZEROFLAG_def BLANKPOSFLAG_def

definition has_flag :: "u32 \<Rightarrow> u32 \<Rightarrow> bool" where
  "has_flag flags f = (flags AND f \<noteq> 0)"

section \<open>The conversions\<close>

definition put_back :: "u8 list \<Rightarrow> u32 \<Rightarrow> u8 \<Rightarrow> (u8 list \<times> u32) option" where
  "put_back buf pos c =
    (let pos = pos - 1 in if unat pos < length buf then Some (buf[unat pos := c], pos) else None)"

function (sequential) dec_loop :: "u8 list \<Rightarrow> u32 \<Rightarrow> u64 \<Rightarrow> (u8 list \<times> u32 \<times> u64) option" where
  "dec_loop buf pos n =
    (if n \<ge> 10 then
       (let digit = n mod 10; n = n div 10
        in Option.bind (put_back buf pos (ucast digit + ch CHR ''0'')) (\<lambda>(buf, pos). dec_loop buf pos n))
     else Some (buf, pos, n))"
  by pat_completeness auto
termination
proof (relation "measure (\<lambda>(_, _, n). unat n)")
  show "((buf', pos', x'), (buf, pos, n)) \<in> measure (\<lambda>(_, _, n). unat n)"
    if "n \<ge> 10" "x' = n div 10" for n x' :: u64 and buf buf' :: "u8 list" and pos pos' :: u32
    using that by (simp add: unat_div word_le_nat_alt)
qed auto

text \<open>The text starts at the returned index; the sign character goes to the caller.\<close>

definition longlong_to_string :: "u8 list \<Rightarrow> u64 \<Rightarrow> u32 \<Rightarrow> u32 \<Rightarrow> (u8 list \<times> u32 \<times> u8) option" where
  "longlong_to_string buf n len flag =
    (let negative = has_flag flag SIGNEDFLAG \<and> n <s 0;
         n = (if negative then - n else n)
     in Option.bind (put_back buf len 0) (\<lambda>(buf, pos).
        Option.bind (dec_loop buf pos n) (\<lambda>(buf, pos, n).
        Option.bind (put_back buf pos (ucast n + ch CHR ''0'')) (\<lambda>(buf, pos).
          let signchar = (if negative then ch CHR ''-''
                          else if has_flag flag SHOWSIGNFLAG then ch CHR ''+''
                          else if has_flag flag BLANKPOSFLAG then ch CHR '' ''
                          else 0)
          in Some (buf, pos, signchar)))))"

definition hextable :: "u8 list" where "hextable = map ch ''0123456789abcdef''"
definition hextable_caps :: "u8 list" where "hextable_caps = map ch ''0123456789ABCDEF''"

function (sequential) hex_loop :: "u8 list \<Rightarrow> u32 \<Rightarrow> u8 list \<Rightarrow> u64 \<Rightarrow> (u8 list \<times> u32) option" where
  "hex_loop buf pos table u =
    (let digit = u mod 16; u = u div 16
     in Option.bind (put_back buf pos (table ! unat digit)) (\<lambda>(buf, pos).
        if u \<noteq> 0 then hex_loop buf pos table u else Some (buf, pos)))"
  by pat_completeness auto
termination
proof (relation "measure (\<lambda>(_, _, _, u). unat u)")
  show "((buf', pos', t', x'), (buf, pos, t, n)) \<in> measure (\<lambda>(_, _, _, u). unat u)"
    if "x' = n div 16" "x' \<noteq> 0" for n x' :: u64 and buf buf' t t' :: "u8 list" and pos pos' :: u32
    using that by (auto simp: unat_div word_unat_eq_iff)
qed auto

definition longlong_to_hexstring :: "u8 list \<Rightarrow> u64 \<Rightarrow> u32 \<Rightarrow> u32 \<Rightarrow> (u8 list \<times> u32) option" where
  "longlong_to_hexstring buf u len flag =
    (let table = (if has_flag flag CAPSFLAG then hextable_caps else hextable)
     in Option.bind (put_back buf len 0) (\<lambda>(buf, pos). hex_loop buf pos table u))"

text \<open>The C string that starts at an index of a buffer.\<close>

definition buf_str :: "u8 list \<Rightarrow> u32 \<Rightarrow> u8 list" where
  "buf_str buf pos = takeWhile (\<lambda>b. b \<noteq> 0) (drop (unat pos) buf)"

section \<open>Numerals\<close>

function (sequential) digits :: "nat \<Rightarrow> nat \<Rightarrow> nat list" where
  "digits b n = (if n < b \<or> b < 2 then [n] else digits b (n div b) @ [n mod b])"
  by pat_completeness auto
termination by (relation "measure snd") auto

definition digits_value :: "nat \<Rightarrow> nat list \<Rightarrow> nat" where
  "digits_value b ds = foldl (\<lambda>v d. v * b + d) 0 ds"

declare digits.simps [simp del] dec_loop.simps [simp del] hex_loop.simps [simp del]

lemma digits_small: "n < b \<Longrightarrow> digits b n = [n]"
  by (simp add: digits.simps)

lemma digits_large: "b \<le> n \<Longrightarrow> 2 \<le> b \<Longrightarrow> digits b n = digits b (n div b) @ [n mod b]"
  by (simp add: digits.simps)

lemma digits_value_digits: "2 \<le> b \<Longrightarrow> digits_value b (digits b n) = n"
proof (induction b n rule: digits.induct)
  case (1 b n)
  then show ?case by (cases "n < b") (auto simp: digits_small digits_large digits_value_def)
qed

lemma digits_range: "2 \<le> b \<Longrightarrow> d \<in> set (digits b n) \<Longrightarrow> d < b"
proof (induction b n rule: digits.induct)
  case (1 b n)
  then show ?case by (cases "n < b") (auto simp: digits_small digits_large)
qed

lemma digits_no_leading_zero: "2 \<le> b \<Longrightarrow> hd (digits b n) = 0 \<Longrightarrow> n = 0"
proof (induction b n rule: digits.induct)
  case (1 b n)
  show ?case
  proof (cases "n < b")
    case False
    have "digits b (n div b) \<noteq> []" by (subst digits.simps) simp
    then have "n div b = 0" using 1 False by (simp add: digits_large)
    then show ?thesis using False 1(2) by (simp add: div_eq_0_iff)
  qed (use 1 in \<open>simp add: digits_small\<close>)
qed

lemma digits_length: "2 \<le> b \<Longrightarrow> n < b ^ Suc k \<Longrightarrow> length (digits b n) \<le> Suc k"
proof (induction k arbitrary: n)
  case (Suc k)
  show ?case
  proof (cases "n < b")
    case False
    have "n div b < b ^ Suc k" using Suc.prems by (simp add: less_mult_imp_div_less mult.commute)
    then show ?thesis using Suc.IH [of "n div b"] Suc.prems(1) False by (simp add: digits_large)
  qed (simp add: digits_small)
qed (simp add: digits_small)

lemma digits_ne [simp]: "digits b n \<noteq> []"
  by (subst digits.simps) simp

lemma unat_lt64: "unat (n :: u64) < 2 ^ 64"
  using unsigned_less [of n] by simp

lemma length_digits_dec: "length (digits 10 (unat (n :: u64))) \<le> 20"
  using digits_length [of 10 "unat n" 19] unat_lt64 [of n] by simp

lemma length_digits_hex: "length (digits 16 (unat (n :: u64))) \<le> 16"
  using digits_length [of 16 "unat n" 15] unat_lt64 [of n] by simp

text \<open>The two alphabets.\<close>

definition dec_char :: "nat \<Rightarrow> u8" where "dec_char d = of_nat d + 48"

definition hex_char :: "bool \<Rightarrow> nat \<Rightarrow> u8" where
  "hex_char caps d = (if caps then hextable_caps else hextable) ! d"

definition dec_text :: "nat \<Rightarrow> u8 list" where "dec_text n = map dec_char (digits 10 n)"
definition hex_text :: "bool \<Rightarrow> nat \<Rightarrow> u8 list" where "hex_text caps n = map (hex_char caps) (digits 16 n)"

section \<open>The loops write the numeral\<close>

lemma put_back_ok:
  assumes "0 < unat pos" "unat pos \<le> length buf"
  shows "\<exists>buf'. put_back buf pos c = Some (buf', pos - 1) \<and> length buf' = length buf
    \<and> drop (unat (pos - 1)) buf' = c # drop (unat pos) buf \<and> unat (pos - 1) = unat pos - 1"
proof -
  have p: "unat (pos - 1) = unat pos - 1" using assms(1) by (intro unat_minus_one) auto
  have "drop (unat pos - 1) (buf[unat pos - 1 := c]) = c # drop (unat pos) buf"
    using assms Cons_nth_drop_Suc [of "unat pos - 1" "buf[unat pos - 1 := c]"] by simp
  then show ?thesis using assms p by (simp add: put_back_def Let_def)
qed

lemma dec_loop_ok:
  assumes "length (digits 10 (unat n)) \<le> Suc (unat pos)" "unat pos \<le> length buf"
  shows "\<exists>buf' pos' d ds. dec_loop buf pos n = Some (buf', pos', d) \<and> digits 10 (unat n) = unat d # ds
    \<and> length buf' = length buf \<and> unat pos' = unat pos - length ds
    \<and> drop (unat pos') buf' = map dec_char ds @ drop (unat pos) buf"
  using assms
proof (induction buf pos n rule: dec_loop.induct)
  case (1 buf pos n)
  show ?case
  proof (cases "n \<ge> 10")
    case False
    then have "unat n < 10" by (simp add: not_le word_less_nat_alt)
    then show ?thesis using False by (simp add: dec_loop.simps digits_small)
  next
    case True
    let ?c = "ucast (n mod 10) + ch CHR ''0''"
    have n10: "10 \<le> unat n" using True by (simp add: word_le_nat_alt)
    then have dg: "digits 10 (unat n) = digits 10 (unat n div 10) @ [unat n mod 10]" by (simp add: digits_large)
    have un: "unat (n div 10) = unat n div 10" by (simp add: unat_div)
    have c: "?c = dec_char (unat n mod 10)"
    proof -
      have "unat n mod 10 = unat (n mod 10)" by (simp add: unat_mod)
      then show ?thesis by (simp add: dec_char_def)
    qed
    have "0 < unat pos" using 1(2) dg by (cases "digits 10 (unat n div 10)") auto
    with put_back_ok [OF this 1(3), of ?c] obtain buf1 where
      pb: "put_back buf pos ?c = Some (buf1, pos - 1)" "length buf1 = length buf"
        "drop (unat (pos - 1)) buf1 = ?c # drop (unat pos) buf" "unat (pos - 1) = unat pos - 1" by auto
    have "length (digits 10 (unat (n div 10))) \<le> Suc (unat (pos - 1))" "unat (pos - 1) \<le> length buf1"
      using 1(2,3) pb(2,4) dg un by simp_all
    from 1(1) [OF True refl refl pb(1) refl this] obtain buf' pos' d ds where
      r: "dec_loop buf1 (pos - 1) (n div 10) = Some (buf', pos', d)" "digits 10 (unat (n div 10)) = unat d # ds"
        "length buf' = length buf1" "unat pos' = unat (pos - 1) - length ds"
        "drop (unat pos') buf' = map dec_char ds @ drop (unat (pos - 1)) buf1" by auto
    have "dec_loop buf pos n = Some (buf', pos', d)"
      using True pb(1) r(1) by (subst dec_loop.simps) simp
    then show ?thesis using r(2-5) pb dg un c by (intro exI [of _ buf'] exI [of _ pos'] exI [of _ d] exI [of _ "ds @ [unat n mod 10]"]) simp
  qed
qed

lemma hex_loop_ok:
  assumes "length (digits 16 (unat u)) \<le> unat pos" "unat pos \<le> length buf"
    and "table = (if caps then hextable_caps else hextable)"
  shows "\<exists>buf' pos'. hex_loop buf pos table u = Some (buf', pos') \<and> length buf' = length buf
    \<and> unat pos' = unat pos - length (digits 16 (unat u))
    \<and> drop (unat pos') buf' = hex_text caps (unat u) @ drop (unat pos) buf"
  using assms
proof (induction buf pos table u rule: hex_loop.induct)
  case (1 buf pos table u)
  let ?c = "table ! unat (u mod 16)"
  have un: "unat (u div 16) = unat u div 16" "unat (u mod 16) = unat u mod 16"
    by (simp_all add: unat_div unat_mod)
  have c: "?c = hex_char caps (unat u mod 16)" using 1(4) by (simp add: hex_char_def un)
  have "0 < length (digits 16 (unat u))" by simp
  then have pos: "0 < unat pos" using 1(2) by (rule less_le_trans)
  with put_back_ok [OF this 1(3), of ?c] obtain buf1 where
    pb: "put_back buf pos ?c = Some (buf1, pos - 1)" "length buf1 = length buf"
      "drop (unat (pos - 1)) buf1 = ?c # drop (unat pos) buf" "unat (pos - 1) = unat pos - 1" by auto
  show ?case
  proof (cases "u div 16 = 0")
    case True
    then have "unat u div 16 = 0" using un(1) by simp
    then have "digits 16 (unat u) = [unat u mod 16]" by (simp add: digits_small div_eq_0_iff)
    then show ?thesis using True pb c by (subst hex_loop.simps) (simp add: hex_text_def)
  next
    case False
    then have "unat u div 16 \<noteq> 0" using un(1) by (metis unat_eq_zero)
    then have "16 \<le> unat u" by (simp add: div_eq_0_iff)
    then have dg: "digits 16 (unat u) = digits 16 (unat u div 16) @ [unat u mod 16]" by (simp add: digits_large)
    have "length (digits 16 (unat (u div 16))) \<le> unat (pos - 1)" "unat (pos - 1) \<le> length buf1"
      using 1(2,3) pb(2,4) dg un pos by simp_all
    from 1(1) [OF refl refl pb(1) refl False this 1(4)] obtain buf' pos' where
      r: "hex_loop buf1 (pos - 1) table (u div 16) = Some (buf', pos')" "length buf' = length buf1"
        "unat pos' = unat (pos - 1) - length (digits 16 (unat (u div 16)))"
        "drop (unat pos') buf' = hex_text caps (unat (u div 16)) @ drop (unat (pos - 1)) buf1" by auto
    have "hex_loop buf pos table u = Some (buf', pos')"
      using False pb(1) r(1) by (subst hex_loop.simps) (simp add: Let_def)
    then show ?thesis using r(2-4) pb dg un c by (simp add: hex_text_def)
  qed
qed

text \<open>No digit character is the terminator.\<close>

lemma dec_char_nz: "d < 10 \<Longrightarrow> dec_char d \<noteq> 0"
  by (auto simp: dec_char_def word_unat_eq_iff unat_word_ariths unsigned_of_nat take_bit_nat_eq_self)

lemma hex_char_nz:
  assumes "d < 16"
  shows "hex_char caps d \<noteq> 0"
proof -
  have "0 \<notin> set hextable" "0 \<notin> set hextable_caps" "length hextable = 16" "length hextable_caps = 16"
    by (simp_all add: hextable_def hextable_caps_def)
  then show ?thesis using assms nth_mem by (metis hex_char_def)
qed

lemma dec_text_nz: "0 \<notin> set (dec_text n)"
  using digits_range [of 10 _ n] dec_char_nz by (auto simp: dec_text_def)

lemma hex_text_nz: "0 \<notin> set (hex_text caps n)"
  using digits_range [of 16 _ n] hex_char_nz by (fastforce simp: hex_text_def)

lemma buf_str_eq:
  assumes "drop (unat pos) buf = ts @ 0 # rest" "0 \<notin> set ts"
  shows "buf_str buf pos = ts"
proof -
  have "takeWhile (\<lambda>b. b \<noteq> 0) (ts @ 0 # rest) = ts"
    using assms(2) by (induction ts) auto
  then show ?thesis using assms(1) by (simp add: buf_str_def)
qed

section \<open>Both conversions with the engine's buffer\<close>

text \<open>The number an argument stands for, and the sign character of its text.\<close>

definition num_value :: "u32 \<Rightarrow> u64 \<Rightarrow> int" where
  "num_value flag n = (if has_flag flag SIGNEDFLAG then sint n else uint n)"

definition sign_char :: "u32 \<Rightarrow> u64 \<Rightarrow> u8" where
  "sign_char flag n =
    (if num_value flag n < 0 then ch CHR ''-''
     else if has_flag flag SHOWSIGNFLAG then ch CHR ''+''
     else if has_flag flag BLANKPOSFLAG then ch CHR '' '' else 0)"

lemma unat_magnitude:
  fixes n :: u64
  shows "n <s 0 \<Longrightarrow> unat (- n) = nat (- sint n)" "\<not> n <s 0 \<Longrightarrow> unat n = nat (sint n)"
proof -
  have r: "- (2 ^ 63) \<le> sint n" "sint n < 2 ^ 63" using sint_greater_eq [of n] sint_less [of n] by simp_all
  have u: "uint n = sint n mod 2 ^ 64" by (simp add: uint_sint take_bit_eq_mod)
  then show "\<not> n <s 0 \<Longrightarrow> unat n = nat (sint n)"
    using r by (simp add: word_sless_alt unat_eq_nat_uint)
  have "uint (- n) = (- sint n) mod 2 ^ 64" by (simp add: uint_word_ariths u mod_minus_eq)
  then show "n <s 0 \<Longrightarrow> unat (- n) = nat (- sint n)"
    using r by (simp add: word_sless_alt unat_eq_nat_uint)
qed

lemma num_magnitude: "nat \<bar>num_value flag n\<bar> = unat (if num_value flag n < 0 then - n else n)"
  using unat_magnitude [of n] by (auto simp: num_value_def word_sless_alt)

lemma longlong_to_string_ok:
  assumes "length buf = 32"
  shows "\<exists>buf' pos. longlong_to_string buf n 32 flag = Some (buf', pos, sign_char flag n)
    \<and> length buf' = 32 \<and> 11 \<le> unat pos \<and> buf_str buf' pos = dec_text (nat \<bar>num_value flag n\<bar>)"
proof -
  let ?neg = "has_flag flag SIGNEDFLAG \<and> n <s 0"
  define n' where "n' = (if ?neg then - n else n)"
  have mag: "unat n' = nat \<bar>num_value flag n\<bar>"
    using unat_magnitude [of n] by (auto simp: n'_def num_value_def word_sless_alt)
  have neg: "?neg \<longleftrightarrow> num_value flag n < 0"
    by (auto simp: num_value_def word_sless_alt not_less)
  obtain buf1 where 1: "put_back buf 32 0 = Some (buf1, 31)" "length buf1 = 32" "drop 31 buf1 = [0]"
    using put_back_ok [of 32 buf 0] assms by auto
  have "length (digits 10 (unat n')) \<le> Suc (unat (31 :: u32))" "unat (31 :: u32) \<le> length buf1"
    using length_digits_dec [of n'] 1(2) by simp_all
  from dec_loop_ok [OF this] obtain buf2 pos2 d ds where
    2: "dec_loop buf1 31 n' = Some (buf2, pos2, d)" "digits 10 (unat n') = unat d # ds" "length buf2 = 32"
      "unat pos2 = 31 - length ds" "drop (unat pos2) buf2 = map dec_char ds @ [0]"
    using 1(2,3) by auto
  have len: "length ds \<le> 19" using length_digits_dec [of n'] 2(2) by simp
  then have p2: "0 < unat pos2" "unat pos2 \<le> length buf2" using 2(3,4) by simp_all
  obtain buf3 where 3: "put_back buf2 pos2 (ucast d + ch CHR ''0'') = Some (buf3, pos2 - 1)" "length buf3 = 32"
      "drop (unat (pos2 - 1)) buf3 = (ucast d + ch CHR ''0'') # map dec_char ds @ [0]" "unat (pos2 - 1) = unat pos2 - 1"
    using put_back_ok [of pos2 buf2 "ucast d + ch CHR ''0''"] 2(3,5) p2 by auto
  have "ucast d + ch CHR ''0'' = dec_char (unat d)" by (simp add: dec_char_def)
  then have "drop (unat (pos2 - 1)) buf3 = dec_text (unat n') @ 0 # []"
    using 3(3) 2(2) by (simp add: dec_text_def)
  then have "buf_str buf3 (pos2 - 1) = dec_text (unat n')" by (rule buf_str_eq [OF _ dec_text_nz])
  moreover have "longlong_to_string buf n 32 flag = Some (buf3, pos2 - 1, sign_char flag n)"
    unfolding longlong_to_string_def Let_def n'_def [symmetric] sign_char_def neg [symmetric]
    using 1(1) 2(1) 3(1) by simp
  ultimately show ?thesis using 3(2,4) 2(4) len mag by auto
qed

lemma longlong_to_hexstring_ok:
  assumes "length buf = 32"
  shows "\<exists>buf' pos. longlong_to_hexstring buf u 32 flag = Some (buf', pos)
    \<and> length buf' = 32 \<and> 15 \<le> unat pos \<and> buf_str buf' pos = hex_text (has_flag flag CAPSFLAG) (unat u)"
proof -
  obtain buf1 where 1: "put_back buf 32 0 = Some (buf1, 31)" "length buf1 = 32" "drop 31 buf1 = [0]"
    using put_back_ok [of 32 buf 0] assms by auto
  have "length (digits 16 (unat u)) \<le> unat (31 :: u32)" "unat (31 :: u32) \<le> length buf1"
    using length_digits_hex [of u] 1(2) by simp_all
  from hex_loop_ok [OF this refl, of "has_flag flag CAPSFLAG"] obtain buf2 pos2 where
    2: "hex_loop buf1 31 (if has_flag flag CAPSFLAG then hextable_caps else hextable) u = Some (buf2, pos2)"
      "length buf2 = 32" "unat pos2 = 31 - length (digits 16 (unat u))"
      "drop (unat pos2) buf2 = hex_text (has_flag flag CAPSFLAG) (unat u) @ 0 # []"
    using 1(2,3) by auto
  have "longlong_to_hexstring buf u 32 flag = Some (buf2, pos2)"
    using 1(1) 2(1) by (simp add: longlong_to_hexstring_def)
  then show ?thesis using 2 length_digits_hex [of u] buf_str_eq [OF 2(4) hex_text_nz] by simp
qed

section \<open>Properties\<close>

definition dec_digit :: "u8 \<Rightarrow> int" where "dec_digit c = uint c - 48"

definition hex_digit :: "u8 \<Rightarrow> int" where
  "hex_digit c = (if c \<le> 57 then uint c - 48 else if c \<le> 70 then uint c - 55 else uint c - 87)"

lemma foldl_digits:
  assumes "\<forall>d\<in>set ds. f (g d) = int d"
  shows "foldl (\<lambda>v c. v * int b + f c) (int k) (map g ds) = int (foldl (\<lambda>v d. v * b + d) k ds)"
  using assms
proof (induction ds arbitrary: k)
  case (Cons d ds)
  then show ?case using Cons.IH [of "k * b + d"] by simp
qed simp

lemma dec_char_props:
  assumes "d < 10"
  shows "unat (dec_char d) = 48 + d" "dec_digit (dec_char d) = int d" "48 \<le> dec_char d" "dec_char d \<le> 57"
    "dec_char d = 48 \<longleftrightarrow> d = 0"
proof -
  show u: "unat (dec_char d) = 48 + d"
    using assms by (simp add: dec_char_def unat_word_ariths unsigned_of_nat take_bit_nat_eq_self)
  then have "uint (dec_char d) = int (48 + d)" by (metis uint_nat)
  then show "dec_digit (dec_char d) = int d" by (simp add: dec_digit_def)
  show "48 \<le> dec_char d" "dec_char d \<le> 57" "dec_char d = 48 \<longleftrightarrow> d = 0"
    using u assms by (auto simp: word_le_nat_alt word_unat_eq_iff)
qed

lemma hex_char_props:
  assumes "d < 16"
  shows "hex_digit (hex_char caps d) = int d" "hex_char caps d = 48 \<longleftrightarrow> d = 0"
    "hex_char caps d \<in> set (if caps then hextable_caps else hextable)"
proof -
  have *: "map hex_digit hextable = map int [0..<16]" "map hex_digit hextable_caps = map int [0..<16]"
    "map (\<lambda>c. c = 48) hextable = True # replicate 15 False" "map (\<lambda>c. c = 48) hextable_caps = True # replicate 15 False"
    by code_simp+
  have l: "length hextable = 16" "length hextable_caps = 16" by (simp_all add: hextable_def hextable_caps_def)
  have "map hex_digit hextable ! d = int d" "map hex_digit hextable_caps ! d = int d"
    using assms by (simp_all add: *)
  then show "hex_digit (hex_char caps d) = int d" using assms l by (auto simp: hex_char_def)
  have "map (\<lambda>c. c = 48) hextable ! d = (d = 0)" "map (\<lambda>c. c = 48) hextable_caps ! d = (d = 0)"
    unfolding *(3,4) using assms by (cases d; simp)+
  then show "hex_char caps d = 48 \<longleftrightarrow> d = 0" using assms l by (auto simp: hex_char_def)
  show "hex_char caps d \<in> set (if caps then hextable_caps else hextable)" using assms l by (simp add: hex_char_def)
qed

lemma text_no_leading_zero:
  assumes "2 \<le> b" "hd (digits b n) = 0"
  shows "digits b n = [0]"
  using digits_no_leading_zero [OF assms] assms(1) by (simp add: digits_small)

text \<open>
  Decimal conversion, for every 64-bit value and every combination of flags, in the 32-byte
  buffer of the engine: no store leaves the buffer, and the text it returns is 1 to 20 decimal
  digits without a leading zero (0 is the one digit 0) that read back as the magnitude of the
  number, with the sign character as the flags ask; the most negative number included.
\<close>

theorem decimal_text:
  assumes "length buf = 32"
  shows "\<exists>buf' pos t. longlong_to_string buf n 32 flag = Some (buf', pos, sign_char flag n)
    \<and> length buf' = 32 \<and> t = buf_str buf' pos \<and> t \<noteq> [] \<and> length t \<le> 20
    \<and> (\<forall>c\<in>set t. 48 \<le> c \<and> c \<le> 57) \<and> (hd t = 48 \<longrightarrow> t = [48])
    \<and> foldl (\<lambda>v c. v * 10 + dec_digit c) 0 t = \<bar>num_value flag n\<bar>"
proof -
  let ?k = "nat \<bar>num_value flag n\<bar>"
  obtain buf' pos where r: "longlong_to_string buf n 32 flag = Some (buf', pos, sign_char flag n)"
      "length buf' = 32" "11 \<le> unat pos" "buf_str buf' pos = dec_text ?k"
    using longlong_to_string_ok [OF assms] by blast
  have "length (dec_text ?k) \<le> 20"
    unfolding num_magnitude dec_text_def using length_digits_dec by simp
  moreover have dig: "\<forall>d\<in>set (digits 10 ?k). d < 10" using digits_range by auto
  then have "\<forall>c\<in>set (dec_text ?k). 48 \<le> c \<and> c \<le> 57"
    by (auto simp: dec_text_def dec_char_props)
  moreover have "dec_text ?k = [48]" if h: "hd (dec_text ?k) = 48"
  proof -
    have "hd (digits 10 ?k) < 10" using dig hd_in_set digits_ne by metis
    then have "hd (digits 10 ?k) = 0" using h by (simp add: dec_text_def hd_map dec_char_props)
    then show ?thesis using text_no_leading_zero [of 10 ?k] by (simp add: dec_text_def dec_char_def)
  qed
  moreover have "foldl (\<lambda>v c. v * int 10 + dec_digit c) (int 0) (dec_text ?k) = int ?k"
    unfolding dec_text_def using digits_value_digits [of 10 ?k] dig
    by (subst foldl_digits) (auto simp: digits_value_def dec_char_props)
  ultimately show ?thesis using r by (intro exI conjI) (auto simp: dec_text_def)
qed

theorem decimal_text_witness:
  "\<exists>buf' pos t. longlong_to_string (replicate 32 0) (2 ^ 63) 32 SIGNEDFLAG = Some (buf', pos, 45)
    \<and> t = buf_str buf' pos \<and> foldl (\<lambda>v c. v * 10 + dec_digit c) 0 t = 9223372036854775808"
proof -
  have "sign_char SIGNEDFLAG (2 ^ 63) = 45" "\<bar>num_value SIGNEDFLAG (2 ^ 63)\<bar> = 9223372036854775808" by code_simp+
  then show ?thesis using decimal_text [of "replicate 32 0" "2 ^ 63" SIGNEDFLAG] by force
qed

text \<open>
  Hexadecimal conversion likewise: no store leaves the 32-byte buffer, and the text is 1 to
  16 digits of the alphabet the flag selects, without a leading zero, reading back as the value.
\<close>

theorem hexadecimal_text:
  assumes "length buf = 32"
  shows "\<exists>buf' pos t. longlong_to_hexstring buf u 32 flag = Some (buf', pos)
    \<and> length buf' = 32 \<and> t = buf_str buf' pos \<and> t \<noteq> [] \<and> length t \<le> 16
    \<and> set t \<subseteq> set (if has_flag flag CAPSFLAG then hextable_caps else hextable) \<and> (hd t = 48 \<longrightarrow> t = [48])
    \<and> foldl (\<lambda>v c. v * 16 + hex_digit c) 0 t = uint u"
proof -
  let ?caps = "has_flag flag CAPSFLAG" and ?k = "unat u"
  obtain buf' pos where r: "longlong_to_hexstring buf u 32 flag = Some (buf', pos)"
      "length buf' = 32" "buf_str buf' pos = hex_text ?caps ?k"
    using longlong_to_hexstring_ok [OF assms] by blast
  have dig: "\<forall>d\<in>set (digits 16 ?k). d < 16" using digits_range by auto
  then have "set (hex_text ?caps ?k) \<subseteq> set (if ?caps then hextable_caps else hextable)"
    using hex_char_props(3) [of _ ?caps] by (auto simp only: hex_text_def set_map)
  moreover have "hex_text ?caps ?k = [48]" if h: "hd (hex_text ?caps ?k) = 48"
  proof -
    have "hd (digits 16 ?k) < 16" using dig hd_in_set digits_ne by metis
    then have "hd (digits 16 ?k) = 0" using h by (simp add: hex_text_def hd_map hex_char_props)
    moreover have "hex_char ?caps 0 = 48" by (simp add: hex_char_props)
    ultimately show ?thesis using text_no_leading_zero [of 16 ?k] by (simp add: hex_text_def)
  qed
  moreover have "foldl (\<lambda>v c. v * int 16 + hex_digit c) (int 0) (hex_text ?caps ?k) = int ?k"
    unfolding hex_text_def using digits_value_digits [of 16 ?k] dig
    by (subst foldl_digits) (auto simp: digits_value_def hex_char_props)
  ultimately show ?thesis using r length_digits_hex [of u] by (intro exI conjI) (auto simp: hex_text_def)
qed

theorem hexadecimal_text_witness:
  "\<exists>buf' pos. longlong_to_hexstring (replicate 32 0) 0xDEADBEEF 32 CAPSFLAG = Some (buf', pos)
    \<and> foldl (\<lambda>v c. v * 16 + hex_digit c) 0 (buf_str buf' pos) = 0xDEADBEEF"
  using hexadecimal_text [of "replicate 32 0" "0xDEADBEEF" CAPSFLAG] by force

end
