(* ===== verification/Printf.thy ===== *)
theory Printf
  imports Numbers CString
begin

text \<open>
  The printf engine, \<^verbatim>\<open>printf.c\<close>, with \<^verbatim>\<open>FLOAT_PRINTF\<close> off as in the build. The format
  and the arguments are read from memory; a \<^verbatim>\<open>va_list\<close> is the address of the next argument
  word, as on i386 (an \<^verbatim>\<open>int\<close> or pointer is one word, a \<^verbatim>\<open>long long\<close> two, low word first). The
  output function pointer is a function \<open>out\<close> of the bytes it is given, the memory and its own
  state. A \<^verbatim>\<open>goto exit\<close> is \<open>Inl\<close>; a loop that does not end, or a store outside the number
  buffer, is \<open>None\<close>.
\<close>

section \<open>State\<close>

type_synonym 's sink = "u8 list \<Rightarrow> mem \<Rightarrow> 's \<Rightarrow> u32 \<times> mem \<times> 's"

record 's pst =
  pmem :: mem
  pout :: 's
  pap :: addr
  perr :: u32
  pwritten :: u32
  pbuf :: "u8 list"

definition or_exit :: "'s pst + 's pst \<Rightarrow> ('s pst \<Rightarrow> 's pst + 's pst) \<Rightarrow> 's pst + 's pst" where
  "or_exit r f = (case r of Inl st \<Rightarrow> Inl st | Inr st \<Rightarrow> f st)"

definition mem_bytes :: "mem \<Rightarrow> addr \<Rightarrow> nat \<Rightarrow> u8 list" where
  "mem_bytes m p n = map (\<lambda>i. m (p + of_nat i)) [0..<n]"

section \<open>Output\<close>

definition output_string :: "'s sink \<Rightarrow> u8 list \<Rightarrow> 's pst \<Rightarrow> 's pst + 's pst" where
  "output_string out bs st =
    (case out bs (pmem st) (pout st) of (err, m, s) \<Rightarrow>
      let st = st\<lparr>pmem := m, pout := s, perr := err\<rparr>
      in if err <s 0 then Inl st else Inr (st\<lparr>pwritten := pwritten st + err\<rparr>))"

definition output_char :: "'s sink \<Rightarrow> u8 \<Rightarrow> 's pst \<Rightarrow> 's pst + 's pst" where
  "output_char out c st = output_string out [c] st"

text \<open>\<^verbatim>\<open>for (; format_num > limit; format_num--)\<close> with one character of output each time.\<close>

function (sequential) pad_loop :: "'s sink \<Rightarrow> u8 \<Rightarrow> u32 \<Rightarrow> u32 \<Rightarrow> 's pst \<Rightarrow> 's pst + 's pst" where
  "pad_loop out c format_num limit st =
    (if format_num > limit then
       (case output_char out c st of Inl st \<Rightarrow> Inl st
        | Inr st \<Rightarrow> pad_loop out c (format_num - 1) limit st)
     else Inr st)"
  by pat_completeness auto
termination
proof (relation "measure (\<lambda>(_, _, format_num, _, _). unat format_num)")
  show "((out', c', n - 1, limit', st'), (out, c, n, limit, st))
      \<in> measure (\<lambda>(_, _, format_num, _, _). unat format_num)" if "n > limit" for out out' :: "'s sink"
    and c c' and n limit limit' :: u32 and st st' :: "'s pst"
  proof -
    have "n \<noteq> 0" using that by auto
    then show ?thesis by (simp add: unat_minus_one unat_gt_0)
  qed
qed auto

text \<open>The code shared by the conversions from the label \<^verbatim>\<open>_output_string\<close> on.\<close>

definition output_field :: "'s sink \<Rightarrow> u32 \<Rightarrow> u32 \<Rightarrow> u8 \<Rightarrow> u8 list \<Rightarrow> 's pst \<Rightarrow> 's pst + 's pst" where
  "output_field out flags format_num signchar s st =
    (let string_len = of_nat (length s) in
     if has_flag flags LEFTFORMATFLAG then
       or_exit (output_string out s st) (\<lambda>st.
         let written = perr st in pad_loop out (ch CHR '' '') format_num written st)
     else
       (let format_num = (if signchar \<noteq> 0 \<and> format_num > 0 then format_num - 1 else format_num)
        in or_exit (if has_flag flags LEADZEROFLAG \<and> signchar \<noteq> 0 then output_char out signchar st else Inr st) (\<lambda>st.
           or_exit (pad_loop out (if has_flag flags LEADZEROFLAG then ch CHR ''0'' else ch CHR '' '') format_num string_len st) (\<lambda>st.
           or_exit (if \<not> has_flag flags LEADZEROFLAG \<and> signchar \<noteq> 0 then output_char out signchar st else Inr st) (\<lambda>st.
           output_string out s st)))))"

section \<open>Arguments\<close>

definition va_int :: "mem \<Rightarrow> addr \<Rightarrow> u32 \<times> addr" where
  "va_int m ap = (ld32 m ap, ap + 4)"

definition va_longlong :: "mem \<Rightarrow> addr \<Rightarrow> u64 \<times> addr" where
  "va_longlong m ap = (push_bit 32 (ucast (ld32 m (ap + 4))) OR ucast (ld32 m ap), ap + 8)"

definition signed_arg :: "u32 \<Rightarrow> mem \<Rightarrow> addr \<Rightarrow> u64 \<times> addr" where
  "signed_arg flags m ap =
    (if has_flag flags LONGLONGFLAG then va_longlong m ap
     else if has_flag flags LONGFLAG then (case va_int m ap of (x, ap) \<Rightarrow> (scast x, ap))
     else if has_flag flags HALFHALFFLAG then (case va_int m ap of (x, ap) \<Rightarrow> (scast (ucast x :: u8), ap))
     else if has_flag flags HALFFLAG then (case va_int m ap of (x, ap) \<Rightarrow> (scast (ucast x :: u16), ap))
     else if has_flag flags SIZETFLAG then (case va_int m ap of (x, ap) \<Rightarrow> (scast x, ap))
     else if has_flag flags INTMAXFLAG then va_longlong m ap
     else if has_flag flags PTRDIFFFLAG then (case va_int m ap of (x, ap) \<Rightarrow> (scast x, ap))
     else (case va_int m ap of (x, ap) \<Rightarrow> (scast x, ap)))"

definition unsigned_arg :: "u32 \<Rightarrow> mem \<Rightarrow> addr \<Rightarrow> u64 \<times> addr" where
  "unsigned_arg flags m ap =
    (if has_flag flags LONGLONGFLAG then va_longlong m ap
     else if has_flag flags LONGFLAG then (case va_int m ap of (x, ap) \<Rightarrow> (ucast x, ap))
     else if has_flag flags HALFHALFFLAG then (case va_int m ap of (x, ap) \<Rightarrow> (ucast (ucast x :: u8), ap))
     else if has_flag flags HALFFLAG then (case va_int m ap of (x, ap) \<Rightarrow> (ucast (ucast x :: u16), ap))
     else if has_flag flags SIZETFLAG then (case va_int m ap of (x, ap) \<Rightarrow> (ucast x, ap))
     else if has_flag flags INTMAXFLAG then va_longlong m ap
     else if has_flag flags PTRDIFFFLAG then (case va_int m ap of (x, ap) \<Rightarrow> (ucast x, ap))
     else (case va_int m ap of (x, ap) \<Rightarrow> (ucast x, ap)))"

text \<open>What \<^verbatim>\<open>%n\<close> stores.\<close>

definition store_count :: "u32 \<Rightarrow> mem \<Rightarrow> addr \<Rightarrow> u32 \<Rightarrow> mem" where
  "store_count flags m ptr chars_written =
    (if has_flag flags LONGLONGFLAG then st32 (st32 m ptr chars_written) (ptr + 4) 0
     else if has_flag flags LONGFLAG then st32 m ptr chars_written
     else if has_flag flags HALFHALFFLAG then m(ptr := ucast chars_written)
     else if has_flag flags HALFFLAG then st16 m ptr (ucast chars_written)
     else if has_flag flags SIZETFLAG then st32 m ptr chars_written
     else st32 m ptr chars_written)"

section \<open>The format\<close>

text \<open>A character that only changes the format state (and jumps back to \<^verbatim>\<open>next_format\<close>).\<close>

definition format_char :: "u8 \<Rightarrow> u32 \<Rightarrow> u32 \<Rightarrow> (u32 \<times> u32) option" where
  "format_char c flags format_num =
    (if ch CHR ''0'' \<le> c \<and> c \<le> ch CHR ''9'' then
       Some (if c = ch CHR ''0'' \<and> format_num = 0 then flags OR LEADZEROFLAG else flags,
             format_num * 10 + (ucast c - 48))
     else if c = ch CHR ''.'' then Some (flags, format_num)
     else if c = ch CHR ''-'' then Some (flags OR LEFTFORMATFLAG, format_num)
     else if c = ch CHR ''+'' then Some (flags OR SHOWSIGNFLAG, format_num)
     else if c = ch CHR '' '' then Some (flags OR BLANKPOSFLAG, format_num)
     else if c = ch CHR ''#'' then Some (flags OR ALTFLAG, format_num)
     else if c = ch CHR ''l'' then
       (let flags = (if has_flag flags LONGFLAG then flags OR LONGLONGFLAG else flags)
        in Some (flags OR LONGFLAG, format_num))
     else if c = ch CHR ''h'' then
       (let flags = (if has_flag flags HALFFLAG then flags OR HALFHALFFLAG else flags)
        in Some (flags OR HALFFLAG, format_num))
     else if c = ch CHR ''z'' then Some (flags OR SIZETFLAG, format_num)
     else if c = ch CHR ''j'' then Some (flags OR INTMAXFLAG, format_num)
     else if c = ch CHR ''t'' then Some (flags OR PTRDIFFFLAG, format_num)
     else None)"

partial_function (option) parse_format :: "mem \<Rightarrow> addr \<Rightarrow> u32 \<Rightarrow> u32 \<Rightarrow> (u8 \<times> addr \<times> u32 \<times> u32) option" where
  "parse_format m fmt flags format_num =
    (let c = m fmt; fmt = fmt + 1
     in if c = 0 then Some (c, fmt, flags, format_num)
        else (case format_char c flags format_num of
            None \<Rightarrow> Some (c, fmt, flags, format_num)
          | Some (flags, format_num) \<Rightarrow> parse_format m fmt flags format_num))"

text \<open>The literal text up to the next \<^verbatim>\<open>%\<close> or the end: the character that stopped it, the
  address after it and the length.\<close>

partial_function (option) scan_literal :: "mem \<Rightarrow> addr \<Rightarrow> u32 \<Rightarrow> (u8 \<times> addr \<times> u32) option" where
  "scan_literal m fmt string_len =
    (let c = m fmt; fmt = fmt + 1
     in if c = 0 then Some (c, fmt, string_len)
        else if c = ch CHR ''%'' then Some (c, fmt, string_len)
        else scan_literal m fmt (string_len + 1))"

section \<open>The conversions\<close>

definition null_text :: "u8 list" where "null_text = map ch ''<null>''"

definition conv_hex :: "'s sink \<Rightarrow> u32 \<Rightarrow> u32 \<Rightarrow> 's pst \<Rightarrow> ('s pst + 's pst) option" where
  "conv_hex out flags format_num st =
    (case unsigned_arg flags (pmem st) (pap st) of (n, ap) \<Rightarrow>
     Option.bind (longlong_to_hexstring (pbuf st) n 32 flags) (\<lambda>(buf, pos).
       let st = st\<lparr>pap := ap, pbuf := buf\<rparr>
       in Some (or_exit (if has_flag flags ALTFLAG then
                 or_exit (output_char out (ch CHR ''0'') st)
                   (output_char out (if has_flag flags CAPSFLAG then ch CHR ''X'' else ch CHR ''x''))
               else Inr st)
             (output_field out flags format_num 0 (buf_str buf pos)))))"

definition conv_dec :: "'s sink \<Rightarrow> u32 \<Rightarrow> u32 \<Rightarrow> u64 \<times> addr \<Rightarrow> 's pst \<Rightarrow> ('s pst + 's pst) option" where
  "conv_dec out flags format_num arg st =
    (case arg of (n, ap) \<Rightarrow>
     Option.bind (longlong_to_string (pbuf st) n 32 flags) (\<lambda>(buf, pos, signchar).
       Some (output_field out flags format_num signchar (buf_str buf pos) (st\<lparr>pap := ap, pbuf := buf\<rparr>))))"

definition conv_str :: "'s sink \<Rightarrow> u32 \<Rightarrow> u32 \<Rightarrow> 's pst \<Rightarrow> ('s pst + 's pst) option" where
  "conv_str out flags format_num st =
    (case va_int (pmem st) (pap st) of (s, ap) \<Rightarrow>
       let st = st\<lparr>pap := ap\<rparr>; flags = flags AND NOT LEADZEROFLAG
       in if s = 0 then Some (output_field out flags format_num 0 null_text st)
          else Option.bind (strlen (pmem st) s) (\<lambda>n.
            Some (output_field out flags format_num 0 (mem_bytes (pmem st) s (unat n)) st)))"

definition convert :: "'s sink \<Rightarrow> u8 \<Rightarrow> u32 \<Rightarrow> u32 \<Rightarrow> 's pst \<Rightarrow> ('s pst + 's pst) option" where
  "convert out c flags format_num st =
    (if c = ch CHR ''%'' then Some (output_char out (ch CHR ''%'') st)
     else if c = ch CHR ''c'' then
       (case va_int (pmem st) (pap st) of (uc, ap) \<Rightarrow> Some (output_char out (ucast uc) (st\<lparr>pap := ap\<rparr>)))
     else if c = ch CHR ''s'' then conv_str out flags format_num st
     else if c = ch CHR ''i'' \<or> c = ch CHR ''d'' then
       conv_dec out (flags OR SIGNEDFLAG) format_num (signed_arg flags (pmem st) (pap st)) st
     else if c = ch CHR ''u'' then
       conv_dec out flags format_num (unsigned_arg flags (pmem st) (pap st)) st
     else if c = ch CHR ''p'' then conv_hex out (flags OR (LONGFLAG OR ALTFLAG)) format_num st
     else if c = ch CHR ''X'' then conv_hex out (flags OR CAPSFLAG) format_num st
     else if c = ch CHR ''x'' then conv_hex out flags format_num st
     else if c = ch CHR ''n'' then
       (case va_int (pmem st) (pap st) of (ptr, ap) \<Rightarrow>
          Some (Inr (st\<lparr>pap := ap, pmem := store_count flags (pmem st) ptr (pwritten st)\<rparr>)))
     else Some (or_exit (output_char out (ch CHR ''%'') st) (output_char out c)))"

section \<open>The engine\<close>

partial_function (option) engine_loop :: "'s sink \<Rightarrow> addr \<Rightarrow> 's pst \<Rightarrow> 's pst option" where
  "engine_loop out fmt st =
    Option.bind (scan_literal (pmem st) fmt 0) (\<lambda>(c, fmt', string_len).
      case output_string out (mem_bytes (pmem st) fmt (unat string_len)) st of
        Inl st \<Rightarrow> Some st
      | Inr st \<Rightarrow>
        if c = 0 then Some st
        else Option.bind (parse_format (pmem st) fmt' 0 0) (\<lambda>(c, fmt', flags, format_num).
          if c = 0 then Some st
          else Option.bind (convert out c flags format_num st) (\<lambda>r.
            case r of Inl st \<Rightarrow> Some st | Inr st \<Rightarrow> engine_loop out fmt' st)))"

definition printf_engine :: "'s sink \<Rightarrow> 's \<Rightarrow> mem \<Rightarrow> addr \<Rightarrow> addr \<Rightarrow> (u32 \<times> mem \<times> 's) option" where
  "printf_engine out s m fmt ap =
    map_option (\<lambda>st. (if perr st <s 0 then perr st else pwritten st, pmem st, pout st))
      (engine_loop out fmt \<lparr>pmem = m, pout = s, pap = ap, perr = 0, pwritten = 0, pbuf = replicate 32 0\<rparr>)"

section \<open>Printing to memory\<close>

record output_args =
  outstr :: addr
  olen :: u32
  opos :: u32

fun vsnprintf_output :: "u8 list \<Rightarrow> mem \<Rightarrow> output_args \<Rightarrow> u32 \<times> mem \<times> output_args" where
  "vsnprintf_output [] m args = (0, m, args)"
| "vsnprintf_output (c # cs) m args =
    (let (m, args) =
           (if opos args < olen args
            then (m(outstr args + opos args := c), args\<lparr>opos := opos args + 1\<rparr>) else (m, args));
         (count, m, args) = vsnprintf_output cs m args
     in (count + 1, m, args))"

definition vsnprintf :: "mem \<Rightarrow> addr \<Rightarrow> u32 \<Rightarrow> addr \<Rightarrow> addr \<Rightarrow> (u32 \<times> mem) option" where
  "vsnprintf m str len fmt ap =
    Option.bind (printf_engine vsnprintf_output \<lparr>outstr = str, olen = len, opos = 0\<rparr> m fmt ap) (\<lambda>(wlen, m, args).
      let m = (if opos args \<ge> len then m(str + (len - 1) := 0) else m(str + wlen := 0))
      in Some (wlen, m))"

definition INT_MAX :: u32 where "INT_MAX = 0x7FFFFFFF"

definition vsprintf :: "mem \<Rightarrow> addr \<Rightarrow> addr \<Rightarrow> addr \<Rightarrow> (u32 \<times> mem) option" where
  "vsprintf m str fmt ap = vsnprintf m str INT_MAX fmt ap"

text \<open>The variadic functions start \<open>ap\<close> at their first unnamed argument.\<close>

definition snprintf :: "mem \<Rightarrow> addr \<Rightarrow> u32 \<Rightarrow> addr \<Rightarrow> addr \<Rightarrow> (u32 \<times> mem) option" where
  "snprintf m str len fmt ap = vsnprintf m str len fmt ap"

definition sprintf :: "mem \<Rightarrow> addr \<Rightarrow> addr \<Rightarrow> addr \<Rightarrow> (u32 \<times> mem) option" where
  "sprintf m str fmt ap = vsprintf m str fmt ap"

end
