(* ===== verification/PrintfSpec.thy ===== *)
theory PrintfSpec
  imports Printf
begin

text \<open>
  What \<^verbatim>\<open>printf\<close> promises. A format is described by its pieces (literal text and directives
  with the arguments they consume) and \<open>fmt_spelled\<close> relates it to its spellings in C. \<open>fmt_shown\<close> is
  what the code prints for it, \<open>fmt_std\<close> what ISO C asks for, and \<open>conforms\<close> says for which directives the
  two agree. \<open>fmt_text\<close> is \<open>fmt_shown\<close> where no number with a sign is left-justified (\<open>sign_kept\<close>), as in all
  the kernel's own messages.
\<close>

section \<open>Directives\<close>

datatype lenmod = LInt | LLong | LLongLong | LHalf | LHalfHalf | LSize | LMax | LPtrdiff

record fspec =
  fleft :: bool
  fzero :: bool
  fplus :: bool
  fblank :: bool
  falt :: bool
  fwidth :: u32
  flen :: lenmod

datatype directive =
    Dec fspec u64
  | Uns fspec u64
  | Hex bool fspec u64
  | Ptr u32
  | Str fspec addr "u8 list"
  | Chr u32
  | Percent

text \<open>The spelling.\<close>

fun len_mods :: "lenmod \<Rightarrow> u8 list" where
  "len_mods LInt = []"
| "len_mods LLong = [ch CHR ''l'']"
| "len_mods LLongLong = [ch CHR ''l'', ch CHR ''l'']"
| "len_mods LHalf = [ch CHR ''h'']"
| "len_mods LHalfHalf = [ch CHR ''h'', ch CHR ''h'']"
| "len_mods LSize = [ch CHR ''z'']"
| "len_mods LMax = [ch CHR ''j'']"
| "len_mods LPtrdiff = [ch CHR ''t'']"

text \<open>The flag characters come in any order and any number, then the width, then the length modifier.\<close>

definition flags_spelled :: "fspec \<Rightarrow> u8 list \<Rightarrow> bool" where
  "flags_spelled f fl \<longleftrightarrow> set fl \<subseteq> set (map ch ''-+ #0'')
     \<and> (ch CHR ''-'' \<in> set fl \<longleftrightarrow> fleft f) \<and> (ch CHR ''+'' \<in> set fl \<longleftrightarrow> fplus f)
     \<and> (ch CHR '' '' \<in> set fl \<longleftrightarrow> fblank f) \<and> (ch CHR ''#'' \<in> set fl \<longleftrightarrow> falt f)
     \<and> (ch CHR ''0'' \<in> set fl \<longleftrightarrow> fzero f)"

definition width_mods :: "fspec \<Rightarrow> u8 list" where
  "width_mods f = (if fwidth f = 0 then [] else dec_text (unat (fwidth f))) @ len_mods (flen f)"

definition mods_spelled :: "fspec \<Rightarrow> u8 list \<Rightarrow> bool" where
  "mods_spelled f ms \<longleftrightarrow> (\<exists>fl. ms = fl @ width_mods f \<and> flags_spelled f fl)"

text \<open>The modifiers and the conversion character of a directive.\<close>

fun dir_spelled :: "directive \<Rightarrow> u8 list \<Rightarrow> u8 \<Rightarrow> bool" where
  "dir_spelled (Dec f x) ms c \<longleftrightarrow> mods_spelled f ms \<and> c \<in> {ch CHR ''d'', ch CHR ''i''}"
| "dir_spelled (Uns f x) ms c \<longleftrightarrow> mods_spelled f ms \<and> c = ch CHR ''u''"
| "dir_spelled (Hex caps f x) ms c \<longleftrightarrow> mods_spelled f ms \<and> c = (if caps then ch CHR ''X'' else ch CHR ''x'')"
| "dir_spelled (Ptr x) ms c \<longleftrightarrow> ms = [] \<and> c = ch CHR ''p''"
| "dir_spelled (Str f p s) ms c \<longleftrightarrow> mods_spelled f ms \<and> c = ch CHR ''s''"
| "dir_spelled (Chr x) ms c \<longleftrightarrow> ms = [] \<and> c = ch CHR ''c''"
| "dir_spelled Percent ms c \<longleftrightarrow> ms = [] \<and> c = ch CHR ''%''"

fun fmt_spelled :: "(u8 list \<times> directive) list \<Rightarrow> u8 list \<Rightarrow> u8 list \<Rightarrow> bool" where
  "fmt_spelled [] l bs \<longleftrightarrow> bs = l @ [0]"
| "fmt_spelled ((p, d) # ds) l bs \<longleftrightarrow>
     (\<exists>ms c rest. bs = p @ ch CHR ''%'' # ms @ c # rest \<and> dir_spelled d ms c \<and> fmt_spelled ds l rest)"

text \<open>One conversion character of each directive.\<close>

fun dir_conv :: "directive \<Rightarrow> u8" where
  "dir_conv (Dec f x) = ch CHR ''d''"
| "dir_conv (Uns f x) = ch CHR ''u''"
| "dir_conv (Hex caps f x) = (if caps then ch CHR ''X'' else ch CHR ''x'')"
| "dir_conv (Ptr x) = ch CHR ''p''"
| "dir_conv (Str f p s) = ch CHR ''s''"
| "dir_conv (Chr c) = ch CHR ''c''"
| "dir_conv Percent = ch CHR ''%''"

text \<open>The argument words.\<close>

definition num_words :: "lenmod \<Rightarrow> u64 \<Rightarrow> u32 list" where
  "num_words l x = (if l \<in> {LLongLong, LMax} then [ucast x, ucast (drop_bit 32 x)] else [ucast x])"

fun dir_words :: "directive \<Rightarrow> u32 list" where
  "dir_words (Dec f x) = num_words (flen f) x"
| "dir_words (Uns f x) = num_words (flen f) x"
| "dir_words (Hex caps f x) = num_words (flen f) x"
| "dir_words (Ptr x) = [x]"
| "dir_words (Str f p s) = [p]"
| "dir_words (Chr c) = [c]"
| "dir_words Percent = []"

section \<open>The text\<close>

text \<open>The value of an argument of the type the length modifier names.\<close>

definition signed_value :: "lenmod \<Rightarrow> u64 \<Rightarrow> int" where
  "signed_value l x = (case l of LLongLong \<Rightarrow> sint x | LMax \<Rightarrow> sint x | LHalfHalf \<Rightarrow> sint (ucast x :: u8)
     | LHalf \<Rightarrow> sint (ucast x :: u16) | _ \<Rightarrow> sint (ucast x :: u32))"

definition unsigned_value :: "lenmod \<Rightarrow> u64 \<Rightarrow> nat" where
  "unsigned_value l x = (case l of LLongLong \<Rightarrow> unat x | LMax \<Rightarrow> unat x | LHalfHalf \<Rightarrow> unat (ucast x :: u8)
     | LHalf \<Rightarrow> unat (ucast x :: u16) | _ \<Rightarrow> unat (ucast x :: u32))"

text \<open>Sign, padding and body of a field: the body and its sign are never cut, the width is a minimum.\<close>

definition field_text :: "bool \<Rightarrow> bool \<Rightarrow> nat \<Rightarrow> u8 list \<Rightarrow> u8 list \<Rightarrow> u8 list" where
  "field_text left zero width sign s =
    (let pad = width - (length sign + length s)
     in if left then sign @ s @ replicate pad (ch CHR '' '')
        else if zero then sign @ replicate pad (ch CHR ''0'') @ s
        else replicate pad (ch CHR '' '') @ sign @ s)"

definition sign_text :: "fspec \<Rightarrow> int \<Rightarrow> u8 list" where
  "sign_text f v = (if v < 0 then [ch CHR ''-''] else if fplus f then [ch CHR ''+'']
     else if fblank f then [ch CHR '' ''] else [])"

text \<open>
  What the code prints for a field: like \<open>field_text\<close>, except that a left-justified field is
  printed without its sign character.
\<close>

definition field_shown :: "bool \<Rightarrow> bool \<Rightarrow> nat \<Rightarrow> u8 list \<Rightarrow> u8 list \<Rightarrow> u8 list" where
  "field_shown left zero width sign s = field_text left zero width (if left then [] else sign) s"

fun dir_text_by :: "(bool \<Rightarrow> bool \<Rightarrow> nat \<Rightarrow> u8 list \<Rightarrow> u8 list \<Rightarrow> u8 list) \<Rightarrow> directive \<Rightarrow> u8 list" where
  "dir_text_by field (Dec f x) = (let v = signed_value (flen f) x
     in field (fleft f) (fzero f) (unat (fwidth f)) (sign_text f v) (dec_text (nat \<bar>v\<bar>)))"
| "dir_text_by field (Uns f x) = (let v = unsigned_value (flen f) x
     in field (fleft f) (fzero f) (unat (fwidth f)) (sign_text f (int v)) (dec_text v))"
| "dir_text_by field (Hex caps f x) =
     (if falt f then [ch CHR ''0'', if caps then ch CHR ''X'' else ch CHR ''x''] else []) @
     field (fleft f) (fzero f) (unat (fwidth f)) [] (hex_text caps (unsigned_value (flen f) x))"
| "dir_text_by field (Ptr x) = [ch CHR ''0'', ch CHR ''x''] @ hex_text False (unat x)"
| "dir_text_by field (Str f p s) = field (fleft f) False (unat (fwidth f)) [] s"
| "dir_text_by field (Chr c) = [ucast c]"
| "dir_text_by field Percent = [ch CHR ''%'']"

abbreviation "dir_text \<equiv> dir_text_by field_text"
abbreviation "dir_shown \<equiv> dir_text_by field_shown"

fun fmt_text_by :: "(bool \<Rightarrow> bool \<Rightarrow> nat \<Rightarrow> u8 list \<Rightarrow> u8 list \<Rightarrow> u8 list) \<Rightarrow>
    (u8 list \<times> directive) list \<Rightarrow> u8 list \<Rightarrow> u8 list" where
  "fmt_text_by field [] l = l"
| "fmt_text_by field ((p, d) # ds) l = p @ dir_text_by field d @ fmt_text_by field ds l"

abbreviation "fmt_text \<equiv> fmt_text_by field_text"
abbreviation "fmt_shown \<equiv> fmt_text_by field_shown"

text \<open>Where these two agree: a left-justified number has no sign to print.\<close>

fun sign_kept :: "directive \<Rightarrow> bool" where
  "sign_kept (Dec f x) \<longleftrightarrow> (fleft f \<longrightarrow> sign_text f (signed_value (flen f) x) = [])"
| "sign_kept (Uns f x) \<longleftrightarrow> (fleft f \<longrightarrow> sign_text f 0 = [])"
| "sign_kept _ \<longleftrightarrow> True"

lemma dir_shown_text: "sign_kept d \<Longrightarrow> dir_shown d = dir_text d"
  by (cases d) (auto simp: field_shown_def Let_def sign_text_def)

lemma fmt_shown_text: "\<forall>(p, d)\<in>set ds. sign_kept d \<Longrightarrow> fmt_shown ds l = fmt_text ds l"
  by (induction ds) (auto simp: dir_shown_text)

text \<open>
  The standard's text, ISO C 7.21.6.1: the prefix of a field (a sign, or 0x in the alternative form of
  a nonzero number) is inside its width; the plus and blank flags are for signed conversions only. The
  form of \<^verbatim>\<open>%p\<close> is the implementation's. A null pointer for \<^verbatim>\<open>%s\<close> and the 0 flag with it are undefined there; here they are as in the code.
\<close>

fun dir_std :: "directive \<Rightarrow> u8 list" where
  "dir_std (Dec f x) = (let v = signed_value (flen f) x
     in field_text (fleft f) (fzero f) (unat (fwidth f)) (sign_text f v) (dec_text (nat \<bar>v\<bar>)))"
| "dir_std (Uns f x) = field_text (fleft f) (fzero f) (unat (fwidth f)) [] (dec_text (unsigned_value (flen f) x))"
| "dir_std (Hex caps f x) = (let v = unsigned_value (flen f) x
     in field_text (fleft f) (fzero f) (unat (fwidth f))
          (if falt f \<and> v \<noteq> 0 then [ch CHR ''0'', if caps then ch CHR ''X'' else ch CHR ''x''] else []) (hex_text caps v))"
| "dir_std (Ptr x) = [ch CHR ''0'', ch CHR ''x''] @ hex_text False (unat x)"
| "dir_std (Str f p s) = field_text (fleft f) False (unat (fwidth f)) [] s"
| "dir_std (Chr c) = [ucast c]"
| "dir_std Percent = [ch CHR ''%'']"

fun fmt_std :: "(u8 list \<times> directive) list \<Rightarrow> u8 list \<Rightarrow> u8 list" where
  "fmt_std [] l = l"
| "fmt_std ((p, d) # ds) l = p @ dir_std d @ fmt_std ds l"

text \<open>
  The directives the code prints as the standard says: not a left-justified number with a sign, not an
  unsigned conversion with the plus or blank flag, and with the alternative form only a nonzero number
  whose digits fill the width.
\<close>

fun conforms :: "directive \<Rightarrow> bool" where
  "conforms (Dec f x) \<longleftrightarrow> (fleft f \<longrightarrow> sign_text f (signed_value (flen f) x) = [])"
| "conforms (Uns f x) \<longleftrightarrow> \<not> fplus f \<and> \<not> fblank f"
| "conforms (Hex caps f x) \<longleftrightarrow> (falt f \<longrightarrow> unsigned_value (flen f) x \<noteq> 0
     \<and> unat (fwidth f) \<le> length (hex_text caps (unsigned_value (flen f) x)))"
| "conforms _ \<longleftrightarrow> True"

lemma dir_shown_std: "conforms d \<Longrightarrow> dir_shown d = dir_std d"
  by (cases d) (auto simp: field_shown_def field_text_def Let_def sign_text_def)

lemma fmt_shown_std: "\<forall>(p, d)\<in>set ds. conforms d \<Longrightarrow> fmt_shown ds l = fmt_std ds l"
  by (induction ds) (auto simp: dir_shown_std)

text \<open>Directives covered: a string argument is null or a C string that the sink does not overwrite.\<close>

fun dir_ok :: "(u8 \<Rightarrow> bool) \<Rightarrow> mem \<Rightarrow> addr set \<Rightarrow> directive \<Rightarrow> bool" where
  "dir_ok okb m W (Str f p s) \<longleftrightarrow>
     (if p = 0 then s = null_text
      else cstring m p s \<and> (\<forall>i \<le> length s. p + of_nat i \<notin> W))"
| "dir_ok okb m W (Chr c) \<longleftrightarrow> okb (ucast c)"
| "dir_ok okb m W _ \<longleftrightarrow> True"

section \<open>Memory the engine only reads\<close>

definition bytes_in :: "mem \<Rightarrow> addr set \<Rightarrow> addr \<Rightarrow> u8 list \<Rightarrow> bool" where
  "bytes_in m W p bs \<longleftrightarrow> (\<forall>i < length bs. m (p + of_nat i) = bs ! i \<and> p + of_nat i \<notin> W)"

fun words_in :: "mem \<Rightarrow> addr set \<Rightarrow> addr \<Rightarrow> u32 list \<Rightarrow> bool" where
  "words_in m W p [] \<longleftrightarrow> True"
| "words_in m W p (w # ws) \<longleftrightarrow> ld32 m p = w \<and> region p 4 \<inter> W = {} \<and> words_in m W (p + 4) ws"

lemma bytes_in_Nil [simp]: "bytes_in m W p []"
  by (simp add: bytes_in_def)

lemma bytes_in_Cons: "bytes_in m W p (b # bs) \<longleftrightarrow> m p = b \<and> p \<notin> W \<and> bytes_in m W (p + 1) bs"
  by (auto simp: bytes_in_def All_less_Suc2 add.assoc)

lemma bytes_in_append:
  "bytes_in m W p (as @ bs) \<longleftrightarrow> bytes_in m W p as \<and> bytes_in m W (p + of_nat (length as)) bs"
  by (induction as arbitrary: p) (simp_all add: bytes_in_Cons add.assoc)

lemma bytes_in_frame: "frame W m m' \<Longrightarrow> bytes_in m W p bs \<Longrightarrow> bytes_in m' W p bs"
  by (simp add: bytes_in_def frame_def)

lemma words_in_append:
  "words_in m W p (as @ bs) \<longleftrightarrow> words_in m W p as \<and> words_in m W (p + of_nat (4 * length as)) bs"
  by (induction as arbitrary: p) (auto simp: add.assoc algebra_simps)

lemma words_in_frame: "frame W m m' \<Longrightarrow> words_in m W p ws \<Longrightarrow> words_in m' W p ws"
  by (induction ws arbitrary: p) (auto simp: frame_ld32 disjoint_iff)

lemma cstring_frame:
  "frame W m m' \<Longrightarrow> cstring m p s \<Longrightarrow> \<forall>i \<le> length s. p + of_nat i \<notin> W \<Longrightarrow> cstring m' p s"
  by (simp add: cstring_def frame_def)

lemma dir_ok_frame: "frame W m m' \<Longrightarrow> dir_ok okb m W d \<Longrightarrow> dir_ok okb m' W d"
  by (cases d) (auto intro: cstring_frame)

lemma mem_bytes_in: "bytes_in m W p bs \<Longrightarrow> mem_bytes m p (length bs) = bs"
  by (auto simp: mem_bytes_def bytes_in_def intro: nth_equalityI)

section \<open>Flag words\<close>

lemma has_flag_or [simp]: "has_flag (a OR b) f \<longleftrightarrow> has_flag a f \<or> has_flag b f"
proof -
  have "(a OR b) AND f = (a AND f) OR (b AND f)" by (rule bit_word_eqI) (auto simp: bit_simps)
  then show ?thesis by (simp add: has_flag_def or_eq_0_iff)
qed

lemma has_flag_if [simp]: "has_flag (if b then w OR f else w) g \<longleftrightarrow> has_flag w g \<or> b \<and> has_flag f g"
  by simp

lemma has_flag_0 [simp]: "\<not> has_flag 0 f"
  by (simp add: has_flag_def)

lemma has_flag_clear:
  "has_flag (a AND NOT LEADZEROFLAG) LEADZEROFLAG = False"
  "has_flag (a AND NOT LEADZEROFLAG) LEFTFORMATFLAG = has_flag a LEFTFORMATFLAG"
proof -
  have *: "(a AND NOT LEADZEROFLAG) AND LEADZEROFLAG = 0" by (rule bit_word_eqI) (auto simp: bit_simps)
  have "NOT LEADZEROFLAG AND LEFTFORMATFLAG = LEFTFORMATFLAG" by (simp add: flag_defs)
  then have "(a AND NOT LEADZEROFLAG) AND LEFTFORMATFLAG = a AND LEFTFORMATFLAG" by (simp add: and.assoc)
  with * show "has_flag (a AND NOT LEADZEROFLAG) LEADZEROFLAG = False"
    "has_flag (a AND NOT LEADZEROFLAG) LEFTFORMATFLAG = has_flag a LEFTFORMATFLAG"
    unfolding has_flag_def by simp_all
qed

fun len_flags :: "lenmod \<Rightarrow> u32" where
  "len_flags LInt = 0"
| "len_flags LLong = LONGFLAG"
| "len_flags LLongLong = LONGFLAG OR LONGLONGFLAG"
| "len_flags LHalf = HALFFLAG"
| "len_flags LHalfHalf = HALFFLAG OR HALFHALFFLAG"
| "len_flags LSize = SIZETFLAG"
| "len_flags LMax = INTMAXFLAG"
| "len_flags LPtrdiff = PTRDIFFFLAG"

text \<open>What parsing a flag word means, one bit at a time.\<close>

definition flags_of :: "fspec \<Rightarrow> u32 \<Rightarrow> bool" where
  "flags_of f w \<longleftrightarrow> has_flag w LEFTFORMATFLAG = fleft f \<and> has_flag w LEADZEROFLAG = fzero f
     \<and> has_flag w SHOWSIGNFLAG = fplus f \<and> has_flag w BLANKPOSFLAG = fblank f \<and> has_flag w ALTFLAG = falt f
     \<and> \<not> has_flag w SIGNEDFLAG \<and> \<not> has_flag w CAPSFLAG
     \<and> has_flag w LONGFLAG = (flen f \<in> {LLong, LLongLong}) \<and> has_flag w LONGLONGFLAG = (flen f = LLongLong)
     \<and> has_flag w HALFFLAG = (flen f \<in> {LHalf, LHalfHalf}) \<and> has_flag w HALFHALFFLAG = (flen f = LHalfHalf)
     \<and> has_flag w SIZETFLAG = (flen f = LSize) \<and> has_flag w INTMAXFLAG = (flen f = LMax)
     \<and> has_flag w PTRDIFFFLAG = (flen f = LPtrdiff)"

section \<open>Parsing a directive\<close>

definition format_fold :: "u8 list \<Rightarrow> u32 \<times> u32 \<Rightarrow> (u32 \<times> u32) option" where
  "format_fold cs st = foldl (\<lambda>r c. Option.bind r (\<lambda>(f, n). format_char c f n)) (Some st) cs"

lemma foldl_bind_None: "foldl (\<lambda>r c. Option.bind r (g c)) None cs = None"
  by (induction cs) simp_all

lemma format_fold_simps [simp]:
  "format_fold [] st = Some st"
  "format_fold (c # cs) (f, n) = Option.bind (format_char c f n) (format_fold cs)"
  by (cases "format_char c f n"; simp add: format_fold_def foldl_bind_None)+

lemma format_fold_append:
  "format_fold (as @ bs) st = Option.bind (format_fold as st) (format_fold bs)"
  by (cases "format_fold as st") (simp_all add: format_fold_def foldl_bind_None)

lemma parse_format_fold:
  assumes "bytes_in m W p (cs @ [c])" "0 \<notin> set cs" "format_fold cs (f, n) = Some (f', n')"
    and "format_char c f' n' = None" "c \<noteq> 0"
  shows "parse_format m p f n = Some (c, p + of_nat (Suc (length cs)), f', n')"
  using assms
proof (induction cs arbitrary: p f n)
  case Nil
  then show ?case by (simp add: parse_format.simps bytes_in_Cons)
next
  case (Cons d cs)
  then obtain f1 n1 where 1: "format_char d f n = Some (f1, n1)" by (cases "format_char d f n") auto
  then have "parse_format m (p + 1) f1 n1 = Some (c, p + 1 + of_nat (Suc (length cs)), f', n')"
    using Cons.prems by (intro Cons.IH) (auto simp: bytes_in_Cons)
  then show ?case using 1 Cons.prems
    by (simp add: parse_format.simps [of m p f n] bytes_in_Cons add.assoc)
qed

lemma format_char_digit:
  assumes "d < 10"
  shows "format_char (dec_char d) f n =
    Some (if d = 0 \<and> n = 0 then f OR LEADZEROFLAG else f, n * 10 + of_nat d)"
proof -
  have "ucast (dec_char d) = (of_nat (48 + d) :: u32)"
    using dec_char_props(1) [OF assms] by (metis of_nat_unat)
  then show ?thesis using dec_char_props(3,4,5) [OF assms] by (simp add: format_char_def)
qed

lemma width_fold: "0 < n \<Longrightarrow> n < 2 ^ 32 \<Longrightarrow> format_fold (dec_text n) (f, 0) = Some (f, of_nat n)"
proof (induction "10 :: nat" n rule: digits.induct)
  case (1 n)
  show ?case
  proof (cases "n < 10")
    case True
    then show ?thesis using 1(2) by (simp add: dec_text_def digits_small format_char_digit)
  next
    case False
    then have dg: "dec_text n = dec_text (n div 10) @ [dec_char (n mod 10)]"
      by (simp add: dec_text_def digits_large)
    have "format_fold (dec_text (n div 10)) (f, 0) = Some (f, of_nat (n div 10))"
      using False 1(3) by (intro 1(1)) auto
    moreover have "of_nat (n div 10) \<noteq> (0 :: u32)"
      using False 1(3) by (auto simp: word_unat_eq_iff unsigned_of_nat take_bit_nat_eq_self)
    moreover have "of_nat (n div 10) * 10 + of_nat (n mod 10) = (of_nat n :: u32)"
      by (metis div_mult_mod_eq of_nat_add of_nat_mult of_nat_numeral)
    ultimately show ?thesis by (simp add: dg format_fold_append format_char_digit)
  qed
qed

text \<open>The flag characters and the length modifiers.\<close>

definition flag_of_char :: "u8 \<Rightarrow> u32" where
  "flag_of_char c = (if c = ch CHR ''-'' then LEFTFORMATFLAG else if c = ch CHR ''+'' then SHOWSIGNFLAG
     else if c = ch CHR '' '' then BLANKPOSFLAG else if c = ch CHR ''#'' then ALTFLAG else LEADZEROFLAG)"

lemma flag_char_fold:
  "c \<in> set (map ch ''-+ #0'') \<Longrightarrow> format_char c w 0 = Some (w OR flag_of_char c, 0)"
  by (auto simp: format_char_def flag_of_char_def)

lemma flags_fold:
  "set fl \<subseteq> set (map ch ''-+ #0'') \<Longrightarrow> \<exists>w'. format_fold fl (w, 0) = Some (w', 0)
    \<and> (\<forall>g. has_flag w' g \<longleftrightarrow> has_flag w g \<or> (\<exists>c\<in>set fl. has_flag (flag_of_char c) g))"
proof (induction fl arbitrary: w)
  case Nil
  then show ?case by simp
next
  case (Cons c fl)
  have "format_char c w 0 = Some (w OR flag_of_char c, 0)" by (rule flag_char_fold) (use Cons.prems in simp)
  moreover from Cons.IH [of "w OR flag_of_char c"] Cons.prems obtain w' where
    "format_fold fl (w OR flag_of_char c, 0) = Some (w', 0)"
    "\<forall>g. has_flag w' g \<longleftrightarrow> has_flag (w OR flag_of_char c) g \<or> (\<exists>c\<in>set fl. has_flag (flag_of_char c) g)" by auto
  ultimately show ?case by auto
qed

lemma flag_chars:
  assumes "flags_spelled f fl"
  shows "(\<exists>c\<in>set fl. has_flag (flag_of_char c) g) \<longleftrightarrow> fleft f \<and> has_flag LEFTFORMATFLAG g \<or> fplus f \<and> has_flag SHOWSIGNFLAG g
    \<or> fblank f \<and> has_flag BLANKPOSFLAG g \<or> falt f \<and> has_flag ALTFLAG g \<or> fzero f \<and> has_flag LEADZEROFLAG g"
proof -
  have s: "set fl \<subseteq> set (map ch ''-+ #0'')" and m: "ch CHR ''-'' \<in> set fl \<longleftrightarrow> fleft f" "ch CHR ''+'' \<in> set fl \<longleftrightarrow> fplus f"
    "ch CHR '' '' \<in> set fl \<longleftrightarrow> fblank f" "ch CHR ''#'' \<in> set fl \<longleftrightarrow> falt f" "ch CHR ''0'' \<in> set fl \<longleftrightarrow> fzero f"
    using assms by (simp_all add: flags_spelled_def)
  have "(\<exists>c\<in>set fl. has_flag (flag_of_char c) g) \<longleftrightarrow> (\<exists>c\<in>set (map ch ''-+ #0''). c \<in> set fl \<and> has_flag (flag_of_char c) g)"
    using s by blast
  also have "\<dots> \<longleftrightarrow> fleft f \<and> has_flag LEFTFORMATFLAG g \<or> fplus f \<and> has_flag SHOWSIGNFLAG g
    \<or> fblank f \<and> has_flag BLANKPOSFLAG g \<or> falt f \<and> has_flag ALTFLAG g \<or> fzero f \<and> has_flag LEADZEROFLAG g"
    unfolding m [symmetric] by (simp add: flag_of_char_def)
  finally show ?thesis .
qed

lemma len_fold:
  assumes "\<not> has_flag w LONGFLAG" "\<not> has_flag w HALFFLAG"
  shows "\<exists>w'. format_fold (len_mods l) (w, n) = Some (w', n) \<and> (\<forall>f. has_flag w' f \<longleftrightarrow> has_flag w f \<or> has_flag (len_flags l) f)"
proof -
  have t: "has_flag LONGFLAG LONGFLAG" "has_flag HALFFLAG HALFFLAG" by (simp_all add: has_flag_def flag_defs)
  show ?thesis using assms by (cases l) (auto simp: format_char_def Let_def t)
qed

lemma mods_fold:
  assumes "mods_spelled f ms"
  shows "\<exists>w. format_fold ms (0, 0) = Some (w, fwidth f) \<and> flags_of f w"
proof -
  obtain fl where fl: "ms = fl @ width_mods f" "flags_spelled f fl" using assms by (auto simp: mods_spelled_def)
  then have "set fl \<subseteq> set (map ch ''-+ #0'')" by (simp only: flags_spelled_def)
  from flags_fold [OF this, of 0] obtain w1 where
    1: "format_fold fl (0, 0) = Some (w1, 0)" "\<And>g. has_flag w1 g \<longleftrightarrow> (\<exists>c\<in>set fl. has_flag (flag_of_char c) g)" by auto
  note w1 = 1(2) [unfolded flag_chars [OF fl(2)]]
  have width: "format_fold (width_mods f) (w1, 0) = format_fold (len_mods (flen f)) (w1, fwidth f)"
    using width_fold [of "unat (fwidth f)" w1] unat_lt32 [of "fwidth f"]
    by (auto simp: width_mods_def format_fold_append unat_gt_0 simp del: format_fold_simps(2))
  have "\<not> has_flag w1 LONGFLAG" "\<not> has_flag w1 HALFFLAG"
    unfolding w1 by (simp_all add: has_flag_def flag_defs)
  from len_fold [OF this] obtain w where
    w: "format_fold (len_mods (flen f)) (w1, fwidth f) = Some (w, fwidth f)"
      "\<And>g. has_flag w g \<longleftrightarrow> has_flag w1 g \<or> has_flag (len_flags (flen f)) g" by blast
  have "flags_of f w"
    unfolding flags_of_def w(2) unfolding w1
    by (cases "flen f") (simp_all add: has_flag_def flag_defs)
  moreover have "format_fold ms (0, 0) = Some (w, fwidth f)"
    unfolding fl(1) format_fold_append 1(1) by (simp add: width w(1))
  ultimately show ?thesis by blast
qed

lemma mods_nz: "mods_spelled f ms \<Longrightarrow> 0 \<notin> set ms"
proof -
  assume "mods_spelled f ms"
  then obtain fl where fl: "ms = fl @ width_mods f" "set fl \<subseteq> set (map ch ''-+ #0'')"
    by (auto simp: mods_spelled_def flags_spelled_def)
  have "0 \<notin> set (map ch ''-+ #0'')" by simp
  then have "0 \<notin> set fl" using fl(2) by blast
  moreover have "0 \<notin> set (width_mods f)" using dec_text_nz by (cases "flen f") (auto simp: width_mods_def)
  ultimately show ?thesis by (simp add: fl(1))
qed

lemma spelled_plain: "dir_spelled d ms c \<Longrightarrow> format_char c f n = None \<and> c \<noteq> 0"
  by (cases d) (auto simp: format_char_def)

section \<open>Fetching arguments\<close>

lemma va_longlong_words:
  assumes "words_in m W ap [ucast x, ucast (drop_bit 32 x)]"
  shows "va_longlong m ap = (x, ap + 8)"
proof -
  have "push_bit 32 (ucast (ucast (drop_bit 32 x) :: u32)) OR ucast (ucast x :: u32) = x"
    by (rule bit_word_eqI) (auto simp: bit_simps)
  then show ?thesis using assms by (simp add: va_longlong_def)
qed

lemma sint_widen:
  "sint (scast (y :: u32) :: u64) = sint y" "sint (scast (z :: u16) :: u64) = sint z"
  "sint (scast (b :: u8) :: u64) = sint b"
  using sint_greater_eq [of y] sint_less [of y] sint_greater_eq [of z] sint_less [of z]
    sint_greater_eq [of b] sint_less [of b]
  by (simp_all add: signed_scast_eq signed_take_bit_int_eq_self)

lemma arg_by_length:
  assumes "flags_of f w"
  shows "signed_arg w m ap = (case flen f of LLongLong \<Rightarrow> va_longlong m ap | LMax \<Rightarrow> va_longlong m ap
      | LHalfHalf \<Rightarrow> (scast (ucast (ld32 m ap) :: u8), ap + 4) | LHalf \<Rightarrow> (scast (ucast (ld32 m ap) :: u16), ap + 4)
      | _ \<Rightarrow> (scast (ld32 m ap), ap + 4))"
    and "unsigned_arg w m ap = (case flen f of LLongLong \<Rightarrow> va_longlong m ap | LMax \<Rightarrow> va_longlong m ap
      | LHalfHalf \<Rightarrow> (ucast (ucast (ld32 m ap) :: u8), ap + 4) | LHalf \<Rightarrow> (ucast (ucast (ld32 m ap) :: u16), ap + 4)
      | _ \<Rightarrow> (ucast (ld32 m ap), ap + 4))"
  using assms unfolding flags_of_def signed_arg_def unsigned_arg_def va_int_def
  by (cases "flen f"; simp)+

lemma unat_widen:
  "unat (ucast (y :: u32) :: u64) = unat y" "unat (ucast (z :: u16) :: u64) = unat z"
  "unat (ucast (b :: u8) :: u64) = unat b"
proof -
  have "unat y < 2 ^ 64" "unat z < 2 ^ 64" "unat b < 2 ^ 64"
    using unat_lt32 [of y] order_less_trans [OF unsigned_less [of z], of "2 ^ 64"]
      order_less_trans [OF unsigned_less [of b], of "2 ^ 64"] by simp_all
  then show "unat (ucast y :: u64) = unat y" "unat (ucast z :: u64) = unat z" "unat (ucast b :: u64) = unat b"
    by (simp_all add: unsigned_ucast_eq take_bit_nat_eq_self)
qed

lemma ucast_twice:
  "ucast (ucast (x :: u64) :: u32) = (ucast x :: u16)" "ucast (ucast (x :: u64) :: u32) = (ucast x :: u8)"
  by (rule bit_word_eqI; auto simp: bit_simps)+

lemma arg_ok:
  assumes "flags_of f w" "words_in m W ap (num_words (flen f) x)"
  shows "\<exists>n. signed_arg w m ap = (n, ap + of_nat (4 * length (num_words (flen f) x))) \<and> sint n = signed_value (flen f) x"
    and "\<exists>n. unsigned_arg w m ap = (n, ap + of_nat (4 * length (num_words (flen f) x))) \<and> unat n = unsigned_value (flen f) x"
proof -
  show "\<exists>n. signed_arg w m ap = (n, ap + of_nat (4 * length (num_words (flen f) x))) \<and> sint n = signed_value (flen f) x"
    using assms(2) va_longlong_words [of m W ap x]
    by (cases "flen f") (simp_all add: arg_by_length [OF assms(1)] num_words_def signed_value_def sint_widen ucast_twice)
  show "\<exists>n. unsigned_arg w m ap = (n, ap + of_nat (4 * length (num_words (flen f) x))) \<and> unat n = unsigned_value (flen f) x"
    using assms(2) va_longlong_words [of m W ap x]
    by (cases "flen f") (simp_all add: arg_by_length [OF assms(1)] num_words_def unsigned_value_def unat_widen ucast_twice)
qed

end
