(* ===== verification/PrintfEngine.thy ===== *)
theory PrintfEngine
  imports PrintfSpec
begin

text \<open>
  The contract between the engine and an output function, as a locale, and the correctness of
  the engine inside it; then the contract for \<^verbatim>\<open>_vsnprintf_output\<close> and what \<^verbatim>\<open>vsnprintf\<close>
  leaves in the buffer.
\<close>

section \<open>Formats and their pieces\<close>

text \<open>Literal text, and what the flag characters of a directive parse to.\<close>

definition plain :: "u8 list \<Rightarrow> bool" where
  "plain l \<longleftrightarrow> 0 \<notin> set l \<and> ch CHR ''%'' \<notin> set l"

fun dir_spec :: "directive \<Rightarrow> fspec option" where
  "dir_spec (Dec f x) = Some f"
| "dir_spec (Uns f x) = Some f"
| "dir_spec (Hex caps f x) = Some f"
| "dir_spec (Str f p s) = Some f"
| "dir_spec _ = None"

definition parsed :: "directive \<Rightarrow> u32 \<Rightarrow> u32 \<Rightarrow> bool" where
  "parsed d flags wd \<longleftrightarrow> (case dir_spec d of Some f \<Rightarrow> flags_of f flags \<and> wd = fwidth f | None \<Rightarrow> flags = 0 \<and> wd = 0)"

section \<open>The interface of an output function\<close>

text \<open>
  \<open>holds m s w\<close> says that the memory and the state of the output function have absorbed the
  output \<open>w\<close>; \<open>W\<close> is the memory it may write, \<open>okb\<close> the bytes it takes (not every function
  takes zero bytes).
\<close>

declare pad_loop.simps [simp del]

locale printf_sink =
  fixes out :: "'s sink" and holds :: "mem \<Rightarrow> 's \<Rightarrow> u8 list \<Rightarrow> bool" and W :: "addr set" and okb :: "u8 \<Rightarrow> bool"
  assumes sink_law: "holds m s w \<Longrightarrow> \<forall>b\<in>set bs. okb b \<Longrightarrow> length w + length bs < 2 ^ 31 \<Longrightarrow>
      \<exists>m' s'. out bs m s = (of_nat (length bs), m', s') \<and> holds m' s' (w @ bs) \<and> frame W m m'"
    and ok_nonzero: "b \<noteq> 0 \<Longrightarrow> okb b"
begin

definition good :: "mem \<Rightarrow> 's pst \<Rightarrow> u8 list \<Rightarrow> bool" where
  "good m0 st w \<longleftrightarrow> holds (pmem st) (pout st) w \<and> pwritten st = of_nat (length w) \<and> \<not> perr st <s 0
     \<and> length (pbuf st) = 32 \<and> frame W m0 (pmem st)"

definition yields :: "mem \<Rightarrow> u8 list \<Rightarrow> addr \<Rightarrow> 's pst + 's pst \<Rightarrow> bool" where
  "yields m0 w ap r \<longleftrightarrow> (\<exists>st. r = Inr st \<and> good m0 st w \<and> pap st = ap)"

lemma yields_Inr: "good m0 st w \<Longrightarrow> yields m0 w (pap st) (Inr st)"
  by (simp add: yields_def)

lemma yields_bind:
  assumes "yields m0 w ap r" "\<And>st. good m0 st w \<Longrightarrow> pap st = ap \<Longrightarrow> yields m0 w' ap' (f st)"
  shows "yields m0 w' ap' (or_exit r f)"
  using assms by (auto simp: yields_def or_exit_def)

lemma small_not_negative: "n < 2 ^ 31 \<Longrightarrow> \<not> (of_nat n :: u32) <s 0"
  by (simp add: word_sless_alt signed_of_nat signed_take_bit_int_eq_self)

lemma output_string_full:
  assumes "good m0 st w" "\<forall>b\<in>set bs. okb b" "length w + length bs < 2 ^ 31"
  shows "\<exists>st'. output_string out bs st = Inr st' \<and> good m0 st' (w @ bs) \<and> pap st' = pap st
    \<and> perr st' = of_nat (length bs)"
proof -
  have h: "holds (pmem st) (pout st) w" using assms(1) by (simp add: good_def)
  obtain m' s' where o: "out bs (pmem st) (pout st) = (of_nat (length bs), m', s')" "holds m' s' (w @ bs)"
      "frame W (pmem st) m'"
    using sink_law [OF h assms(2,3)] by blast
  have "\<not> (of_nat (length bs) :: u32) <s 0" by (rule small_not_negative) (use assms(3) in simp)
  then show ?thesis using assms(1) o frame_trans [of W m0 "pmem st" m']
    by (simp add: output_string_def Let_def good_def)
qed

lemma output_string_yields:
  "good m0 st w \<Longrightarrow> \<forall>b\<in>set bs. okb b \<Longrightarrow> length w + length bs < 2 ^ 31 \<Longrightarrow>
    yields m0 (w @ bs) (pap st) (output_string out bs st)"
  using output_string_full by (fastforce simp: yields_def)

lemma output_char_yields:
  "good m0 st w \<Longrightarrow> okb c \<Longrightarrow> length w + 1 < 2 ^ 31 \<Longrightarrow> yields m0 (w @ [c]) (pap st) (output_char out c st)"
  using output_string_yields [of m0 st w "[c]"] by (simp add: output_char_def)

lemma optional_char_yields:
  "good m0 st w \<Longrightarrow> b \<longrightarrow> okb c \<Longrightarrow> length w + length (if b then [c] else []) < 2 ^ 31 \<Longrightarrow>
    yields m0 (w @ (if b then [c] else [])) (pap st) (if b then output_char out c st else Inr st)"
  by (cases b) (simp_all add: output_char_yields yields_Inr)

lemma pad_loop_yields:
  assumes "good m0 st w" "okb c" "length w + (unat n - unat lim) < 2 ^ 31"
  shows "yields m0 (w @ replicate (unat n - unat lim) c) (pap st) (pad_loop out c n lim st)"
  using assms
proof (induction "unat n - unat lim" arbitrary: n st w)
  case 0
  then show ?case by (subst pad_loop.simps) (simp add: word_less_nat_alt yields_Inr)
next
  case (Suc k)
  then have "n > lim" by (simp add: word_less_nat_alt)
  moreover from this have "n \<noteq> 0" by auto
  ultimately have n: "n > lim" "unat (n - 1) = unat n - 1" by (simp_all add: unat_minus_one)
  have l: "length w + 1 < 2 ^ 31" using Suc.hyps(2) Suc.prems(3) by linarith
  obtain st1 where 1: "output_char out c st = Inr st1" "good m0 st1 (w @ [c])" "pap st1 = pap st"
    using output_char_yields [OF Suc.prems(1,2)] l by (auto simp: yields_def)
  have k: "k = unat (n - 1) - unat lim" "unat n - unat lim = Suc k" using Suc.hyps(2) n by simp_all
  have "yields m0 ((w @ [c]) @ replicate (unat (n - 1) - unat lim) c) (pap st1) (pad_loop out c (n - 1) lim st1)"
    using Suc.prems k by (intro Suc.hyps(1) [OF k(1) 1(2)]) simp_all
  then show ?case using n(1) 1 k by (subst pad_loop.simps) simp
qed

text \<open>The shared field code prints sign, padding and body.\<close>

lemma output_field_yields:
  assumes "good m0 st w" "\<forall>b\<in>set s. okb b"
    and sign: "sign = (if signchar = 0 then [] else [signchar])"
    and len: "length w + length (field_shown (has_flag flags LEFTFORMATFLAG) (has_flag flags LEADZEROFLAG) (unat width) sign s) < 2 ^ 31"
  shows "yields m0 (w @ field_shown (has_flag flags LEFTFORMATFLAG) (has_flag flags LEADZEROFLAG) (unat width) sign s)
    (pap st) (output_field out flags width signchar s st)"
proof -
  let ?sp = "ch CHR '' ''" and ?z = "has_flag flags LEADZEROFLAG"
  have okc: "okb ?sp" "okb (ch CHR ''0'')" by (simp_all add: ok_nonzero)
  show ?thesis
  proof (cases "has_flag flags LEFTFORMATFLAG")
    case True
    have l: "length w + length s + (unat width - length s) < 2 ^ 31"
      using len True by (simp add: field_shown_def field_text_def Let_def)
    then obtain st1 where 1: "output_string out s st = Inr st1" "good m0 st1 (w @ s)" "pap st1 = pap st"
        "perr st1 = of_nat (length s)"
      using output_string_full [OF assms(1,2)] by auto
    have "unat (perr st1) = length s" using l 1(4) by (simp add: unsigned_of_nat take_bit_nat_eq_self)
    then have "yields m0 ((w @ s) @ replicate (unat width - length s) ?sp) (pap st1) (pad_loop out ?sp width (perr st1) st1)"
      using pad_loop_yields [OF 1(2) okc(1), of width "perr st1"] l by simp
    then show ?thesis using True 1
      by (simp add: output_field_def Let_def field_shown_def field_text_def or_exit_def)
  next
    case False
    define width' where "width' = (if signchar \<noteq> 0 \<and> width > 0 then width - 1 else width)"
    define pad where "pad = unat width - (length sign + length s)"
    have l: "length w + length sign + pad + length s < 2 ^ 31"
      using len False by (auto simp: field_shown_def field_text_def Let_def pad_def split: if_splits)
    have "unat (of_nat (length s) :: u32) = length s" using l by (simp add: unsigned_of_nat take_bit_nat_eq_self)
    then have pad: "unat width' - unat (of_nat (length s) :: u32) = pad"
      using sign by (auto simp: width'_def pad_def unat_minus_one word_gt_0 unat_gt_0)
    let ?b1 = "?z \<and> signchar \<noteq> 0" and ?b2 = "\<not> ?z \<and> signchar \<noteq> 0" and ?pc = "if ?z then ch CHR ''0'' else ?sp"
    let ?s1 = "if ?b1 then [signchar] else []" and ?s2 = "if ?b2 then [signchar] else []"
    have sg: "length ?s1 + length ?s2 = length sign" by (auto simp: sign)
    have okp: "okb ?pc" and oks: "b \<and> signchar \<noteq> 0 \<longrightarrow> okb signchar" for b using okc ok_nonzero by auto
    have "length w + length ?s1 < 2 ^ 31" using l sg by linarith
    from optional_char_yields [OF assms(1) oks this] obtain st1 where
      1: "(if ?b1 then output_char out signchar st else Inr st) = Inr st1" "good m0 st1 (w @ ?s1)" "pap st1 = pap st"
      by (auto simp: yields_def)
    have "length (w @ ?s1) + (unat width' - unat (of_nat (length s) :: u32)) < 2 ^ 31"
      unfolding pad length_append using l sg by linarith
    from pad_loop_yields [OF 1(2) okp this] obtain st2 where
      2: "pad_loop out ?pc width' (of_nat (length s)) st1 = Inr st2" "good m0 st2 ((w @ ?s1) @ replicate pad ?pc)" "pap st2 = pap st"
      unfolding pad yields_def 1(3) by blast
    have "length ((w @ ?s1) @ replicate pad ?pc) + length ?s2 < 2 ^ 31"
      unfolding length_append length_replicate using l sg by linarith
    from optional_char_yields [OF 2(2) oks this] obtain st3 where
      3: "(if ?b2 then output_char out signchar st2 else Inr st2) = Inr st3"
        "good m0 st3 (((w @ ?s1) @ replicate pad ?pc) @ ?s2)" "pap st3 = pap st"
      unfolding yields_def 2(3) by blast
    have "length (((w @ ?s1) @ replicate pad ?pc) @ ?s2) + length s < 2 ^ 31"
      unfolding length_append length_replicate using l sg by linarith
    from output_string_yields [OF 3(2) assms(2) this]
    have 4: "yields m0 ((((w @ ?s1) @ replicate pad ?pc) @ ?s2) @ s) (pap st) (output_string out s st3)"
      by (simp only: 3(3))
    have t: "w @ field_shown False ?z (unat width) sign s = (((w @ ?s1) @ replicate pad ?pc) @ ?s2) @ s"
      by (auto simp: field_shown_def field_text_def Let_def sign pad_def)
    have "output_field out flags width signchar s st = output_string out s st3"
      using False 1(1) 2(1) 3(1) unfolding output_field_def Let_def width'_def [symmetric]
      by (simp only: or_exit_def if_False sum.case)
    then show ?thesis using 4 False unfolding t [symmetric] by simp
  qed
qed

lemma good_args: "good m0 st w \<Longrightarrow> length buf = 32 \<Longrightarrow> good m0 (st\<lparr>pap := ap, pbuf := buf\<rparr>) w"
  "good m0 st w \<Longrightarrow> good m0 (st\<lparr>pap := ap\<rparr>) w"
  by (simp_all add: good_def)

lemma conv_dec_yields:
  assumes "good m0 st w" and v: "v = num_value flags n"
    and fl: "has_flag flags LEFTFORMATFLAG = fleft f" "has_flag flags LEADZEROFLAG = fzero f"
      "has_flag flags SHOWSIGNFLAG = fplus f" "has_flag flags BLANKPOSFLAG = fblank f"
    and len: "length w + length (field_shown (fleft f) (fzero f) (unat wd) (sign_text f v) (dec_text (nat \<bar>v\<bar>))) < 2 ^ 31"
  shows "\<exists>r. conv_dec out flags wd (n, ap) st = Some r
    \<and> yields m0 (w @ field_shown (fleft f) (fzero f) (unat wd) (sign_text f v) (dec_text (nat \<bar>v\<bar>))) ap r"
proof -
  have "length (pbuf st) = 32" using assms(1) by (simp add: good_def)
  from longlong_to_string_ok [OF this] obtain buf pos where
    b: "longlong_to_string (pbuf st) n 32 flags = Some (buf, pos, sign_char flags n)" "length buf = 32"
      "buf_str buf pos = dec_text (nat \<bar>v\<bar>)" unfolding v by blast
  have nz: "ch CHR ''-'' \<noteq> 0" "ch CHR ''+'' \<noteq> 0" "ch CHR '' '' \<noteq> 0" by simp_all
  have sg: "sign_text f v = (if sign_char flags n = 0 then [] else [sign_char flags n])"
    using nz by (simp add: sign_text_def sign_char_def fl v)
  have ok: "\<forall>b\<in>set (dec_text (nat \<bar>v\<bar>)). okb b" using dec_text_nz ok_nonzero by metis
  from output_field_yields [OF good_args(1) [OF assms(1) b(2)] ok sg, of flags wd ap] len
  show ?thesis by (simp add: conv_dec_def b(1,3) fl)
qed

lemma conv_hex_yields:
  assumes "good m0 st w" and arg: "unsigned_arg flags (pmem st) (pap st) = (n, ap)"
    and fl: "has_flag flags LEFTFORMATFLAG = left" "has_flag flags LEADZEROFLAG = zero"
      "has_flag flags ALTFLAG = alt" "has_flag flags CAPSFLAG = caps"
    and t: "t = (if alt then [ch CHR ''0'', if caps then ch CHR ''X'' else ch CHR ''x''] else [])
      @ field_shown left zero (unat wd) [] (hex_text caps (unat n))"
    and len: "length w + length t < 2 ^ 31"
  shows "\<exists>r. conv_hex out flags wd st = Some r \<and> yields m0 (w @ t) ap r"
proof -
  have "length (pbuf st) = 32" using assms(1) by (simp add: good_def)
  from longlong_to_hexstring_ok [OF this, of n flags, unfolded fl] obtain buf pos where
    b: "longlong_to_hexstring (pbuf st) n 32 flags = Some (buf, pos)" "length buf = 32"
      "buf_str buf pos = hex_text caps (unat n)" by blast
  let ?x = "if caps then ch CHR ''X'' else ch CHR ''x''" and ?st = "st\<lparr>pap := ap, pbuf := buf\<rparr>"
  let ?pre = "if alt then or_exit (output_char out (ch CHR ''0'') ?st) (output_char out ?x) else Inr ?st"
  let ?p = "if alt then [ch CHR ''0'', ?x] else []"
  have g: "good m0 ?st w" "pap ?st = ap" using good_args(1) [OF assms(1) b(2)] by simp_all
  have okc: "okb (ch CHR ''0'')" "okb ?x" by (simp_all add: ok_nonzero)
  have pre: "yields m0 (w @ ?p) ap ?pre"
  proof (cases alt)
    case True
    have "yields m0 ((w @ [ch CHR ''0'']) @ [?x]) ap (or_exit (output_char out (ch CHR ''0'') ?st) (output_char out ?x))"
    proof (rule yields_bind)
      show "yields m0 (w @ [ch CHR ''0'']) ap (output_char out (ch CHR ''0'') ?st)"
        using output_char_yields [OF g(1) okc(1)] len t True g(2) by simp
      show "yields m0 ((w @ [ch CHR ''0'']) @ [?x]) ap (output_char out ?x st')"
        if "good m0 st' (w @ [ch CHR ''0''])" "pap st' = ap" for st'
        using output_char_yields [OF that(1) okc(2)] len t True that(2) by simp
    qed
    then show ?thesis using True by simp
  qed (use g yields_Inr [OF g(1)] in simp)
  have ok: "\<forall>b\<in>set (hex_text caps (unat n)). okb b" using hex_text_nz ok_nonzero by metis
  have "yields m0 ((w @ ?p) @ field_shown left zero (unat wd) [] (hex_text caps (unat n))) ap
      (or_exit ?pre (output_field out flags wd 0 (buf_str buf pos)))"
  proof (rule yields_bind [OF pre])
    fix st' assume s: "good m0 st' (w @ ?p)" "pap st' = ap"
    have "length (w @ ?p) + length (field_shown left zero (unat wd) [] (hex_text caps (unat n))) < 2 ^ 31"
      using len unfolding t by simp
    with output_field_yields [OF s(1) ok, of "[]" 0 flags wd] s(2)
    show "yields m0 ((w @ ?p) @ field_shown left zero (unat wd) [] (hex_text caps (unat n))) ap
        (output_field out flags wd 0 (buf_str buf pos) st')" by (simp add: fl b(3))
  qed
  then show ?thesis unfolding t conv_hex_def arg by (cases alt; cases caps) (simp_all add: b(1) fl Let_def)
qed

lemma conv_str_yields:
  assumes "good m0 st w" and arg: "va_int (pmem st) (pap st) = (p, ap)"
    and str: "if p = 0 then s = null_text else cstring (pmem st) p s"
    and fl: "has_flag flags LEFTFORMATFLAG = left"
    and len: "length w + length (field_shown left False (unat wd) [] s) < 2 ^ 31"
  shows "\<exists>r. conv_str out flags wd st = Some r \<and> yields m0 (w @ field_shown left False (unat wd) [] s) ap r"
proof -
  have "0 \<notin> set null_text" by (simp add: null_text_def)
  then have ok: "\<forall>b\<in>set s. okb b" using str ok_nonzero by (metis cstring_def)
  have g: "good m0 (st\<lparr>pap := ap\<rparr>) w" using good_args(2) [OF assms(1)] .
  let ?fl = "flags AND NOT LEADZEROFLAG"
  have f: "has_flag ?fl LEFTFORMATFLAG = left" "has_flag ?fl LEADZEROFLAG = False"
    by (simp_all add: has_flag_clear fl)
  have y: "yields m0 (w @ field_shown left False (unat wd) [] s) ap (output_field out ?fl wd 0 s (st\<lparr>pap := ap\<rparr>))"
    using output_field_yields [OF g ok, of "[]" 0 ?fl wd] len by (simp add: f)
  show ?thesis
  proof (cases "p = 0")
    case True
    then show ?thesis using y str by (simp add: conv_str_def arg Let_def)
  next
    case False
    then have c: "cstring (pmem st) p s" using str by simp
    have "strlen (pmem st) p = Some (of_nat (length s))"
      using strlen_loop_cstring [OF c, of 0] by (simp add: strlen_def)
    moreover have "mem_bytes (pmem st) p (unat (of_nat (length s) :: u32)) = s"
      using c by (auto simp: cstring_def mem_bytes_def unsigned_of_nat take_bit_nat_eq_self intro: nth_equalityI)
    ultimately show ?thesis using y False by (simp add: conv_str_def arg Let_def)
  qed
qed

text \<open>Every directive, after its flag characters have been parsed.\<close>

lemma convert_yields:
  assumes good: "good m0 st w" and ok: "dir_ok okb (pmem st) W d" and args: "words_in (pmem st) W (pap st) (dir_words d)"
    and p: "parsed d flags wd" and len: "length w + length (dir_shown d) < 2 ^ 31"
  shows "\<exists>r. convert out (dir_conv d) flags wd st = Some r
    \<and> yields m0 (w @ dir_shown d) (pap st + of_nat (4 * length (dir_words d))) r"
proof (cases d)
  case (Dec f x)
  then have f: "flags_of f flags" "wd = fwidth f" "words_in (pmem st) W (pap st) (num_words (flen f) x)"
    using p args by (simp_all add: parsed_def)
  obtain n where n: "signed_arg flags (pmem st) (pap st) = (n, pap st + of_nat (4 * length (num_words (flen f) x)))"
      "sint n = signed_value (flen f) x" using arg_ok(1) [OF f(1,3)] by blast
  have t: "has_flag SIGNEDFLAG SIGNEDFLAG" "\<not> has_flag SIGNEDFLAG LEFTFORMATFLAG" "\<not> has_flag SIGNEDFLAG LEADZEROFLAG"
    "\<not> has_flag SIGNEDFLAG SHOWSIGNFLAG" "\<not> has_flag SIGNEDFLAG BLANKPOSFLAG"
    by (simp_all add: has_flag_def flag_defs)
  have "sint n = num_value (flags OR SIGNEDFLAG) n" by (simp add: num_value_def t)
  from conv_dec_yields [OF good this, of f wd] f(1) ok len n show ?thesis
    by (simp add: Dec convert_def flags_of_def t f(2) Let_def)
next
  case (Uns f x)
  then have f: "flags_of f flags" "wd = fwidth f" "words_in (pmem st) W (pap st) (num_words (flen f) x)"
    using p args by (simp_all add: parsed_def)
  obtain n where n: "unsigned_arg flags (pmem st) (pap st) = (n, pap st + of_nat (4 * length (num_words (flen f) x)))"
      "unat n = unsigned_value (flen f) x" using arg_ok(2) [OF f(1,3)] by blast
  have "int (unsigned_value (flen f) x) = num_value flags n"
  proof -
    have "uint n = int (unsigned_value (flen f) x)" using n(2) by (metis uint_nat)
    then show ?thesis using f(1) by (simp add: num_value_def flags_of_def)
  qed
  from conv_dec_yields [OF good this, of f wd] f(1) ok len n show ?thesis
    by (simp add: Uns convert_def flags_of_def f(2) Let_def sign_text_def)
next
  case (Hex caps f x)
  then have f: "flags_of f flags" "wd = fwidth f" "words_in (pmem st) W (pap st) (num_words (flen f) x)"
    using p args by (simp_all add: parsed_def)
  define fl where "fl = (if caps then flags OR CAPSFLAG else flags)"
  have t: "has_flag CAPSFLAG CAPSFLAG" "\<not> has_flag CAPSFLAG LEFTFORMATFLAG" "\<not> has_flag CAPSFLAG LEADZEROFLAG" "\<not> has_flag CAPSFLAG ALTFLAG"
    "\<not> has_flag CAPSFLAG LONGFLAG" "\<not> has_flag CAPSFLAG LONGLONGFLAG" "\<not> has_flag CAPSFLAG HALFFLAG" "\<not> has_flag CAPSFLAG HALFHALFFLAG"
    "\<not> has_flag CAPSFLAG SIZETFLAG" "\<not> has_flag CAPSFLAG INTMAXFLAG" "\<not> has_flag CAPSFLAG PTRDIFFFLAG"
    by (simp_all add: has_flag_def flag_defs)
  have arg: "unsigned_arg fl (pmem st) (pap st) = unsigned_arg flags (pmem st) (pap st)"
    by (simp add: fl_def unsigned_arg_def t)
  obtain n where n: "unsigned_arg fl (pmem st) (pap st) = (n, pap st + of_nat (4 * length (num_words (flen f) x)))"
      "unat n = unsigned_value (flen f) x" using arg_ok(2) [OF f(1,3)] arg by auto
  have h: "has_flag fl LEFTFORMATFLAG = fleft f" "has_flag fl LEADZEROFLAG = fzero f" "has_flag fl ALTFLAG = falt f" "has_flag fl CAPSFLAG = caps"
    using f(1) by (auto simp: fl_def flags_of_def t)
  have "convert out (dir_conv d) flags wd st = conv_hex out fl wd st"
    by (simp add: Hex convert_def fl_def)
  with conv_hex_yields [OF good n(1) h _ len [unfolded Hex], of wd] show ?thesis
    by (simp add: Hex f(2) n(2))
next
  case (Ptr x)
  then have f: "flags = 0" "wd = 0" "ld32 (pmem st) (pap st) = x" using p args by (simp_all add: parsed_def)
  let ?fl = "0 OR (LONGFLAG OR ALTFLAG)"
  have h: "has_flag ?fl LEFTFORMATFLAG = False" "has_flag ?fl LEADZEROFLAG = False" "has_flag ?fl ALTFLAG = True" "has_flag ?fl CAPSFLAG = False"
      "has_flag ?fl LONGFLAG" "\<not> has_flag ?fl LONGLONGFLAG"
    by (simp_all add: has_flag_def flag_defs)
  have n: "unsigned_arg ?fl (pmem st) (pap st) = (ucast x, pap st + 4)"
    using h(5,6) f(3) by (simp add: unsigned_arg_def va_int_def)
  have t: "dir_shown d = (if True then [ch CHR ''0'', if False then ch CHR ''X'' else ch CHR ''x''] else [])
      @ field_shown False False (unat (0 :: u32)) [] (hex_text False (unat (ucast x :: u64)))"
    by (simp add: Ptr field_shown_def field_text_def Let_def unat_widen)
  have "convert out (dir_conv d) flags wd st = conv_hex out ?fl 0 st"
    by (simp add: Ptr convert_def f)
  with conv_hex_yields [OF good n h(1-4) t len] show ?thesis by (simp add: Ptr)
next
  case (Str f p s)
  then have f: "flags_of f flags" "wd = fwidth f" "ld32 (pmem st) (pap st) = p"
    using assms(4) args by (simp_all add: parsed_def)
  have "va_int (pmem st) (pap st) = (p, pap st + 4)" by (simp add: va_int_def f)
  moreover have "if p = 0 then s = null_text else cstring (pmem st) p s" using ok by (auto simp: Str split: if_splits)
  moreover have "has_flag flags LEFTFORMATFLAG = fleft f" using f(1) by (simp add: flags_of_def)
  ultimately show ?thesis using conv_str_yields [OF good, of p "pap st + 4" s flags "fleft f" wd] len
    by (simp add: Str convert_def f(2))
next
  case (Chr c)
  then have "ld32 (pmem st) (pap st) = c" using args by simp
  moreover have "yields m0 (w @ [ucast c]) (pap st + 4) (output_char out (ucast c) (st\<lparr>pap := pap st + 4\<rparr>))"
    using output_char_yields [OF good_args(2) [OF good, of "pap st + 4"], of "ucast c"] ok len by (simp add: Chr)
  ultimately show ?thesis by (simp add: Chr convert_def va_int_def)
next
  case Percent
  then show ?thesis
    using output_char_yields [OF good, of "ch CHR ''%''"] len ok_nonzero by (simp add: convert_def)
qed

text \<open>All spellings of a conversion are one branch of the code.\<close>

lemma spelled_convert: "dir_spelled d ms c \<Longrightarrow> convert out c flags wd st = convert out (dir_conv d) flags wd st"
  by (cases d) (auto simp: convert_def)

lemma dir_parse:
  assumes "bytes_in m W p (ms @ c # rest)" and c: "dir_spelled d ms c"
  shows "\<exists>flags wd. parse_format m p 0 0 = Some (c, p + of_nat (Suc (length ms)), flags, wd) \<and> parsed d flags wd"
proof -
  have b: "bytes_in m W p (ms @ [c])" using assms(1) by (simp add: bytes_in_append bytes_in_Cons)
  have nz: "0 \<notin> set ms" using c mods_nz by (cases d) auto
  have "\<exists>flags wd. format_fold ms (0, 0) = Some (flags, wd) \<and> parsed d flags wd"
    using c mods_fold by (cases d) (auto simp: parsed_def simp del: format_fold_simps(2))
  then show ?thesis using parse_format_fold [OF b nz] spelled_plain [OF c] by blast
qed

lemma scan_literal_ok:
  assumes "bytes_in m W p (l @ c # rest)" "0 \<notin> set l" "ch CHR ''%'' \<notin> set l" "c = 0 \<or> c = ch CHR ''%''"
  shows "scan_literal m p n = Some (c, p + of_nat (Suc (length l)), n + of_nat (length l))"
  using assms(1-3)
proof (induction l arbitrary: p n)
  case Nil
  then show ?case using assms(4) by (auto simp: scan_literal.simps bytes_in_Cons)
next
  case (Cons d l)
  then have "scan_literal m (p + 1) (n + 1) = Some (c, p + 1 + of_nat (Suc (length l)), n + 1 + of_nat (length l))"
    by (intro Cons.IH) (auto simp: bytes_in_Cons)
  then show ?case using Cons.prems
    by (simp add: scan_literal.simps [of m p n] bytes_in_Cons add.assoc)
qed

text \<open>The whole format.\<close>

lemma good_frame: "good m0 st w \<Longrightarrow> frame W m0 (pmem st)"
  by (simp add: good_def)

lemma literal_yields:
  assumes "good m0 st w" "bytes_in m0 W fmt (p @ c # rest)" "plain p" "c = 0 \<or> c = ch CHR ''%''"
    and "length w + length p < 2 ^ 31"
  shows "\<exists>st1. scan_literal (pmem st) fmt 0 = Some (c, fmt + of_nat (Suc (length p)), of_nat (length p))
    \<and> output_string out (mem_bytes (pmem st) fmt (unat (of_nat (length p) :: u32))) st = Inr st1
    \<and> good m0 st1 (w @ p) \<and> pap st1 = pap st"
proof -
  have b: "bytes_in (pmem st) W fmt (p @ c # rest)" using bytes_in_frame [OF good_frame [OF assms(1)] assms(2)] .
  have "scan_literal (pmem st) fmt 0 = Some (c, fmt + of_nat (Suc (length p)), of_nat (length p))"
    using scan_literal_ok [OF b] assms(3,4) by (simp add: plain_def)
  moreover have "mem_bytes (pmem st) fmt (unat (of_nat (length p) :: u32)) = p"
    using mem_bytes_in [of "pmem st" W fmt p] b assms(5) by (simp add: bytes_in_append unsigned_of_nat take_bit_nat_eq_self)
  moreover have "\<forall>b\<in>set p. okb b" using assms(3) ok_nonzero by (metis plain_def)
  ultimately show ?thesis using output_string_full [OF assms(1) _ assms(5)] by auto
qed

lemma engine_loop_ok:
  assumes "good m0 st w" "bytes_in m0 W fmt bs" "fmt_spelled ds l bs"
    and "words_in m0 W (pap st) (concat (map (dir_words \<circ> snd) ds))"
    and "\<forall>(p, d)\<in>set ds. plain p \<and> dir_ok okb m0 W d" "plain l"
    and "length w + length (fmt_shown ds l) < 2 ^ 31"
  shows "\<exists>st'. engine_loop out fmt st = Some st' \<and> good m0 st' (w @ fmt_shown ds l)"
  using assms
proof (induction ds arbitrary: fmt st w bs)
  case Nil
  then have "bytes_in m0 W fmt (l @ 0 # [])" "length w + length l < 2 ^ 31" by simp_all
  from literal_yields [OF Nil.prems(1) this(1) Nil.prems(6) _ this(2)] show ?case
    by (auto simp: engine_loop.simps [of out fmt])
next
  case (Cons pd ds)
  obtain p d where pd: "pd = (p, d)" by force
  obtain ms c bs' where bs: "bs = p @ ch CHR ''%'' # ms @ c # bs'" and c: "dir_spelled d ms c" and sp: "fmt_spelled ds l bs'"
    using Cons.prems(3) by (auto simp: pd)
  let ?rest = "ms @ c # bs'" and ?fmt1 = "fmt + of_nat (Suc (length p))"
  let ?fmt2 = "?fmt1 + of_nat (Suc (length ms))" and ?ws = "concat (map (dir_words \<circ> snd) ds)"
  have b: "bytes_in m0 W fmt (p @ ch CHR ''%'' # ?rest)" using Cons.prems(2) by (simp add: bs)
  then have b2: "bytes_in m0 W ?fmt1 ?rest" "bytes_in m0 W ?fmt2 bs'"
    by (simp_all add: bytes_in_append bytes_in_Cons algebra_simps)
  have a: "words_in m0 W (pap st) (dir_words d)" "words_in m0 W (pap st + of_nat (4 * length (dir_words d))) ?ws"
    using Cons.prems(4) by (simp_all add: pd words_in_append comp_def)
  have pl: "plain p" "dir_ok okb m0 W d" using Cons.prems(5) by (simp_all add: pd)
  have len: "length w + length p < 2 ^ 31" "length (w @ p) + length (dir_shown d) < 2 ^ 31"
      "length ((w @ p) @ dir_shown d) + length (fmt_shown ds l) < 2 ^ 31"
    using Cons.prems(7) by (simp_all add: pd)
  obtain st1 where 1: "scan_literal (pmem st) fmt 0 = Some (ch CHR ''%'', ?fmt1, of_nat (length p))"
      "output_string out (mem_bytes (pmem st) fmt (unat (of_nat (length p) :: u32))) st = Inr st1"
      "good m0 st1 (w @ p)" "pap st1 = pap st"
    using literal_yields [OF Cons.prems(1) b pl(1) _ len(1)] by blast
  note fr = good_frame [OF 1(3)]
  obtain flags wd where ps: "parse_format (pmem st1) ?fmt1 0 0 = Some (c, ?fmt2, flags, wd)" "parsed d flags wd"
    using dir_parse [OF bytes_in_frame [OF fr b2(1)] c] by blast
  from convert_yields [OF 1(3) dir_ok_frame [OF fr pl(2)] _ ps(2) len(2)] words_in_frame [OF fr a(1)] obtain st2 where
    2: "convert out c flags wd st1 = Some (Inr st2)" "good m0 st2 ((w @ p) @ dir_shown d)"
      "pap st2 = pap st + of_nat (4 * length (dir_words d))"
    unfolding yields_def 1(4) spelled_convert [OF c] by blast
  have ds: "\<forall>(p, d)\<in>set ds. plain p \<and> dir_ok okb m0 W d" using Cons.prems(5) by simp
  have a2: "words_in m0 W (pap st2) ?ws" using a(2) 2(3) by (simp only:)
  from Cons.IH [OF 2(2) b2(2) sp a2 ds Cons.prems(6) len(3)]
  have "\<exists>st'. engine_loop out ?fmt2 st2 = Some st' \<and> good m0 st' (w @ fmt_shown (pd # ds) l)"
    by (simp add: pd)
  moreover have "engine_loop out fmt st = engine_loop out ?fmt2 st2"
    using 1(1,2) 2(1) ps(1) spelled_plain [OF c] by (subst engine_loop.simps) simp
  ultimately show ?case by simp
qed

text \<open>The engine sends the described text to the sink and returns its length.\<close>

lemma printf_engine_ok:
  assumes "holds m s []" "bytes_in m W fmt bs" "fmt_spelled ds l bs" "words_in m W ap (concat (map (dir_words \<circ> snd) ds))"
    and "\<forall>(p, d)\<in>set ds. plain p \<and> dir_ok okb m W d" "plain l" "length (fmt_shown ds l) < 2 ^ 31"
  shows "\<exists>m' s'. printf_engine out s m fmt ap = Some (of_nat (length (fmt_shown ds l)), m', s')
    \<and> holds m' s' (fmt_shown ds l) \<and> frame W m m'"
proof -
  let ?st = "\<lparr>pmem = m, pout = s, pap = ap, perr = 0, pwritten = 0, pbuf = replicate 32 0\<rparr>"
  have "good m ?st []" using assms(1) by (simp add: good_def)
  from engine_loop_ok [OF this assms(2,3) _ assms(5,6)] assms(4,7) obtain st' where
    "engine_loop out fmt ?st = Some st'" "good m st' (fmt_shown ds l)" by auto
  then show ?thesis by (auto simp: printf_engine_def good_def)
qed

end

section \<open>Printing to memory is such a sink\<close>

definition buffer_holds :: "addr \<Rightarrow> u32 \<Rightarrow> mem \<Rightarrow> output_args \<Rightarrow> u8 list \<Rightarrow> bool" where
  "buffer_holds str len m a w \<longleftrightarrow> outstr a = str \<and> olen a = len
     \<and> unat (opos a) = min (length w) (unat len)
     \<and> (\<forall>i < min (length w) (unat len). m (str + of_nat i) = w ! i)"

lemma region_nth:
  assumes "i < n" "n \<le> 2 ^ 32"
  shows "p + of_nat i \<in> region p n"
  using assms by (simp add: region_def unsigned_of_nat take_bit_nat_eq_self)

lemma of_nat_inj32: "i < 2 ^ 32 \<Longrightarrow> j < 2 ^ 32 \<Longrightarrow> (of_nat i :: u32) = of_nat j \<longleftrightarrow> i = j"
  by (auto simp: word_unat_eq_iff unsigned_of_nat take_bit_nat_eq_self)

lemma vsnprintf_output_ok:
  assumes "buffer_holds str len m a w"
  shows "\<exists>m' a'. vsnprintf_output bs m a = (of_nat (length bs), m', a')
    \<and> buffer_holds str len m' a' (w @ bs) \<and> frame (region str (unat len)) m m'"
  using assms
proof (induction bs arbitrary: m a w)
  case Nil
  then show ?case by simp
next
  case (Cons b bs)
  define m1 a1 where "m1 = (if opos a < olen a then m(outstr a + opos a := b) else m)"
    and "a1 = (if opos a < olen a then a\<lparr>opos := opos a + 1\<rparr> else a)"
  have h: "outstr a = str" "olen a = len" "unat (opos a) = min (length w) (unat len)"
      "\<forall>i < min (length w) (unat len). m (str + of_nat i) = w ! i"
    using Cons.prems by (simp_all add: buffer_holds_def)
  have len: "unat len < 2 ^ 32" using unat_lt32 [of len] by simp
  have 1: "buffer_holds str len m1 a1 (w @ [b]) \<and> frame (region str (unat len)) m m1"
  proof (cases "length w < unat len")
    case True
    then have o: "opos a = of_nat (length w)" "opos a < len"
      using h(3) len by (auto simp: word_unat_eq_iff word_less_nat_alt unsigned_of_nat take_bit_nat_eq_self)
    have "unat (opos a + 1) = length w + 1"
      using True h(3) len by (subst unat_add_lem [THEN iffD1]) auto
    moreover have "m1 (str + of_nat i) = (w @ [b]) ! i" if "i < Suc (length w)" for i
      using that True o h len of_nat_inj32 [of i "length w"] by (auto simp: m1_def nth_append less_Suc_eq)
    ultimately show ?thesis
      using True o h len region_nth [of "length w" "unat len" str]
      by (auto simp: buffer_holds_def m1_def a1_def frame_def)
  next
    case False
    then have "\<not> opos a < olen a" using h by (simp add: word_less_nat_alt)
    then show ?thesis using False h by (auto simp: m1_def a1_def buffer_holds_def nth_append)
  qed
  obtain m' a' where 2: "vsnprintf_output bs m1 a1 = (of_nat (length bs), m', a')"
      "buffer_holds str len m' a' ((w @ [b]) @ bs)" "frame (region str (unat len)) m1 m'"
    using Cons.IH [OF conjunct1 [OF 1]] by blast
  have "vsnprintf_output (b # bs) m a = (of_nat (length bs) + 1, m', a')"
    using 2(1) by (simp add: m1_def a1_def split: if_splits)
  then show ?case using 2(2) frame_trans [OF conjunct2 [OF 1] 2(3)] by (simp add: add.commute)
qed

interpretation vsn: printf_sink vsnprintf_output "buffer_holds str len" "region str (unat len)" "\<lambda>_. True" for str len
  by unfold_locales (use vsnprintf_output_ok in blast, simp)

end
