(* ===== verification/PrintfProps.thy ===== *)
theory PrintfProps
  imports PrintfEngine
begin

text \<open>
  The properties of \<^verbatim>\<open>vsnprintf\<close> and its relatives: the text in the buffer, truncation and the
  terminator, the returned length, the memory that may change, and two calls for which the
  code does something else than a caller expects.
\<close>

section \<open>Calls\<close>

text \<open>A call whose format is described by \<open>ds\<close> and \<open>l\<close>, in memory the output does not touch.\<close>

definition described_call :: "(u8 \<Rightarrow> bool) \<Rightarrow> addr set \<Rightarrow> mem \<Rightarrow> addr \<Rightarrow> addr \<Rightarrow> (u8 list \<times> directive) list \<Rightarrow> u8 list \<Rightarrow> bool" where
  "described_call okb W m fmt ap ds l \<longleftrightarrow> (\<exists>bs. fmt_spelled ds l bs \<and> bytes_in m W fmt bs)
     \<and> words_in m W ap (concat (map (dir_words \<circ> snd) ds))
     \<and> (\<forall>(p, d)\<in>set ds. plain p \<and> dir_ok okb m W d) \<and> plain l \<and> length (fmt_shown ds l) < 2 ^ 31"

lemma vsnprintf_run:
  assumes "described_call (\<lambda>_. True) (region str (unat len)) m fmt ap ds l"
  shows "\<exists>m1 a. vsnprintf m str len fmt ap = Some (of_nat (length (fmt_shown ds l)),
      if unat len \<le> length (fmt_shown ds l) then m1(str + (len - 1) := 0)
      else m1(str + of_nat (length (fmt_shown ds l)) := 0))
    \<and> buffer_holds str len m1 a (fmt_shown ds l) \<and> frame (region str (unat len)) m m1"
proof -
  let ?t = "fmt_shown ds l" and ?a = "\<lparr>outstr = str, olen = len, opos = 0\<rparr>"
  have "buffer_holds str len m ?a []" by (simp add: buffer_holds_def)
  from vsn.printf_engine_ok [OF this] assms obtain m1 a where
    r: "printf_engine vsnprintf_output ?a m fmt ap = Some (of_nat (length ?t), m1, a)"
      "buffer_holds str len m1 a ?t" "frame (region str (unat len)) m m1"
    unfolding described_call_def by blast
  have "opos a \<ge> len \<longleftrightarrow> unat len \<le> length ?t"
    using r(2) by (auto simp: buffer_holds_def word_le_nat_alt)
  then show ?thesis using r by (auto simp: vsnprintf_def)
qed

lemma buffer_text:
  assumes "buffer_holds str len m1 a t" "0 < unat len" "frame (region str (unat len)) m m1"
    and m': "m' = (if unat len \<le> length t then m1(str + (len - 1) := 0) else m1(str + of_nat (length t) := 0))"
  shows "frame (region str (unat len)) m m'" "\<forall>i < min (length t) (unat len - 1). m' (str + of_nat i) = t ! i"
    "m' (str + of_nat (min (length t) (unat len - 1))) = 0"
proof -
  let ?k = "min (length t) (unat len - 1)"
  have len: "unat len < 2 ^ 32" using unat_lt32 [of len] by simp
  have "len \<noteq> 0" using assms(2) by auto
  then have "unat (len - 1) = unat len - 1" by (rule unat_minus_one)
  then have "len - 1 = of_nat (unat len - 1)" by (metis of_nat_unat ucast_id)
  then have m'': "m' = m1(str + of_nat ?k := 0)" using m' assms(2) by (auto simp: min_def)
  then show "m' (str + of_nat ?k) = 0" by simp
  show "frame (region str (unat len)) m m'"
    using assms(2,3) len region_nth [of ?k "unat len" str] by (auto simp: m'' frame_def)
  show "\<forall>i < ?k. m' (str + of_nat i) = t ! i"
  proof (intro allI impI)
    fix i assume i: "i < ?k"
    have "i < 2 ^ 32" "?k < 2 ^ 32" using i len by linarith+
    then have "(of_nat i :: u32) \<noteq> of_nat ?k" using i of_nat_inj32 [of i ?k] by blast
    then show "m' (str + of_nat i) = t ! i" using i assms(1,2) by (auto simp: m'' buffer_holds_def)
  qed
qed

section \<open>Properties\<close>


text \<open>The call \<^verbatim>\<open>snprintf(buf, 8, "v=%+5i", 42)\<close> with the format at 0x100, the argument at 0x200
  and the buffer at 0x300.\<close>

definition call_memory :: mem where
  "call_memory = (\<lambda>a. if a - 0x100 < 7 then (map ch ''v=%+5i'' @ [0]) ! unat (a - 0x100)
     else if a = 0x200 then 42 else 0)"

definition width5 :: fspec where
  "width5 = \<lparr>fleft = False, fzero = False, fplus = False, fblank = False, falt = False, fwidth = 5, flen = LInt\<rparr>"

definition plus5 :: fspec where "plus5 = width5\<lparr>fplus := True\<rparr>"

lemma dec_text_5: "dec_text 5 = [53]"
  by (simp add: dec_text_def digits_small dec_char_def)

lemma plus5_spelled: "fmt_spelled [(map ch ''v='', Dec plus5 42)] [] (map ch ''v=%+5i'' @ [0])"
proof -
  have "flags_spelled plus5 [43]" by (simp add: flags_spelled_def plus5_def width5_def)
  moreover have "[43, 53] = [43] @ width_mods plus5" by (simp add: width_mods_def plus5_def width5_def dec_text_5)
  ultimately have "mods_spelled plus5 [43, 53]" unfolding mods_spelled_def by blast
  then have d: "dir_spelled (Dec plus5 42) [43, 53] 105" by simp
  have "fmt_spelled [] [] [0 :: u8]" by simp
  moreover have "map ch ''v=%+5i'' @ [0] = map ch ''v='' @ ch CHR ''%'' # [43, 53] @ 105 # [0]" by simp
  ultimately show ?thesis using d unfolding fmt_spelled.simps(2) by blast
qed

lemma plus5_text: "fmt_shown [(map ch ''v='', Dec plus5 42)] [] = map ch ''v=  +42''" "conforms (Dec plus5 42)"
proof -
  have v: "signed_value (flen plus5) 42 = 42" by (simp add: signed_value_def plus5_def width5_def)
  have r2: "replicate 2 x = [x, x]" for x :: u8 by (simp add: numeral_2_eq_2)
  show "fmt_shown [(map ch ''v='', Dec plus5 42)] [] = map ch ''v=  +42''"
    using v by (simp add: plus5_def width5_def Let_def field_shown_def field_text_def sign_text_def dec_text_def
        digits_small digits_large dec_char_def r2)
  show "conforms (Dec plus5 42)" by (simp add: plus5_def width5_def)
qed

lemma plus5_call:
  assumes "region 0x100 7 \<inter> W = {}" "region 0x200 4 \<inter> W = {}"
  shows "described_call okb W call_memory 0x100 0x200 [(map ch ''v='', Dec plus5 42)] []"
proof -
  have "0x100 + of_nat i \<in> region 0x100 7" if "i < 7" for i
    using that by (simp add: region_def unsigned_of_nat take_bit_nat_eq_self)
  moreover have "call_memory (0x100 + of_nat i) = (map ch ''v=%+5i'' @ [0]) ! i" if "i < 7" for i
    using that by (simp add: call_memory_def word_less_nat_alt unsigned_of_nat take_bit_nat_eq_self)
  moreover have "length (map ch ''v=%+5i'' @ [0]) = 7" by simp
  ultimately have b: "bytes_in call_memory W 0x100 (map ch ''v=%+5i'' @ [0])" using assms(1) unfolding bytes_in_def by (metis disjoint_iff)
  have "ld32 call_memory 0x200 = ucast (42 :: u64)" by code_simp
  then have w: "words_in call_memory W 0x200 (dir_words (Dec plus5 42))"
    using assms(2) by (simp add: num_words_def plus5_def width5_def)
  have l: "length (fmt_shown [(map ch ''v='', Dec plus5 42)] []) < 2 ^ 31" unfolding plus5_text by simp
  have e: "\<exists>bs. fmt_spelled [(map ch ''v='', Dec plus5 42)] [] bs \<and> bytes_in call_memory W 0x100 bs"
    using b plus5_spelled by blast
  show ?thesis unfolding described_call_def
    by (intro conjI e l) (use w in \<open>simp_all add: plain_def\<close>)
qed


text \<open>
  With a buffer length of 0, the measuring call of the C standard, \<^verbatim>\<open>vsnprintf\<close> returns the
  right length but stores a zero byte in front of the buffer it was given: \<^verbatim>\<open>len - 1\<close> wraps.
\<close>

theorem vsnprintf_zero_length:
  assumes "described_call (\<lambda>_. True) {} m fmt ap ds l"
  shows "vsnprintf m str 0 fmt ap = Some (of_nat (length (fmt_shown ds l)), m(str - 1 := 0))"
proof -
  have "region str (unat (0 :: u32)) = {}" by (simp add: region_def)
  with vsnprintf_run [of str 0 m fmt ap ds l] assms obtain m1 where
    r: "vsnprintf m str 0 fmt ap = Some (of_nat (length (fmt_shown ds l)), m1(str - 1 := 0))" "frame {} m m1"
    by auto
  have "m1 = m" using r(2) by (auto simp: frame_def)
  then show ?thesis using r(1) by simp
qed

definition plain_memory :: mem where
  "plain_memory = (\<lambda>a. if a - 0x100 < 2 then (map ch ''ok'') ! unat (a - 0x100) else if a = 0x2FF then 7 else 0)"

theorem vsnprintf_zero_length_witness:
  "vsnprintf plain_memory 0x300 0 0x100 0x200 = Some (2, plain_memory(0x2FF := 0)) \<and> plain_memory 0x2FF = 7"
proof -
  have "described_call (\<lambda>_. True) {} plain_memory 0x100 0x200 [] (map ch ''ok'')"
    by (simp add: described_call_def bytes_in_Cons plain_memory_def plain_def)
  from vsnprintf_zero_length [OF this, of "0x300"] show ?thesis by (simp add: plain_memory_def)
qed

text \<open>
  The \<^verbatim>\<open>-\<close> flag drops the sign of a number: for \<^verbatim>\<open>%-<width>d\<close> the buffer holds the digits
  of the magnitude, padded on the right, whether the argument is negative or not (and whether
  the plus or blank flag asks for a sign).
\<close>

theorem left_justified_sign_lost:
  assumes "described_call (\<lambda>_. True) (region str (unat len)) m fmt ap [([], Dec f x)] []"
    and "fleft f" and t: "t = dec_text (nat \<bar>signed_value (flen f) x\<bar>)" and "0 < unat len"
  shows "\<exists>m'. vsnprintf m str len fmt ap = Some (of_nat (max (unat (fwidth f)) (length t)), m')
    \<and> (\<forall>i < unat len - 1. i < length t \<longrightarrow> m' (str + of_nat i) = t ! i)
    \<and> (\<forall>i < unat len - 1. length t \<le> i \<longrightarrow> i < unat (fwidth f) \<longrightarrow> m' (str + of_nat i) = ch CHR '' '')"
proof -
  let ?t = "fmt_shown [([], Dec f x)] []"
  have e: "?t = t @ replicate (unat (fwidth f) - length t) (ch CHR '' '')"
    using assms(2) t by (simp add: field_shown_def field_text_def Let_def)
  from vsnprintf_run [OF assms(1)] obtain m1 a m' where
    r: "vsnprintf m str len fmt ap = Some (of_nat (length ?t), m')"
      "m' = (if unat len \<le> length ?t then m1(str + (len - 1) := 0) else m1(str + of_nat (length ?t) := 0))"
      "buffer_holds str len m1 a ?t" "frame (region str (unat len)) m m1"
    by blast
  note B = buffer_text(2) [OF r(3) assms(4) r(4,2)]
  have len: "length ?t = max (unat (fwidth f)) (length t)" unfolding e by simp
  have at: "m' (str + of_nat i) = (t @ replicate (unat (fwidth f) - length t) (ch CHR '' '')) ! i" if "i < unat len - 1" "i < max (unat (fwidth f)) (length t)" for i
    using B that len unfolding e [symmetric] by simp
  show ?thesis using r(1) at unfolding len by (intro exI [of _ m']) (auto simp: nth_append)
qed

definition left5 :: fspec where "left5 = width5\<lparr>fleft := True\<rparr>"

definition left_memory :: mem where
  "left_memory = (\<lambda>a. if a - 0x100 < 5 then (map ch ''%-5d'' @ [0]) ! unat (a - 0x100)
     else if a = 0x200 then 0xFD else if a - 0x201 < 3 then 0xFF else 0)"

theorem left_justified_sign_lost_witness:
  "\<exists>m'. vsnprintf left_memory 0x300 8 0x100 0x200 = Some (5, m') \<and> m' 0x300 = ch CHR ''3'' \<and> m' 0x301 = ch CHR '' ''"
proof -
  let ?W = "region 0x300 (unat (8 :: u32))"
  have "flags_spelled left5 [45]" by (simp add: flags_spelled_def left5_def width5_def)
  moreover have "[45, 53] = [45] @ width_mods left5" by (simp add: width_mods_def left5_def width5_def dec_text_5)
  ultimately have "mods_spelled left5 [45, 53]" unfolding mods_spelled_def by blast
  then have d: "dir_spelled (Dec left5 (- 3)) [45, 53] 100" by simp
  have "fmt_spelled [] [] [0 :: u8]" by simp
  moreover have "map ch ''%-5d'' @ [0] = [] @ ch CHR ''%'' # [45, 53] @ 100 # [0]" by simp
  ultimately have "fmt_spelled [([], Dec left5 (- 3))] [] (map ch ''%-5d'' @ [0])" using d unfolding fmt_spelled.simps(2) by blast
  moreover have "bytes_in left_memory ?W 0x100 (map ch ''%-5d'' @ [0])"
    by (simp add: bytes_in_Cons left_memory_def region_def)
  ultimately have b: "\<exists>bs. fmt_spelled [([], Dec left5 (- 3))] [] bs \<and> bytes_in left_memory ?W 0x100 bs" by blast
  have w: "words_in left_memory ?W 0x200 (dir_words (Dec left5 (- 3)))"
  proof -
    have "ld32 left_memory 0x200 = ucast (- 3 :: u64)" by code_simp
    moreover have "region 0x200 4 \<inter> ?W = {}"
      using apart_iff_disjoint [of 4 8 "0x200" "0x300"] by (simp add: apart_def)
    ultimately show ?thesis by (simp add: num_words_def left5_def width5_def)
  qed
  have v: "signed_value (flen left5) (- 3) = - 3" by (simp add: signed_value_def left5_def width5_def)
  have t: "dec_text (nat \<bar>signed_value (flen left5) (- 3)\<bar>) = [51]"
    by (simp add: v dec_text_def digits_small dec_char_def)
  have "length (fmt_shown [([], Dec left5 (- 3))] []) = 5"
    by (simp add: field_shown_def field_text_def Let_def t) (simp add: left5_def width5_def)
  then have "described_call (\<lambda>_. True) ?W left_memory 0x100 0x200 [([], Dec left5 (- 3))] []"
    using b w by (simp add: described_call_def plain_def)
  from left_justified_sign_lost [OF this _ t [symmetric]]
  obtain m' where "vsnprintf left_memory 0x300 8 0x100 0x200 = Some (5, m')"
      "\<forall>i < 7. i < 1 \<longrightarrow> m' (0x300 + of_nat i) = [51] ! i"
      "\<forall>i < 7. 1 \<le> i \<longrightarrow> i < 5 \<longrightarrow> m' (0x300 + of_nat i) = ch CHR '' ''"
    by (auto simp: left5_def width5_def)
  then show ?thesis by (intro exI [of _ m']) (force dest: spec [of _ 0] spec [of _ 1])
qed

end
