(* ===== verification/Console.thy ===== *)
theory Console
  imports Vga PrintfProps
begin

text \<open>
  The console (\<^verbatim>\<open>console.c\<close>), the character functions of \<^verbatim>\<open>stdio.c\<close> and \<^verbatim>\<open>printf\<close> to the
  screen. \<^verbatim>\<open>console_write\<close> gets the bytes its pointer leads to; of a byte it looks at but does
  not print (it tests \<^verbatim>\<open>*str\<close> before \<^verbatim>\<open>i < len\<close>) nothing depends. The console is interpreted as
  an output function of the printf engine, so that everything proved about the engine holds for
  what \<^verbatim>\<open>printf\<close> puts on the screen.
\<close>

section \<open>console.c\<close>

definition console_init :: "mem \<Rightarrow> (u16 \<times> u8) list \<times> mem" where
  "console_init m = vga_console_init True m"

fun console_loop :: "u8 list \<Rightarrow> u32 \<Rightarrow> u32 \<Rightarrow> bool \<Rightarrow> mem \<Rightarrow> vga_state \<Rightarrow> u32 \<times> mem \<times> vga_state" where
  "console_loop [] i len crlf m s = (i, m, s)"
| "console_loop (c # str) i len crlf m s =
    (if c \<noteq> 0 \<and> i < len then
       (let (m, s) = (if crlf \<and> c = ch CHR ''\<newline>'' then vga_console_putchar m s 13 else (m, s));
            (m, s) = vga_console_putchar m s c
        in console_loop str (i + 1) len crlf m s)
     else (i, m, s))"

definition console_write :: "u8 list \<Rightarrow> u32 \<Rightarrow> bool \<Rightarrow> mem \<Rightarrow> vga_state \<Rightarrow> u32 \<times> mem \<times> vga_state" where
  "console_write str len crlf m s = console_loop str 0 len crlf m s"

definition console_input :: "u8 \<Rightarrow> mem \<Rightarrow> vga_state \<Rightarrow> mem \<times> vga_state" where
  "console_input c m s = snd (console_write [c] 1 True m s)"

section \<open>stdio.c and printf\<close>

definition putchar :: "u32 \<Rightarrow> mem \<Rightarrow> vga_state \<Rightarrow> u32 \<times> mem \<times> vga_state" where
  "putchar c' m s =
    (let c = ucast c' :: u8; (_, m, s) = console_write [c] 1 True m s in (scast c, m, s))"

definition puts :: "addr \<Rightarrow> mem \<Rightarrow> vga_state \<Rightarrow> (u32 \<times> mem \<times> vga_state) option" where
  "puts c m s = Option.bind (strlen m c) (\<lambda>n.
    let (_, m, s) = console_write (mem_bytes m c (unat n + 1)) (- 1) True m s;
        (_, m, s) = putchar 10 m s
    in Some (0, m, s))"

text \<open>\<^verbatim>\<open>&console_write\<close> as the engine's output function, with the state pointer 1 as \<^verbatim>\<open>crlf\<close>.\<close>

definition console_sink :: "vga_state sink" where
  "console_sink bs m s = console_write bs (of_nat (length bs)) True m s"

definition vprintf :: "addr \<Rightarrow> addr \<Rightarrow> mem \<Rightarrow> vga_state \<Rightarrow> (u32 \<times> mem \<times> vga_state) option" where
  "vprintf fmt ap m s = printf_engine console_sink s m fmt ap"

definition printf :: "addr \<Rightarrow> addr \<Rightarrow> mem \<Rightarrow> vga_state \<Rightarrow> (u32 \<times> mem \<times> vga_state) option" where
  "printf fmt ap m s = vprintf fmt ap m s"

section \<open>Text on the terminal\<close>

text \<open>A newline is sent as carriage return and line feed.\<close>

definition scr_putc :: "screen \<Rightarrow> u8 \<Rightarrow> screen" where
  "scr_putc t c = (if c = 10 then scr_put (scr_put t 13) 10 else scr_put t c)"

abbreviation scr_text :: "screen \<Rightarrow> u8 list \<Rightarrow> screen" where "scr_text \<equiv> foldl scr_putc"

definition console_run :: "mem \<Rightarrow> vga_state \<Rightarrow> u8 list \<Rightarrow> mem \<Rightarrow> vga_state \<Rightarrow> bool" where
  "console_run m s bs m' s' \<longleftrightarrow> on_screen s' \<and> screen_of m' s' = scr_text (screen_of m s) bs
     \<and> frame vga_region m m'"

lemma console_run_refl: "on_screen s \<Longrightarrow> console_run m s [] m s"
  by (simp add: console_run_def)

lemma console_run_trans:
  "console_run m s as m1 s1 \<Longrightarrow> console_run m1 s1 bs m2 s2 \<Longrightarrow> console_run m s (as @ bs) m2 s2"
  by (auto simp: console_run_def intro: frame_trans)

lemma console_char_run:
  assumes "on_screen s"
  shows "\<exists>m' s'. (let (m, s) = (if c = 10 then vga_console_putchar m s 13 else (m, s)) in vga_console_putchar m s c) = (m', s')
    \<and> console_run m s [c] m' s'"
proof (cases "c = 10")
  case True
  obtain m1 s1 where 1: "vga_console_putchar m s 13 = (m1, s1)" by force
  obtain m2 s2 where 2: "vga_console_putchar m1 s1 c = (m2, s2)" by force
  note P = putchar_refines [OF assms 1] and Q = putchar_refines [OF putchar_refines(1) [OF assms 1] 2]
  show ?thesis using True 1 2 P Q frame_trans [OF P(3) Q(3)] by (simp add: console_run_def scr_putc_def)
next
  case False
  obtain m1 s1 where 1: "vga_console_putchar m s c = (m1, s1)" by force
  then show ?thesis using False putchar_refines [OF assms 1] by (simp add: console_run_def scr_putc_def)
qed

lemma console_loop_run:
  assumes "on_screen s" "length bs + unat i < 2 ^ 32"
    and k: "ps = take (unat len - unat i) (takeWhile (\<lambda>b. b \<noteq> 0) bs)"
  shows "\<exists>m' s'. console_loop bs i len True m s = (i + of_nat (length ps), m', s') \<and> console_run m s ps m' s'"
  using assms
proof (induction bs arbitrary: i m s ps)
  case Nil
  then show ?case by (simp add: console_run_refl)
next
  case (Cons c bs)
  show ?case
  proof (cases "c \<noteq> 0 \<and> i < len")
    case False
    then have "ps = []" using Cons.prems(3) by (auto simp: word_less_nat_alt)
    moreover have "console_loop (c # bs) i len True m s = (i, m, s)" using False by (simp only: console_loop.simps if_False)
    ultimately show ?thesis using console_run_refl [OF Cons.prems(1)] by auto
  next
    case True
    let ?ps = "take (unat len - unat (i + 1)) (takeWhile (\<lambda>b. b \<noteq> 0) bs)"
    have i: "unat (i + 1) = unat i + 1" using Cons.prems(2) by (subst unat_add_lem [THEN iffD1]) auto
    then have "unat len - unat i = Suc (unat len - unat (i + 1))" using True i by (simp add: word_less_nat_alt Suc_diff_Suc)
    then have ps: "ps = c # ?ps" using True Cons.prems(3) by simp
    obtain m1 s1 where 1: "(let (m, s) = (if c = 10 then vga_console_putchar m s 13 else (m, s)) in vga_console_putchar m s c) = (m1, s1)"
        "console_run m s [c] m1 s1"
      using console_char_run [OF Cons.prems(1), where m = m and c = c] by blast
    then have "on_screen s1" by (simp add: console_run_def)
    from Cons.IH [OF this _ refl, where i = "i + 1" and m = m1] Cons.prems(2) i obtain m' s' where
      2: "console_loop bs (i + 1) len True m1 s1 = (i + 1 + of_nat (length ?ps), m', s')" "console_run m1 s1 ?ps m' s'"
      by auto
    have "console_loop (c # bs) i len True m s = console_loop bs (i + 1) len True m1 s1"
      using True 1(1) by (auto split: prod.splits)
    moreover have "console_run m s ps m' s'" using console_run_trans [OF 1(2) 2(2)] by (simp add: ps)
    ultimately show ?thesis using 2(1) by (simp add: ps add.assoc)
  qed
qed

lemma console_write_run:
  assumes "on_screen s" "length bs < 2 ^ 32" "ps = take (unat len) (takeWhile (\<lambda>b. b \<noteq> 0) bs)"
  shows "\<exists>m' s'. console_write bs len True m s = (of_nat (length ps), m', s') \<and> console_run m s ps m' s'"
  using console_loop_run [of s bs 0 ps len m] assms by (simp add: console_write_def)

lemma takeWhile_nonzero:
  "0 \<notin> set bs \<Longrightarrow> takeWhile (\<lambda>b. b \<noteq> 0) bs = bs"
  "0 \<notin> set bs \<Longrightarrow> takeWhile (\<lambda>b. b \<noteq> 0) (bs @ 0 # cs) = bs"
  by (induction bs) auto

section \<open>The console as a sink\<close>

definition console_holds :: "mem \<Rightarrow> vga_state \<Rightarrow> mem \<Rightarrow> vga_state \<Rightarrow> u8 list \<Rightarrow> bool" where
  "console_holds m0 s0 m s w \<longleftrightarrow> on_screen s0 \<and> console_run m0 s0 w m s"

interpretation con: printf_sink console_sink "console_holds m0 s0" vga_region "\<lambda>b. b \<noteq> 0" for m0 s0
proof unfold_locales
  fix m s w bs
  assume h: "console_holds m0 s0 m s w" and nz: "\<forall>b\<in>set bs. (b :: u8) \<noteq> 0" and len: "length w + length bs < 2 ^ 31"
  have s: "on_screen s" using h by (simp add: console_holds_def console_run_def)
  have "unat (of_nat (length bs) :: u32) = length bs" using len by (simp add: unsigned_of_nat take_bit_nat_eq_self)
  then have ps: "bs = take (unat (of_nat (length bs) :: u32)) (takeWhile (\<lambda>b. b \<noteq> 0) bs)"
    using nz takeWhile_nonzero(1) [of bs] by (metis order_refl take_all)
  obtain m' s' where r: "console_write bs (of_nat (length bs)) True m s = (of_nat (length bs), m', s')" "console_run m s bs m' s'"
    using console_write_run [OF s _ ps, where m = m] len by auto
  have "console_run m0 s0 (w @ bs) m' s'" using h r(2) console_run_trans by (auto simp: console_holds_def)
  then show "\<exists>m' s'. console_sink bs m s = (of_nat (length bs), m', s') \<and> console_holds m0 s0 m' s' (w @ bs)
      \<and> frame vga_region m m'"
    using h r by (auto simp: console_sink_def console_holds_def console_run_def)
qed simp

section \<open>Properties\<close>

text \<open>
  C30. The VGA driver is a terminal of 25 lines and 80 columns. From any cursor on the screen, one
  character does to the 2000 cells and the cursor exactly what the list-level terminal does: a
  printable character goes into the cell at the cursor in white, line feed, carriage return and
  tab move the cursor, a full line wraps, and past the last line the lines move up by one and
  the last one is blank. The cursor stays on the screen and no memory outside the 4000 bytes of
  the frame buffer changes.
\<close>

theorem vga_terminal:
  assumes "on_screen s"
  shows "case vga_console_putchar m s c of (m', s') \<Rightarrow>
    on_screen s' \<and> screen_of m' s' = scr_put (screen_of m s) c \<and> (\<forall>x. x \<notin> region vga 4000 \<longrightarrow> m' x = m x)"
proof -
  obtain m' s' where r: "vga_console_putchar m s c = (m', s')" by force
  from putchar_refines [OF assms r] show ?thesis by (simp add: r frame_def vga_region_def)
qed

theorem vga_terminal_witness:
  "case vga_console_putchar (\<lambda>_. 0) \<lparr>vcol = 79, vline = 24\<rparr> 65 of (m', s') \<Rightarrow>
    on_screen s' \<and> screen_of m' s' = scr_put (screen_of (\<lambda>_. 0) \<lparr>vcol = 79, vline = 24\<rparr>) 65
      \<and> (\<forall>x. x \<notin> region vga 4000 \<longrightarrow> m' x = 0)"
  by (rule vga_terminal) (simp add: on_screen_def)

text \<open>
  \<^verbatim>\<open>vga_console_init\<close> with \<^verbatim>\<open>clear\<close> blanks all 2000 cells, whatever was in the frame buffer, and
  nothing else.
\<close>

theorem vga_clears:
  "cells (snd (vga_console_init True m)) = replicate 2000 blank
    \<and> (\<forall>x. x \<notin> region vga 4000 \<longrightarrow> snd (vga_console_init True m) x = m x)"
  using vga_fill_cells [of 2000 0 m]
  by (simp add: vga_console_init_def SCREEN_WIDTH_def SCREEN_HEIGHT_def frame_def vga_region_def blank_def)

theorem vga_clears_witness:
  "cells (snd (vga_console_init True (\<lambda>_. 7))) = replicate 2000 blank \<and> snd (vga_console_init True (\<lambda>_. 7)) 0x10 = 7"
  using vga_clears [of "\<lambda>_. 7"] by (simp add: region_def vga_def)

text \<open>
  \<^verbatim>\<open>console_write\<close> with newline translation prints the bytes up to the first zero byte, at most
  \<^verbatim>\<open>len\<close> of them, as text (a newline also returns the carriage), and returns their number.
\<close>

theorem console_write_text:
  assumes "on_screen s" "length bs < 2 ^ 32" "ps = take (unat len) (takeWhile (\<lambda>b. b \<noteq> 0) bs)"
  shows "\<exists>m' s'. console_write bs len True m s = (of_nat (length ps), m', s') \<and> on_screen s'
    \<and> screen_of m' s' = scr_text (screen_of m s) ps \<and> (\<forall>x. x \<notin> region vga 4000 \<longrightarrow> m' x = m x)"
  using console_write_run [OF assms] by (auto simp: console_run_def frame_def vga_region_def)

theorem console_write_text_witness:
  "\<exists>m' s'. console_write [104, 105, 10, 0, 33] 100 True (\<lambda>_. 0) \<lparr>vcol = 0, vline = 0\<rparr> = (3, m', s')
    \<and> screen_of m' s' = scr_text (screen_of (\<lambda>_. 0) \<lparr>vcol = 0, vline = 0\<rparr>) [104, 105, 10]"
  using console_write_text [of "\<lparr>vcol = 0, vline = 0\<rparr>" "[104, 105, 10, 0, 33]" "[104, 105, 10]" 100 "\<lambda>_. 0"]
  by (auto simp: on_screen_def)



text \<open>
  \<^verbatim>\<open>puts\<close> of a C string prints the string and a newline and returns 0.
\<close>

theorem puts_line:
  assumes "on_screen s" "cstring m p bs" "length bs + 1 < 2 ^ 32"
  shows "\<exists>m' s'. puts p m s = Some (0, m', s') \<and> on_screen s'
    \<and> screen_of m' s' = scr_text (screen_of m s) (bs @ [10]) \<and> (\<forall>x. x \<notin> region vga 4000 \<longrightarrow> m' x = m x)"
proof -
  have n: "strlen m p = Some (of_nat (length bs))" "unat (of_nat (length bs) :: u32) = length bs"
    using strlen_loop_cstring [OF assms(2), of 0] assms(3)
    by (simp_all add: strlen_def unsigned_of_nat take_bit_nat_eq_self)
  have b: "mem_bytes m p (length bs + 1) = bs @ [0]"
    using assms(2) by (auto simp: mem_bytes_def cstring_def nth_append intro: nth_equalityI)
  have "takeWhile (\<lambda>b. b \<noteq> 0) (bs @ [0]) = bs" using assms(2) by (simp add: cstring_def takeWhile_nonzero)
  moreover have "unat (- 1 :: u32) = 2 ^ 32 - 1" by (simp add: unsigned_minus_1_eq_mask mask_eq_exp_minus_1)
  ultimately have "bs = take (unat (- 1 :: u32)) (takeWhile (\<lambda>b. b \<noteq> 0) (bs @ [0]))" using assms(3) by simp
  from console_write_run [OF assms(1) _ this, where m = m] assms(3) obtain m1 s1 where
    1: "console_write (bs @ [0]) (- 1) True m s = (of_nat (length bs), m1, s1)" "console_run m s bs m1 s1" by auto
  then have "on_screen s1" by (simp add: console_run_def)
  from console_write_run [OF this, of "[10]" "[10]" 1 m1] obtain m2 s2 where
    2: "console_write [10] 1 True m1 s1 = (1, m2, s2)" "console_run m1 s1 [10] m2 s2" by auto
  have "puts p m s = Some (0, m2, s2)" using n b 1(1) 2(1) by (simp add: puts_def putchar_def)
  then show ?thesis using console_run_trans [OF 1(2) 2(2)] by (auto simp: console_run_def frame_def vga_region_def)
qed

theorem puts_line_witness:
  "\<exists>m' s'. puts 0x100 plain_memory \<lparr>vcol = 0, vline = 0\<rparr> = Some (0, m', s')
    \<and> screen_of m' s' = scr_text (screen_of plain_memory \<lparr>vcol = 0, vline = 0\<rparr>) (map ch ''ok'' @ [10])"
proof -
  have "cstring plain_memory 0x100 (map ch ''ok'')" by (auto simp: cstring_def plain_memory_def less_Suc_eq)
  from puts_line [OF _ this, of "\<lparr>vcol = 0, vline = 0\<rparr>"] show ?thesis by (auto simp: on_screen_def)
qed

end
