(* ===== verification/MessageText.thy ===== *)
theory MessageText
  imports Console
begin

text \<open>
  The texts of the kernel's messages. What a directive for a number prints has no NUL byte and a
  bounded length, so the console shows a message of literal text and numbers as it is described.
\<close>

section \<open>Texts with a constant format\<close>

abbreviation lit :: "string \<Rightarrow> u8 list" where "lit \<equiv> map ch"

definition plain_spec :: fspec where
  "plain_spec = \<lparr>fleft = False, fzero = False, fplus = False, fblank = False, falt = False, fwidth = 0, flen = LInt\<rparr>"

definition size_spec :: fspec where "size_spec = plain_spec\<lparr>flen := LSize\<rparr>"

lemma console_sink_run:
  assumes "on_screen s" "0 \<notin> set bs" "length bs < 2 ^ 32"
  shows "\<exists>m' s'. console_sink bs m s = (of_nat (length bs), m', s') \<and> console_run m s bs m' s'"
proof -
  have "unat (of_nat (length bs) :: u32) = length bs" using assms(3) by (simp add: unsigned_of_nat take_bit_nat_eq_self)
  then have "bs = take (unat (of_nat (length bs) :: u32)) (takeWhile (\<lambda>b. b \<noteq> 0) bs)"
    unfolding takeWhile_nonzero(1) [OF assms(2)] by simp
  then show ?thesis unfolding console_sink_def by (rule console_write_run [OF assms(1,3)])
qed

section \<open>Numbers are short\<close>

text \<open>A directive for a number, with a field of at most 100 characters.\<close>

fun number_dir :: "directive \<Rightarrow> bool" where
  "number_dir (Dec f x) \<longleftrightarrow> unat (fwidth f) \<le> 100"
| "number_dir (Uns f x) \<longleftrightarrow> unat (fwidth f) \<le> 100"
| "number_dir (Hex caps f x) \<longleftrightarrow> unat (fwidth f) \<le> 100"
| "number_dir (Ptr x) \<longleftrightarrow> True"
| "number_dir _ \<longleftrightarrow> False"

definition short_text :: "nat \<Rightarrow> u8 list \<Rightarrow> bool" where
  "short_text n bs \<longleftrightarrow> 0 \<notin> set bs \<and> length bs \<le> n"

lemma short_text_append: "short_text n as \<Longrightarrow> short_text k bs \<Longrightarrow> n + k \<le> l \<Longrightarrow> short_text l (as @ bs)"
  by (auto simp: short_text_def)

lemma value_bounds: "unsigned_value l x < 2 ^ 64" "nat \<bar>signed_value l x\<bar> < 2 ^ 64"
proof -
  have s: "unat (w :: u16) < 65536" "unat (v :: u8) < 256" for v w using unsigned_less [of w] unsigned_less [of v] by simp_all
  have u: "unat (ucast x :: u32) < 2 ^ 64" "unat (ucast x :: u16) < 2 ^ 64" "unat (ucast x :: u8) < 2 ^ 64"
    using unat_lt32 [of "ucast x"] s(1) [of "ucast x"] s(2) [of "ucast x"] by simp_all
  show "unsigned_value l x < 2 ^ 64" using unat_lt64 [of x] u by (cases l) (simp_all add: unsigned_value_def)
  have "\<bar>sint (x :: u64)\<bar> < 2 ^ 64" "\<bar>sint (ucast x :: u32)\<bar> < 2 ^ 64" "\<bar>sint (ucast x :: u16)\<bar> < 2 ^ 64" "\<bar>sint (ucast x :: u8)\<bar> < 2 ^ 64"
    using sint_ge [of x] sint_lt [of x] sint_ge [of "ucast x :: u32"] sint_lt [of "ucast x :: u32"]
      sint_ge [of "ucast x :: u16"] sint_lt [of "ucast x :: u16"] sint_ge [of "ucast x :: u8"] sint_lt [of "ucast x :: u8"] by simp_all
  then have "\<bar>signed_value l x\<bar> < 2 ^ 64" by (cases l) (simp_all add: signed_value_def)
  then show "nat \<bar>signed_value l x\<bar> < 2 ^ 64" by (simp add: nat_less_iff)
qed

lemma numeral_lengths:
  assumes "n < 2 ^ 64"
  shows "length (dec_text n) \<le> 20" "length (hex_text caps n) \<le> 16"
  using digits_length [of 10 n 19] digits_length [of 16 n 15] assms by (simp_all add: dec_text_def hex_text_def)

lemma field_short:
  assumes "0 \<notin> set s" "length s \<le> 20" "w \<le> 100" "0 \<notin> set sign" "length sign \<le> 1"
  shows "short_text 121 (field_text left zero w sign s)"
  using assms by (auto simp: short_text_def field_text_def Let_def)

lemma sign_short: "0 \<notin> set (sign_text f v)" "length (sign_text f v) \<le> 1"
  by (simp_all add: sign_text_def)

lemma number_short: "number_dir d \<Longrightarrow> short_text 123 (dir_text d)"
proof (cases d)
  case (Dec f x)
  assume "number_dir d"
  then have "short_text 121 (dir_text d)" unfolding Dec dir_text_by.simps Let_def
    using dec_text_nz numeral_lengths(1) [OF value_bounds(2)] sign_short by (intro field_short) simp_all
  then show ?thesis by (auto simp: short_text_def)
next
  case (Uns f x)
  assume "number_dir d"
  then have "short_text 121 (dir_text d)" unfolding Uns dir_text_by.simps Let_def
    using dec_text_nz numeral_lengths(1) [OF value_bounds(1)] sign_short by (intro field_short) simp_all
  then show ?thesis by (auto simp: short_text_def)
next
  case (Hex caps f x)
  assume "number_dir d"
  then have "short_text 121 (field_text (fleft f) (fzero f) (unat (fwidth f)) [] (hex_text caps (unsigned_value (flen f) x)))"
    using hex_text_nz numeral_lengths(2) [OF value_bounds(1), of caps "flen f" x] by (intro field_short) (simp_all add: Hex)
  then show ?thesis by (auto simp: Hex short_text_def)
next
  case (Ptr x)
  have "unat x < 2 ^ 64" using unat_lt32 [of x] by simp
  then show ?thesis using hex_text_nz [of False "unat x"] numeral_lengths(2) [of "unat x" False] by (auto simp: Ptr short_text_def)
qed simp_all

text \<open>A message of at most 100 pieces.\<close>

definition message_ok :: "(u8 list \<times> directive) list \<Rightarrow> u8 list \<Rightarrow> bool" where
  "message_ok ds l \<longleftrightarrow> list_all (\<lambda>(p, d). short_text 100 p \<and> number_dir d) ds \<and> short_text 100 l \<and> length ds \<le> 100"

lemma fmt_text_short:
  "list_all (\<lambda>(p, d). short_text 100 p \<and> number_dir d) ds \<Longrightarrow> short_text 100 l \<Longrightarrow> short_text (223 * length ds + 100) (fmt_text ds l)"
proof (induction ds)
  case (Cons pd ds)
  obtain p d where pd: "pd = (p, d)" by (cases pd)
  have "short_text 223 (p @ dir_text d)"
    using Cons.prems(1) number_short by (intro short_text_append [of 100 p 123]) (simp_all add: pd)
  from short_text_append [OF this Cons.IH] Cons.prems show ?case by (simp add: pd)
qed simp

lemma message_run:
  assumes "message_ok ds l" "on_screen s"
  shows "\<exists>m' s'. console_sink (fmt_text ds l) m s = (of_nat (length (fmt_text ds l)), m', s')
    \<and> console_run m s (fmt_text ds l) m' s'"
proof -
  have "short_text (223 * length ds + 100) (fmt_text ds l)" "length ds \<le> 100"
    using assms(1) by (simp_all add: message_ok_def fmt_text_short)
  then show ?thesis by (intro console_sink_run [OF assms(2)]) (simp_all add: short_text_def)
qed

end
