(* ===== verification/MiniHeap.thy ===== *)
theory MiniHeap
  imports LinkedList CString FreeList MessageText
begin

text \<open>
  The kernel heap, \<^verbatim>\<open>miniheap.c\<close>: a first-fit allocator whose free chunks are linked in
  address order through the chunks themselves. The static \<^verbatim>\<open>struct heap theheap\<close> is the
  record \<open>heap\<close>; its \<^verbatim>\<open>free_list\<close> head node lives in memory at its offset 16, and a free
  chunk is the node (8 bytes) and its length (offset 8) at the start of the free bytes. An
  allocation is preceded by an \<^verbatim>\<open>alloc_struct_begin\<close> (\<open>ptr\<close> at offset 0, \<open>size\<close> at 4).
  The mutex calls are the empty stubs of the source, \<^verbatim>\<open>DEBUG_HEAP\<close> and \<^verbatim>\<open>LOCAL_TRACE\<close>
  are 0 (no fill patterns, no \<^verbatim>\<open>LTRACEF\<close>), and the page allocator is the stub that has no pages.
  \<^verbatim>\<open>heap_grow\<close> reports its failure with \<^verbatim>\<open>TRACEF\<close>, a \<^verbatim>\<open>printf\<close>, so the heap's state has
  the cursor of the console in \<open>h_vst\<close>; the screen is in the memory. A list walk that never reaches the head again is \<open>None\<close>.
\<close>

section \<open>Layout\<close>

definition PAGE_SIZE :: u32 where "PAGE_SIZE = 4096"
definition ERR_NO_MEMORY :: u32 where "ERR_NO_MEMORY = - 1"
definition sizeof_alloc_struct_begin :: u32 where "sizeof_alloc_struct_begin = 8"

record heap =
  hmem :: mem
  h_base :: addr
  h_len :: u32
  h_remaining :: u32
  h_low :: u32
  h_addr :: addr
  h_vst :: vga_state

definition free_list :: "heap \<Rightarrow> addr" where
  "free_list st = h_addr st + 16"

definition chunk_len :: "mem \<Rightarrow> addr \<Rightarrow> u32" where
  "chunk_len m chunk = ld32 m (chunk + 8)"

definition set_chunk_len :: "mem \<Rightarrow> addr \<Rightarrow> u32 \<Rightarrow> mem" where
  "set_chunk_len m chunk v = st32 m (chunk + 8) v"

definition as_ptr :: "mem \<Rightarrow> addr \<Rightarrow> addr" where "as_ptr m as = ld32 m as"
definition as_size :: "mem \<Rightarrow> addr \<Rightarrow> u32" where "as_size m as = ld32 m (as + 4)"

definition page_alloc :: "u32 \<Rightarrow> addr" where "page_alloc pages = NULL"

section \<open>Putting chunks into the free list\<close>

partial_function (option) insert_walk :: "mem \<Rightarrow> addr \<Rightarrow> addr \<Rightarrow> addr \<Rightarrow> (addr \<times> bool) option" where
  "insert_walk m fl chunk next_chunk =
    (if next_chunk \<noteq> fl then
       (if chunk < next_chunk then Some (next_chunk, True)
        else insert_walk m fl chunk (node_next m next_chunk))
     else Some (next_chunk, False))"

definition try_merge :: "mem \<Rightarrow> addr \<Rightarrow> addr \<Rightarrow> addr \<Rightarrow> addr \<times> mem" where
  "try_merge m fl chunk next_chunk =
    (let last_chunk = list_prev_type m fl chunk 0;
         (chunk, m) =
           (if last_chunk \<noteq> NULL then
              (if last_chunk + chunk_len m last_chunk = chunk then
                 (let m = set_chunk_len m last_chunk (chunk_len m last_chunk + chunk_len m chunk);
                      m = list_delete m chunk
                  in (last_chunk, m))
               else (chunk, m))
            else (chunk, m));
         m = (if next_chunk \<noteq> NULL then
                (if chunk + chunk_len m chunk = next_chunk then
                   (let m = set_chunk_len m chunk (chunk_len m chunk + chunk_len m next_chunk)
                    in list_delete m next_chunk)
                 else m)
              else m)
     in (chunk, m))"

definition heap_insert_free_chunk :: "heap \<Rightarrow> addr \<Rightarrow> (addr \<times> heap) option" where
  "heap_insert_free_chunk st chunk =
    (let m = hmem st; fl = free_list st;
         st = st\<lparr>h_remaining := h_remaining st + chunk_len m chunk\<rparr>
     in Option.bind (insert_walk m fl chunk (node_next m fl)) (\<lambda>(next_chunk, found).
       let m = (if found then list_add_before m next_chunk chunk else list_add_tail m fl chunk);
           (chunk, m) = try_merge m fl chunk next_chunk
       in Some (chunk, st\<lparr>hmem := m\<rparr>)))"

definition heap_create_free_chunk :: "mem \<Rightarrow> addr \<Rightarrow> u32 \<Rightarrow> addr \<times> mem" where
  "heap_create_free_chunk m ptr n = (ptr, set_chunk_len m ptr n)"

definition miniheap_init :: "heap \<Rightarrow> addr \<Rightarrow> u32 \<Rightarrow> heap option" where
  "miniheap_init st ptr n =
    (let st = st\<lparr>hmem := list_initialize (hmem st) (free_list st)\<rparr>;
         st = st\<lparr>h_base := ptr, h_len := n, h_remaining := 0, h_low := 0\<rparr>
     in if n > 0 then
          (let (chunk, m) = heap_create_free_chunk (hmem st) ptr n
           in map_option snd (heap_insert_free_chunk (st\<lparr>hmem := m\<rparr>) chunk))
        else Some st)"

text \<open>
  The return value is a signed \<open>ssize_t\<close>. \<^verbatim>\<open>TRACEF\<close> prints the function, the line and the
  message, whether or not tracing is on.
\<close>

definition grow_text :: "u32 \<Rightarrow> u8 list" where
  "grow_text sz = fmt_text [(lit ''heap_grow:'', Dec plain_spec 516),
     (lit '': failed to grow kernel heap by 0x'', Hex False size_spec (ucast sz))] (lit '' bytes'' @ [10])"

definition heap_grow :: "heap \<Rightarrow> u32 \<Rightarrow> (u32 \<times> heap) option" where
  "heap_grow st sz =
    (let sz = ROUNDUP sz PAGE_SIZE;
         ptr = page_alloc (sz div PAGE_SIZE)
     in if ptr = NULL then
          (let (_, m, v) = console_sink (grow_text sz) (hmem st) (h_vst st)
           in Some (ERR_NO_MEMORY, st\<lparr>hmem := m, h_vst := v\<rparr>))
        else (let (chunk, m) = heap_create_free_chunk (hmem st) ptr sz
              in Option.bind (heap_insert_free_chunk (st\<lparr>hmem := m\<rparr>) chunk) (\<lambda>(_, st).
                let st = (if ptr < h_base st \<or> h_base st = 0 then st\<lparr>h_base := ptr\<rparr> else st);
                    endptr = ptr + sz;
                    st = (if endptr > h_base st + h_len st
                          then st\<lparr>h_len := endptr - h_base st\<rparr> else st)
                in Some (sz, st))))"

section \<open>Allocating\<close>

partial_function (option) alloc_walk :: "mem \<Rightarrow> addr \<Rightarrow> u32 \<Rightarrow> addr \<Rightarrow> addr option option" where
  "alloc_walk m fl sz chunk =
    (if chunk \<noteq> fl then
       (if chunk_len m chunk \<ge> sz then Some (Some chunk)
        else alloc_walk m fl sz (node_next m chunk))
     else Some None)"

text \<open>The request as the free list sees it: header, minimum size, rounding, alignment slack.\<close>

definition alloc_size :: "u32 \<Rightarrow> u32 \<Rightarrow> u32 \<times> u32" where
  "alloc_size sz alignment =
    (let sz = sz + sizeof_alloc_struct_begin;
         sz = (if sz < sizeof_free_heap_chunk then sizeof_free_heap_chunk else sz);
         sz = ROUNDUP sz 4
     in if alignment > 0 then
          (let alignment = (if alignment < 16 then 16 else alignment)
           in (sz + alignment, alignment))
        else (sz, alignment))"

definition alloc_from :: "heap \<Rightarrow> u32 \<Rightarrow> u32 \<Rightarrow> addr \<Rightarrow> addr \<times> heap" where
  "alloc_from st sz alignment chunk =
    (let m = hmem st; fl = free_list st;
         next_node = list_next m fl chunk;
         m = list_delete m chunk;
         m = (if chunk_len m chunk > sz + sizeof_free_heap_chunk then
                (let (newchunk, m) = heap_create_free_chunk m (chunk + sz) (chunk_len m chunk - sz);
                     m = set_chunk_len m chunk (chunk_len m chunk - (chunk_len m chunk - sz))
                 in if next_node \<noteq> NULL then list_add_before m next_node newchunk
                    else list_add_tail m fl newchunk)
              else m);
         sz = chunk_len m chunk;
         ptr = chunk + sizeof_alloc_struct_begin;
         ptr = (if alignment > 0 then ROUNDUP ptr alignment else ptr);
         as = ptr - sizeof_alloc_struct_begin;
         m = st32 m as chunk;
         m = st32 m (as + 4) sz;
         st = st\<lparr>hmem := m, h_remaining := h_remaining st - sz\<rparr>;
         st = (if h_remaining st < h_low st then st\<lparr>h_low := h_remaining st\<rparr> else st)
     in (ptr, st))"

definition alloc_try :: "heap \<Rightarrow> u32 \<Rightarrow> u32 \<Rightarrow> (addr \<times> heap) option" where
  "alloc_try st sz alignment =
    Option.bind (alloc_walk (hmem st) (free_list st) sz (node_next (hmem st) (free_list st))) (\<lambda>found.
      case found of None \<Rightarrow> Some (NULL, st)
      | Some chunk \<Rightarrow> Some (alloc_from st sz alignment chunk))"

definition miniheap_alloc :: "heap \<Rightarrow> u32 \<Rightarrow> u32 \<Rightarrow> (addr \<times> heap) option" where
  "miniheap_alloc st sz alignment =
    (if alignment AND (alignment - 1) \<noteq> 0 then Some (NULL, st)
     else let (sz, alignment) = alloc_size sz alignment
       in Option.bind (alloc_try st sz alignment) (\<lambda>(ptr, st).
         if ptr = NULL then
           Option.bind (heap_grow st sz) (\<lambda>(err, st).
             if 0 \<le> sint err then alloc_try st sz alignment else Some (ptr, st))
         else Some (ptr, st)))"

section \<open>Freeing and resizing\<close>

definition miniheap_free :: "heap \<Rightarrow> addr \<Rightarrow> heap option" where
  "miniheap_free st ptr =
    (if ptr = NULL then Some st
     else let as = ptr - sizeof_alloc_struct_begin;
              (chunk, m) = heap_create_free_chunk (hmem st) (as_ptr (hmem st) as) (as_size (hmem st) as)
          in map_option snd (heap_insert_free_chunk (st\<lparr>hmem := m\<rparr>) chunk))"

definition miniheap_realloc :: "heap \<Rightarrow> addr \<Rightarrow> u32 \<Rightarrow> (addr \<times> heap) option" where
  "miniheap_realloc st ptr sz =
    (if ptr = NULL then miniheap_alloc st sz 0
     else if sz = 0 then map_option (\<lambda>st. (NULL, st)) (miniheap_free st ptr)
     else Option.bind (miniheap_alloc st sz 0) (\<lambda>(p, st).
       if p = NULL then Some (NULL, st)
       else let m = snd (memcpy (hmem st) p ptr sz)
            in map_option (\<lambda>st. (p, st)) (miniheap_free (st\<lparr>hmem := m\<rparr>) ptr)))"

section \<open>Trimming\<close>

text \<open>
  One chunk of the trim loop, with the retries of the code: the new heap and how many bytes
  went back to the page allocator (\<^verbatim>\<open>page_free\<close> is a stub without effect).
\<close>

definition trim_free :: "heap \<Rightarrow> addr \<Rightarrow> addr \<Rightarrow> heap" where
  "trim_free st start_page end_page =
    st\<lparr>h_remaining := h_remaining st - (end_page - start_page)\<rparr>"

definition trim_split :: "mem \<Rightarrow> addr \<Rightarrow> u32 \<Rightarrow> addr \<Rightarrow> mem" where
  "trim_split m chunk new_chunk_size end_page =
    (let m = set_chunk_len m chunk (chunk_len m chunk - new_chunk_size);
         (new_chunk, m) = heap_create_free_chunk m end_page new_chunk_size
     in list_add_after m chunk new_chunk)"

partial_function (option) trim_retry ::
    "heap \<Rightarrow> addr \<Rightarrow> addr \<Rightarrow> addr \<Rightarrow> addr \<Rightarrow> addr \<Rightarrow> heap option" where
  "trim_retry st chunk start end' start_page end_page =
    (if end_page > start_page then
       (if start_page = start \<and> end_page = end' then
          Some (trim_free (st\<lparr>hmem := list_delete (hmem st) chunk\<rparr>) start_page end_page)
        else if start_page \<noteq> start \<and> start_page - start < sizeof_free_heap_chunk then
          trim_retry st chunk start end' (start_page + PAGE_SIZE) end_page
        else if end_page < end' \<and> end' - end_page < sizeof_free_heap_chunk then
          trim_retry st chunk start end' start_page (end_page - PAGE_SIZE)
        else
          (let (m, end') = (if end_page < end' then (trim_split (hmem st) chunk (end' - end_page) end_page, end_page)
                            else (hmem st, end'))
           in if start_page = start \<and> end_page = end' then
                Some (trim_free (st\<lparr>hmem := list_delete m chunk\<rparr>) start_page end_page)
              else
                Some (trim_free (st\<lparr>hmem := set_chunk_len m chunk
                    (chunk_len m chunk - (end_page - start_page))\<rparr>) start_page end_page)))
     else Some st)"

definition trim_chunk :: "heap \<Rightarrow> addr \<Rightarrow> heap option" where
  "trim_chunk st chunk =
    (let start = chunk; end' = start + chunk_len (hmem st) chunk;
         start_page = ROUNDUP start PAGE_SIZE; end_page = ROUNDDOWN end' PAGE_SIZE
     in trim_retry st chunk start end' start_page end_page)"

partial_function (option) trim_loop :: "heap \<Rightarrow> addr \<Rightarrow> addr \<Rightarrow> heap option" where
  "trim_loop st chunk next_chunk =
    (if chunk \<noteq> free_list st then
       Option.bind (trim_chunk st chunk) (\<lambda>st.
         trim_loop st next_chunk (node_next (hmem st) next_chunk))
     else Some st)"

definition miniheap_trim :: "heap \<Rightarrow> heap option" where
  "miniheap_trim st =
    (let m = hmem st; chunk = node_next m (free_list st)
     in trim_loop st chunk (node_next m chunk))"

section \<open>Statistics\<close>

record miniheap_stats =
  heap_start :: addr
  heap_len :: u32
  heap_free :: u32
  heap_max_chunk :: u32
  heap_low_watermark :: u32

partial_function (option) stats_loop :: "mem \<Rightarrow> addr \<Rightarrow> addr \<Rightarrow> u32 \<Rightarrow> u32 \<Rightarrow> (u32 \<times> u32) option" where
  "stats_loop m fl chunk free max_chunk =
    (if chunk \<noteq> fl then
       stats_loop m fl (node_next m chunk) (free + chunk_len m chunk)
         (if chunk_len m chunk > max_chunk then chunk_len m chunk else max_chunk)
     else Some (free, max_chunk))"

definition miniheap_get_stats :: "heap \<Rightarrow> miniheap_stats option" where
  "miniheap_get_stats st =
    map_option (\<lambda>(free, max_chunk).
        \<lparr>heap_start = h_base st, heap_len = h_len st, heap_free = free,
         heap_max_chunk = max_chunk, heap_low_watermark = h_low st\<rparr>)
      (stats_loop (hmem st) (free_list st) (node_next (hmem st) (free_list st)) 0 0)"

end
