(* ===== verification/HeapRefine.thy ===== *)
theory HeapRefine
  imports MiniHeap
begin

text \<open>
  The pointer code of theory \<open>MiniHeap\<close> implements the list functions of theory
  \<open>FreeList\<close>: \<open>chunks_rep m fl cs\<close> says that the ring at \<open>fl\<close> links exactly the chunks
  \<open>cs\<close>, each with its length stored in it. Three small steps (link a chunk, store a length,
  unlink a chunk) keep this relation, and every operation is a composition of them.
\<close>

section \<open>Chunks in memory\<close>

definition objs_sep :: "addr \<Rightarrow> addr list \<Rightarrow> bool" where
  "objs_sep fl as \<longleftrightarrow> (\<forall>a\<in>set as. (\<forall>b\<in>set as. a = b \<or> apart a 12 b 12) \<and> apart fl 8 a 12)"

definition chunks_rep :: "mem \<Rightarrow> addr \<Rightarrow> chunk list \<Rightarrow> bool" where
  "chunks_rep m fl cs \<longleftrightarrow> dll m fl (map fst cs) \<and> objs_sep fl (map fst cs)
     \<and> (\<forall>c\<in>set cs. chunk_len m (fst c) = snd c)"

definition objs_region :: "addr \<Rightarrow> addr list \<Rightarrow> addr set" where
  "objs_region fl as = region fl 8 \<union> (\<Union>a\<in>set as. region a 12)"

lemma objs_sepD:
  "objs_sep fl as \<Longrightarrow> a \<in> set as \<Longrightarrow> b \<in> set as \<Longrightarrow> a \<noteq> b \<Longrightarrow> apart a 12 b 12"
  "objs_sep fl as \<Longrightarrow> a \<in> set as \<Longrightarrow> apart fl 8 a 12"
  by (auto simp: objs_sep_def)

lemma objs_sep_subset: "objs_sep fl as \<Longrightarrow> set bs \<subseteq> set as \<Longrightarrow> objs_sep fl bs"
  by (auto simp: objs_sep_def subset_eq)

lemma objs_sep_node:
  "objs_sep fl as \<Longrightarrow> a \<in> set as \<Longrightarrow> p \<in> set (fl # as) \<Longrightarrow> p = a \<or> apart a 12 p 8"
  using apart_mono apart_sym by (force simp: objs_sep_def)

lemma len_field_apart:
  assumes "p = a \<or> apart a 12 p 8"
  shows "region p 8 \<inter> region (a + 8) 4 = {}"
proof -
  have "apart (a + 8) 4 p 8"
    using assms apart_fields [of a 12 p 8 8 4 0 8] by (auto simp: apart_def)
  then show ?thesis by (subst (asm) apart_iff_disjoint) auto
qed

lemma chunk_len_frame:
  assumes "frame (nodes_region N) m m'" and "\<And>p. p \<in> N \<Longrightarrow> p = a \<or> apart a 12 p 8"
  shows "chunk_len m' a = chunk_len m a"
  unfolding chunk_len_def
  by (rule frame_ld32 [OF assms(1)]) (use assms(2) len_field_apart in \<open>fastforce simp: nodes_region_def\<close>)

lemma dll_set_chunk_len:
  assumes "dll m fl as" "objs_sep fl as" "a \<in> set as"
  shows "dll (set_chunk_len m a v) fl as"
proof (rule dll_frame [OF assms(1), where R = "region (a + 8) 4"])
  show "frame (region (a + 8) 4) m (set_chunk_len m a v)"
    by (simp add: set_chunk_len_def frame_st32)
  show "region p 8 \<inter> region (a + 8) 4 = {}" if "p \<in> set (fl # as)" for p
    using objs_sep_node [OF assms(2,3) that] by (rule len_field_apart)
qed

lemma chunk_len_set:
  "chunk_len (set_chunk_len m a v) a = v"
  "apart a 12 b 12 \<Longrightarrow> chunk_len (set_chunk_len m a v) b = chunk_len m b"
  using apart_fields [of a 12 b 12 8 4 8 4]
  by (simp_all add: chunk_len_def set_chunk_len_def mem_simps)

text \<open>Storing a length.\<close>

lemma rep_set_len:
  assumes "chunks_rep m fl (xs @ (a, l) # ys)"
  shows "chunks_rep (set_chunk_len m a v) fl (xs @ (a, v) # ys)"
proof -
  have d: "dll m fl (map fst xs @ a # map fst ys)" "objs_sep fl (map fst xs @ a # map fst ys)"
    using assms by (auto simp: chunks_rep_def)
  have "chunk_len (set_chunk_len m a v) (fst c) = snd c" if "c \<in> set xs \<union> set ys" for c
  proof -
    have "fst c \<noteq> a" using that dllD(1) [OF d(1)] by auto
    then have "apart a 12 (fst c) 12" using that d(2) by (auto simp: objs_sep_def)
    then show ?thesis using that assms by (auto simp: chunk_len_set chunks_rep_def)
  qed
  then show ?thesis
    using dll_set_chunk_len [OF d, of a v] d by (simp add: chunks_rep_def chunk_len_set ball_Un)
qed

text \<open>Unlinking a chunk.\<close>

lemma rep_delete:
  assumes "chunks_rep m fl (xs @ c # ys)"
  shows "chunks_rep (list_delete m (fst c)) fl (xs @ ys)"
    and "chunk_len (list_delete m (fst c)) (fst c) = chunk_len m (fst c)"
proof -
  let ?as = "map fst xs @ fst c # map fst ys"
  let ?N = "{last (fl # map fst xs), fst c, hd (map fst ys @ [fl])}"
  have d: "dll m fl ?as" "objs_sep fl ?as" using assms by (auto simp: chunks_rep_def)
  have N: "?N \<subseteq> set (fl # ?as)" by (auto simp: hd_append last_in_set hd_map last_map)
  have len: "chunk_len (list_delete m (fst c)) a = chunk_len m a" if "a \<in> set ?as" for a
    by (rule chunk_len_frame [OF list_delete_frame [OF d(1)]])
      (use objs_sep_node [OF d(2) that] N in blast)
  then show "chunk_len (list_delete m (fst c)) (fst c) = chunk_len m (fst c)" by simp
  have "objs_sep fl (map fst (xs @ ys))" by (rule objs_sep_subset [OF d(2)]) auto
  moreover have "chunk_len (list_delete m (fst c)) (fst x) = snd x" if "x \<in> set (xs @ ys)" for x
    using that len [of "fst x"] assms by (auto simp: chunks_rep_def)
  ultimately show "chunks_rep (list_delete m (fst c)) fl (xs @ ys)"
    using list_delete_dll(1) [OF d(1)] by (simp add: chunks_rep_def)
qed

lemma objs_sep_fresh:
  assumes "fst c \<noteq> 0" "objs_sep fl (map fst (c # cs))" "fst c \<notin> set (map fst cs)"
  shows "fresh_node fl (map fst cs) (fst c)"
proof -
  have "apart (fst c) 8 a 8" if "a \<in> set (fl # map fst cs)" for a
  proof (cases "a = fl")
    case True
    have "apart fl 8 (fst c) 12" using assms(2) by (auto simp: objs_sep_def)
    then show ?thesis unfolding True by (subst apart_sym) (erule apart_mono, auto)
  next
    case False
    then have "apart (fst c) 12 a 12" using that assms(2,3) by (auto simp: objs_sep_def)
    then show ?thesis by (rule apart_mono) auto
  qed
  then show ?thesis using assms(1) by (auto simp: fresh_node_def)
qed

text \<open>Linking a chunk whose length is already stored, before or after a node of the ring.\<close>

lemma rep_link:
  assumes "chunks_rep m fl (xs @ ys)" "fst c \<noteq> 0" "chunk_len m (fst c) = snd c"
    and "objs_sep fl (map fst (c # xs @ ys))" "fst c \<notin> set (map fst (xs @ ys))"
    and q: "q = hd (map fst ys @ [fl])" and p: "p = last (fl # map fst xs)"
  shows "chunks_rep (list_add_tail m q (fst c)) fl (xs @ c # ys)"
    and "chunks_rep (list_add_head m p (fst c)) fl (xs @ c # ys)"
proof -
  let ?as = "map fst xs @ map fst ys"
  have d: "dll m fl ?as" using assms(1) by (auto simp: chunks_rep_def)
  note f = d objs_sep_fresh [OF assms(2,4,5), simplified map_append]
  have N: "set (fl # ?as @ [fst c]) \<supseteq> {p, q, fst c}"
    by (auto simp: p q hd_append hd_map last_map)
  have sep: "x = a \<or> apart a 12 x 8" if "a \<in> set (?as @ [fst c])" "x \<in> {p, q, fst c}" for a x
    using objs_sep_node [OF assms(4), of a x] that N by auto
  have fr: "frame (nodes_region {p, q, fst c}) m (list_add_tail m q (fst c))"
      "frame (nodes_region {p, q, fst c}) m (list_add_head m p (fst c))"
    using list_add_tail_frame [OF f q] list_add_head_frame [OF f p] by (simp_all only: p q)
  have len: "chunk_len (list_add_tail m q (fst c)) a = chunk_len m a"
    "chunk_len (list_add_head m p (fst c)) a = chunk_len m a" if "a \<in> set (?as @ [fst c])" for a
    by (rule chunk_len_frame [OF fr(1)] chunk_len_frame [OF fr(2)], rule sep [OF that], assumption)+
  have sep': "objs_sep fl (map fst (xs @ c # ys))" by (rule objs_sep_subset [OF assms(4)]) auto
  have old: "chunk_len m (fst x) = snd x" "fst x \<in> set (?as @ [fst c])" if "x \<in> set (xs @ c # ys)" for x
    using that assms(1,3) by (auto simp: chunks_rep_def)
  have "chunk_len (list_add_tail m q (fst c)) (fst x) = snd x"
      "chunk_len (list_add_head m p (fst c)) (fst x) = snd x" if "x \<in> set (xs @ c # ys)" for x
    using len [OF old(2) [OF that]] old(1) [OF that] by simp_all
  then show "chunks_rep (list_add_tail m q (fst c)) fl (xs @ c # ys)"
      "chunks_rep (list_add_head m p (fst c)) fl (xs @ c # ys)"
    using list_add_tail_before [OF f q] list_add_head_after [OF f p] sep'
    by (simp_all add: chunks_rep_def)
qed

section \<open>Frames of the three steps\<close>

lemma objs_region_node: "p \<in> set (fl # as) \<Longrightarrow> region p 8 \<subseteq> objs_region fl as"
  using region_mono [of 8 12] by (force simp: objs_region_def)

lemma objs_region_mono: "set as \<subseteq> set bs \<Longrightarrow> objs_region fl as \<subseteq> objs_region fl bs"
  by (auto simp: objs_region_def)

lemma nodes_objs_region: "N \<subseteq> set (fl # as) \<Longrightarrow> nodes_region N \<subseteq> objs_region fl as"
  using objs_region_node by (fastforce simp: nodes_region_def)

lemma frame_set_len: "a \<in> set as \<Longrightarrow> frame (objs_region fl as) m (set_chunk_len m a v)"
  using region_field [of 8 4 12 a] by (auto simp: set_chunk_len_def objs_region_def intro!: frame_st32)

lemma frame_delete:
  assumes "chunks_rep m fl (xs @ c # ys)"
  shows "frame (objs_region fl (map fst (xs @ c # ys))) m (list_delete m (fst c))"
  using assms
  by (intro frame_mono [OF list_delete_frame nodes_objs_region])
    (auto simp: chunks_rep_def hd_append hd_map last_map)

lemma frame_link:
  assumes "chunks_rep m fl (xs @ ys)" "fst c \<noteq> 0"
    and "objs_sep fl (map fst (c # xs @ ys))" "fst c \<notin> set (map fst (xs @ ys))"
    and q: "q = hd (map fst ys @ [fl])" and p: "p = last (fl # map fst xs)"
  shows "frame (objs_region fl (map fst (xs @ c # ys))) m (list_add_tail m q (fst c))"
    and "frame (objs_region fl (map fst (xs @ c # ys))) m (list_add_head m p (fst c))"
proof -
  have d: "dll m fl (map fst xs @ map fst ys)" using assms(1) by (auto simp: chunks_rep_def)
  note f = d objs_sep_fresh [OF assms(2,3,4), simplified map_append]
  have N: "{p, q, fst c} \<subseteq> set (fl # map fst (xs @ c # ys))"
    by (auto simp: p q hd_append hd_map last_map)
  show "frame (objs_region fl (map fst (xs @ c # ys))) m (list_add_tail m q (fst c))"
    by (rule frame_mono [OF list_add_tail_frame [OF f q] nodes_objs_region [OF N, unfolded p]])
  show "frame (objs_region fl (map fst (xs @ c # ys))) m (list_add_head m p (fst c))"
    by (rule frame_mono [OF list_add_head_frame [OF f p] nodes_objs_region [OF N, unfolded q]])
qed

section \<open>The walk to the insertion point\<close>

lemma insert_walk_eq:
  "dll m fl (us @ vs) \<Longrightarrow> insert_walk m fl c (hd (vs @ [fl])) =
     (let ws = dropWhile (\<lambda>a. \<not> c < a) vs in Some (hd (ws @ [fl]), ws \<noteq> []))"
proof (induction vs arbitrary: us)
  case Nil
  then show ?case by (simp add: insert_walk.simps)
next
  case (Cons v vs)
  have "v \<noteq> fl" using dllD(5) [OF Cons.prems] by auto
  moreover have "node_next m v = hd (vs @ [fl])" using dll_fields(2) [OF Cons.prems] .
  moreover have "insert_walk m fl c (hd (vs @ [fl])) =
     (let ws = dropWhile (\<lambda>a. \<not> c < a) vs in Some (hd (ws @ [fl]), ws \<noteq> []))"
    using Cons.prems by (intro Cons.IH [of "us @ [v]"]) simp
  ultimately show ?case by (simp add: insert_walk.simps [of m fl c v])
qed

section \<open>Merging\<close>

lemma rep_last:
  assumes "chunks_rep m fl (xs @ c # ys)"
  shows "list_prev_type m fl (fst c) 0 = (if xs = [] then NULL else fst (last xs))"
    and "xs \<noteq> [] \<Longrightarrow> fst (last xs) \<noteq> NULL \<and> chunk_len m (fst (last xs)) = snd (last xs)"
    and "chunk_len m (fst c) = snd c"
proof -
  have d: "dll m fl (map fst xs @ fst c # map fst ys)" using assms by (auto simp: chunks_rep_def)
  show "list_prev_type m fl (fst c) 0 = (if xs = [] then NULL else fst (last xs))"
    by (simp add: list_prev_type_def list_prev_dll [OF d] containerof_def last_map Let_def)
  have "xs \<noteq> [] \<Longrightarrow> last xs \<in> set xs" by simp
  then show "xs \<noteq> [] \<Longrightarrow> fst (last xs) \<noteq> NULL \<and> chunk_len m (fst (last xs)) = snd (last xs)"
    using assms dllD(2) [OF d] by (force simp: chunks_rep_def)
  show "chunk_len m (fst c) = snd c" using assms by (auto simp: chunks_rep_def)
qed

lemma merge_prev_step:
  assumes rep: "chunks_rep m fl (xs @ c # ys)" and mp: "merge_prev xs c = (xs', c')"
    and la: "la = list_prev_type m fl (fst c) 0"
  shows "\<exists>m'. (if la \<noteq> NULL then
            (if la + chunk_len m la = fst c then
               (let m = set_chunk_len m la (chunk_len m la + chunk_len m (fst c));
                    m = list_delete m (fst c) in (la, m))
             else (fst c, m)) else (fst c, m)) = (fst c', m')
      \<and> chunks_rep m' fl (xs' @ c' # ys) \<and> frame (objs_region fl (map fst (xs @ c # ys))) m m'"
proof (cases "xs \<noteq> [] \<and> fst (last xs) + snd (last xs) = fst c")
  case True
  then obtain zs a l where xs: "xs = zs @ [(a, l)]" by (cases xs rule: rev_cases) auto
  note L = rep_last [OF rep, folded la]
  let ?m1 = "set_chunk_len m a (l + snd c)"
  have r1: "chunks_rep ?m1 fl ((zs @ [(a, l + snd c)]) @ c # ys)"
    using rep_set_len [of m fl zs a l "c # ys" "l + snd c"] rep by (simp add: xs)
  have "frame (objs_region fl (map fst (xs @ c # ys))) m ?m1"
    by (rule frame_set_len) (simp add: xs)
  moreover have "frame (objs_region fl (map fst (xs @ c # ys))) ?m1 (list_delete ?m1 (fst c))"
    using frame_delete [OF r1] by (simp add: xs)
  ultimately have "frame (objs_region fl (map fst (xs @ c # ys))) m (list_delete ?m1 (fst c))"
    by (rule frame_trans)
  then show ?thesis
    using L True mp rep_delete(1) [OF r1] by (auto simp: xs merge_prev_def Let_def)
next
  case False
  then show ?thesis
    using rep rep_last [OF rep, folded la] mp by (auto simp: merge_prev_def)
qed

lemma merge_next_step:
  assumes rep: "chunks_rep m fl (xs @ c # ys)" and mn: "merge_next c ys = (c', ys')"
    and ne: "nx = hd (map fst ys @ [fl])" and sentinel: "ys = [] \<Longrightarrow> fst c + snd c \<noteq> fl"
  shows "\<exists>m'. (if nx \<noteq> NULL then
            (if fst c + chunk_len m (fst c) = nx then
               (let m = set_chunk_len m (fst c) (chunk_len m (fst c) + chunk_len m nx)
                in list_delete m nx)
             else m) else m) = m'
      \<and> chunks_rep m' fl (xs @ c' # ys') \<and> frame (objs_region fl (map fst (xs @ c # ys))) m m'"
proof (cases "ys \<noteq> [] \<and> fst c + snd c = fst (hd ys)")
  case True
  then obtain d zs where ys: "ys = d # zs" by (cases ys) auto
  obtain a l where c: "c = (a, l)" by (cases c)
  have len: "chunk_len m a = l" "chunk_len m (fst d) = snd d" and "fst d \<noteq> 0"
    using rep dllD(2) [of m fl "map fst (xs @ c # ys)"] by (auto simp: chunks_rep_def ys c)
  let ?m1 = "set_chunk_len m a (l + snd d)"
  have r1: "chunks_rep ?m1 fl ((xs @ [(a, l + snd d)]) @ d # zs)"
    using rep_set_len [of m fl xs a l "d # zs" "l + snd d"] rep by (simp add: ys c)
  have "frame (objs_region fl (map fst (xs @ c # ys))) m ?m1"
    by (rule frame_set_len) (simp add: c)
  moreover have "frame (objs_region fl (map fst (xs @ c # ys))) ?m1 (list_delete ?m1 (fst d))"
    using frame_delete [OF r1] by (simp add: ys c)
  ultimately have "frame (objs_region fl (map fst (xs @ c # ys))) m (list_delete ?m1 (fst d))"
    by (rule frame_trans)
  then show ?thesis
    using True mn len \<open>fst d \<noteq> 0\<close> rep_delete(1) [OF r1] by (auto simp: ys c ne merge_next_def Let_def)
next
  case False
  have "chunk_len m (fst c) = snd c" using rep by (auto simp: chunks_rep_def)
  moreover have "fst c + snd c \<noteq> nx" using False sentinel by (auto simp: ne hd_append hd_map)
  ultimately show ?thesis using False rep mn by (auto simp: merge_next_def)
qed

lemma try_merge_rep:
  assumes rep: "chunks_rep m fl (xs @ c # ys)"
    and mp: "merge_prev xs c = (xs', c')" and mn: "merge_next c' ys = (c'', ys')"
    and sentinel: "ys = [] \<Longrightarrow> fst c' + snd c' \<noteq> fl"
  shows "\<exists>m'. try_merge m fl (fst c) (hd (map fst ys @ [fl])) = (fst c', m')
    \<and> chunks_rep m' fl (xs' @ c'' # ys') \<and> frame (objs_region fl (map fst (xs @ c # ys))) m m'"
proof -
  let ?la = "list_prev_type m fl (fst c) 0" and ?nx = "hd (map fst ys @ [fl])"
  obtain m1 where 1: "(if ?la \<noteq> NULL then
            (if ?la + chunk_len m ?la = fst c then
               (let m = set_chunk_len m ?la (chunk_len m ?la + chunk_len m (fst c));
                    m = list_delete m (fst c) in (?la, m))
             else (fst c, m)) else (fst c, m)) = (fst c', m1)"
      "chunks_rep m1 fl (xs' @ c' # ys)" "frame (objs_region fl (map fst (xs @ c # ys))) m m1"
    using merge_prev_step [OF rep mp refl] by blast
  obtain m2 where 2: "(if ?nx \<noteq> NULL then
            (if fst c' + chunk_len m1 (fst c') = ?nx then
               (let m = set_chunk_len m1 (fst c') (chunk_len m1 (fst c') + chunk_len m1 ?nx)
                in list_delete m ?nx)
             else m1) else m1) = m2"
      "chunks_rep m2 fl (xs' @ c'' # ys')" "frame (objs_region fl (map fst (xs' @ c' # ys))) m1 m2"
    using merge_next_step [OF 1(2) mn refl sentinel] by blast
  have "set (map fst (xs' @ c' # ys)) \<subseteq> set (map fst (xs @ c # ys))"
    using mp by (auto simp: merge_prev_def split: if_splits dest: in_set_butlastD)
  then have "objs_region fl (map fst (xs' @ c' # ys)) \<subseteq> objs_region fl (map fst (xs @ c # ys))"
    by (rule objs_region_mono)
  then have "frame (objs_region fl (map fst (xs @ c # ys))) m m2"
    using 1(3) 2(3) frame_mono frame_trans by blast
  moreover have "try_merge m fl (fst c) ?nx = (fst c', m2)"
    unfolding try_merge_def Let_def [of ?la] 1(1) by (simp only: Let_def prod.case) (use 2(1) in \<open>simp only: Let_def\<close>)
  ultimately show ?thesis using 2(2) by blast
qed

section \<open>The free list of a heap\<close>

text \<open>
  \<open>heap_rep st cs\<close>: the free list in memory holds the chunks \<open>cs\<close>, which are sorted and
  fully merged, and none of them lies in \<^verbatim>\<open>theheap\<close> itself (24 bytes).
\<close>

definition struct_span :: "heap \<Rightarrow> nat set" where
  "struct_span st = {unat (h_addr st) ..< unat (h_addr st) + 24}"

definition heap_rep :: "heap \<Rightarrow> chunk list \<Rightarrow> bool" where
  "heap_rep st cs \<longleftrightarrow> chunks_rep (hmem st) (free_list st) cs \<and> free_ok cs
     \<and> struct_span st \<inter> spans cs = {} \<and> unat (h_addr st) + 24 < 2 ^ 32"

lemma unat_free_list:
  "unat (h_addr st) + 24 < 2 ^ 32 \<Longrightarrow> unat (free_list st) = unat (h_addr st) + 16"
  unfolding free_list_def by (subst unat_add_lem [THEN iffD1]) auto

lemma disjoint_apart:
  assumes "chunk_ok c" "chunk_ok d" "span c \<inter> span d = {}"
  shows "apart (fst c) 12 (fst d) 12" "fst c \<noteq> fst d"
proof -
  have "chunk_end c \<le> unat (fst d) \<or> chunk_end d \<le> unat (fst c)"
    using assms by (simp add: span_disjoint_iff)
  then show "apart (fst c) 12 (fst d) 12" "fst c \<noteq> fst d"
    using assms(1,2) apart_nat [of "fst c" 12 "fst d" 12] apart_nat [of "fst d" 12 "fst c" 12] apart_sym
    by (auto simp: chunk_ok_def chunk_end_def)
qed

lemma struct_apart:
  assumes "chunk_ok c" "struct_span st \<inter> span c = {}" "unat (h_addr st) + 24 < 2 ^ 32"
  shows "apart (free_list st) 8 (fst c) 12" "fst c + snd c \<noteq> free_list st"
proof -
  have "unat (h_addr st) \<notin> span c" "unat (fst c) \<notin> struct_span st"
    using assms(1,2) chunk_okD(5) [of c] by (auto simp: struct_span_def span_def)
  then have d: "unat (h_addr st) + 24 \<le> unat (fst c) \<or> chunk_end c \<le> unat (h_addr st)"
    by (auto simp: struct_span_def span_def)
  then show "apart (free_list st) 8 (fst c) 12"
    using assms(1,3) apart_nat [of "fst c" 12 "free_list st" 8] apart_nat [of "free_list st" 8 "fst c" 12] apart_sym
    by (auto simp: chunk_ok_def chunk_end_def unat_free_list)
  show "fst c + snd c \<noteq> free_list st"
    using d assms(1,3) chunk_okD(4,5) [of c] unat_free_list [of st] by auto
qed

lemma objs_sep_of_spans:
  assumes "\<And>c. c \<in> set cs \<Longrightarrow> chunk_ok c \<and> struct_span st \<inter> span c = {}"
    and "\<And>c d. c \<in> set cs \<Longrightarrow> d \<in> set cs \<Longrightarrow> c = d \<or> span c \<inter> span d = {}"
    and "unat (h_addr st) + 24 < 2 ^ 32"
  shows "objs_sep (free_list st) (map fst cs)"
  using assms disjoint_apart(1) struct_apart(1) unfolding objs_sep_def
  by (auto simp: image_iff) (metis fst_conv)+

lemma free_ok_disjoint:
  assumes "free_ok cs" "c \<in> set cs" "d \<in> set cs"
  shows "c = d \<or> span c \<inter> span d = {}"
  using assms
proof (induction cs)
  case (Cons x xs)
  have "span x \<inter> span y = {}" if "y \<in> set xs" for y
    using that Cons.prems(1) span_disjoint_iff [of x y]
    by (auto simp: free_ok_Cons before_def free_ok_def)
  then show ?case using Cons by (simp add: free_ok_Cons) (metis Int_commute)
qed simp

section \<open>Insertion refines \<open>fl_insert\<close>\<close>

text \<open>
  \<^verbatim>\<open>heap_insert_free_chunk\<close> ends, and leaves exactly the list \<open>fl_insert\<close> computes; it
  writes only to the headers of free chunks, to the new chunk's header and to the list head.
\<close>

lemma heap_insert_refines:
  assumes rep: "heap_rep st cs" and c: "chunk_ok c" "chunk_len (hmem st) (fst c) = snd c"
    and disj: "span c \<inter> spans cs = {}" "struct_span st \<inter> span c = {}"
  shows "\<exists>m'. heap_insert_free_chunk st (fst c) = Some (fl_insert_base cs c,
        st\<lparr>hmem := m', h_remaining := h_remaining st + snd c\<rparr>)
      \<and> heap_rep (st\<lparr>hmem := m', h_remaining := h_remaining st + snd c\<rparr>) (fl_insert cs c)
      \<and> frame (objs_region (free_list st) (map fst (c # cs))) (hmem st) m'"
proof -
  let ?fl = "free_list st" and ?xs = "below (fst c) cs" and ?ys = "above (fst c) cs"
  have R: "chunks_rep (hmem st) ?fl (?xs @ ?ys)" "free_ok (?xs @ ?ys)"
      "struct_span st \<inter> spans cs = {}" "unat (h_addr st) + 24 < 2 ^ 32"
    using rep by (simp_all add: heap_rep_def below_above)
  have all: "chunk_ok d \<and> struct_span st \<inter> span d = {}" if "d \<in> set (c # ?xs @ ?ys)" for d
    using that c disj(2) R(2,3) below_above [of "fst c" cs] by (auto simp: free_ok_def spans_def)
  have dj: "span c \<inter> span d = {}" if "d \<in> set (?xs @ ?ys)" for d
    using that disj(1) below_above [of "fst c" cs] by (auto simp: spans_def)
  have "a = d \<or> span a \<inter> span d = {}" if "a \<in> set (c # ?xs @ ?ys)" "d \<in> set (c # ?xs @ ?ys)" for a d
    by (cases "a = c"; cases "d = c")
      (use that dj [of a] dj [of d] free_ok_disjoint [OF R(2), of a d] in \<open>simp_all add: Int_commute\<close>)
  then have sep: "objs_sep ?fl (map fst (c # ?xs @ ?ys))" using all R(4) by (intro objs_sep_of_spans) blast+
  have nin: "fst c \<notin> set (map fst (?xs @ ?ys))"
    using disjoint_apart(2) [OF c(1) _ dj] all by (auto simp: image_iff)
  have nz: "fst c \<noteq> 0" using chunk_okD(3) [OF c(1)] .
  let ?q = "hd (map fst ?ys @ [?fl])"
  define m1 where "m1 = list_add_tail (hmem st) ?q (fst c)"
  have r1: "chunks_rep m1 ?fl (?xs @ c # ?ys)"
    unfolding m1_def using rep_link(1) [OF R(1) nz c(2) sep nin refl refl] .
  have f1: "frame (objs_region ?fl (map fst (?xs @ c # ?ys))) (hmem st) m1"
    unfolding m1_def using frame_link(1) [OF R(1) nz sep nin refl refl] .
  obtain xs' c' where mp: "merge_prev ?xs c = (xs', c')" by (cases "merge_prev ?xs c")
  obtain c'' ys' where mn: "merge_next c' ?ys = (c'', ys')" by (cases "merge_next c' ?ys")
  have ok: "free_ok ?xs" using R(2) free_ok_append by blast
  note P = merge_prev_ok [OF ok c(1) below_above_sides(1) [OF _ c(1) disj(1)] mp]
  have "free_ok cs" using rep by (simp add: heap_rep_def)
  note P = P [OF this] and pool = fl_insert_pool [OF this c(1) disj(1)]
  have "struct_span st \<inter> span c' = {}"
    using P(5) R(3) disj(2) below_above [of "fst c" cs] by (metis (no_types, lifting) Int_Un_distrib Un_empty spans_simps(3))
  then have "fst c' + snd c' \<noteq> ?fl" using P(2) R(4) by (intro struct_apart(2))
  then obtain m2 where m2: "try_merge m1 ?fl (fst c) ?q = (fst c', m2)"
      "chunks_rep m2 ?fl (xs' @ c'' # ys')" "frame (objs_region ?fl (map fst (?xs @ c # ?ys))) m1 m2"
    using try_merge_rep [OF r1 mp mn] by blast
  have e: "fl_insert cs c = xs' @ c'' # ys'" "fl_insert_base cs c = fst c'"
    by (simp_all add: fl_insert_def fl_insert_base_def mp mn)
  have d: "dll (hmem st) ?fl ([] @ map fst cs)" using rep by (simp add: heap_rep_def chunks_rep_def)
  have "insert_walk (hmem st) ?fl (fst c) (node_next (hmem st) ?fl) = Some (?q, ?ys \<noteq> [])"
    using insert_walk_eq [OF d, of "fst c"] dll_head(1) [of "hmem st" ?fl "map fst cs"] d
    by (simp add: dropWhile_map above_def o_def)
  then have run: "heap_insert_free_chunk st (fst c) = Some (fst c',
        st\<lparr>hmem := m2, h_remaining := h_remaining st + snd c\<rparr>)"
    using m2(1) c(2) by (auto simp: heap_insert_free_chunk_def Let_def list_add_before_def m1_def)
  have "set cs = set ?xs \<union> set ?ys" by (metis below_above set_append)
  then have "set (map fst (?xs @ c # ?ys)) = set (map fst (c # cs))" by auto
  then have "objs_region ?fl (map fst (?xs @ c # ?ys)) = objs_region ?fl (map fst (c # cs))"
    by (simp add: objs_region_def)
  then have "frame (objs_region ?fl (map fst (c # cs))) (hmem st) m2"
    using frame_trans [OF f1 m2(3)] by simp
  moreover have "heap_rep (st\<lparr>hmem := m2, h_remaining := h_remaining st + snd c\<rparr>) (fl_insert cs c)"
    using m2(2) pool(1,2) R(3,4) disj(2) by (auto simp: heap_rep_def e free_list_def struct_span_def)
  ultimately show ?thesis using run by (auto simp: e(2))
qed

section \<open>Bytes of a chunk\<close>

definition bytes :: "nat set \<Rightarrow> addr set" where
  "bytes S = {x. unat x \<in> S}"

lemma region_bytes:
  assumes "unat a + n \<le> 2 ^ 32"
  shows "region a n = bytes {unat a ..< unat a + n}"
proof -
  have "unat (x - a) < n \<longleftrightarrow> unat a \<le> unat x \<and> unat x < unat a + n" for x
    using assms unat_lt32 [of x] by (auto simp: unat_sub_if')
  then show ?thesis by (auto simp: region_def bytes_def)
qed

lemma bytes_simps [simp]:
  "bytes {} = {}" "bytes (A \<union> B) = bytes A \<union> bytes B" "bytes (A \<inter> B) = bytes A \<inter> bytes B"
  by (auto simp: bytes_def)

lemma bytes_mono: "A \<subseteq> B \<Longrightarrow> bytes A \<subseteq> bytes B"
  by (auto simp: bytes_def)

lemma chunk_header_bytes: "chunk_ok c \<Longrightarrow> region (fst c) 12 \<subseteq> bytes (span c)"
  by (subst region_bytes) (auto simp: chunk_ok_def chunk_end_def span_def intro!: bytes_mono)

lemma objs_region_bytes:
  assumes "\<forall>c\<in>set cs. chunk_ok c" "unat (h_addr st) + 24 < 2 ^ 32"
  shows "objs_region (free_list st) (map fst cs) \<subseteq> bytes (struct_span st \<union> spans cs)"
proof -
  have "region (free_list st) 8 \<subseteq> bytes (struct_span st)"
    using assms(2) by (subst region_bytes) (auto simp: unat_free_list struct_span_def intro!: bytes_mono)
  moreover have "region (fst c) 12 \<subseteq> bytes (spans cs)" if "c \<in> set cs" for c
    using chunk_header_bytes [of c] assms(1) that bytes_mono [of "span c" "spans cs"]
    by (auto simp: spans_def)
  ultimately show ?thesis by (auto simp: objs_region_def)
qed

text \<open>Writes outside the headers do not disturb the free list.\<close>

lemma chunks_rep_frame:
  assumes "chunks_rep m fl cs" "frame R m m'" "R \<inter> objs_region fl (map fst cs) = {}"
  shows "chunks_rep m' fl cs"
proof -
  have "region p 8 \<inter> R = {}" if "p \<in> set (fl # map fst cs)" for p
    using objs_region_node [OF that] assms(3) by blast
  then have "dll m' fl (map fst cs)"
    using assms(1) by (intro dll_frame [OF _ assms(2)]) (auto simp: chunks_rep_def)
  moreover have "chunk_len m' (fst c) = chunk_len m (fst c)" if "c \<in> set cs" for c
  proof -
    have "region (fst c + 8) 4 \<subseteq> objs_region fl (map fst cs)"
      using that region_field [of 8 4 12 "fst c"] by (auto simp: objs_region_def)
    then show ?thesis unfolding chunk_len_def using assms(3) by (intro frame_ld32 [OF assms(2)]) auto
  qed
  ultimately show ?thesis using assms(1) by (auto simp: chunks_rep_def)
qed

lemma heap_rep_frame:
  assumes "heap_rep st cs" "frame R (hmem st) m'" "R \<inter> bytes (struct_span st \<union> spans cs) = {}"
  shows "heap_rep (st\<lparr>hmem := m', h_remaining := r, h_low := w\<rparr>) cs"
proof -
  have "objs_region (free_list st) (map fst cs) \<subseteq> bytes (struct_span st \<union> spans cs)"
    using assms(1) by (intro objs_region_bytes) (auto simp: heap_rep_def free_ok_def)
  then have "chunks_rep m' (free_list st) cs"
    using assms by (intro chunks_rep_frame [OF _ assms(2)]) (auto simp: heap_rep_def)
  then show ?thesis using assms(1) by (simp add: heap_rep_def free_list_def struct_span_def)
qed

section \<open>Allocation refines \<open>fl_alloc\<close>\<close>

lemma alloc_walk_eq:
  "dll m fl (us @ vs) \<Longrightarrow> alloc_walk m fl sz (hd (vs @ [fl])) =
     Some (case dropWhile (\<lambda>a. \<not> sz \<le> chunk_len m a) vs of [] \<Rightarrow> None | a # _ \<Rightarrow> Some a)"
proof (induction vs arbitrary: us)
  case Nil
  then show ?case by (simp add: alloc_walk.simps)
next
  case (Cons v vs)
  have "v \<noteq> fl" using dllD(5) [OF Cons.prems] by auto
  moreover have "node_next m v = hd (vs @ [fl])" using dll_fields(2) [OF Cons.prems] .
  moreover have "alloc_walk m fl sz (hd (vs @ [fl])) =
      Some (case dropWhile (\<lambda>a. \<not> sz \<le> chunk_len m a) vs of [] \<Rightarrow> None | a # _ \<Rightarrow> Some a)"
    using Cons.prems by (intro Cons.IH [of "us @ [v]"]) simp
  ultimately show ?case by (simp add: alloc_walk.simps [of m fl sz v])
qed

lemma dropWhile_cong_set:
  "(\<And>x. x \<in> set xs \<Longrightarrow> P x = Q x) \<Longrightarrow> dropWhile P xs = dropWhile Q xs"
  by (induction xs) auto

lemma alloc_walk_rep:
  assumes "chunks_rep m fl cs"
  shows "alloc_walk m fl sz (node_next m fl) =
    Some (case dropWhile (\<lambda>c. \<not> fl_fit sz c) cs of [] \<Rightarrow> None | c # _ \<Rightarrow> Some (fst c))"
proof -
  have d: "dll m fl ([] @ map fst cs)" using assms by (simp add: chunks_rep_def)
  have "dropWhile (\<lambda>a. \<not> sz \<le> chunk_len m a) (map fst cs) =
      map fst (dropWhile ((\<lambda>a. \<not> sz \<le> chunk_len m a) \<circ> fst) cs)"
    by (rule dropWhile_map)
  also have "dropWhile ((\<lambda>a. \<not> sz \<le> chunk_len m a) \<circ> fst) cs = dropWhile (\<lambda>c. \<not> fl_fit sz c) cs"
    by (rule dropWhile_cong_set) (use assms in \<open>auto simp: chunks_rep_def fl_fit_def\<close>)
  finally have e: "dropWhile (\<lambda>a. \<not> sz \<le> chunk_len m a) (map fst cs) =
      map fst (dropWhile (\<lambda>c. \<not> fl_fit sz c) cs)" .
  have h: "node_next m fl = hd (map fst cs @ [fl])" using dll_head(1) d by simp
  have w: "alloc_walk m fl sz (hd (map fst cs @ [fl])) =
      Some (case map fst (dropWhile (\<lambda>c. \<not> fl_fit sz c) cs) of [] \<Rightarrow> None | a # _ \<Rightarrow> Some a)"
    using alloc_walk_eq [OF d, of sz] by (simp only: e)
  show ?thesis unfolding h w
    by (cases "dropWhile (\<lambda>c. \<not> fl_fit sz c) cs") (simp_all del: dropWhile_eq_Nil_conv)
qed

lemma len_region_disjoint:
  assumes "\<And>a. a \<in> set as \<Longrightarrow> apart a 12 c 12" "apart fl 8 c 12"
  shows "region (c + 8) 4 \<inter> objs_region fl as = {}"
proof -
  have "region (c + 8) 4 \<subseteq> region c 12" by (rule region_field) simp
  moreover have "region fl 8 \<inter> region c 12 = {}"
    using assms(2) by (subst (asm) apart_iff_disjoint) auto
  moreover have "region a 12 \<inter> region c 12 = {}" if "a \<in> set as" for a
    using assms(1) [OF that] by (subst (asm) apart_iff_disjoint) auto
  ultimately show ?thesis by (fastforce simp: objs_region_def)
qed

lemma rep_set_other:
  assumes "chunks_rep m fl cs" "\<And>a. a \<in> set (map fst cs) \<Longrightarrow> apart a 12 c 12" "apart fl 8 c 12"
  shows "chunks_rep (set_chunk_len m c v) fl cs"
proof (rule chunks_rep_frame [OF assms(1)])
  show "frame (region (c + 8) 4) m (set_chunk_len m c v)"
    by (simp add: set_chunk_len_def frame_st32)
  show "region (c + 8) 4 \<inter> objs_region fl (map fst cs) = {}"
    using assms(2,3) by (rule len_region_disjoint)
qed

text \<open>Taking the chunk off the list, and putting its unused tail back where it was.\<close>

lemma alloc_split_rep:
  assumes rep: "chunks_rep m fl (xs @ c # ys)" and fit: "fl_fit sz c"
    and sep: "objs_sep fl (map fst (fl_rest sz c @ xs @ ys))"
    and new: "\<forall>d\<in>set (fl_rest sz c). fst d \<noteq> 0 \<and> apart (fst c) 12 (fst d) 12 \<and> fst d \<notin> fst ` set (xs @ ys)"
    and nx: "next_node = list_next m fl (fst c)"
  shows "\<exists>m'. (let m = list_delete m (fst c) in
      if chunk_len m (fst c) > sz + sizeof_free_heap_chunk then
        (let (newchunk, m) = heap_create_free_chunk m (fst c + sz) (chunk_len m (fst c) - sz);
             m = set_chunk_len m (fst c) (chunk_len m (fst c) - (chunk_len m (fst c) - sz))
         in if next_node \<noteq> NULL then list_add_before m next_node newchunk
            else list_add_tail m fl newchunk)
      else m) = m'
    \<and> chunks_rep m' fl (xs @ fl_rest sz c @ ys) \<and> chunk_len m' (fst c) = snd (fl_taken sz c)
    \<and> frame (objs_region fl (map fst (xs @ c # fl_rest sz c @ ys))) m m'"
proof -
  let ?m1 = "list_delete m (fst c)"
  note D = rep_delete [OF rep] and FD = frame_delete [OF rep]
  have len: "chunk_len m (fst c) = snd c" using rep by (auto simp: chunks_rep_def)
  show ?thesis
  proof (cases "snd c > sz + sizeof_free_heap_chunk")
    case False
    then show ?thesis using D FD len by (simp add: fl_rest_def fl_taken_def)
  next
    case True
    define d where "d = (fst c + sz, snd c - sz)"
    have rest: "fl_rest sz c = [d]" using True by (simp add: fl_rest_def d_def)
    have nd: "fst d \<noteq> 0" "apart (fst c) 12 (fst d) 12" "fst d \<notin> set (map fst (xs @ ys))"
      using new by (auto simp: rest)
    have dl: "dll m fl (map fst xs @ fst c # map fst ys)" "objs_sep fl (map fst (xs @ c # ys))"
      using rep by (auto simp: chunks_rep_def)
    have cs: "apart a 12 (fst c) 12" if "a \<in> set (map fst (xs @ ys))" for a
    proof -
      have "a \<noteq> fst c" using that dllD(1) [OF dl(1)] by auto
      then show ?thesis using that by (intro objs_sepD(1) [OF dl(2)]) simp_all
    qed
    have cf: "apart fl 8 (fst c) 12" by (rule objs_sepD(2) [OF dl(2)]) simp
    have ds: "apart a 12 (fst d) 12" if "a \<in> set (map fst (xs @ ys))" for a
    proof -
      have "a \<noteq> fst d" using that nd(3) by auto
      then show ?thesis using that by (intro objs_sepD(1) [OF sep]) (simp_all add: rest)
    qed
    have df: "apart fl 8 (fst d) 12" by (rule objs_sepD(2) [OF sep]) (simp add: rest)
    let ?m2 = "set_chunk_len ?m1 (fst d) (snd d)" and ?v = "snd c - (snd c - sz)"
    let ?m3 = "set_chunk_len ?m2 (fst c) ?v"
    have r2: "chunks_rep ?m2 fl (xs @ ys)" using D(1) ds df by (rule rep_set_other)
    have r3: "chunks_rep ?m3 fl (xs @ ys)" using r2 cs cf by (rule rep_set_other)
    have l2: "chunk_len ?m2 (fst c) = snd c" using D(2) nd(2) len by (simp add: chunk_len_set apart_sym)
    have l3: "chunk_len ?m3 (fst d) = snd d" using nd(2) by (simp add: chunk_len_set)
    let ?q = "hd (map fst ys @ [fl])"
    let ?m4 = "list_add_tail ?m3 ?q (fst d)"
    have sep': "objs_sep fl (map fst (d # xs @ ys))" using sep by (simp add: rest)
    note link = rep_link(1) [OF r3 nd(1) l3 sep' nd(3) refl refl]
      and flink = frame_link(1) [OF r3 nd(1) sep' nd(3) refl refl]
    have nn: "next_node = (if ys = [] then NULL else fst (hd ys))"
      by (simp add: nx list_next_dll [OF dl(1)] hd_map)
    have "ys \<noteq> [] \<Longrightarrow> fst (hd ys) \<noteq> NULL" using dllD(2) [OF dl(1)] by (cases ys) auto
    then have run: "(let m = ?m1 in
      if chunk_len m (fst c) > sz + sizeof_free_heap_chunk then
        (let (newchunk, m) = heap_create_free_chunk m (fst c + sz) (chunk_len m (fst c) - sz);
             m = set_chunk_len m (fst c) (chunk_len m (fst c) - (chunk_len m (fst c) - sz))
         in if next_node \<noteq> NULL then list_add_before m next_node newchunk
            else list_add_tail m fl newchunk)
      else m) = ?m4"
      using True D(2) len l2 nn
      by (cases ys) (auto simp: Let_def heap_create_free_chunk_def d_def list_add_before_def)
    have "region (fst c + 8) 4 \<inter> objs_region fl (map fst (xs @ d # ys)) = {}"
      using cs nd(2) cf by (intro len_region_disjoint) (auto simp: apart_sym)
    then have l4: "chunk_len ?m4 (fst c) = sz"
      unfolding chunk_len_def by (subst frame_ld32 [OF flink])
        (simp_all add: chunk_len_set flip: chunk_len_def)
    let ?R = "objs_region fl (map fst (xs @ c # d # ys))"
    have "frame ?R m ?m1" by (rule frame_mono [OF FD objs_region_mono]) auto
    then have "frame ?R m ?m2" by (rule frame_trans) (rule frame_set_len, simp)
    then have "frame ?R m ?m3" by (rule frame_trans) (rule frame_set_len, simp)
    then have "frame ?R m ?m4" by (rule frame_trans) (rule frame_mono [OF flink objs_region_mono], auto)
    then show ?thesis unfolding run using link l4 True by (simp add: rest fl_taken_def)
  qed
qed

end
