(* ===== verification/Allocator.thy ===== *)
theory Allocator
  imports HeapRefine
begin

text \<open>
  The contract of the heap: what \<^verbatim>\<open>miniheap_alloc\<close> and \<^verbatim>\<open>miniheap_free\<close> promise their
  callers. \<open>alloc_inv\<close> adds to the free list the blocks that are handed out, each with the
  header the allocator left in front of it: the free chunks and the blocks partition the
  arena. Every operation keeps the invariant, writes only to free bytes (and to the block
  that is freed), and giving every block back leaves one chunk, the whole arena.
\<close>

section \<open>The size of a request\<close>

definition pow2_or_0 :: "u32 \<Rightarrow> bool" where
  "pow2_or_0 w \<longleftrightarrow> w AND (w - 1) = 0"

lemma pow2_or_0_cases:
  assumes "pow2_or_0 w"
  obtains "w = 0" | k where "k < 32" "w = 2 ^ k"
  using assms power_of_two_word [of w] by (auto simp: pow2_or_0_def)

lemma exp_dvd_exp32:
  "k \<le> n \<Longrightarrow> n < 32 \<Longrightarrow> unat (2 ^ k :: u32) dvd unat (2 ^ n :: u32)"
  by (simp add: unat_exp32 le_imp_power_dvd)

lemma alloc_size_props:
  assumes "pow2_or_0 al" and "unat r + unat al + 32 < 2 ^ 32" and "alloc_size r al = (sz, al')"
  shows "12 \<le> unat sz" and "unat r + 8 + unat al' \<le> unat sz"
    and "unat sz \<le> max 12 (unat r + 11) + max 16 (unat al)"
    and "al = 0 \<and> al' = 0 \<or> (\<exists>k. 4 \<le> k \<and> k < 32 \<and> al' = 2 ^ k \<and> unat al dvd 2 ^ k)"
    and "al = 0 \<Longrightarrow> unat sz \<le> max 12 (unat r + 11) \<and> 4 dvd unat sz"
proof -
  define s1 where "s1 = r + sizeof_alloc_struct_begin"
  define s2 where "s2 = (if s1 < sizeof_free_heap_chunk then sizeof_free_heap_chunk else s1)"
  define s3 where "s3 = ROUNDUP s2 4"
  have s1: "unat s1 = unat r + 8"
    unfolding s1_def sizeof_alloc_struct_begin_def using assms(2) by (subst unat_add_lem [THEN iffD1]) auto
  have s2: "unat s2 = max 12 (unat r + 8)"
    unfolding s2_def using s1 by (auto simp: sizeof_free_heap_chunk_def word_less_nat_alt)
  have "unat s2 + 2 ^ 2 \<le> 2 ^ 32" using s2 assms(2) by simp
  from ROUNDUP_bounds [OF _ this]
  have s3: "unat s2 \<le> unat s3" "unat s3 < unat s2 + 4" "4 dvd unat s3"
    by (simp_all add: s3_def)
  have "unat s3 \<le> max 12 (unat r + 11)"
  proof (cases "unat s2 = 12")
    case True
    then show ?thesis using s3 s2 by (auto elim!: dvdE)
  qed (use s2 s3 in auto)
  note s3 = s3 this
  define al2 where "al2 = (if al > 0 then if al < 16 then 16 else al else 0)"
  have r: "sz = s3 + al2" "al' = al2"
    using assms(3) by (auto simp: alloc_size_def Let_def s1_def s2_def s3_def al2_def word_gt_0 split: if_splits)
  have al2: "al = 0 \<and> al2 = 0 \<or> (\<exists>k. 4 \<le> k \<and> k < 32 \<and> al2 = 2 ^ k \<and> unat al dvd 2 ^ k)"
    using assms(1)
  proof (cases rule: pow2_or_0_cases)
    case 1
    then show ?thesis by (simp add: al2_def)
  next
    case (2 k)
    then have u: "unat al = 2 ^ k" by (simp add: unat_exp32)
    show ?thesis
    proof (cases "k < 4")
      case True
      then have "(2 :: nat) ^ k < 2 ^ 4" by (intro power_strict_increasing) auto
      then have "al2 = 2 ^ 4" using u by (auto simp: al2_def word_less_nat_alt word_neq_0_conv [symmetric] word_unat_eq_iff)
      moreover have "unat al dvd 2 ^ 4" using True u le_imp_power_dvd [of k 4 "2 :: nat"] by simp
      ultimately show ?thesis by (intro disjI2 exI [of _ 4]) simp
    next
      case False
      then have "(2 :: nat) ^ 4 \<le> 2 ^ k" by (intro power_increasing) auto
      then have "al2 = al" using u by (auto simp: al2_def word_less_nat_alt word_neq_0_conv [symmetric] word_unat_eq_iff)
      then show ?thesis using False 2 u by (intro disjI2 exI [of _ k]) simp
    qed
  qed
  have al2b: "unat al2 \<le> max 16 (unat al)" by (auto simp: al2_def)
  have "unat sz = unat s3 + unat al2"
    unfolding r using s3(4) al2b assms(2) by (intro unat_add_lem [THEN iffD1]) auto
  then show "12 \<le> unat sz" "unat r + 8 + unat al' \<le> unat sz"
    "unat sz \<le> max 12 (unat r + 11) + max 16 (unat al)"
    "al = 0 \<Longrightarrow> unat sz \<le> max 12 (unat r + 11) \<and> 4 dvd unat sz"
    using s2 s3 al2b r al2 by (auto simp: al2_def)
  show "al = 0 \<and> al' = 0 \<or> (\<exists>k. 4 \<le> k \<and> k < 32 \<and> al' = 2 ^ k \<and> unat al dvd 2 ^ k)"
    using al2 r by simp
qed

section \<open>Where the block and its header go\<close>

definition user_ptr :: "u32 \<Rightarrow> addr \<Rightarrow> addr" where
  "user_ptr al chunk =
    (let ptr = chunk + sizeof_alloc_struct_begin in if al > 0 then ROUNDUP ptr al else ptr)"

lemma user_ptr_bounds:
  assumes "unat chunk + 8 + unat al < 2 ^ 32" and "al = 0 \<or> (\<exists>k < 32. al = 2 ^ k)"
  shows "unat chunk + 8 \<le> unat (user_ptr al chunk)" "unat (user_ptr al chunk) \<le> unat chunk + 8 + unat al"
    "al = 0 \<Longrightarrow> unat (user_ptr al chunk) = unat chunk + 8"
    "unat al dvd unat (user_ptr al chunk) \<or> al = 0"
proof -
  have p: "unat (chunk + 8) = unat chunk + 8"
    using assms(1) by (subst unat_add_lem [THEN iffD1]) auto
  have "unat chunk + 8 \<le> unat (user_ptr al chunk) \<and> unat (user_ptr al chunk) \<le> unat chunk + 8 + unat al
     \<and> (al = 0 \<longrightarrow> unat (user_ptr al chunk) = unat chunk + 8) \<and> (unat al dvd unat (user_ptr al chunk) \<or> al = 0)"
  proof (cases "al = 0")
    case True
    then show ?thesis by (simp add: user_ptr_def sizeof_alloc_struct_begin_def p)
  next
    case False
    then obtain k where k: "k < 32" "al = 2 ^ k" using assms(2) by auto
    have "unat (chunk + 8) + 2 ^ k \<le> 2 ^ 32" using assms(1) k by (simp add: p unat_exp32)
    from ROUNDUP_bounds [OF k(1) this] show ?thesis
      using False k p unat_exp32 [OF k(1)]
      by (simp add: user_ptr_def sizeof_alloc_struct_begin_def word_neq_0_conv [symmetric])
  qed
  then show "unat chunk + 8 \<le> unat (user_ptr al chunk)" "unat (user_ptr al chunk) \<le> unat chunk + 8 + unat al"
    "al = 0 \<Longrightarrow> unat (user_ptr al chunk) = unat chunk + 8"
    "unat al dvd unat (user_ptr al chunk) \<or> al = 0" by auto
qed

section \<open>Handing out a block\<close>

text \<open>The header of an allocation is stored in the eight bytes below the user pointer.\<close>

definition header_ok :: "mem \<Rightarrow> addr \<Rightarrow> chunk \<Rightarrow> bool" where
  "header_ok m p b \<longleftrightarrow> as_ptr m (p - 8) = fst b \<and> as_size m (p - 8) = snd b"

lemma header_written:
  "header_ok (st32 (st32 m (p - 8) (fst b)) (p - 8 + 4) (snd b)) p b"
proof -
  have "apart (p - 8 + 4) 4 (p - 8) 4" by (simp add: apart_def)
  then show ?thesis by (simp add: header_ok_def as_ptr_def as_size_def mem_simps)
qed

lemma header_region:
  assumes "8 \<le> unat p"
  shows "region (p - 8) 8 = bytes {unat p - 8 ..< unat p}"
    "region (p - 8) 4 \<subseteq> region (p - 8) 8" "region (p - 8 + 4) 4 \<subseteq> region (p - 8) 8"
proof -
  have "unat (p - 8) = unat p - 8" using assms by (subst unat_sub) (auto simp: word_le_nat_alt)
  then show "region (p - 8) 8 = bytes {unat p - 8 ..< unat p}"
    using assms unat_lt32 [of p] by (subst region_bytes) auto
  show "region (p - 8) 4 \<subseteq> region (p - 8) 8" by (simp add: region_mono)
  show "region (p - 8 + 4) 4 \<subseteq> region (p - 8) 8" by (rule region_field) simp
qed

text \<open>
  What a successful allocation leaves: the chunk \<open>b\<close> carved out of the free list, its header
  below the pointer, and a change confined to bytes that were free before.
\<close>

definition handed_out :: "heap \<Rightarrow> heap \<Rightarrow> chunk \<Rightarrow> addr \<Rightarrow> bool" where
  "handed_out st st' b p \<longleftrightarrow> header_ok (hmem st') p b \<and> unat (fst b) + 8 \<le> unat p
     \<and> h_remaining st' = h_remaining st - snd b \<and> h_addr st' = h_addr st
     \<and> h_base st' = h_base st \<and> h_len st' = h_len st \<and> h_vst st' = h_vst st \<and> (h_low st = 0 \<longrightarrow> h_low st' = 0)"

lemma alloc_from_refines:
  assumes rep: "heap_rep st (xs @ c # ys)" and fit: "fl_fit sz c" and sz: "12 \<le> unat sz" "8 + unat al \<le> unat sz"
    and al: "al = 0 \<or> (\<exists>k < 32. al = 2 ^ k)"
  shows "\<exists>st'. alloc_from st sz al (fst c) = (user_ptr al (fst c), st')
    \<and> heap_rep st' (xs @ fl_rest sz c @ ys) \<and> handed_out st st' (fl_taken sz c) (user_ptr al (fst c))
    \<and> frame (bytes (struct_span st \<union> spans (xs @ c # ys))) (hmem st) (hmem st')"
proof -
  let ?fl = "free_list st" and ?cs = "xs @ c # ys" and ?cs' = "xs @ fl_rest sz c @ ys" and ?b = "fl_taken sz c"
  let ?p = "user_ptr al (fst c)"
  have ok: "free_ok ?cs" "chunk_ok c" and R: "chunks_rep (hmem st) ?fl ?cs"
      "struct_span st \<inter> spans ?cs = {}" "unat (h_addr st) + 24 < 2 ^ 32"
    using rep by (auto simp: heap_rep_def free_ok_append free_ok_Cons)
  note T = fl_taken_rest [OF ok(2) fit sz(1)]
  have al': "fl_alloc sz (c # ys) = Some (?b, fl_rest sz c @ ys)" using fit by (simp add: fl_alloc_def)
  have fok: "free_ok (c # ys)" using ok(1) by (simp add: free_ok_append)
  note P = fl_alloc_pool [OF fok sz(1) al']
  have ok': "free_ok ?cs'" using ok(1) T(8) P(1) by (fastforce simp: free_ok_append free_ok_Cons before_def)
  have xc: "span c \<inter> spans xs = {}"
  proof -
    have "span c \<inter> span x = {}" if "x \<in> set xs" for x
      using free_ok_disjoint [OF ok(1), of c x] that ok(1) chunk_okD(5) [OF ok(2)]
      by (auto simp: free_ok_append free_ok_Cons before_def)
    then show ?thesis by (auto simp: spans_def)
  qed
  have sub: "spans ?cs' \<subseteq> spans ?cs" "span ?b \<subseteq> spans ?cs" "span ?b \<inter> spans ?cs' = {}"
    using P(4,5) xc T(5) by auto
  have new: "fst d \<noteq> 0 \<and> apart (fst c) 12 (fst d) 12 \<and> fst d \<notin> fst ` set (xs @ ys)"
    if d: "d \<in> set (fl_rest sz c)" for d
  proof -
    have dok: "chunk_ok d" using T(4) d by (simp add: free_ok_def)
    have "apart (fst ?b) 12 (fst d) 12"
      using d T(1,6) dok by (intro disjoint_apart(1)) (auto simp: spans_def)
    moreover have "fst d \<noteq> fst e" if "e \<in> set (xs @ ys)" for e
    proof -
      have eok: "chunk_ok e" using that ok(1) by (auto simp: free_ok_append free_ok_Cons free_ok_def)
      have "d = e \<or> span d \<inter> span e = {}"
        using free_ok_disjoint [OF ok', of d e] d that by auto
      moreover have "d \<noteq> e" using T(8) d that ok(1) chunk_okD(5) [OF eok]
        by (force simp: free_ok_append free_ok_Cons before_def)
      ultimately show ?thesis using disjoint_apart(2) [OF dok eok] by blast
    qed
    ultimately show ?thesis using T(3) chunk_okD(3) [OF dok] by auto
  qed
  have "objs_sep ?fl (map fst (fl_rest sz c @ xs @ ys))"
  proof (rule objs_sep_of_spans [OF _ _ R(3)])
    show "chunk_ok d \<and> struct_span st \<inter> span d = {}" if "d \<in> set (fl_rest sz c @ xs @ ys)" for d
      using that ok' sub(1) R(2) by (auto simp: free_ok_def spans_def subset_eq disjoint_iff)
    show "d = e \<or> span d \<inter> span e = {}" if "d \<in> set (fl_rest sz c @ xs @ ys)" "e \<in> set (fl_rest sz c @ xs @ ys)" for d e
      using that free_ok_disjoint [OF ok', of d e] by auto
  qed
  from alloc_split_rep [OF R(1) fit this _ refl] new
  obtain m1 where S: "(let m = list_delete (hmem st) (fst c) in
      if chunk_len m (fst c) > sz + sizeof_free_heap_chunk then
        (let (newchunk, m) = heap_create_free_chunk m (fst c + sz) (chunk_len m (fst c) - sz);
             m = set_chunk_len m (fst c) (chunk_len m (fst c) - (chunk_len m (fst c) - sz))
         in if list_next (hmem st) ?fl (fst c) \<noteq> NULL then list_add_before m (list_next (hmem st) ?fl (fst c)) newchunk
            else list_add_tail m ?fl newchunk)
      else m) = m1"
    and m1: "chunks_rep m1 ?fl ?cs'" "chunk_len m1 (fst c) = snd ?b"
      "frame (objs_region ?fl (map fst (xs @ c # fl_rest sz c @ ys))) (hmem st) m1"
    by blast
  define m3 where "m3 = st32 (st32 m1 (?p - 8) (fst c)) (?p - 8 + 4) (snd ?b)"
  have e: "fst ?b = fst c" by (rule T(3))
  have size: "unat sz \<le> unat (snd ?b)" using T(2) by (simp add: word_le_nat_alt)
  have "unat (fst c) + 8 + unat al < 2 ^ 32"
    using sz(2) size chunk_okD(2) [OF T(1)] e by (simp add: chunk_end_def)
  note p = user_ptr_bounds [OF this al]
  have hdr: "region (?p - 8) 8 \<subseteq> bytes (span ?b)"
    using p(1,2) sz(2) size e
    by (subst header_region(1)) (auto simp: span_def chunk_end_def intro!: bytes_mono)
  then have f3: "frame (bytes (span ?b)) m1 m3"
    unfolding m3_def using header_region(2,3) [of ?p] p(1) by (intro frame_st32 frame_refl) auto
  have "heap_rep (st\<lparr>hmem := m1\<rparr>) ?cs'"
    using m1(1) ok' R(2,3) sub(1) by (auto simp: heap_rep_def free_list_def struct_span_def)
  then have rep': "heap_rep (st\<lparr>hmem := m1, hmem := m3, h_remaining := r, h_low := w\<rparr>) ?cs'" for r w
    using f3 sub(2,3) R(2)
    by (intro heap_rep_frame) (auto simp: struct_span_def bytes_def disjoint_iff subset_eq)
  have run: "alloc_from st sz al (fst c) = (?p, st\<lparr>hmem := m3, h_remaining := h_remaining st - snd ?b,
      h_low := (if h_remaining st - snd ?b < h_low st then h_remaining st - snd ?b else h_low st)\<rparr>)"
    using S m1(2) by (simp add: alloc_from_def Let_def user_ptr_def sizeof_alloc_struct_begin_def m3_def)
  have "objs_region ?fl (map fst (xs @ c # fl_rest sz c @ ys)) \<subseteq> bytes (struct_span st \<union> spans (?cs @ ?cs'))"
    using ok(1) ok' R(3) by (intro order_trans [OF objs_region_mono objs_region_bytes]) (auto simp: free_ok_def)
  moreover have "struct_span st \<union> spans (?cs @ ?cs') = struct_span st \<union> spans ?cs" using sub(1) by auto
  ultimately have "frame (bytes (struct_span st \<union> spans ?cs)) (hmem st) m1"
    using frame_mono [OF m1(3)] by (simp only:)
  then have "frame (bytes (struct_span st \<union> spans ?cs)) (hmem st) m3"
    by (rule frame_trans) (rule frame_mono [OF f3 bytes_mono], use sub(2) in blast)
  moreover have "header_ok m3 ?p ?b"
    unfolding m3_def e [symmetric] by (rule header_written)
  ultimately show ?thesis
    unfolding run using rep' p(1) e by (auto simp: handed_out_def)
qed

section \<open>The allocator invariant\<close>

text \<open>A block that is handed out: the user's pointer and the chunk of the arena behind it.\<close>

type_synonym block = "addr \<times> chunk"

definition block_ok :: "mem \<Rightarrow> block \<Rightarrow> bool" where
  "block_ok m b \<longleftrightarrow> chunk_ok (snd b) \<and> unat (fst (snd b)) + 8 \<le> unat (fst b)
     \<and> unat (fst b) \<le> chunk_end (snd b) \<and> header_ok m (fst b) (snd b)"

definition block_spans :: "block list \<Rightarrow> nat set" where
  "block_spans bs = spans (map snd bs)"

definition payload :: "block \<Rightarrow> nat set" where
  "payload b = {unat (fst b) ..< chunk_end (snd b)}"

definition disjoint_blocks :: "block list \<Rightarrow> bool" where
  "disjoint_blocks bs \<longleftrightarrow> sorted_wrt (\<lambda>b d. span (snd b) \<inter> span (snd d) = {}) bs"

definition alloc_inv :: "nat set \<Rightarrow> heap \<Rightarrow> chunk list \<Rightarrow> block list \<Rightarrow> bool" where
  "alloc_inv A st cs bs \<longleftrightarrow> heap_rep st cs
     \<and> (\<forall>b\<in>set bs. block_ok (hmem st) b) \<and> disjoint_blocks bs
     \<and> spans cs \<inter> block_spans bs = {} \<and> spans cs \<union> block_spans bs = A
     \<and> struct_span st \<inter> A = {}
     \<and> h_remaining st = of_nat (total cs) \<and> h_low st = 0"

lemma block_spans_simps [simp]:
  "block_spans [] = {}" "block_spans (b # bs) = span (snd b) \<union> block_spans bs"
  "block_spans (xs @ ys) = block_spans xs \<union> block_spans ys"
  by (simp_all add: block_spans_def)

lemma block_okD:
  assumes "block_ok m b"
  shows "chunk_ok (snd b)" "payload b \<subseteq> span (snd b)" "8 \<le> unat (fst b)"
    "region (fst b - 8) 8 \<subseteq> bytes (span (snd b) - payload b)"
proof -
  show "chunk_ok (snd b)" "payload b \<subseteq> span (snd b)" "8 \<le> unat (fst b)"
    using assms by (auto simp: block_ok_def payload_def span_def)
  then show "region (fst b - 8) 8 \<subseteq> bytes (span (snd b) - payload b)"
    using assms by (subst header_region(1)) (auto simp: block_ok_def payload_def span_def intro!: bytes_mono)
qed

text \<open>Headers survive every change outside the part of their chunk in front of the payload.\<close>

lemma block_ok_frame:
  assumes "block_ok m b" "frame R m m'" "R \<inter> bytes (span (snd b) - payload b) = {}"
  shows "block_ok m' b"
proof -
  note r = block_okD(4) [OF assms(1)] and h = header_region(2,3) [OF block_okD(3) [OF assms(1)]]
  have "ld32 m' (fst b - 8) = ld32 m (fst b - 8)" "ld32 m' (fst b - 8 + 4) = ld32 m (fst b - 8 + 4)"
    using r h assms(3) by (intro frame_ld32 [OF assms(2)]; blast)+
  then show ?thesis using assms(1) by (simp add: block_ok_def header_ok_def as_ptr_def as_size_def)
qed

lemma bytes_disjoint: "S \<inter> T = {} \<Longrightarrow> bytes S \<inter> bytes T = {}"
  by (auto simp: bytes_def)

lemma blocks_frame:
  assumes "\<forall>b\<in>set bs. block_ok m b" "frame (bytes S) m m'" "S \<inter> block_spans bs = {}"
  shows "\<forall>b\<in>set bs. block_ok m' b"
proof
  fix b assume b: "b \<in> set bs"
  then have "S \<inter> (span (snd b) - payload b) = {}" using assms(3) by (auto simp: block_spans_def spans_def)
  then show "block_ok m' b"
    using assms(1) b by (intro block_ok_frame [OF _ assms(2)] bytes_disjoint) auto
qed

section \<open>Initialising\<close>

lemma miniheap_init_inv:
  assumes "chunk_ok (ptr, n)" and "struct_span st \<inter> span (ptr, n) = {}" and "unat (h_addr st) + 24 < 2 ^ 32"
  shows "\<exists>st'. miniheap_init st ptr n = Some st' \<and> alloc_inv (span (ptr, n)) st' [(ptr, n)] []
    \<and> h_base st' = ptr \<and> h_len st' = n \<and> h_addr st' = h_addr st \<and> h_vst st' = h_vst st
    \<and> frame (bytes (struct_span st \<union> span (ptr, n))) (hmem st) (hmem st')"
proof -
  let ?m1 = "list_initialize (hmem st) (free_list st)"
  let ?m2 = "set_chunk_len ?m1 ptr n"
  let ?st = "st\<lparr>h_base := ptr, h_len := n, h_remaining := 0, h_low := 0, hmem := ?m2\<rparr>"
  have nz: "free_list st \<noteq> 0" using unat_free_list [OF assms(3)] by auto
  have fl: "free_list ?st = free_list st" "free_list (st\<lparr>hmem := x, h_base := ptr, h_len := n\<rparr>) = free_list st" for x
    by (simp_all add: free_list_def)
  have "chunks_rep ?m1 (free_list st) []"
    using list_initialize_dll [OF nz] by (simp add: chunks_rep_def objs_sep_def)
  then have "chunks_rep ?m2 (free_list st) []"
    using struct_apart(1) [OF assms(1,2,3)] by (intro rep_set_other) auto
  then have "heap_rep ?st []" using assms(3) by (simp add: heap_rep_def fl)
  moreover have "chunk_len (hmem ?st) (fst (ptr, n)) = snd (ptr, n)" by (simp add: chunk_len_set)
  moreover have "struct_span ?st \<inter> span (ptr, n) = {}" using assms(2) by (simp add: struct_span_def)
  ultimately obtain m' where m': "heap_insert_free_chunk ?st ptr = Some (fl_insert_base [] (ptr, n),
      ?st\<lparr>hmem := m', h_remaining := n\<rparr>)" "heap_rep (?st\<lparr>hmem := m', h_remaining := n\<rparr>) (fl_insert [] (ptr, n))"
      "frame (objs_region (free_list ?st) (map fst [(ptr, n)])) (hmem ?st) m'"
    using heap_insert_refines [of ?st "[]" "(ptr, n)"] assms(1) by auto
  let ?R = "objs_region (free_list st) (map fst [(ptr, n)])"
  have "frame ?R (hmem st) ?m1" unfolding list_initialize_def Let_def set_next_def set_prev_def
    using objs_region_node [of "free_list st" "free_list st" "[ptr]"] region_field [of 0 4 8 "free_list st"] region_field [of 4 4 8 "free_list st"]
    by (auto intro!: frame_st32)
  then have "frame ?R (hmem st) ?m2" using frame_set_len [of ptr "[ptr]"] frame_trans by fastforce
  then have "frame ?R (hmem st) m'" using m'(3) frame_trans by (fastforce simp: fl)
  moreover have "?R \<subseteq> bytes (struct_span st \<union> span (ptr, n))"
    using objs_region_bytes [of "[(ptr, n)]" st] assms(1,3) by (simp add: spans_def)
  ultimately have F: "frame (bytes (struct_span st \<union> span (ptr, n))) (hmem st) m'" by (rule frame_mono)
  have e: "fl_insert [] (ptr, n) = [(ptr, n)]"
    by (simp add: fl_insert_def below_def above_def merge_prev_def merge_next_def)
  have "0 < n" using chunk_okD(1) [OF assms(1)] by (auto simp: word_gt_0)
  then have "miniheap_init st ptr n = Some (?st\<lparr>hmem := m', h_remaining := n\<rparr>)"
    using m'(1) by (simp add: miniheap_init_def Let_def heap_create_free_chunk_def fl)
  moreover have "alloc_inv (span (ptr, n)) (?st\<lparr>hmem := m', h_remaining := n\<rparr>) [(ptr, n)] []"
    using m'(2) assms(2) by (simp add: alloc_inv_def e disjoint_blocks_def struct_span_def)
  ultimately show ?thesis using F by fastforce
qed

section \<open>Allocating\<close>

text \<open>
  Growing fails, with a line on the console: the state differs in the screen's memory and the
  cursor only. A heap that is off the screen is not touched by this.
\<close>

definition grow_reported :: "heap \<Rightarrow> u32 \<Rightarrow> heap \<Rightarrow> bool" where
  "grow_reported st n st' \<longleftrightarrow> console_run (hmem st) (h_vst st) (grow_text (ROUNDUP n PAGE_SIZE)) (hmem st') (h_vst st')
     \<and> st' = st\<lparr>hmem := hmem st', h_vst := h_vst st'\<rparr>"

definition off_screen :: "nat set \<Rightarrow> heap \<Rightarrow> bool" where
  "off_screen A st \<longleftrightarrow> bytes (struct_span st \<union> A) \<inter> vga_region = {}"

lemma heap_grow_fails:
  assumes "on_screen (h_vst st)"
  shows "\<exists>st'. heap_grow st n = Some (ERR_NO_MEMORY, st') \<and> grow_reported st n st'"
proof -
  let ?t = "grow_text (ROUNDUP n PAGE_SIZE)"
  have "\<exists>m v. console_sink ?t (hmem st) (h_vst st) = (of_nat (length ?t), m, v) \<and> console_run (hmem st) (h_vst st) ?t m v"
    unfolding grow_text_def
    by (rule message_run [OF _ assms]) (simp add: message_ok_def short_text_def plain_spec_def size_spec_def)
  then show ?thesis by (auto simp: heap_grow_def Let_def page_alloc_def grow_reported_def)
qed

lemma grow_reportedD:
  assumes "grow_reported st n st'"
  shows "frame vga_region (hmem st) (hmem st')" "on_screen (h_vst st')"
    "h_addr st' = h_addr st" "h_base st' = h_base st" "h_len st' = h_len st"
    "h_remaining st' = h_remaining st" "h_low st' = h_low st" "off_screen A st' = off_screen A st"
proof -
  have e: "st' = st\<lparr>hmem := hmem st', h_vst := h_vst st'\<rparr>" using assms by (simp add: grow_reported_def)
  show a: "h_addr st' = h_addr st" by (subst e) simp
  show "h_base st' = h_base st" "h_len st' = h_len st" "h_remaining st' = h_remaining st" "h_low st' = h_low st"
    by (subst e, simp)+
  show "off_screen A st' = off_screen A st" using a by (simp add: off_screen_def struct_span_def)
qed (use assms in \<open>simp_all add: grow_reported_def console_run_def\<close>)

lemma reported_inv:
  assumes inv: "alloc_inv A st cs bs" and off: "off_screen A st" and g: "grow_reported st n st'"
  shows "alloc_inv A st' cs bs" and "unat x \<in> A \<Longrightarrow> hmem st' x = hmem st x"
proof -
  note G = grow_reportedD [OF g]
  have dj: "vga_region \<inter> bytes (struct_span st \<union> A) = {}" using off by (auto simp: off_screen_def)
  have A: "spans cs \<union> block_spans bs = A" using inv by (simp add: alloc_inv_def)
  have "heap_rep (st\<lparr>hmem := hmem st', h_remaining := h_remaining st, h_low := h_low st\<rparr>) cs"
    using inv dj A by (intro heap_rep_frame [OF _ G(1)]) (auto simp: alloc_inv_def bytes_def)
  then have "heap_rep st' cs" using G(3) by (simp add: heap_rep_def free_list_def struct_span_def)
  moreover have "block_ok (hmem st') b" if b: "b \<in> set bs" for b
  proof (rule block_ok_frame [OF _ G(1)])
    show "block_ok (hmem st) b" using inv b by (simp add: alloc_inv_def)
    have "span (snd b) \<subseteq> A" using A b by (auto simp: block_spans_def spans_def)
    then show "vga_region \<inter> bytes (span (snd b) - payload b) = {}" using dj by (auto simp: bytes_def)
  qed
  ultimately show "alloc_inv A st' cs bs" using inv G by (simp add: alloc_inv_def struct_span_def)
  show "hmem st' x = hmem st x" if "unat x \<in> A"
    using G(1) that dj by (auto simp: frame_def bytes_def)
qed

lemma alloc_try_rep:
  assumes "heap_rep st cs" "12 \<le> unat sz" "8 + unat al \<le> unat sz" "al = 0 \<or> (\<exists>k < 32. al = 2 ^ k)"
  shows "case fl_alloc sz cs of None \<Rightarrow> alloc_try st sz al = Some (NULL, st)
    | Some (b, cs') \<Rightarrow> \<exists>st'. alloc_try st sz al = Some (user_ptr al (fst b), st') \<and> heap_rep st' cs'
        \<and> handed_out st st' b (user_ptr al (fst b)) \<and> frame (bytes (struct_span st \<union> spans cs)) (hmem st) (hmem st')"
proof -
  have R: "chunks_rep (hmem st) (free_list st) cs" "free_ok cs" using assms(1) by (simp_all add: heap_rep_def)
  let ?D = "dropWhile (\<lambda>c. \<not> fl_fit sz c) cs" and ?T = "takeWhile (\<lambda>c. \<not> fl_fit sz c) cs"
  show ?thesis
  proof (cases ?D)
    case Nil
    then show ?thesis using alloc_walk_rep [OF R(1), of sz]
      by (simp add: fl_alloc_def alloc_try_def del: dropWhile_eq_Nil_conv)
  next
    case (Cons c ys)
    then have fit: "fl_fit sz c" using hd_dropWhile [of "\<lambda>c. \<not> fl_fit sz c" cs] by simp
    have cs: "cs = ?T @ c # ys" using Cons by (metis takeWhile_dropWhile_id)
    have rep: "heap_rep st (?T @ c # ys)" using assms(1) cs by simp
    have "chunk_ok c" using R(2) cs by (metis free_ok_Cons free_ok_append)
    from fl_taken_rest(3) [OF this fit assms(2)] have e: "fst (fl_taken sz c) = fst c" .
    show ?thesis
      using alloc_from_refines [OF rep fit assms(2,3,4)] alloc_walk_rep [OF R(1), of sz] Cons cs
      by (simp add: fl_alloc_def alloc_try_def e)
  qed
qed

definition small_request :: "u32 \<Rightarrow> u32 \<Rightarrow> bool" where
  "small_request r al \<longleftrightarrow> pow2_or_0 al \<and> unat r + unat al + 32 < 2 ^ 32"

lemma total_le_arena: "free_ok cs \<Longrightarrow> c \<in> set cs \<Longrightarrow> unat (snd c) \<le> total cs"
  by (auto simp: total_def intro: member_le_sum_list)

text \<open>
  A request that fits gets a block of its own: new, large enough, aligned, in the arena and
  disjoint from every other block; only free bytes are written. One that does not fit gets
  \<open>NULL\<close>, and the console a report.
\<close>

lemma miniheap_alloc_inv:
  assumes inv: "alloc_inv A st cs bs" and req: "small_request r al"
  shows "case fl_alloc (fst (alloc_size r al)) cs of
      None \<Rightarrow> on_screen (h_vst st) \<longrightarrow>
        (\<exists>st'. miniheap_alloc st r al = Some (NULL, st') \<and> grow_reported st (fst (alloc_size r al)) st')
    | Some (c, cs') \<Rightarrow> \<exists>p st'. miniheap_alloc st r al = Some (p, st') \<and> p \<noteq> NULL
        \<and> alloc_inv A st' cs' ((p, c) # bs) \<and> unat p + unat r \<le> chunk_end c
        \<and> (al = 0 \<or> unat al dvd unat p) \<and> (al = 0 \<longrightarrow> unat p = unat (fst c) + 8)
        \<and> frame (bytes (struct_span st \<union> spans cs)) (hmem st) (hmem st') \<and> h_addr st' = h_addr st
        \<and> h_vst st' = h_vst st"
proof -
  obtain sz al' where sa: "alloc_size r al = (sz, al')" by (cases "alloc_size r al")
  have pw: "pow2_or_0 al" "unat r + unat al + 32 < 2 ^ 32" using req by (simp_all add: small_request_def)
  note Z = alloc_size_props [OF pw sa]
  have al': "al' = 0 \<or> (\<exists>k < 32. al' = 2 ^ k)" using Z(4) by auto
  have rep: "heap_rep st cs" "free_ok cs" using inv by (simp_all add: alloc_inv_def heap_rep_def)
  have sz8: "8 + unat al' \<le> unat sz" using Z(2) by simp
  note tr = alloc_try_rep [OF rep(1) Z(1) sz8 al']
  have p0: "alignment AND (alignment - 1) \<noteq> 0 \<longleftrightarrow> \<not> pow2_or_0 alignment" for alignment
    by (simp add: pow2_or_0_def)
  show ?thesis
  proof (cases "fl_alloc sz cs")
    case None
    then have "alloc_try st sz al' = Some (NULL, st)" using tr by simp
    then have "\<exists>st'. miniheap_alloc st r al = Some (NULL, st') \<and> grow_reported st sz st'" if "on_screen (h_vst st)"
      using pw(1) heap_grow_fails [OF that, of sz] by (auto simp: miniheap_alloc_def p0 sa ERR_NO_MEMORY_def)
    then show ?thesis by (simp add: sa None)
  next
    case (Some bc)
    then obtain c cs' where fa: "fl_alloc sz cs = Some (c, cs')" by (cases bc) auto
    define p where "p = user_ptr al' (fst c)"
    from tr fa obtain st' where st': "alloc_try st sz al' = Some (p, st')" "heap_rep st' cs'"
        "handed_out st st' c p" "frame (bytes (struct_span st \<union> spans cs)) (hmem st) (hmem st')"
      by (auto simp: p_def)
    note P = fl_alloc_pool [OF rep(2) Z(1) fa]
    have size: "unat sz \<le> unat (snd c)" using P(3) by (simp add: word_le_nat_alt)
    have "unat (fst c) + 8 + unat al' < 2 ^ 32"
      using sz8 size chunk_okD(2) [OF P(2)] by (simp add: chunk_end_def)
    note U = user_ptr_bounds [OF this al', folded p_def]
    have "p \<noteq> NULL" using U(1) by auto
    then have run: "miniheap_alloc st r al = Some (p, st')"
      using pw(1) st'(1) by (simp add: miniheap_alloc_def p0 sa)
    have pend: "unat p + unat r \<le> chunk_end c"
      using U(2) Z(2) size by (simp add: chunk_end_def)
    have aligned: "al = 0 \<or> unat al dvd unat p"
    proof (cases "al = 0")
      case False
      then obtain k where k: "k < 32" "al' = 2 ^ k" "unat al dvd 2 ^ k" using Z(4) by auto
      then have "al' \<noteq> 0" using unat_exp32 [OF k(1)] by auto
      then have "unat al' dvd unat p" using U(4) by simp
      then show ?thesis using k by (auto simp: unat_exp32 intro: dvd_trans)
    qed simp
    have exact: "al = 0 \<longrightarrow> unat p = unat (fst c) + 8" using Z(4) U(3) unat_exp32 by auto
    have new: "block_ok (hmem st') (p, c)"
      using st'(3) P(2) pend by (auto simp: block_ok_def handed_out_def)
    have old: "\<forall>b\<in>set bs. block_ok (hmem st') b"
      by (rule blocks_frame [OF _ st'(4)]) (use inv in \<open>auto simp: alloc_inv_def\<close>)
    have sub: "span c \<subseteq> spans cs" using P(4) by auto
    have dj: "disjoint_blocks ((p, c) # bs)"
      using inv sub by (fastforce simp: alloc_inv_def disjoint_blocks_def block_spans_def spans_def)
    have "alloc_inv A st' cs' ((p, c) # bs)"
      using inv st'(2,3) P(4,5,6) new old dj
      by (auto simp: alloc_inv_def handed_out_def struct_span_def)
    then show ?thesis
      using run \<open>p \<noteq> NULL\<close> pend aligned exact st'(3,4) by (auto simp: sa fa handed_out_def)
  qed
qed

section \<open>Freeing\<close>

lemma sorted_wrt_remove: "sorted_wrt P (xs @ y # ys) \<Longrightarrow> sorted_wrt P (xs @ ys)"
  by (auto simp: sorted_wrt_append)

text \<open>
  Freeing a block gives its bytes back to the pool, merged with the free neighbours; the other
  blocks keep their headers and contents.
\<close>

lemma miniheap_free_inv:
  assumes inv: "alloc_inv A st cs (bs @ (p, c) # ds)"
  shows "\<exists>st'. miniheap_free st p = Some st' \<and> alloc_inv A st' (fl_insert cs c) (bs @ ds)
    \<and> frame (bytes (struct_span st \<union> spans cs \<union> span c)) (hmem st) (hmem st') \<and> h_addr st' = h_addr st
    \<and> h_vst st' = h_vst st"
proof -
  have rep: "heap_rep st cs" "free_ok cs" and b: "block_ok (hmem st) (p, c)"
    using inv by (simp_all add: alloc_inv_def heap_rep_def)
  have c: "chunk_ok c" and p: "8 \<le> unat p" using block_okD(1,3) [OF b] by simp_all
  have dj: "span c \<inter> spans cs = {}" "struct_span st \<inter> span c = {}" "span c \<inter> block_spans (bs @ ds) = {}"
    using inv by (auto simp: alloc_inv_def disjoint_blocks_def sorted_wrt_append block_spans_def spans_def)
  let ?m = "set_chunk_len (hmem st) (fst c) (snd c)"
  let ?st = "st\<lparr>hmem := ?m\<rparr>"
  have hd: "region (fst c + 8) 4 \<subseteq> bytes (span c)"
    using region_field [of 8 4 12 "fst c"] chunk_header_bytes [OF c] by auto
  then have f: "frame (bytes (span c)) (hmem st) ?m"
    by (simp add: set_chunk_len_def frame_st32)
  have "heap_rep (st\<lparr>hmem := ?m, h_remaining := h_remaining st, h_low := h_low st\<rparr>) cs"
    using dj by (intro heap_rep_frame [OF rep(1) f] bytes_disjoint) auto
  then have "heap_rep ?st cs" by simp
  from heap_insert_refines [OF this c _ dj(1)] dj(2)
  obtain m' where m': "heap_insert_free_chunk ?st (fst c) = Some (fl_insert_base cs c,
        ?st\<lparr>hmem := m', h_remaining := h_remaining st + snd c\<rparr>)"
      "heap_rep (?st\<lparr>hmem := m', h_remaining := h_remaining st + snd c\<rparr>) (fl_insert cs c)"
      "frame (objs_region (free_list st) (map fst (c # cs))) ?m m'"
    by (auto simp: chunk_len_set struct_span_def free_list_def)
  let ?st' = "st\<lparr>hmem := m', h_remaining := h_remaining st + snd c\<rparr>"
  have "as_ptr (hmem st) (p - 8) = fst c" "as_size (hmem st) (p - 8) = snd c"
    using b by (simp_all add: block_ok_def header_ok_def)
  moreover have "p \<noteq> 0" using p by auto
  ultimately have run: "miniheap_free st p = Some ?st'"
    using m'(1) by (simp add: miniheap_free_def Let_def sizeof_alloc_struct_begin_def heap_create_free_chunk_def)
  have "objs_region (free_list st) (map fst (c # cs)) \<subseteq> bytes (struct_span st \<union> spans (c # cs))"
    using rep c by (intro objs_region_bytes) (auto simp: heap_rep_def free_ok_def)
  then have fr: "frame (bytes (struct_span st \<union> spans cs \<union> span c)) (hmem st) m'"
    by (intro frame_trans [OF frame_mono [OF f] frame_mono [OF m'(3)]]) (auto simp: bytes_def)
  have blocks: "\<forall>b\<in>set (bs @ ds). block_ok m' b"
    by (rule blocks_frame [OF _ fr]) (use inv dj(3) in \<open>auto simp: alloc_inv_def\<close>)
  note pool = fl_insert_pool [OF rep(2) c dj(1)]
  have "alloc_inv A ?st' (fl_insert cs c) (bs @ ds)"
    using inv m'(2) blocks pool(2,3) dj(3) sorted_wrt_remove [of _ bs "(p, c)" ds]
    by (auto simp: alloc_inv_def struct_span_def disjoint_blocks_def)
  then show ?thesis using run fr by auto
qed

text \<open>With every block given back, the free list is one chunk: the arena.\<close>

lemma alloc_inv_all_free:
  assumes "alloc_inv (span c) st cs []" and "chunk_ok c"
  shows "cs = [c]" "h_remaining st = snd c"
proof -
  have s: "free_ok cs" "spans cs = {unat (fst c) ..< chunk_end c}" "h_remaining st = of_nat (total cs)"
    using assms(1) by (auto simp: alloc_inv_def heap_rep_def span_def)
  from free_ok_interval [OF s(1,2) chunk_okD(5) [OF assms(2)]]
  obtain d where d: "cs = [d]" "unat (fst d) = unat (fst c)" "chunk_end d = chunk_end c" by auto
  then have "d = c" by (auto simp: chunk_end_def word_unat_eq_iff prod_eq_iff)
  then show "cs = [c]" "h_remaining st = snd c" using d(1) s(3) by simp_all
qed

text \<open>A program that writes inside its blocks cannot damage the heap.\<close>

lemma alloc_inv_payload_frame:
  assumes "alloc_inv A st cs bs" "b \<in> set bs" "frame (bytes (payload b)) (hmem st) m'"
  shows "alloc_inv A (st\<lparr>hmem := m'\<rparr>) cs bs"
proof -
  have bo: "block_ok (hmem st) b" "span (snd b) \<subseteq> A" "span (snd b) \<inter> spans cs = {}"
    using assms(1,2) by (auto simp: alloc_inv_def block_spans_def spans_def)
  then have x: "payload b \<subseteq> span (snd b)" using block_okD(2) by blast
  have "heap_rep (st\<lparr>hmem := m', h_remaining := h_remaining st, h_low := h_low st\<rparr>) cs"
    using assms(1) x bo by (intro heap_rep_frame [OF _ assms(3)] bytes_disjoint) (auto simp: alloc_inv_def)
  moreover have "block_ok m' d" if "d \<in> set bs" for d
  proof (rule block_ok_frame [OF _ assms(3)])
    show "block_ok (hmem st) d" using assms(1) that by (auto simp: alloc_inv_def)
    have "d = b \<or> span (snd d) \<inter> span (snd b) = {}"
      using assms(1,2) that by (auto simp: alloc_inv_def disjoint_blocks_def sorted_wrt_iff_nth_less in_set_conv_nth)
        (metis disjoint_iff linorder_neqE_nat)+
    then show "bytes (payload b) \<inter> bytes (span (snd d) - payload d) = {}"
      using x by (intro bytes_disjoint) auto
  qed
  ultimately show ?thesis using assms(1) by (auto simp: alloc_inv_def struct_span_def)
qed

end
