(* ===== verification/Heap.thy ===== *)
theory Heap
  imports Allocator
begin

text \<open>
  The C library's heap functions (\<^verbatim>\<open>heap.c\<close>) over \<^verbatim>\<open>miniheap.c\<close>, and the interface a
  client of \<^verbatim>\<open>malloc\<close> relies on. The locale \<open>byte_heap\<close> names the four operations a
  client performs and the laws it needs; inside it any sequence of allocations, frees and
  writes is shown never to get stuck and never to lose a byte the client wrote. The
  interpretation discharges the laws for the kernel's heap.
\<close>

section \<open>heap.c\<close>

definition sizeof_default_heap :: u32 where "sizeof_default_heap = 16384"

definition heap_init :: "heap \<Rightarrow> addr \<Rightarrow> heap option" where
  "heap_init st default_heap = miniheap_init st default_heap sizeof_default_heap"

definition heap_trim :: "heap \<Rightarrow> heap option" where
  "heap_trim st = miniheap_trim st"

definition malloc :: "heap \<Rightarrow> u32 \<Rightarrow> (addr \<times> heap) option" where
  "malloc st sz = miniheap_alloc st sz 0"

definition memalign :: "heap \<Rightarrow> u32 \<Rightarrow> u32 \<Rightarrow> (addr \<times> heap) option" where
  "memalign st boundary sz = miniheap_alloc st sz boundary"

definition calloc :: "heap \<Rightarrow> u32 \<Rightarrow> u32 \<Rightarrow> (addr \<times> heap) option" where
  "calloc st count sz =
    (let realsize = count * sz
     in Option.bind (miniheap_alloc st realsize 0) (\<lambda>(ptr, st).
       if ptr \<noteq> NULL then Some (ptr, st\<lparr>hmem := snd (memset (hmem st) ptr 0 realsize)\<rparr>)
       else Some (ptr, st)))"

definition realloc :: "heap \<Rightarrow> addr \<Rightarrow> u32 \<Rightarrow> (addr \<times> heap) option" where
  "realloc st ptr sz = miniheap_realloc st ptr sz"

definition free :: "heap \<Rightarrow> addr \<Rightarrow> heap option" where
  "free st ptr = miniheap_free st ptr"

section \<open>The interface of a heap\<close>

text \<open>A block in use: its address and the size that was asked for.\<close>

type_synonym used = "addr \<times> u32"

definition used_bytes :: "used list \<Rightarrow> nat set" where
  "used_bytes ls = (\<Union>(p, n)\<in>set ls. {unat p ..< unat p + unat n})"

datatype heap_cmd = Alloc u32 | Release nat | Put nat nat u8

text \<open>
  A client: it keeps the list of its blocks and remembers in \<open>sh\<close> what it wrote where. A
  command naming a block or an offset it does not have is skipped.
\<close>

fun client_step :: "('s \<Rightarrow> u32 \<Rightarrow> (addr \<times> 's) option) \<Rightarrow> ('s \<Rightarrow> addr \<Rightarrow> 's option) \<Rightarrow>
    ('s \<Rightarrow> addr \<Rightarrow> u8 \<Rightarrow> 's) \<Rightarrow> 's \<times> used list \<times> (nat \<rightharpoonup> u8) \<Rightarrow> heap_cmd \<Rightarrow>
    ('s \<times> used list \<times> (nat \<rightharpoonup> u8)) option" where
  "client_step alloc release put (s, ls, sh) (Alloc n) =
     map_option (\<lambda>(p, s). if p = NULL then (s, ls, sh) else (s, (p, n) # ls, sh)) (alloc s n)"
| "client_step alloc release put (s, ls, sh) (Release i) =
     (if i < length ls then
        map_option (\<lambda>s. (s, take i ls @ drop (Suc i) ls, sh |` used_bytes (take i ls @ drop (Suc i) ls)))
          (release s (fst (ls ! i)))
      else Some (s, ls, sh))"
| "client_step alloc release put (s, ls, sh) (Put i k v) =
     (if i < length ls \<and> k < unat (snd (ls ! i)) then
        Some (put s (fst (ls ! i) + of_nat k) v, ls, sh(unat (fst (ls ! i) + of_nat k) \<mapsto> v))
      else Some (s, ls, sh))"

fun client_run :: "('s \<Rightarrow> u32 \<Rightarrow> (addr \<times> 's) option) \<Rightarrow> ('s \<Rightarrow> addr \<Rightarrow> 's option) \<Rightarrow>
    ('s \<Rightarrow> addr \<Rightarrow> u8 \<Rightarrow> 's) \<Rightarrow> 's \<times> used list \<times> (nat \<rightharpoonup> u8) \<Rightarrow> heap_cmd list \<Rightarrow>
    ('s \<times> used list \<times> (nat \<rightharpoonup> u8)) option" where
  "client_run alloc release put c [] = Some c"
| "client_run alloc release put c (x # xs) =
     Option.bind (client_step alloc release put c x) (\<lambda>c. client_run alloc release put c xs)"

locale byte_heap =
  fixes alloc :: "'s \<Rightarrow> u32 \<Rightarrow> (addr \<times> 's) option"
    and release :: "'s \<Rightarrow> addr \<Rightarrow> 's option"
    and put :: "'s \<Rightarrow> addr \<Rightarrow> u8 \<Rightarrow> 's"
    and get :: "'s \<Rightarrow> addr \<Rightarrow> u8"
    and live :: "'s \<Rightarrow> used list \<Rightarrow> bool"
    and fits :: "u32 \<Rightarrow> bool"
  assumes alloc_law: "live s ls \<Longrightarrow> fits n \<Longrightarrow> \<exists>p s'. alloc s n = Some (p, s')
      \<and> live s' (if p = NULL then ls else (p, n) # ls)
      \<and> (\<forall>x. unat x \<in> used_bytes ls \<longrightarrow> get s' x = get s x)"
    and release_law: "live s (ls @ (p, n) # ks) \<Longrightarrow> \<exists>s'. release s p = Some s' \<and> live s' (ls @ ks)
      \<and> (\<forall>x. unat x \<in> used_bytes (ls @ ks) \<longrightarrow> get s' x = get s x)"
    and put_law: "live s ls \<Longrightarrow> unat x \<in> used_bytes ls \<Longrightarrow>
      live (put s x v) ls \<and> get (put s x v) = (get s)(x := v)"
    and range_law: "live s ls \<Longrightarrow> (p, n) \<in> set ls \<Longrightarrow> unat p + unat n < 2 ^ 32"
begin

definition remembers :: "'s \<Rightarrow> used list \<Rightarrow> (nat \<rightharpoonup> u8) \<Rightarrow> bool" where
  "remembers s ls sh \<longleftrightarrow> dom sh \<subseteq> used_bytes ls \<and> (\<forall>x v. sh (unat x) = Some v \<longrightarrow> get s x = v)"

lemma step_safe:
  assumes "live s ls" "remembers s ls sh" "\<And>n. c = Alloc n \<Longrightarrow> fits n"
  shows "\<exists>s' ls' sh'. client_step alloc release put (s, ls, sh) c = Some (s', ls', sh')
    \<and> live s' ls' \<and> remembers s' ls' sh'"
proof (cases c)
  case (Alloc n)
  from alloc_law [OF assms(1) assms(3) [OF Alloc]] obtain p s' where "alloc s n = Some (p, s')"
      "live s' (if p = NULL then ls else (p, n) # ls)" "\<forall>x. unat x \<in> used_bytes ls \<longrightarrow> get s' x = get s x"
    by blast
  then show ?thesis
    using assms(2) by (auto simp: Alloc remembers_def used_bytes_def dom_def subset_eq)
next
  case (Release i)
  show ?thesis
  proof (cases "i < length ls")
    case True
    let ?ls = "take i ls @ drop (Suc i) ls"
    have "ls = take i ls @ (fst (ls ! i), snd (ls ! i)) # drop (Suc i) ls"
      using True by (simp add: id_take_nth_drop)
    then obtain s' where "release s (fst (ls ! i)) = Some s'" "live s' ?ls"
        "\<forall>x. unat x \<in> used_bytes ?ls \<longrightarrow> get s' x = get s x"
      using release_law [of s "take i ls"] assms(1) by metis
    then show ?thesis
      using True assms(2) by (auto simp: Release remembers_def restrict_map_def dom_def split: if_splits)
  qed (use Release assms in auto)
next
  case (Put i k v)
  show ?thesis
  proof (cases "i < length ls \<and> k < unat (snd (ls ! i))")
    case True
    let ?x = "fst (ls ! i) + of_nat k :: addr"
    have m: "(fst (ls ! i), snd (ls ! i)) \<in> set ls" using True by simp
    have "unat (of_nat k :: u32) = k" using True unat_lt32 [of "snd (ls ! i)"]
      by (simp add: unsigned_of_nat take_bit_nat_eq_self)
    then have "unat ?x = unat (fst (ls ! i)) + k"
      using range_law [OF assms(1) m] True by (subst unat_add_lem [THEN iffD1]) auto
    then have x: "unat ?x \<in> used_bytes ls" using m True by (auto simp: used_bytes_def intro!: bexI [OF _ m])
    note P = put_law [OF assms(1) x, of v]
    have "remembers (put s ?x v) ls (sh(unat ?x \<mapsto> v))"
      using assms(2) x P by (auto simp: remembers_def word_unat_eq_iff)
    then show ?thesis using P True by (simp add: Put)
  qed (use Put assms in auto)
qed

lemma run_safe:
  assumes "live s ls" "remembers s ls sh" "\<And>n. Alloc n \<in> set cs \<Longrightarrow> fits n"
  shows "\<exists>s' ls' sh'. client_run alloc release put (s, ls, sh) cs = Some (s', ls', sh')
    \<and> live s' ls' \<and> remembers s' ls' sh'"
  using assms
proof (induction cs arbitrary: s ls sh)
  case (Cons c cs)
  then obtain s1 ls1 sh1 where 1: "client_step alloc release put (s, ls, sh) c = Some (s1, ls1, sh1)"
      "live s1 ls1" "remembers s1 ls1 sh1"
    using step_safe [of s ls sh c] by auto
  show ?case using Cons.IH [OF 1(2,3)] Cons.prems(3) 1(1) by auto
qed auto

end

section \<open>The kernel's heap is a byte heap\<close>

definition live_heap :: "nat set \<Rightarrow> heap \<Rightarrow> used list \<Rightarrow> bool" where
  "live_heap A st ls \<longleftrightarrow> (\<exists>cs bs. alloc_inv A st cs bs \<and>
     list_all2 (\<lambda>l b. fst b = fst l \<and> unat (fst l) + unat (snd l) \<le> chunk_end (snd b)) ls bs)"

text \<open>The same with the console in order and the frame buffer elsewhere.\<close>

definition heap_on_console :: "nat set \<Rightarrow> heap \<Rightarrow> used list \<Rightarrow> bool" where
  "heap_on_console A st ls \<longleftrightarrow> live_heap A st ls \<and> on_screen (h_vst st) \<and> off_screen A st"

definition put_byte :: "heap \<Rightarrow> addr \<Rightarrow> u8 \<Rightarrow> heap" where
  "put_byte st x v = st\<lparr>hmem := (hmem st)(x := v)\<rparr>"

definition malloc_fits :: "u32 \<Rightarrow> bool" where
  "malloc_fits n \<longleftrightarrow> unat n + 32 < 2 ^ 32"

lemma small_malloc: "malloc_fits n \<longleftrightarrow> small_request n 0"
  by (simp add: malloc_fits_def small_request_def pow2_or_0_def)

abbreviation same_block :: "used \<Rightarrow> block \<Rightarrow> bool" where
  "same_block l b \<equiv> fst b = fst l \<and> unat (fst l) + unat (snd l) \<le> chunk_end (snd b)"

lemma used_payload:
  assumes "list_all2 same_block ls bs" "y \<in> used_bytes ls"
  shows "\<exists>b\<in>set bs. y \<in> payload b"
proof -
  obtain i where i: "i < length ls" "y \<in> {unat (fst (ls ! i)) ..< unat (fst (ls ! i)) + unat (snd (ls ! i))}"
    using assms(2) by (fastforce simp: used_bytes_def in_set_conv_nth)
  then have "y \<in> payload (bs ! i)" "bs ! i \<in> set bs"
    using assms(1) by (auto simp: list_all2_conv_all_nth payload_def)
  then show ?thesis by blast
qed

lemma used_untouched:
  assumes inv: "alloc_inv A st cs bs" and sub: "set ds \<subseteq> set bs" and la: "list_all2 same_block ls ds"
    and fr: "frame (bytes S) (hmem st) m'" and S: "S \<inter> block_spans ds = {}"
    and x: "unat x \<in> used_bytes ls"
  shows "m' x = hmem st x"
proof -
  obtain b where b: "b \<in> set ds" "unat x \<in> payload b" using used_payload [OF la x] by blast
  then have "block_ok (hmem st) b" using inv sub by (auto simp: alloc_inv_def)
  then have "unat x \<in> block_spans ds" using b block_okD(2) by (fastforce simp: block_spans_def spans_def)
  then show ?thesis using fr S by (auto simp: frame_def bytes_def)
qed

lemma struct_block_spans: "alloc_inv A st cs bs \<Longrightarrow> (struct_span st \<union> spans cs) \<inter> block_spans bs = {}"
  by (auto simp: alloc_inv_def)

lemma off_screen_same: "h_addr st' = h_addr st \<Longrightarrow> off_screen A st' = off_screen A st"
  by (simp add: off_screen_def struct_span_def)

lemma used_in_arena:
  assumes "alloc_inv A st cs bs" "list_all2 same_block ls bs" "y \<in> used_bytes ls"
  shows "y \<in> A"
proof -
  obtain b where b: "b \<in> set bs" "y \<in> payload b" using used_payload [OF assms(2,3)] by blast
  then have "block_ok (hmem st) b" using assms(1) by (simp add: alloc_inv_def)
  then have "y \<in> block_spans bs" using b block_okD(2) by (fastforce simp: block_spans_def spans_def)
  then show ?thesis using assms(1) by (auto simp: alloc_inv_def)
qed

interpretation kheap: byte_heap malloc free put_byte hmem "heap_on_console A" malloc_fits for A
proof unfold_locales
  fix s ls n
  assume "heap_on_console A s ls" and f: "malloc_fits n"
  then obtain cs bs where inv: "alloc_inv A s cs bs" and la: "list_all2 same_block ls bs"
      and on: "on_screen (h_vst s)" "off_screen A s"
    by (auto simp: heap_on_console_def live_heap_def)
  note M = miniheap_alloc_inv [OF inv f [unfolded small_malloc]]
  show "\<exists>p s'. malloc s n = Some (p, s') \<and> heap_on_console A s' (if p = NULL then ls else (p, n) # ls)
      \<and> (\<forall>x. unat x \<in> used_bytes ls \<longrightarrow> hmem s' x = hmem s x)"
  proof (cases "fl_alloc (fst (alloc_size n 0)) cs")
    case None
    then obtain s' where r: "malloc s n = Some (NULL, s')" "grow_reported s (fst (alloc_size n 0)) s'"
      using M on(1) by (auto simp: malloc_def)
    note R = reported_inv [OF inv on(2) r(2)] and G = grow_reportedD [OF r(2)]
    have "heap_on_console A s' ls" using R(1) G(2,8) on(2) la by (auto simp: heap_on_console_def live_heap_def)
    then show ?thesis using r(1) R(2) used_in_arena [OF inv la] by auto
  next
    case (Some a)
    then obtain c cs' p st' where r: "miniheap_alloc s n 0 = Some (p, st')" "p \<noteq> NULL"
        "alloc_inv A st' cs' ((p, c) # bs)" "unat p + unat n \<le> chunk_end c"
        "frame (bytes (struct_span s \<union> spans cs)) (hmem s) (hmem st')" "h_addr st' = h_addr s" "h_vst st' = h_vst s"
      using M by (cases a) auto
    have "live_heap A st' ((p, n) # ls)" using r(3,4) la by (force simp: live_heap_def)
    then have "heap_on_console A st' ((p, n) # ls)"
      using on r(7) off_screen_same [OF r(6)] by (simp add: heap_on_console_def)
    moreover have "hmem st' x = hmem s x" if "unat x \<in> used_bytes ls" for x
      using used_untouched [OF inv subset_refl la r(5) struct_block_spans [OF inv] that] .
    ultimately show ?thesis using r(1,2) by (auto simp: malloc_def)
  qed
next
  fix s ls p n ks
  assume "heap_on_console A s (ls @ (p, n) # ks)"
  then obtain cs bs where inv: "alloc_inv A s cs bs" and la: "list_all2 same_block (ls @ (p, n) # ks) bs"
      and on: "on_screen (h_vst s)" "off_screen A s"
    by (auto simp: heap_on_console_def live_heap_def)
  obtain us c vs where bs: "bs = us @ (p, c) # vs" "list_all2 same_block ls us" "list_all2 same_block ks vs"
    using la by (auto simp: list_all2_append1 list_all2_Cons1)
  then have la': "list_all2 same_block (ls @ ks) (us @ vs)" by (simp add: list_all2_appendI)
  obtain st' where r: "miniheap_free s p = Some st'" "alloc_inv A st' (fl_insert cs c) (us @ vs)"
      "frame (bytes (struct_span s \<union> spans cs \<union> span c)) (hmem s) (hmem st')" "h_addr st' = h_addr s" "h_vst st' = h_vst s"
    using miniheap_free_inv [OF inv [unfolded bs(1)]] by blast
  have "span c \<inter> block_spans (us @ vs) = {}"
    using inv by (auto simp: bs(1) alloc_inv_def disjoint_blocks_def sorted_wrt_append block_spans_def spans_def)
  then have "(struct_span s \<union> spans cs \<union> span c) \<inter> block_spans (us @ vs) = {}"
    using struct_block_spans [OF inv] by (auto simp: bs(1))
  then have "hmem st' x = hmem s x" if "unat x \<in> used_bytes (ls @ ks)" for x
    using used_untouched [OF inv _ la' r(3) _ that] by (auto simp: bs(1))
  then show "\<exists>s'. free s p = Some s' \<and> heap_on_console A s' (ls @ ks)
      \<and> (\<forall>x. unat x \<in> used_bytes (ls @ ks) \<longrightarrow> hmem s' x = hmem s x)"
    using r(1,2,5) la' on off_screen_same [OF r(4)] by (auto simp: free_def heap_on_console_def live_heap_def)
next
  fix s ls and x :: addr and v
  assume on: "heap_on_console A s ls" and x: "unat x \<in> used_bytes ls"
  then obtain cs bs where inv: "alloc_inv A s cs bs" and la: "list_all2 same_block ls bs"
    by (auto simp: heap_on_console_def live_heap_def)
  obtain b where b: "b \<in> set bs" "unat x \<in> payload b" using used_payload [OF la x] by blast
  then have "frame (bytes (payload b)) (hmem s) ((hmem s)(x := v))" by (auto simp: frame_def bytes_def)
  then show "heap_on_console A (put_byte s x v) ls \<and> hmem (put_byte s x v) = (hmem s)(x := v)"
    using alloc_inv_payload_frame [OF inv b(1)] la on off_screen_same [of "put_byte s x v" s]
    by (auto simp: heap_on_console_def live_heap_def put_byte_def)
next
  fix s ls p n
  assume "heap_on_console A s ls" and m: "(p, n) \<in> set ls"
  then obtain cs bs where inv: "alloc_inv A s cs bs" and la: "list_all2 same_block ls bs"
    by (auto simp: heap_on_console_def live_heap_def)
  from m obtain i where "i < length ls" "ls ! i = (p, n)" by (auto simp: in_set_conv_nth)
  then have "unat p + unat n \<le> chunk_end (snd (bs ! i))" "bs ! i \<in> set bs"
    using la by (auto simp: list_all2_conv_all_nth)
  moreover from this(2) have "block_ok (hmem s) (bs ! i)" using inv by (simp add: alloc_inv_def)
  then have "chunk_ok (snd (bs ! i))" by (rule block_okD(1))
  ultimately show "unat p + unat n < 2 ^ 32" using chunk_okD(2) by fastforce
qed

end
