(* ===== verification/HeapProps.thy ===== *)
theory HeapProps
  imports Heap
begin

text \<open>
  The properties of the kernel heap, stated over the code's own entry points: a whole session
  of \<^verbatim>\<open>malloc\<close>, \<^verbatim>\<open>free\<close> and writes, \<^verbatim>\<open>memalign\<close>, \<^verbatim>\<open>calloc\<close>, \<^verbatim>\<open>realloc\<close>, the statistics, and
  the sizes for which the arithmetic of \<^verbatim>\<open>miniheap_alloc\<close> wraps.
\<close>

section \<open>Statistics\<close>

definition largest :: "u32 \<Rightarrow> chunk list \<Rightarrow> u32" where
  "largest w cs = fold (\<lambda>c w. if snd c > w then snd c else w) cs w"

lemma stats_loop_rep:
  assumes "chunks_rep m fl (us @ vs)"
  shows "stats_loop m fl (hd (map fst vs @ [fl])) f w = Some (f + of_nat (total vs), largest w vs)"
  using assms
proof (induction vs arbitrary: us f w)
  case Nil
  then show ?case by (simp add: stats_loop.simps largest_def)
next
  case (Cons v vs)
  have d: "dll m fl (map fst us @ fst v # map fst vs)" and l: "chunk_len m (fst v) = snd v"
    using Cons.prems by (auto simp: chunks_rep_def)
  have "fst v \<noteq> fl" using dllD(5) [OF d] by auto
  moreover have "node_next m (fst v) = hd (map fst vs @ [fl])"
    by (rule dll_fields(2) [OF d])
  moreover have "chunks_rep m fl ((us @ [v]) @ vs)" using Cons.prems by simp
  from Cons.IH [OF this] have
    "stats_loop m fl (hd (map fst vs @ [fl])) (f + snd v) (if w < snd v then snd v else w) =
      Some (f + snd v + of_nat (total vs), largest (if w < snd v then snd v else w) vs)" .
  ultimately show ?case
    using l by (cases "w < snd v") (simp_all add: stats_loop.simps [of m fl "fst v"] largest_def algebra_simps)
qed

lemma largest_bound: "w \<le> largest w cs \<and> (\<forall>c\<in>set cs. snd c \<le> largest w cs)
    \<and> (largest w cs = w \<or> (\<exists>c\<in>set cs. largest w cs = snd c))"
proof (induction cs arbitrary: w)
  case (Cons c cs)
  show ?case using Cons.IH [of "if w < snd c then snd c else w"]
    by (auto simp: largest_def split: if_splits)
qed (simp add: largest_def)

lemma get_stats_inv:
  assumes "alloc_inv A st cs bs"
  shows "miniheap_get_stats st = Some \<lparr>heap_start = h_base st, heap_len = h_len st,
    heap_free = h_remaining st, heap_max_chunk = largest 0 cs, heap_low_watermark = 0\<rparr>"
proof -
  have "chunks_rep (hmem st) (free_list st) ([] @ cs)" using assms by (simp add: alloc_inv_def heap_rep_def)
  note S = stats_loop_rep [OF this, of 0 0]
  have "dll (hmem st) (free_list st) (map fst cs)" using assms by (simp add: alloc_inv_def heap_rep_def chunks_rep_def)
  then have "node_next (hmem st) (free_list st) = hd (map fst cs @ [free_list st])" using dll_head by blast
  then show ?thesis using S assms by (simp add: miniheap_get_stats_def alloc_inv_def)
qed

section \<open>Resizing\<close>

lemma alloc_inv_member:
  assumes "alloc_inv A st cs bs" "b \<in> set bs"
  shows "block_ok (hmem st) b" "span (snd b) \<inter> spans cs = {}" "span (snd b) \<inter> struct_span st = {}"
    "span (snd b) \<subseteq> A"
  using assms by (auto simp: alloc_inv_def block_spans_def spans_def)

lemma disjoint_blocks_head:
  "disjoint_blocks (b # bs) \<Longrightarrow> d \<in> set bs \<Longrightarrow> span (snd b) \<inter> span (snd d) = {}"
  by (auto simp: disjoint_blocks_def)

lemma payload_offset:
  assumes "block_ok m (p, c)" "i < n" "unat p + n \<le> chunk_end c"
  shows "unat (p + of_nat i) = unat p + i" "unat (p + of_nat i) \<in> payload (p, c)"
    "unat (p + of_nat i) \<in> span c"
proof -
  have c: "chunk_end c < 2 ^ 32" using block_okD(1) [OF assms(1)] by (simp add: chunk_ok_def)
  have "unat (of_nat i :: addr) = i" using assms(2,3) c by (simp add: unsigned_of_nat take_bit_nat_eq_self)
  then show e: "unat (p + of_nat i) = unat p + i"
    using assms(2,3) c by (subst unat_add_lem [THEN iffD1]) auto
  show "unat (p + of_nat i) \<in> payload (p, c)" using assms(2,3) e by (simp add: payload_def)
  then show "unat (p + of_nat i) \<in> span c" using block_okD(2) [OF assms(1)] by auto
qed

text \<open>
  The copy of \<^verbatim>\<open>realloc\<close> between the two blocks: only the new block changes, and the bytes that
  lie in both are the old ones, although the code reads on beyond the end of the old block.
\<close>

lemma realloc_copy:
  assumes inv: "alloc_inv A st cs ((q, d) # bs)" and p: "(p, c) \<in> set bs"
    and n: "unat q + unat n \<le> chunk_end d"
  shows "frame (bytes (payload (q, d))) (hmem st) (snd (memcpy (hmem st) q p n))"
    and "i < unat n \<Longrightarrow> unat p + i < chunk_end c \<Longrightarrow>
      snd (memcpy (hmem st) q p n) (q + of_nat i) = hmem st (p + of_nat i)"
proof -
  note Q = alloc_inv_member [OF inv, of "(q, d)", simplified]
  have P: "block_ok (hmem st) (p, c)" using alloc_inv_member(1) [OF inv] p by simp
  have "disjoint_blocks ((q, d) # bs)" using inv unfolding alloc_inv_def by blast
  from disjoint_blocks_head [OF this p] have dj: "span d \<inter> span c = {}" by simp
  have reg: "region q k \<subseteq> bytes (payload (q, d))" if "k \<le> unat n" for k
  proof -
    have "unat q + k \<le> chunk_end d" using n that by simp
    then show ?thesis
      using block_okD(1) [OF Q(1)]
      by (subst region_bytes) (auto simp: chunk_ok_def payload_def intro!: bytes_mono)
  qed
  have len: "unat n \<le> 2 ^ 32" using unat_lt32 [of n] by simp
  show "frame (bytes (payload (q, d))) (hmem st) (snd (memcpy (hmem st) q p n))"
    using reg [of "unat n"] rep_movsb_frame [OF len] by (simp add: frame_def memcpy_def subset_eq) blast
  assume i: "i < unat n" "unat p + i < chunk_end c"
  have "unat (p + of_nat i) \<in> span c" using payload_offset(3) [OF P, of i "Suc i"] i(2) by simp
  then have "p + of_nat i \<notin> region q i"
    using reg [of i] i(1) dj block_okD(2) [OF Q(1)] by (auto simp: bytes_def)
  then show "snd (memcpy (hmem st) q p n) (q + of_nat i) = hmem st (p + of_nat i)"
    using rep_movsb_at [OF len i(1)] by (simp add: memcpy_def)
qed

lemma miniheap_realloc_inv:
  assumes inv: "alloc_inv A st cs (bs @ (p, c) # ds)" and req: "small_request n 0" "n \<noteq> 0"
  shows "case fl_alloc (fst (alloc_size n 0)) cs of
      None \<Rightarrow> on_screen (h_vst st) \<longrightarrow>
        (\<exists>st'. miniheap_realloc st p n = Some (NULL, st') \<and> grow_reported st (fst (alloc_size n 0)) st')
    | Some (d, cs') \<Rightarrow> \<exists>q st'. miniheap_realloc st p n = Some (q, st') \<and> q \<noteq> NULL
        \<and> alloc_inv A st' (fl_insert cs' c) ((q, d) # bs @ ds) \<and> unat q + unat n \<le> chunk_end d
        \<and> (\<forall>i. i < unat n \<longrightarrow> unat p + i < chunk_end c \<longrightarrow> hmem st' (q + of_nat i) = hmem st (p + of_nat i))
        \<and> (\<forall>x. unat x \<in> block_spans (bs @ ds) \<longrightarrow> hmem st' x = hmem st x)"
proof -
  have p: "p \<noteq> NULL" using block_okD(3) [OF alloc_inv_member(1) [OF inv, of "(p, c)"]] by auto
  note M = miniheap_alloc_inv [OF inv req(1)]
  show ?thesis
  proof (cases "fl_alloc (fst (alloc_size n 0)) cs")
    case None
    then show ?thesis using M p req(2) by (auto simp: miniheap_realloc_def)
  next
    case (Some dc)
    then obtain d cs' where fa: "fl_alloc (fst (alloc_size n 0)) cs = Some (d, cs')" by (cases dc) auto
    with M obtain q st1 where 1: "miniheap_alloc st n 0 = Some (q, st1)" "q \<noteq> NULL"
        "alloc_inv A st1 cs' ((q, d) # bs @ (p, c) # ds)" "unat q + unat n \<le> chunk_end d"
        "frame (bytes (struct_span st \<union> spans cs)) (hmem st) (hmem st1)"
      by auto
    define m2 where "m2 = snd (memcpy (hmem st1) q p n)"
    have pin: "(p, c) \<in> set (bs @ (p, c) # ds)" by simp
    note copy = realloc_copy [OF 1(3) pin 1(4), folded m2_def]
    have "alloc_inv A (st1\<lparr>hmem := m2\<rparr>) cs' ((q, d) # bs @ (p, c) # ds)"
      by (rule alloc_inv_payload_frame [OF 1(3) _ copy(1)]) simp
    then have inv2: "alloc_inv A (st1\<lparr>hmem := m2\<rparr>) cs' (((q, d) # bs) @ (p, c) # ds)" by simp
    from miniheap_free_inv [OF this] obtain st' where
      2: "miniheap_free (st1\<lparr>hmem := m2\<rparr>) p = Some st'" "alloc_inv A st' (fl_insert cs' c) (((q, d) # bs) @ ds)"
        "frame (bytes (struct_span st1 \<union> spans cs' \<union> span c)) m2 (hmem st')"
      by (auto simp: struct_span_def)
    have run: "miniheap_realloc st p n = Some (q, st')"
      using 1(1,2) 2(1) p req(2) by (simp add: miniheap_realloc_def m2_def Let_def)
    note D = alloc_inv_member [OF inv2, of "(q, d)", simplified]
    have "disjoint_blocks ((q, d) # bs @ (p, c) # ds)" using 1(3) unfolding alloc_inv_def by blast
    from disjoint_blocks_head [OF this pin] have dc: "span d \<inter> span c = {}" by simp
    have keep: "hmem st' x = m2 x" if "unat x \<in> span d" for x
    proof -
      have "unat x \<notin> struct_span st1 \<union> spans cs' \<union> span c"
        using that D(2,3) dc by (fastforce simp: struct_span_def disjoint_iff)
      then show ?thesis using 2(3) unfolding frame_def bytes_def by blast
    qed
    have src: "hmem st1 x = hmem st x" if "unat x \<in> block_spans (bs @ (p, c) # ds)" for x
      using 1(5) that struct_block_spans [OF inv] by (auto simp: frame_def bytes_def)
    have pok: "block_ok (hmem st1) (p, c)" "block_ok (hmem st1) (q, d)"
      using alloc_inv_member(1) [OF 1(3)] by simp_all
    have new: "hmem st' (q + of_nat i) = hmem st (p + of_nat i)"
      if i: "i < unat n" "unat p + i < chunk_end c" for i
    proof -
      have "hmem st' (q + of_nat i) = m2 (q + of_nat i)"
        using payload_offset(3) [OF pok(2) i(1) 1(4)] by (rule keep)
      also have "\<dots> = hmem st1 (p + of_nat i)" using copy(2) [OF i] .
      also have "\<dots> = hmem st (p + of_nat i)"
        using payload_offset(3) [OF pok(1), of i "Suc i"] i(2) by (intro src) simp
      finally show ?thesis .
    qed
    have old: "hmem st' x = hmem st x" if x: "unat x \<in> block_spans (bs @ ds)" for x
    proof -
      have "disjoint_blocks (bs @ (p, c) # ds)" "(struct_span st1 \<union> spans cs') \<inter> block_spans (bs @ (p, c) # ds) = {}"
          "span d \<inter> block_spans (bs @ ds) = {}"
        using inv struct_block_spans [OF 1(3)] \<open>disjoint_blocks ((q, d) # bs @ (p, c) # ds)\<close>
        by (auto simp: alloc_inv_def disjoint_blocks_def block_spans_def spans_def)
      then have "unat x \<notin> struct_span st1 \<union> spans cs' \<union> span c" "unat x \<notin> payload (q, d)"
        using x block_okD(2) [OF pok(2)]
        by (auto simp: disjoint_blocks_def sorted_wrt_append block_spans_def spans_def)
      then have "hmem st' x = hmem st1 x" using 2(3) copy(1) by (auto simp: frame_def bytes_def)
      then show ?thesis using src x by auto
    qed
    show ?thesis using run 1(2,4) 2(2) new old by (simp add: fa)
  qed
qed

section \<open>Clearing\<close>

lemma payload_region:
  assumes "block_ok m (p, c)" "unat p + n \<le> chunk_end c"
  shows "region p n \<subseteq> bytes (payload (p, c))"
  using assms block_okD(1) [OF assms(1)]
  by (subst region_bytes) (auto simp: chunk_ok_def payload_def intro!: bytes_mono)

lemma calloc_inv:
  assumes inv: "alloc_inv A st cs bs" and req: "small_request (count * sz) 0"
  shows "case fl_alloc (fst (alloc_size (count * sz) 0)) cs of
      None \<Rightarrow> on_screen (h_vst st) \<longrightarrow>
        (\<exists>st'. calloc st count sz = Some (NULL, st') \<and> grow_reported st (fst (alloc_size (count * sz) 0)) st')
    | Some (c, cs') \<Rightarrow> \<exists>p st'. calloc st count sz = Some (p, st') \<and> p \<noteq> NULL
        \<and> alloc_inv A st' cs' ((p, c) # bs) \<and> unat p + unat (count * sz) \<le> chunk_end c
        \<and> (\<forall>i < unat (count * sz). hmem st' (p + of_nat i) = 0)
        \<and> (\<forall>x. unat x \<in> block_spans bs \<longrightarrow> hmem st' x = hmem st x)"
proof -
  note M = miniheap_alloc_inv [OF inv req]
  show ?thesis
  proof (cases "fl_alloc (fst (alloc_size (count * sz) 0)) cs")
    case None
    then show ?thesis using M by (auto simp: calloc_def Let_def)
  next
    case (Some dc)
    then obtain c cs' where fa: "fl_alloc (fst (alloc_size (count * sz) 0)) cs = Some (c, cs')" by (cases dc) auto
    with M obtain p st1 where 1: "miniheap_alloc st (count * sz) 0 = Some (p, st1)" "p \<noteq> NULL"
        "alloc_inv A st1 cs' ((p, c) # bs)" "unat p + unat (count * sz) \<le> chunk_end c"
        "frame (bytes (struct_span st \<union> spans cs)) (hmem st) (hmem st1)"
      by auto
    define m2 where "m2 = rep_stosb (hmem st1) p 0 (unat (count * sz))"
    have len: "unat (count * sz) \<le> 2 ^ 32" using unat_lt32 [of "count * sz"] by simp
    have ok: "block_ok (hmem st1) (p, c)" using alloc_inv_member(1) [OF 1(3)] by simp
    have f: "frame (bytes (payload (p, c))) (hmem st1) m2"
      using payload_region [OF ok 1(4)] by (auto simp: m2_def frame_def rep_stosb_eq [OF len])
    have inv2: "alloc_inv A (st1\<lparr>hmem := m2\<rparr>) cs' ((p, c) # bs)"
      by (rule alloc_inv_payload_frame [OF 1(3) _ f]) simp
    have run: "calloc st count sz = Some (p, st1\<lparr>hmem := m2\<rparr>)"
      using 1(1,2) by (simp add: calloc_def Let_def memset_def m2_def)
    have zero: "m2 (p + of_nat i) = 0" if "i < unat (count * sz)" for i
    proof -
      have "unat (p + of_nat i - p) = i"
        using that len by (simp add: unsigned_of_nat take_bit_nat_eq_self)
      then show ?thesis using that by (simp add: m2_def rep_stosb_eq [OF len] region_def)
    qed
    have old: "m2 x = hmem st x" if x: "unat x \<in> block_spans bs" for x
    proof -
      have "span c \<inter> block_spans bs = {}"
        using 1(3) by (auto simp: alloc_inv_def disjoint_blocks_def block_spans_def spans_def)
      then have "unat x \<notin> payload (p, c)" using x block_okD(2) [OF ok] by auto
      then have "m2 x = hmem st1 x" using f by (auto simp: frame_def bytes_def)
      then show ?thesis using 1(5) x struct_block_spans [OF inv] by (auto simp: frame_def bytes_def)
    qed
    show ?thesis using run 1(2,4) inv2 zero old by (simp add: fa)
  qed
qed

section \<open>A heap to start from\<close>

text \<open>The heap right after \<^verbatim>\<open>heap_init\<close>, with the static structure below the arena, and the same
  heap with one block of 100 bytes.\<close>

definition no_heap :: heap where
  "no_heap = \<lparr>hmem = (\<lambda>_. 0), h_base = 0, h_len = 0, h_remaining = 0, h_low = 0, h_addr = 0x8000,
     h_vst = \<lparr>vcol = 0, vline = 0\<rparr>\<rparr>"

definition boot_arena :: chunk where "boot_arena = (0x10000, 16384)"

definition boot_heap :: heap where "boot_heap = the (heap_init no_heap 0x10000)"

definition one_block :: heap where "one_block = snd (the (malloc boot_heap 100))"

lemma chunk_ok_boot: "chunk_ok boot_arena" "struct_span no_heap \<inter> span boot_arena = {}"
    "unat (h_addr no_heap) + 24 < 2 ^ 32"
  by (auto simp: boot_arena_def chunk_ok_def chunk_end_def struct_span_def span_def no_heap_def)

lemma boot_heap_inv: "alloc_inv (span boot_arena) boot_heap [boot_arena] []"
  and boot_heap_fields: "h_addr boot_heap = 0x8000" "h_vst boot_heap = \<lparr>vcol = 0, vline = 0\<rparr>"
proof -
  have "\<exists>st'. heap_init no_heap 0x10000 = Some st' \<and> alloc_inv (span boot_arena) st' [boot_arena] []
      \<and> h_addr st' = 0x8000 \<and> h_vst st' = \<lparr>vcol = 0, vline = 0\<rparr>"
    using miniheap_init_inv [OF chunk_ok_boot [unfolded boot_arena_def]]
    by (auto simp: heap_init_def sizeof_default_heap_def boot_arena_def no_heap_def)
  then show "alloc_inv (span boot_arena) boot_heap [boot_arena] []"
    "h_addr boot_heap = 0x8000" "h_vst boot_heap = \<lparr>vcol = 0, vline = 0\<rparr>" by (auto simp: boot_heap_def)
qed

lemma boot_apart: "h_addr st = 0x8000 \<Longrightarrow> off_screen (span boot_arena) st"
proof -
  assume a: "h_addr st = 0x8000"
  have "bytes (struct_span st) = region 0x8000 24" "bytes (span boot_arena) = region 0x10000 16384"
    using region_bytes [of "0x8000" 24] region_bytes [of "0x10000" 16384]
    by (simp_all add: struct_span_def span_def chunk_end_def boot_arena_def a)
  moreover have "region 0x8000 24 \<inter> vga_region = {}" "region 0x10000 16384 \<inter> vga_region = {}"
    using apart_iff_disjoint [of 24 4000 "0x8000" vga] apart_iff_disjoint [of 16384 4000 "0x10000" vga]
    by (simp_all add: apart_def vga_def vga_region_def)
  ultimately show "off_screen (span boot_arena) st" by (auto simp: off_screen_def)
qed

lemma boot_fit: "fl_alloc (fst (alloc_size 100 0)) [boot_arena] = Some ((0x10000, 108), [(0x1006C, 16276)])"
  by code_simp

lemma one_block_inv: "alloc_inv (span boot_arena) one_block [(0x1006C, 16276)] [(0x10008, 0x10000, 108)]"
  and one_block_console: "on_screen (h_vst one_block)" "off_screen (span boot_arena) one_block"
proof -
  have "small_request 100 0" by (simp add: small_request_def pow2_or_0_def)
  from miniheap_alloc_inv [OF boot_heap_inv this] boot_fit obtain p st' where
    "malloc boot_heap 100 = Some (p, st')" "unat p = 0x10008" "h_vst st' = h_vst boot_heap" "h_addr st' = h_addr boot_heap"
    "alloc_inv (span boot_arena) st' [(0x1006C, 16276)] [(p, 0x10000, 108)]"
    by (auto simp: malloc_def)
  moreover from this(2) have "p = 0x10008" by (simp add: word_unat_eq_iff)
  ultimately show "alloc_inv (span boot_arena) one_block [(0x1006C, 16276)] [(0x10008, 0x10000, 108)]"
    "on_screen (h_vst one_block)" "off_screen (span boot_arena) one_block"
    using boot_apart by (simp_all add: one_block_def boot_heap_fields on_screen_def)
qed

lemma boot_heap_live: "live_heap (span boot_arena) boot_heap []"
  using boot_heap_inv by (auto simp: live_heap_def)

lemma one_block_live: "live_heap (span boot_arena) one_block [(0x10008, 100)]"
  using one_block_inv by (fastforce simp: live_heap_def chunk_end_def)

section \<open>Properties\<close>

lemma live_heapI: "alloc_inv A st cs bs \<Longrightarrow> list_all2 same_block ls bs \<Longrightarrow> live_heap A st ls"
  unfolding live_heap_def by blast

lemma live_heap_layout:
  assumes "live_heap A st ls"
  shows "sorted_wrt (\<lambda>l k. used_bytes [l] \<inter> used_bytes [k] = {}) ls" "used_bytes ls \<subseteq> A"
    "\<forall>l\<in>set ls. fst l \<noteq> NULL"
proof -
  obtain cs bs where inv: "alloc_inv A st cs bs" and la: "list_all2 same_block ls bs"
    using assms by (auto simp: live_heap_def)
  have at: "used_bytes [ls ! i] \<subseteq> span (snd (bs ! i)) \<and> fst (ls ! i) \<noteq> NULL \<and> span (snd (bs ! i)) \<subseteq> A"
    if i: "i < length ls" for i
  proof -
    have m: "bs ! i \<in> set bs" and sb: "same_block (ls ! i) (bs ! i)"
      using la i by (auto simp: list_all2_conv_all_nth)
    note B = alloc_inv_member(1) [OF inv m]
    have "used_bytes [ls ! i] \<subseteq> payload (bs ! i)" using sb by (auto simp: used_bytes_def payload_def)
    then show ?thesis using block_okD(2,3) [OF B] sb alloc_inv_member(4) [OF inv m] by auto
  qed
  have len: "length ls = length bs" using la by (rule list_all2_lengthD)
  show "sorted_wrt (\<lambda>l k. used_bytes [l] \<inter> used_bytes [k] = {}) ls"
  proof (unfold sorted_wrt_iff_nth_less, intro allI impI)
    fix i j assume ij: "i < j" "j < length ls"
    then have "span (snd (bs ! i)) \<inter> span (snd (bs ! j)) = {}"
      using inv len by (simp add: alloc_inv_def disjoint_blocks_def sorted_wrt_iff_nth_less)
    then show "used_bytes [ls ! i] \<inter> used_bytes [ls ! j] = {}" using at [of i] at [of j] ij by auto
  qed
  show "used_bytes ls \<subseteq> A"
  proof
    fix y assume "y \<in> used_bytes ls"
    then obtain l where "l \<in> set ls" "y \<in> used_bytes [l]" by (auto simp: used_bytes_def)
    then show "y \<in> A" using at by (auto simp: in_set_conv_nth)
  qed
  show "\<forall>l\<in>set ls. fst l \<noteq> NULL" using at by (metis in_set_conv_nth)
qed

lemma live_heap_drained:
  assumes "live_heap (span c) st []" "chunk_ok c"
  shows "\<exists>s. miniheap_get_stats st = Some s \<and> heap_free s = snd c \<and> heap_max_chunk s = snd c"
proof -
  obtain cs where inv: "alloc_inv (span c) st cs []" using assms(1) by (auto simp: live_heap_def)
  note E = alloc_inv_all_free [OF inv assms(2)]
  have "0 < snd c" using chunk_okD(1) [OF assms(2)] by (auto simp: word_gt_0)
  then show ?thesis using get_stats_inv [OF inv] E by (simp add: largest_def)
qed

text \<open>
  C8. A client of the heap. After \<^verbatim>\<open>heap_init\<close> on an arena of 16384 bytes, every sequence of
  \<^verbatim>\<open>malloc\<close> (of sizes that do not wrap), \<^verbatim>\<open>free\<close> of a block in use and writes inside blocks
  in use runs to its end; the blocks in use are pairwise disjoint and lie in the arena, every
  byte the client wrote and still owns holds what it wrote last, and once all blocks are freed
  the statistics report the whole arena as one free chunk: no byte is lost to fragmentation. A
  \<^verbatim>\<open>malloc\<close> that fails prints a line to the frame buffer, from which the arena and the heap's
  structure have to be apart; the cursor is on the screen at the start, and then stays there.
\<close>

theorem heap_session:
  assumes "chunk_ok (base, 16384)" "struct_span st \<inter> span (base, 16384) = {}"
    and "unat (h_addr st) + 24 < 2 ^ 32" and "\<forall>n. Alloc n \<in> set cmds \<longrightarrow> malloc_fits n"
    and "on_screen (h_vst st)" "off_screen (span (base, 16384)) st"
  shows "\<exists>st0 st' ls written. heap_init st base = Some st0
    \<and> client_run malloc free put_byte (st0, [], Map.empty) cmds = Some (st', ls, written)
    \<and> sorted_wrt (\<lambda>l k. used_bytes [l] \<inter> used_bytes [k] = {}) ls
    \<and> used_bytes ls \<subseteq> span (base, 16384)
    \<and> (\<forall>x v. written (unat x) = Some v \<longrightarrow> hmem st' x = v) \<and> on_screen (h_vst st')
    \<and> (ls = [] \<longrightarrow> (\<exists>s. miniheap_get_stats st' = Some s \<and> heap_free s = 16384 \<and> heap_max_chunk s = 16384))"
proof -
  let ?A = "span (base, 16384)"
  obtain st0 where 0: "heap_init st base = Some st0" "heap_on_console ?A st0 []"
  proof -
    obtain st0 where "miniheap_init st base 16384 = Some st0" "alloc_inv ?A st0 [(base, 16384)] []"
        "h_addr st0 = h_addr st" "h_vst st0 = h_vst st"
      using miniheap_init_inv [OF assms(1-3)] by blast
    then show ?thesis using that assms(5,6) off_screen_same [of st0 st ?A] live_heapI [of ?A st0 _ "[]" "[]"]
      by (simp add: heap_init_def sizeof_default_heap_def heap_on_console_def)
  qed
  have "kheap.remembers st0 [] Map.empty" by (simp add: kheap.remembers_def)
  from kheap.run_safe [OF 0(2) this] assms(4) obtain st' ls sh where
    r: "client_run malloc free put_byte (st0, [], Map.empty) cmds = Some (st', ls, sh)"
      "live_heap ?A st' ls" "kheap.remembers st' ls sh" "on_screen (h_vst st')"
    unfolding heap_on_console_def by blast
  note L = live_heap_layout [OF r(2)]
  have "\<exists>s. miniheap_get_stats st' = Some s \<and> heap_free s = 16384 \<and> heap_max_chunk s = 16384" if "ls = []"
    using live_heap_drained [of "(base, 16384)" st'] r(2) that assms(1) by simp
  then show ?thesis using 0(1) r(1,3,4) L by (auto simp: kheap.remembers_def)
qed

theorem heap_session_witness:
  "\<exists>st0 st' ls written. heap_init no_heap 0x10000 = Some st0
    \<and> client_run malloc free put_byte (st0, [], Map.empty)
        [Alloc 100, Put 0 99 7, Alloc 20000, Alloc 0, Release 1, Release 0] = Some (st', ls, written)
    \<and> sorted_wrt (\<lambda>l k. used_bytes [l] \<inter> used_bytes [k] = {}) ls
    \<and> used_bytes ls \<subseteq> span (0x10000, 16384)
    \<and> (\<forall>x v. written (unat x) = Some v \<longrightarrow> hmem st' x = v) \<and> on_screen (h_vst st')
    \<and> (ls = [] \<longrightarrow> (\<exists>s. miniheap_get_stats st' = Some s \<and> heap_free s = 16384 \<and> heap_max_chunk s = 16384))"
proof (rule heap_session [OF chunk_ok_boot [unfolded boot_arena_def]])
  show "on_screen (h_vst no_heap)" "off_screen (span (0x10000, 16384)) no_heap"
    using boot_apart [of no_heap] by (simp_all add: no_heap_def on_screen_def boot_arena_def)
qed (auto simp: malloc_fits_def)

text \<open>
  C14. \<^verbatim>\<open>memalign\<close> and \<^verbatim>\<open>malloc\<close> (alignment 0). With a power of two as alignment and a size
  that does not wrap, the call fails exactly when no free chunk is as large as the adjusted
  request; then it prints that the heap could not grow by that size, in whole pages, and nothing
  but the screen and the cursor changes (\<open>grow_reported\<close>), so the heap keeps its free chunks and
  its blocks. Otherwise it returns an aligned pointer to a block of at least the size asked for,
  carved out of free bytes, prints nothing, and no byte of another block changes.
\<close>

theorem memalign_contract:
  assumes "alloc_inv A st cs bs" "small_request n al" and "on_screen (h_vst st)" "off_screen A st"
  shows "\<exists>p st'. memalign st al n = Some (p, st') \<and> (p = NULL \<longleftrightarrow> (\<forall>c\<in>set cs. snd c < fst (alloc_size n al)))
    \<and> (if p = NULL then grow_reported st (fst (alloc_size n al)) st' \<and> alloc_inv A st' cs bs
        else (al = 0 \<or> unat al dvd unat p) \<and> h_vst st' = h_vst st \<and> (\<exists>cs' c. alloc_inv A st' cs' ((p, c) # bs) \<and> unat p + unat n \<le> chunk_end c)
        \<and> (\<forall>x. unat x \<in> block_spans bs \<longrightarrow> hmem st' x = hmem st x))"
proof (cases "fl_alloc (fst (alloc_size n al)) cs")
  case None
  then have "\<forall>c\<in>set cs. snd c < fst (alloc_size n al)" by (simp only: fl_alloc_None)
  moreover obtain st' where "memalign st al n = Some (NULL, st')" "grow_reported st (fst (alloc_size n al)) st'"
    using miniheap_alloc_inv [OF assms(1,2)] None assms(3) by (auto simp: memalign_def)
  ultimately show ?thesis using reported_inv(1) [OF assms(1,4)] by auto
next
  case (Some ccs)
  then obtain c cs' p st' where r: "miniheap_alloc st n al = Some (p, st')" "p \<noteq> NULL"
      "alloc_inv A st' cs' ((p, c) # bs)" "unat p + unat n \<le> chunk_end c" "al = 0 \<or> unat al dvd unat p"
      "frame (bytes (struct_span st \<union> spans cs)) (hmem st) (hmem st')" "h_vst st' = h_vst st"
    using miniheap_alloc_inv [OF assms(1,2)] by (cases ccs) auto
  have "\<not> (\<forall>c\<in>set cs. snd c < fst (alloc_size n al))" using Some by (simp flip: fl_alloc_None)
  moreover have "\<forall>x. unat x \<in> block_spans bs \<longrightarrow> hmem st' x = hmem st x"
    using r(6) struct_block_spans [OF assms(1)] by (auto simp: frame_def bytes_def)
  moreover have "\<exists>cs' c. alloc_inv A st' cs' ((p, c) # bs) \<and> unat p + unat n \<le> chunk_end c"
    using r(3,4) by blast
  moreover have "memalign st al n = Some (p, st')" using r(1) by (simp add: memalign_def)
  ultimately show ?thesis using r(2,5,7) by (intro exI [of _ p] exI [of _ st']) simp
qed

theorem memalign_contract_witness:
  "(\<exists>p st'. memalign one_block 64 256 = Some (p, st') \<and> p \<noteq> NULL \<and> 64 dvd unat p
      \<and> (\<forall>x. unat x \<in> block_spans [(0x10008, 0x10000, 108)] \<longrightarrow> hmem st' x = hmem one_block x))
    \<and> (\<exists>st'. memalign one_block 64 20000 = Some (NULL, st') \<and> grow_reported one_block 20072 st')"
proof (rule conjI)
  have s: "small_request 256 64" "small_request 20000 64" by (simp_all add: small_request_def pow2_or_0_def)
  note M = memalign_contract [OF one_block_inv s(1) one_block_console] memalign_contract [OF one_block_inv s(2) one_block_console]
  have "\<not> (\<forall>c\<in>set [(0x1006C :: addr, 16276 :: u32)]. snd c < fst (alloc_size 256 64))" by code_simp
  then show "\<exists>p st'. memalign one_block 64 256 = Some (p, st') \<and> p \<noteq> NULL \<and> 64 dvd unat p
      \<and> (\<forall>x. unat x \<in> block_spans [(0x10008, 0x10000, 108)] \<longrightarrow> hmem st' x = hmem one_block x)"
    using M(1) by (force split: if_splits)
  have a: "alloc_size 20000 64 = (20072, 64)" by code_simp
  show "\<exists>st'. memalign one_block 64 20000 = Some (NULL, st') \<and> grow_reported one_block 20072 st'"
    using M(2) unfolding a fst_conv by auto
qed

text \<open>
  C15. \<^verbatim>\<open>free\<close> of a block returns its whole chunk to the free list, merged with the free chunks
  it touches on either side, whatever the order of the frees: the new list is the abstract
  insertion, the free-byte counter grows by the size of the chunk, the invariant holds without
  the block, and no byte of any other block changes.
\<close>

theorem free_contract:
  assumes "alloc_inv A st cs (bs @ (p, c) # ds)"
  shows "\<exists>st'. free st p = Some st' \<and> alloc_inv A st' (fl_insert cs c) (bs @ ds)
    \<and> total (fl_insert cs c) = total cs + unat (snd c)
    \<and> (\<forall>x. unat x \<in> block_spans (bs @ ds) \<longrightarrow> hmem st' x = hmem st x)"
proof -
  obtain st' where r: "miniheap_free st p = Some st'" "alloc_inv A st' (fl_insert cs c) (bs @ ds)"
      "frame (bytes (struct_span st \<union> spans cs \<union> span c)) (hmem st) (hmem st')"
    using miniheap_free_inv [OF assms] by blast
  have "span c \<inter> block_spans (bs @ ds) = {}" "span c \<inter> spans cs = {}" "chunk_ok c" "free_ok cs"
    using assms alloc_inv_member(1) [OF assms, of "(p, c)"]
    by (auto simp: alloc_inv_def disjoint_blocks_def sorted_wrt_append block_spans_def spans_def
        heap_rep_def block_ok_def)
  then have "(struct_span st \<union> spans cs \<union> span c) \<inter> block_spans (bs @ ds) = {}"
      "total (fl_insert cs c) = total cs + unat (snd c)"
    using struct_block_spans [OF assms] fl_insert_pool(3) [of cs c] by auto
  then show ?thesis using r by (auto simp: free_def frame_def bytes_def disjoint_iff)
qed

theorem free_contract_witness:
  "\<exists>st'. free one_block 0x10008 = Some st' \<and> alloc_inv (span boot_arena) st' [boot_arena] []"
proof -
  have "fl_insert [(0x1006C, 16276)] (0x10000, 108) = [boot_arena]"
    by code_simp
  then show ?thesis
    using free_contract [of "span boot_arena" one_block "[(0x1006C, 16276)]" "[]" "0x10008" "(0x10000, 108)" "[]"]
      one_block_inv by auto
qed

text \<open>
  C16. \<^verbatim>\<open>realloc\<close> to a non-zero size that does not wrap: either it returns NULL, with the line of
  the failed growth on the console and nothing else changed (the old block still in use, every
  byte of every block as before), or the old block is gone and a new one of the new
  size takes its place, whose first bytes, up to the smaller of the two sizes, are the old
  contents; every byte of every other block is unchanged.
\<close>

theorem realloc_keeps:
  assumes "live_heap A st (ls @ (p, k) # ks)" "malloc_fits n" "n \<noteq> 0" and "on_screen (h_vst st)" "off_screen A st"
  shows "\<exists>q st'. realloc st p n = Some (q, st') \<and>
    (if q = NULL then grow_reported st (fst (alloc_size n 0)) st' \<and> live_heap A st' (ls @ (p, k) # ks)
      \<and> (\<forall>x. unat x \<in> used_bytes (ls @ (p, k) # ks) \<longrightarrow> hmem st' x = hmem st x)
     else live_heap A st' ((q, n) # ls @ ks)
      \<and> (\<forall>i < min (unat k) (unat n). hmem st' (q + of_nat i) = hmem st (p + of_nat i))
      \<and> (\<forall>x. unat x \<in> used_bytes (ls @ ks) \<longrightarrow> hmem st' x = hmem st x))"
proof -
  obtain cs bs where inv: "alloc_inv A st cs bs" and la: "list_all2 same_block (ls @ (p, k) # ks) bs"
    using assms(1) by (auto simp: live_heap_def)
  obtain us c vs where bs: "bs = us @ (p, c) # vs" "list_all2 same_block ls us" "list_all2 same_block ks vs"
      "unat p + unat k \<le> chunk_end c"
    using la by (auto simp: list_all2_append1 list_all2_Cons1)
  note inv' = inv [unfolded bs(1)]
  note M = miniheap_realloc_inv [OF inv' assms(2) [unfolded small_malloc] assms(3)]
  show ?thesis
  proof (cases "fl_alloc (fst (alloc_size n 0)) cs")
    case None
    then obtain st' where r: "realloc st p n = Some (NULL, st')" "grow_reported st (fst (alloc_size n 0)) st'"
      using M assms(4) by (auto simp: realloc_def)
    note R = reported_inv [OF inv assms(5) r(2)]
    have "live_heap A st' (ls @ (p, k) # ks)" by (rule live_heapI [OF R(1) la])
    then show ?thesis using r R(2) used_in_arena [OF inv la] by auto
  next
    case (Some dcs)
    then obtain d cs' q st' where r: "miniheap_realloc st p n = Some (q, st')" "q \<noteq> NULL"
        "alloc_inv A st' (fl_insert cs' c) ((q, d) # us @ vs)" "unat q + unat n \<le> chunk_end d"
        "\<forall>i. i < unat n \<longrightarrow> unat p + i < chunk_end c \<longrightarrow> hmem st' (q + of_nat i) = hmem st (p + of_nat i)"
        "\<forall>x. unat x \<in> block_spans (us @ vs) \<longrightarrow> hmem st' x = hmem st x"
      using M by (cases dcs) auto
    have la': "list_all2 same_block (ls @ ks) (us @ vs)" using bs(2,3) by (rule list_all2_appendI)
    have "live_heap A st' ((q, n) # ls @ ks)"
      by (rule live_heapI [OF r(3)]) (use r(4) la' in simp)
    moreover have "hmem st' x = hmem st x" if x: "unat x \<in> used_bytes (ls @ ks)" for x
    proof -
      obtain b where b: "b \<in> set (us @ vs)" "unat x \<in> payload b" using used_payload [OF la' x] by blast
      then have "block_ok (hmem st) b" using alloc_inv_member(1) [OF inv'] by auto
      then have "unat x \<in> span (snd b)" using b(2) block_okD(2) by blast
      then have "unat x \<in> block_spans (us @ vs)"
        using b(1) by (simp only: block_spans_def spans_def set_map) blast
      then show ?thesis using r(6) by blast
    qed
    ultimately show ?thesis using r(1,2,5) bs(4) by (simp add: realloc_def)
  qed
qed

theorem realloc_keeps_witness:
  "\<exists>q st'. realloc one_block 0x10008 200 = Some (q, st') \<and>
    (if q = NULL then grow_reported one_block (fst (alloc_size 200 0)) st' \<and> live_heap (span boot_arena) st' [(0x10008, 100)]
      \<and> (\<forall>x. unat x \<in> used_bytes [(0x10008, 100)] \<longrightarrow> hmem st' x = hmem one_block x)
     else live_heap (span boot_arena) st' [(q, 200)]
      \<and> (\<forall>i < min (unat (100 :: u32)) (unat (200 :: u32)). hmem st' (q + of_nat i) = hmem one_block (0x10008 + of_nat i))
      \<and> (\<forall>x. unat x \<in> used_bytes [] \<longrightarrow> hmem st' x = hmem one_block x))"
  by (rule realloc_keeps [of _ _ "[]" _ _ "[]", unfolded append_Nil])
    (simp_all add: one_block_live malloc_fits_def one_block_console)

text \<open>
  C17. \<^verbatim>\<open>calloc\<close>: when the product of count and size does not wrap, the block it returns
  has room for all of it and reads as zero, whatever the arena held before, and no byte of
  another block changes; it fails exactly when \<^verbatim>\<open>malloc\<close> of the product would, and then prints
  that the heap could not grow and changes nothing else.
\<close>

theorem calloc_zeroes:
  assumes "alloc_inv A st cs bs" "unat count * unat sz + 32 < 2 ^ 32" and "on_screen (h_vst st)" "off_screen A st"
  shows "\<exists>p st'. calloc st count sz = Some (p, st')
    \<and> (p = NULL \<longleftrightarrow> (\<forall>c\<in>set cs. snd c < fst (alloc_size (count * sz) 0)))
    \<and> (if p = NULL then grow_reported st (fst (alloc_size (count * sz) 0)) st' \<and> alloc_inv A st' cs bs
        else (\<exists>cs' c. alloc_inv A st' cs' ((p, c) # bs) \<and> unat p + unat count * unat sz \<le> chunk_end c)
        \<and> (\<forall>i < unat count * unat sz. hmem st' (p + of_nat i) = 0)
        \<and> (\<forall>x. unat x \<in> block_spans bs \<longrightarrow> hmem st' x = hmem st x))"
proof -
  have u: "unat (count * sz) = unat count * unat sz"
    using assms(2) by (subst unat_mult_lem [THEN iffD1]) auto
  have req: "small_request (count * sz) 0" using assms(2) u by (simp add: small_request_def pow2_or_0_def)
  note C = calloc_inv [OF assms(1) req]
  show ?thesis
  proof (cases "fl_alloc (fst (alloc_size (count * sz) 0)) cs")
    case None
    then have "\<forall>c\<in>set cs. snd c < fst (alloc_size (count * sz) 0)" by (simp only: fl_alloc_None)
    moreover obtain st' where "calloc st count sz = Some (NULL, st')" "grow_reported st (fst (alloc_size (count * sz) 0)) st'"
      using C None assms(3) by auto
    ultimately show ?thesis using reported_inv(1) [OF assms(1,4)] by auto
  next
    case (Some ccs)
    then obtain c cs' p st' where r: "calloc st count sz = Some (p, st')" "p \<noteq> NULL"
        "alloc_inv A st' cs' ((p, c) # bs)" "unat p + unat (count * sz) \<le> chunk_end c"
        "\<forall>i < unat (count * sz). hmem st' (p + of_nat i) = 0"
        "\<forall>x. unat x \<in> block_spans bs \<longrightarrow> hmem st' x = hmem st x"
      using C by (cases ccs) auto
    have "\<not> (\<forall>c\<in>set cs. snd c < fst (alloc_size (count * sz) 0))" using Some by (simp flip: fl_alloc_None)
    moreover have "\<exists>cs' c. alloc_inv A st' cs' ((p, c) # bs) \<and> unat p + unat count * unat sz \<le> chunk_end c"
      using r(3,4) unfolding u by blast
    ultimately show ?thesis using r(1,2,5,6) u by (intro exI [of _ p] exI [of _ st']) simp
  qed
qed

theorem calloc_zeroes_witness:
  "\<exists>p st'. calloc one_block 16 4 = Some (p, st') \<and> (\<forall>i < 64. hmem st' (p + of_nat i) = 0)"
proof -
  have "\<not> (\<forall>c\<in>set [(0x1006C :: addr, 16276 :: u32)]. snd c < fst (alloc_size (16 * 4) 0))" by code_simp
  then show ?thesis using calloc_zeroes [OF one_block_inv _ one_block_console, of 16 4] by (force split: if_splits)
qed

text \<open>
  C19. The statistics of a well-formed heap always return: the number of free bytes, counted
  along the free list, is the counter kept by the operations, the largest chunk is an upper
  bound reached by a chunk of the list (or 0), and the low watermark is always 0, because
  \<^verbatim>\<open>miniheap_init\<close> starts it at 0 and it only ever goes down.
\<close>

theorem get_stats_correct:
  assumes "alloc_inv A st cs bs"
  shows "\<exists>s. miniheap_get_stats st = Some s \<and> heap_free s = of_nat (total cs) \<and> heap_free s = h_remaining st
    \<and> (\<forall>c\<in>set cs. snd c \<le> heap_max_chunk s) \<and> heap_max_chunk s \<in> insert 0 (snd ` set cs)
    \<and> heap_low_watermark s = 0"
  using get_stats_inv [OF assms] largest_bound [of 0 cs] assms by (auto simp: alloc_inv_def image_iff)

theorem get_stats_correct_witness:
  "\<exists>s. miniheap_get_stats one_block = Some s \<and> heap_free s = 16276 \<and> heap_low_watermark s = 0"
  using get_stats_correct [OF one_block_inv] by (auto simp: total_def)

text \<open>
  C21. The header is added to the size without a check: for each of the eight largest sizes the
  sum wraps, and \<^verbatim>\<open>malloc\<close> does exactly what it does for four bytes. On a heap with a free
  chunk it succeeds, with a pointer to a block that is far smaller than the size asked for.
\<close>

theorem malloc_wraps:
  assumes "0xFFFFFFF8 \<le> n" "alloc_inv A st cs bs" "cs \<noteq> []"
  shows "malloc st n = malloc st 4 \<and> (\<exists>p st' cs' c. malloc st n = Some (p, st') \<and> p \<noteq> NULL
    \<and> alloc_inv A st' cs' ((p, c) # bs) \<and> chunk_end c < unat p + unat n)"
proof -
  have un: "2 ^ 32 - 8 \<le> unat n" using assms(1) by (simp add: word_le_nat_alt)
  then have "unat (n + 8) = unat n + 8 - 2 ^ 32"
    using unat_lt32 [of n] by (simp add: unat_word_ariths mod_if)
  then have "n + 8 < 12" using unat_lt32 [of n] by (simp add: word_less_nat_alt)
  then have sz: "alloc_size n 0 = alloc_size 4 0"
    by (simp add: alloc_size_def sizeof_alloc_struct_begin_def sizeof_free_heap_chunk_def)
  then have e: "malloc st n = malloc st 4" by (simp add: malloc_def miniheap_alloc_def)
  have req: "small_request 4 0" by (simp add: small_request_def pow2_or_0_def)
  have s12: "fst (alloc_size 4 0) = 12" by code_simp
  have "\<exists>c\<in>set cs. \<not> snd c < 12"
    using assms(2,3) by (auto simp: alloc_inv_def heap_rep_def free_ok_def chunk_ok_def word_less_nat_alt neq_Nil_conv)
  then have "fl_alloc (fst (alloc_size 4 0)) cs \<noteq> None" by (auto simp: s12 fl_alloc_None)
  then obtain c cs' p st' where r: "miniheap_alloc st 4 0 = Some (p, st')" "p \<noteq> NULL"
      "alloc_inv A st' cs' ((p, c) # bs)"
    using miniheap_alloc_inv [OF assms(2) req] by auto
  have "block_ok (hmem st') (p, c)" using alloc_inv_member(1) [OF r(3)] by simp
  then have "chunk_end c < 2 ^ 32" "8 \<le> unat p" using block_okD(1,3) by (fastforce simp: chunk_ok_def)+
  then have "chunk_end c < unat p + unat n" using un by simp
  then show ?thesis using e r unfolding malloc_def by metis
qed

theorem malloc_wraps_witness:
  "\<exists>p st' cs' c. malloc one_block 0xFFFFFFFF = Some (p, st') \<and> p \<noteq> NULL
    \<and> alloc_inv (span boot_arena) st' cs' [(p, c), (0x10008, 0x10000, 108)]
    \<and> chunk_end c < unat p + unat (0xFFFFFFFF :: u32)"
  by (rule conjunct2 [OF malloc_wraps [OF _ one_block_inv]]) simp_all

end
