(* ===== verification/Trim.thy ===== *)
theory Trim
  imports HeapProps
begin

text \<open>
  \<^verbatim>\<open>miniheap_trim\<close>: what it leaves of a free chunk is a function of the chunk alone (\<open>fl_trim\<close>), the
  pointer code implements it for every chunk of the list, and the blocks in use are not touched.
\<close>

section \<open>Specification\<close>

text \<open>The pages given back reach from the first page boundary that leaves nothing or at least 12
  bytes before it, to the last one that leaves nothing or at least 12 bytes after it.\<close>

definition trim_start :: "nat \<Rightarrow> nat" where
  "trim_start a = (let p = (a + 4095) div 4096 * 4096 in if p = a \<or> a + 12 \<le> p then p else p + 4096)"

definition trim_end :: "nat \<Rightarrow> nat" where
  "trim_end e = (let q = e div 4096 * 4096 in if q = e \<or> q + 12 \<le> e then q else q - 4096)"

definition given_back :: "chunk \<Rightarrow> nat set" where
  "given_back c = {trim_start (unat (fst c)) ..< trim_end (chunk_end c)}"

definition piece :: "nat \<Rightarrow> nat \<Rightarrow> chunk list" where
  "piece a b = (if a < b then [(of_nat a, of_nat (b - a))] else [])"

definition fl_trim :: "chunk \<Rightarrow> chunk list" where
  "fl_trim c =
    (let s = trim_start (unat (fst c)); e = trim_end (chunk_end c)
     in if s < e then piece (unat (fst c)) s @ piece e (chunk_end c) else [c])"

lemma trim_start_props: "a \<le> trim_start a" "trim_start a = a \<or> a + 12 \<le> trim_start a" "4096 dvd trim_start a"
proof -
  have "a \<le> (a + 4095) div 4096 * 4096" by linarith
  then show "a \<le> trim_start a" "trim_start a = a \<or> a + 12 \<le> trim_start a" "4096 dvd trim_start a"
    by (auto simp: trim_start_def Let_def)
qed

lemma trim_end_props: "trim_end e \<le> e" "4096 \<le> e \<Longrightarrow> trim_end e = e \<or> trim_end e + 12 \<le> e" "4096 dvd trim_end e"
proof -
  have "e div 4096 * 4096 \<le> e" by linarith
  moreover have "4096 \<le> e div 4096 * 4096" if "4096 \<le> e" using div_le_mono [OF that, of 4096] by simp
  moreover have "4096 dvd n * 4096 - (4096 :: nat)" for n by (intro dvd_diff_nat) simp_all
  ultimately show "trim_end e \<le> e" "4096 \<le> e \<Longrightarrow> trim_end e = e \<or> trim_end e + 12 \<le> e" "4096 dvd trim_end e"
    by (auto simp: trim_end_def Let_def)
qed

text \<open>Trimming what is left changes nothing.\<close>

lemma trim_fixed: "4096 dvd p \<Longrightarrow> trim_start p = p" "4096 dvd p \<Longrightarrow> trim_end p = p"
  by (auto simp: trim_start_def trim_end_def elim!: dvdE)

text \<open>The pieces of a chunk are good chunks, in order, and cover what was not given back.\<close>

lemma piece_props:
  assumes "12 \<le> a" "a = b \<or> a + 12 \<le> b" "b < 2 ^ 32"
  shows "d \<in> set (piece a b) \<Longrightarrow> chunk_ok d \<and> unat (fst d) = a \<and> chunk_end d = b"
    "spans (piece a b) = {a..<b}" "total (piece a b) = b - a" "sorted_wrt before (piece a b)"
proof -
  have "unat (of_nat a :: u32) = a" "unat (of_nat (b - a) :: u32) = b - a"
    using assms by (auto simp: unsigned_of_nat simp del: of_nat_diff intro!: take_bit_nat_eq_self)
  then show "d \<in> set (piece a b) \<Longrightarrow> chunk_ok d \<and> unat (fst d) = a \<and> chunk_end d = b"
    "spans (piece a b) = {a..<b}" "total (piece a b) = b - a" "sorted_wrt before (piece a b)"
    using assms by (auto simp: piece_def chunk_ok_def chunk_end_def span_def simp del: of_nat_diff split: if_splits)
qed

lemma fl_trim_pieces:
  assumes c: "chunk_ok c"
  shows "d \<in> set (fl_trim c) \<Longrightarrow> chunk_ok d \<and> unat (fst c) \<le> unat (fst d) \<and> chunk_end d \<le> chunk_end c \<and> fl_trim d = [d]"
    "sorted_wrt before (fl_trim c)" "spans (fl_trim c) = span c - given_back c"
    "total (fl_trim c) + (trim_end (chunk_end c) - trim_start (unat (fst c))) = unat (snd c)"
proof -
  define a e s t where ae: "a = unat (fst c)" "e = chunk_end c" and s: "s = trim_start a" and te: "t = trim_end e"
  have b: "12 \<le> a" "a + 12 \<le> e" "e < 2 ^ 32" "unat (snd c) = e - a"
    using c by (auto simp: chunk_ok_def chunk_end_def ae)
  note S = trim_start_props [of a, folded s] and T = trim_end_props [of e, folded te]
  have F: "fl_trim c = (if s < t then piece a s @ piece t e else [c])" by (simp add: fl_trim_def ae s te Let_def)
  have G: "given_back c = {s..<t}" by (simp add: given_back_def ae s te)
  have t: "t = e \<or> t + 12 \<le> e" "12 \<le> t" "s < 2 ^ 32" if "s < t"
  proof -
    have "4096 \<le> t" using T(3) that by (intro dvd_imp_le) auto
    then show "t = e \<or> t + 12 \<le> e" "12 \<le> t" "s < 2 ^ 32" using T(1,2) b that by linarith+
  qed
  have A: "s < t \<Longrightarrow> d \<in> set (piece a s) \<Longrightarrow> chunk_ok d \<and> unat (fst d) = a \<and> chunk_end d = s" for d
    using piece_props(1) [of a s d] b(1) S(2) t(3) by auto
  have B: "s < t \<Longrightarrow> d \<in> set (piece t e) \<Longrightarrow> chunk_ok d \<and> unat (fst d) = t \<and> chunk_end d = e" for d
    using piece_props(1) [of t e d] t b(3) by auto
  have C: "spans (piece a s) = {a..<s} \<and> total (piece a s) = s - a \<and> sorted_wrt before (piece a s)" if "s < t"
    using piece_props(2-4) [of a s] b(1) S(2) t(3) [OF that] by auto
  have D: "spans (piece t e) = {t..<e} \<and> total (piece t e) = e - t \<and> sorted_wrt before (piece t e)" if "s < t"
    using piece_props(2-4) [of t e] t [OF that] b(3) by auto
  show "chunk_ok d \<and> unat (fst c) \<le> unat (fst d) \<and> chunk_end d \<le> chunk_end c \<and> fl_trim d = [d]" if "d \<in> set (fl_trim c)"
  proof (cases "s < t")
    case False
    then show ?thesis using that c F by simp
  next
    case True
    then have d: "chunk_ok d" "unat (fst d) = a \<and> chunk_end d = s \<or> unat (fst d) = t \<and> chunk_end d = e"
      using that A [OF True, of d] B [OF True, of d] by (auto simp: F)
    have "trim_end s = s" "trim_start t = t" using trim_fixed S(3) T(3) by blast+
    then have "trim_start (unat (fst d)) = trim_end (chunk_end d)"
      using d(2) s te by (elim disjE conjE) (simp_all only:)
    then have "fl_trim d = [d]" by (simp add: fl_trim_def Let_def)
    then show ?thesis using d True S(1) T(1) b by (auto simp flip: ae)
  qed
  show "sorted_wrt before (fl_trim c)" using C D A B by (auto simp: F sorted_wrt_append before_def)
  show "spans (fl_trim c) = span c - given_back c"
    using C D S(1) T(1) by (auto simp: F G span_def simp flip: ae)
  show "total (fl_trim c) + (trim_end (chunk_end c) - trim_start (unat (fst c))) = unat (snd c)"
    using C D S(1) T(1) b(4) by (auto simp: F simp flip: ae s te)
qed

text \<open>A chunk that is cut is not left as it was.\<close>

lemma fl_trim_same:
  assumes "chunk_ok c" "trim_start (unat (fst c)) < trim_end (chunk_end c)"
  shows "fl_trim c \<noteq> [c]"
  using fl_trim_pieces(4) [OF assms(1)] assms(2) by auto

lemma free_ok_trim:
  assumes "free_ok (xs @ c # ys)"
  shows "free_ok (xs @ fl_trim c @ ys)" "spans (xs @ fl_trim c @ ys) \<subseteq> spans (xs @ c # ys)"
proof -
  have c: "chunk_ok c" using assms by (simp add: free_ok_append free_ok_Cons)
  note P = fl_trim_pieces [OF c]
  show "free_ok (xs @ fl_trim c @ ys)"
    using assms P(1,2) by (fastforce simp: free_ok_def sorted_wrt_append before_def)
  show "spans (xs @ fl_trim c @ ys) \<subseteq> spans (xs @ c # ys)" using P(3) by auto
qed

section \<open>The retries\<close>

text \<open>What the body of the loop does to the memory once the page range is settled.\<close>

definition trim_cut :: "mem \<Rightarrow> addr \<Rightarrow> addr \<Rightarrow> addr \<Rightarrow> addr \<Rightarrow> mem" where
  "trim_cut m chunk e s t =
    (let m = (if t < e then trim_split m chunk (e - t) t else m)
     in if s = chunk then list_delete m chunk else set_chunk_len m chunk (chunk_len m chunk - (t - s)))"

lemma small_gap: "(a :: u32) \<le> b \<Longrightarrow> b - a < sizeof_free_heap_chunk \<longleftrightarrow> unat b < unat a + 12"
  by (auto simp: sizeof_free_heap_chunk_def word_less_nat_alt word_le_nat_alt unat_sub)

lemma trim_retry_settled:
  assumes "unat s = unat a \<or> unat a + 12 \<le> unat s" "unat t = unat e \<or> unat t + 12 \<le> unat e"
  shows "trim_retry st a a e s t =
    Some (if s < t then trim_free (st\<lparr>hmem := trim_cut (hmem st) a e s t\<rparr>) s t else st)"
proof -
  have le: "a \<le> s" "t \<le> e" using assms by (auto simp: word_le_nat_alt)
  have gaps: "\<not> (s \<noteq> a \<and> s - a < sizeof_free_heap_chunk)" "\<not> (t < e \<and> e - t < sizeof_free_heap_chunk)"
    using assms small_gap [OF le(1)] small_gap [OF le(2)] by (auto simp: word_unat_eq_iff word_less_nat_alt)
  moreover have "t < e \<or> t = e" using le(2) by auto
  ultimately show ?thesis
    by (subst trim_retry.simps) (auto simp: trim_cut_def Let_def)
qed

text \<open>The first and the last page are moved inwards at most once each.\<close>

lemma trim_retry_bounds:
  fixes a e s t p q :: u32
  assumes bd: "unat a + 12 \<le> unat e" "unat e \<le> 2 ^ 32 - 4096"
    and p: "unat p = (unat a + 4095) div 4096 * 4096" and q: "unat q = unat e div 4096 * 4096"
    and s: "unat s = trim_start (unat a)" and t: "unat t = trim_end (unat e)"
  shows "trim_retry st a a e p q =
    Some (if s < t then trim_free (st\<lparr>hmem := trim_cut (hmem st) a e s t\<rparr>) s t else st)"
proof -
  have le: "unat a \<le> unat p" "unat p < unat a + 4096" "unat q \<le> unat e" using p q by linarith+
  have four: "4096 dvd unat p" "4096 dvd unat q" by (simp_all add: p q)
  have page: "4096 \<le> unat q" if "p < q" using four(2) that by (intro dvd_imp_le) (auto simp: word_less_nat_alt)
  have sp: "s = (if unat p = unat a \<or> unat a + 12 \<le> unat p then p else p + 4096)"
    using s le bd by (auto simp: trim_start_def p [symmetric] word_unat_eq_iff Let_def unat_word_ariths)
  have settled: "unat s = unat a \<or> unat a + 12 \<le> unat s" "unat t = unat e \<or> unat t + 12 \<le> unat e" if "p < q"
  proof -
    show "unat s = unat a \<or> unat a + 12 \<le> unat s" using trim_start_props(2) s by simp
    have "4096 \<le> unat e" using page [OF that] le(3) by simp
    then show "unat t = unat e \<or> unat t + 12 \<le> unat e" using trim_end_props(2) t by simp
  qed
  have tq: "t = (if unat q = unat e \<or> unat q + 12 \<le> unat e then q else q - 4096)" if "p < q"
  proof -
    from page [OF that] show ?thesis using t by (auto simp: trim_end_def q [symmetric] word_unat_eq_iff Let_def unat_sub word_le_nat_alt)
  qed
  have none: "trim_retry st a a e x y = Some st" if "\<not> x < y" for x y
    using that by (subst trim_retry.simps) simp
  have sp_le: "p \<le> s" using sp le bd by (auto simp: word_le_nat_alt unat_word_ariths)
  have tq_le: "t \<le> q" if "p < q" using t q that by (auto simp: word_le_nat_alt trim_end_def Let_def)
  show ?thesis
  proof (cases "p < q")
    case False
    have "unat t \<le> unat q" using t by (auto simp: trim_end_def q Let_def)
    then have "\<not> s < t" using False sp_le by (auto simp: word_less_nat_alt word_le_nat_alt)
    then show ?thesis using False by (simp add: none)
  next
    case True
    have start: "trim_retry st a a e p q = trim_retry st a a e s q"
    proof (cases "s = p")
      case False
      then have "p \<noteq> a" "p - a < sizeof_free_heap_chunk" "s = p + PAGE_SIZE"
        using sp le small_gap [of a p] by (auto simp: word_le_nat_alt PAGE_SIZE_def split: if_splits)
      then show ?thesis using True by (subst trim_retry.simps) simp
    qed simp
    show ?thesis
    proof (cases "s < q")
      case False
      then have "\<not> s < t" using tq_le [OF True] by auto
      then show ?thesis using False by (simp add: start none)
    next
      case sq: True
      have "trim_retry st a a e s q = trim_retry st a a e s t"
      proof (cases "t = q")
        case False
        then have "q < e" "e - q < sizeof_free_heap_chunk" "t = q - PAGE_SIZE"
          using tq [OF True] le(3) small_gap [of q e] by (auto simp: word_le_nat_alt word_less_nat_alt PAGE_SIZE_def split: if_splits)
        moreover from this have "\<not> (s = a \<and> q = e)" by auto
        moreover have "\<not> (s \<noteq> a \<and> s - a < sizeof_free_heap_chunk)"
          using settled(1) [OF True] small_gap [of a s] by (auto simp: word_le_nat_alt word_unat_eq_iff)
        ultimately show ?thesis using sq by (subst trim_retry.simps) auto
      qed simp
      then show ?thesis using start trim_retry_settled settled [OF True] by simp
    qed
  qed
qed

section \<open>One chunk\<close>

lemma piece_word: "a \<le> b \<Longrightarrow> piece a b = (if a = b then [] else [(of_nat a, of_nat b - of_nat a)])"
  by (simp add: piece_def of_nat_diff)

text \<open>Splitting off the end of a chunk.\<close>

lemma trim_split_rep:
  assumes rep: "chunks_rep m fl (xs @ c # ys)" and d: "fst d \<noteq> 0" "apart (fst c) 12 (fst d) 12"
    and sep: "objs_sep fl (map fst (d # xs @ c # ys))" and nin: "fst d \<notin> set (map fst (xs @ c # ys))"
  shows "chunks_rep (trim_split m (fst c) (snd d) (fst d)) fl (xs @ (fst c, snd c - snd d) # d # ys)"
    "frame (objs_region fl (map fst (xs @ c # d # ys))) m (trim_split m (fst c) (snd d) (fst d))"
proof -
  let ?c = "(fst c, snd c - snd d)"
  let ?m1 = "set_chunk_len m (fst c) (snd c - snd d)" and ?R = "objs_region fl (map fst (xs @ c # d # ys))"
  let ?m2 = "set_chunk_len ?m1 (fst d) (snd d)"
  have len: "chunk_len m (fst c) = snd c" using rep by (auto simp: chunks_rep_def)
  have r1: "chunks_rep ?m1 fl ((xs @ [?c]) @ ys)"
    using rep_set_len [of m fl xs "fst c" "snd c" ys] rep by simp
  have ds: "apart a 12 (fst d) 12" if "a \<in> set (map fst ((xs @ [?c]) @ ys))" for a
  proof -
    have "a \<noteq> fst d" using that nin by auto
    then show ?thesis using that by (intro objs_sepD(1) [OF sep]) auto
  qed
  have df: "apart fl 8 (fst d) 12" by (rule objs_sepD(2) [OF sep]) simp
  have r2: "chunks_rep ?m2 fl ((xs @ [?c]) @ ys)" using r1 ds df by (rule rep_set_other)
  have l2: "chunk_len ?m2 (fst d) = snd d" by (simp add: chunk_len_set)
  have sep': "objs_sep fl (map fst (d # (xs @ [?c]) @ ys))" using sep by simp
  have nin': "fst d \<notin> set (map fst ((xs @ [?c]) @ ys))" using nin by simp
  have p: "fst c = last (fl # map fst (xs @ [?c]))" by simp
  have e: "trim_split m (fst c) (snd d) (fst d) = list_add_head ?m2 (fst c) (fst d)"
    by (simp add: trim_split_def Let_def heap_create_free_chunk_def list_add_after_def len)
  show "chunks_rep (trim_split m (fst c) (snd d) (fst d)) fl (xs @ ?c # d # ys)"
    using rep_link(2) [OF r2 d(1) l2 sep' nin' refl p] by (simp add: e)
  have "frame ?R m ?m1" by (rule frame_set_len) simp
  then have f2: "frame ?R m ?m2" by (rule frame_trans) (rule frame_set_len, simp)
  have "frame ?R ?m2 (list_add_head ?m2 (fst c) (fst d))" using frame_link(2) [OF r2 d(1) sep' nin' refl p] by simp
  from frame_trans [OF f2 this] show "frame ?R m (trim_split m (fst c) (snd d) (fst d))" by (simp only: e)
qed

text \<open>The rest of the chunk, in the order of the code: the split, then the front.\<close>

lemma trim_front_rep:
  assumes rep: "chunks_rep m fl (xs @ (a, l) # zs)" and k: "k = snd (a, l) - n" and del: "b \<longleftrightarrow> k = 0"
  shows "chunks_rep (if b then list_delete m a else set_chunk_len m a (chunk_len m a - n)) fl
      (xs @ (if b then [] else [(a, k)]) @ zs)"
    "frame (objs_region fl (map fst (xs @ (a, l) # zs))) m (if b then list_delete m a else set_chunk_len m a (chunk_len m a - n))"
proof -
  have len: "chunk_len m a = l" using rep by (auto simp: chunks_rep_def)
  show "chunks_rep (if b then list_delete m a else set_chunk_len m a (chunk_len m a - n)) fl
      (xs @ (if b then [] else [(a, k)]) @ zs)"
    using rep_delete(1) [OF rep] rep_set_len [OF rep, of k] k by (simp add: len)
  show "frame (objs_region fl (map fst (xs @ (a, l) # zs))) m (if b then list_delete m a else set_chunk_len m a (chunk_len m a - n))"
    using frame_delete [OF rep] frame_set_len [of a "map fst (xs @ (a, l) # zs)" fl m "l - n"] by (simp add: len)
qed

lemma split_sep:
  assumes free: "free_ok (xs @ c # ys)" and st: "struct_span st \<inter> spans (xs @ c # ys) = {}" "unat (h_addr st) + 24 < 2 ^ 32"
    and ok: "chunk_ok c1" "chunk_ok d" and sub: "span c1 \<subseteq> span c" "span d \<subseteq> span c" "span c1 \<inter> span d = {}"
  shows "objs_sep (free_list st) (map fst (d # xs @ c1 # ys))" "fst d \<notin> set (map fst (xs @ c1 # ys))"
proof -
  let ?O = "set xs \<union> set ys"
  have O: "chunk_ok x \<and> span x \<inter> span c = {} \<and> struct_span st \<inter> span x = {}" if "x \<in> ?O" for x
  proof -
    have "chunk_ok x \<and> chunk_ok c \<and> (before x c \<or> before c x)" using that free by (auto simp: free_ok_def sorted_wrt_append)
    then have "chunk_ok x" "span x \<inter> span c = {}" by (auto simp: span_disjoint_iff before_def)
    then show ?thesis using st(1) that by (auto simp: spans_def)
  qed
  have P: "x = y \<or> span x \<inter> span y = {}" if "x \<in> ?O" "y \<in> ?O" for x y
    using free_ok_disjoint [OF free, of x y] that by auto
  have dx: "span d \<inter> span x = {}" if "x \<in> set (xs @ c1 # ys)" for x using O [of x] that sub by auto
  have cx: "span c1 \<inter> span x = {}" if "x \<in> ?O" for x using O [OF that] sub(1) by auto
  have "x = y \<or> span x \<inter> span y = {}" if "x \<in> set (d # xs @ c1 # ys)" "y \<in> set (d # xs @ c1 # ys)" for x y
    using that P [of x y] dx [of x] dx [of y] cx [of x] cx [of y] by (auto simp: Int_commute)
  moreover have "struct_span st \<inter> span c = {}" using st(1) by auto
  then have all: "chunk_ok x \<and> struct_span st \<inter> span x = {}" if "x \<in> set (d # xs @ c1 # ys)" for x
    using that O [of x] ok sub by auto
  ultimately show "objs_sep (free_list st) (map fst (d # xs @ c1 # ys))" using st(2) by (intro objs_sep_of_spans) blast+
  have "fst d \<noteq> fst x" if "x \<in> set (xs @ c1 # ys)" for x
    using disjoint_apart(2) [OF ok(2) _ dx [OF that]] all [of x] that by auto
  then show "fst d \<notin> set (map fst (xs @ c1 # ys))" by (auto simp: image_iff)
qed

lemma trim_cut_rep:
  assumes rep: "heap_rep st (xs @ c # ys)" and lt: "s < t" and s: "s = trim_start (unat (fst c))" and t: "t = trim_end (chunk_end c)"
  defines "m \<equiv> trim_cut (hmem st) (fst c) (fst c + snd c) (of_nat s) (of_nat t)"
  shows "chunks_rep m (free_list st) (xs @ fl_trim c @ ys)"
    "frame (bytes (struct_span st \<union> spans (xs @ c # ys))) (hmem st) m"
proof -
  let ?fl = "free_list st"
  have c: "chunk_ok c" "free_ok (xs @ c # ys)" using rep by (auto simp: heap_rep_def free_ok_append free_ok_Cons)
  have R: "chunks_rep (hmem st) ?fl (xs @ c # ys)" "struct_span st \<inter> spans (xs @ c # ys) = {}" "unat (h_addr st) + 24 < 2 ^ 32"
    using rep by (simp_all add: heap_rep_def)
  define a e where ae: "a = unat (fst c)" "e = chunk_end c"
  have b: "12 \<le> a" "a + 12 \<le> e" "e < 2 ^ 32" using c(1) by (auto simp: chunk_ok_def chunk_end_def ae)
  have w: "of_nat a = fst c" "of_nat e = fst c + snd c" by (simp_all add: ae chunk_end_def)
  have S: "a \<le> s" "s = a \<or> a + 12 \<le> s" "4096 dvd s" using trim_start_props [of a] by (simp_all add: s ae)
  have "4096 \<le> t" using lt trim_end_props(3) by (intro dvd_imp_le) (auto simp: t)
  then have T: "t \<le> e" "t = e \<or> t + 12 \<le> e" "4096 dvd t" "4096 \<le> t"
    using trim_end_props [of e] by (auto simp: t ae)
  have at: "a + 12 \<le> t"
  proof (cases "s = a")
    case True
    then have "4096 dvd t - s" "0 < t - s" using S(3) T(3) lt by (auto intro: dvd_diff_nat)
    then have "4096 \<le> t - s" by (rule dvd_imp_le)
    then show ?thesis using True by simp
  qed (use S lt in simp)
  have inj: "(of_nat i = (of_nat j :: u32)) \<longleftrightarrow> i = j" "(of_nat i < (of_nat j :: u32)) \<longleftrightarrow> i < j" if "i \<le> e" "j \<le> e" for i j
    using that b(3) by (auto simp: word_less_nat_alt word_unat_eq_iff unsigned_of_nat take_bit_nat_eq_self)
  define c1 where "c1 = (fst c, of_nat t - fst c :: u32)"
  define m1 where "m1 = (if (of_nat t :: u32) < fst c + snd c then trim_split (hmem st) (fst c) (fst c + snd c - of_nat t) (of_nat t) else hmem st)"
  have u: "unat (of_nat i :: u32) = i" if "i \<le> e" for i using that b(3) by (simp add: unsigned_of_nat take_bit_nat_eq_self)
  have "unat (of_nat t - fst c) = t - a" using u [of t] u [of a] T(1) at b(2) w(1) by (subst unat_sub) (auto simp: word_le_nat_alt)
  then have c1: "unat (snd c1) = t - a" "chunk_end c1 = t" "unat (fst c1) = a" "fst c1 = fst c"
    using at by (simp_all add: c1_def chunk_end_def flip: ae)
  then have c1: "chunk_ok c1" "span c1 = {a..<t}" "fst c1 = fst c"
    using at b T(1) by (simp_all add: chunk_ok_def span_def)
  have D: "chunk_ok d \<and> unat (fst d) = t \<and> chunk_end d = e" if "d \<in> set (piece t e)" for d
    using piece_props(1) [OF _ T(2) b(3) that] T(4) by simp
  have D': "spans (piece t e) = {t..<e}" using piece_props(2) [OF _ T(2) b(3)] T(4) by simp
  have spc: "span c = {a..<e}" by (simp add: span_def ae)
  have others: "chunk_ok x" if "x \<in> set xs \<union> set ys" for x using that c(2) by (auto simp: free_ok_def)
  have ok: "\<forall>d \<in> set (xs @ c1 # piece t e @ ys). chunk_ok d" using others c1(1) D by auto
  have sub: "spans (xs @ c1 # piece t e @ ys) \<subseteq> spans (xs @ c # ys)" using c1(2) D' spc T(1) at by auto
  have R': "objs_region ?fl (map fst (xs @ c1 # piece t e @ ys)) \<subseteq> bytes (struct_span st \<union> spans (xs @ c # ys))"
    by (rule order_trans [OF objs_region_bytes [OF ok R(3)] bytes_mono]) (use sub in blast)
  have m1: "chunks_rep m1 ?fl (xs @ c1 # piece t e @ ys)"
    "frame (bytes (struct_span st \<union> spans (xs @ c # ys))) (hmem st) m1"
  proof -
    have "chunks_rep m1 ?fl (xs @ c1 # piece t e @ ys) \<and> frame (objs_region ?fl (map fst (xs @ c1 # piece t e @ ys))) (hmem st) m1"
    proof (cases "t = e")
      case True
      then have "c1 = c" by (simp add: c1_def w prod_eq_iff)
      then show ?thesis using R(1) True by (simp add: m1_def piece_def w frame_refl)
    next
      case False
      define d where "d = (of_nat t :: u32, of_nat e - of_nat t :: u32)"
      have p: "piece t e = [d]" using piece_word [OF T(1)] False by (simp add: d_def)
      have dok: "chunk_ok d" "span d = {t..<e}" using D [of d] D' by (simp_all add: p)
      have "span c1 \<inter> span d = {}" "span d \<subseteq> span c" "span c1 \<subseteq> span c" using c1(2) dok(2) spc at T(1) by auto
      note X = split_sep [OF c(2) R(2,3) c1(1) dok(1) this(3,2,1)] and ap = disjoint_apart(1) [OF c1(1) dok(1) this(1)]
      have m1': "m1 = trim_split (hmem st) (fst c) (snd d) (fst d)"
        using inj(2) [of t e] T(1) False by (simp add: m1_def d_def w)
      have c1': "c1 = (fst c, snd c - snd d)" by (simp add: c1_def d_def w)
      have mf: "map fst (d # xs @ c1 # ys) = map fst (d # xs @ c # ys)" "map fst (xs @ c1 # ys) = map fst (xs @ c # ys)"
        using c1(3) by simp_all
      note Y = trim_split_rep [OF R(1) chunk_okD(3) [OF dok(1)] ap [unfolded c1(3)] X [unfolded mf]]
      then show ?thesis by (simp add: p m1' c1')
    qed
    then show "chunks_rep m1 ?fl (xs @ c1 # piece t e @ ys)" "frame (bytes (struct_span st \<union> spans (xs @ c # ys))) (hmem st) m1"
      using frame_mono [OF _ R'] by blast+
  qed
  let ?n = "of_nat t - of_nat s :: u32"
  have k: "(of_nat s - fst c :: u32) = snd (fst c, of_nat t - fst c) - ?n" by simp
  have z: "(of_nat s = fst c) \<longleftrightarrow> (of_nat s - fst c :: u32) = 0" by simp
  have "s = a \<longleftrightarrow> of_nat s = fst c" using inj(1) [of s a] lt T(1) b(2) by (simp add: w)
  then have pa: "piece a s = (if of_nat s = fst c then [] else [(fst c, of_nat s - fst c)])"
    using piece_word [OF S(1)] by (auto simp: w)
  have e: "fl_trim c = piece a s @ piece t e" using lt by (simp add: fl_trim_def Let_def s t ae)
  have m: "m = (if of_nat s = fst c then list_delete m1 (fst c) else set_chunk_len m1 (fst c) (chunk_len m1 (fst c) - ?n))"
    by (simp add: m_def trim_cut_def m1_def Let_def)
  note F = trim_front_rep [OF m1(1) [unfolded c1_def] k z, folded m]
  show "chunks_rep m ?fl (xs @ fl_trim c @ ys)" using F(1) by (simp add: e pa)
  from frame_mono [OF F(2) [folded c1_def] R'] show "frame (bytes (struct_span st \<union> spans (xs @ c # ys))) (hmem st) m"
    by (rule frame_trans [OF m1(2)])
qed

section \<open>The whole list\<close>

definition low_enough :: "chunk \<Rightarrow> bool" where
  "low_enough c \<longleftrightarrow> chunk_end c \<le> 2 ^ 32 - 4096"

definition trimmed :: "heap \<Rightarrow> chunk list \<Rightarrow> heap \<Rightarrow> chunk list \<Rightarrow> bool" where
  "trimmed st cs st' cs' \<longleftrightarrow> heap_rep st' cs' \<and> h_remaining st' = of_nat (total cs')
     \<and> frame (bytes (struct_span st \<union> spans cs)) (hmem st) (hmem st')
     \<and> h_addr st' = h_addr st \<and> h_low st' = h_low st"

lemma trimmed_same:
  assumes "trimmed st cs st' cs'"
  shows "free_list st' = free_list st" "struct_span st' = struct_span st" "h_low st' = h_low st"
  using assms by (simp_all add: trimmed_def free_list_def struct_span_def)

lemma trimmed_trans:
  assumes "trimmed st cs st1 cs1" "trimmed st1 cs1 st2 cs2" "spans cs1 \<subseteq> spans cs"
  shows "trimmed st cs st2 cs2"
proof -
  have "bytes (struct_span st1 \<union> spans cs1) \<subseteq> bytes (struct_span st \<union> spans cs)"
    using assms(3) by (intro bytes_mono) (auto simp: trimmed_same [OF assms(1)])
  then have "frame (bytes (struct_span st \<union> spans cs)) (hmem st1) (hmem st2)"
    using assms(2) frame_mono by (auto simp: trimmed_def)
  moreover have "frame (bytes (struct_span st \<union> spans cs)) (hmem st) (hmem st1)" using assms(1) by (simp add: trimmed_def)
  ultimately have "frame (bytes (struct_span st \<union> spans cs)) (hmem st) (hmem st2)" using frame_trans by blast
  then show ?thesis using assms(1,2) by (simp add: trimmed_def)
qed

lemma trim_chunk_step:
  assumes rep: "heap_rep st (xs @ c # ys)" and low: "low_enough c" and rem: "h_remaining st = of_nat (total (xs @ c # ys))"
  shows "\<exists>st'. trim_chunk st (fst c) = Some st' \<and> trimmed st (xs @ c # ys) st' (xs @ fl_trim c @ ys) \<and> (fl_trim c = [c] \<longrightarrow> st' = st)"
proof -
  have H: "free_ok (xs @ c # ys)" "chunk_len (hmem st) (fst c) = snd c" "struct_span st \<inter> spans (xs @ c # ys) = {}"
    using rep by (auto simp: heap_rep_def chunks_rep_def)
  have c: "chunk_ok c" using H(1) by (simp add: free_ok_append free_ok_Cons)
  let ?s = "trim_start (unat (fst c))" and ?t = "trim_end (chunk_end c)"
  have b: "unat (fst c) + 12 \<le> chunk_end c" "chunk_end c \<le> 2 ^ 32 - 4096" "unat (fst c + snd c) = chunk_end c"
    using c low chunk_okD(4) [OF c] by (auto simp: chunk_ok_def low_enough_def chunk_end_def)
  have st: "?s < 2 ^ 32" "?t < 2 ^ 32"
    using b trim_end_props(1) [of "chunk_end c"] by (auto simp: trim_start_def Let_def)
  then have w: "unat (of_nat ?s :: u32) = ?s" "unat (of_nat ?t :: u32) = ?t"
    by (simp_all add: unsigned_of_nat take_bit_nat_eq_self)
  have P: "unat (ROUNDUP (fst c) PAGE_SIZE) = (unat (fst c) + 4095) div 4096 * 4096"
    "unat (ROUNDDOWN (fst c + snd c) PAGE_SIZE) = chunk_end c div 4096 * 4096"
    using unat_ROUNDUP [of 12 "fst c"] unat_ROUNDDOWN [of 12 "fst c + snd c"] b by (simp_all add: PAGE_SIZE_def)
  have e: "trim_chunk st (fst c) = Some (if ?s < ?t then trim_free (st\<lparr>hmem := trim_cut (hmem st) (fst c) (fst c + snd c) (of_nat ?s) (of_nat ?t)\<rparr>) (of_nat ?s) (of_nat ?t) else st)"
    using trim_retry_bounds [of "fst c" "fst c + snd c", OF _ _ P(1) _ w(1), of _ "of_nat ?t"] b P(2) w
    by (simp add: trim_chunk_def Let_def H(2) word_less_nat_alt)
  show ?thesis
  proof (cases "?s < ?t")
    case False
    then have "fl_trim c = [c]" by (simp add: fl_trim_def Let_def)
    then show ?thesis using e False rep rem by (simp add: trimmed_def)
  next
    case True
    let ?m = "trim_cut (hmem st) (fst c) (fst c + snd c) (of_nat ?s) (of_nat ?t)"
    note R = trim_cut_rep [OF rep True refl refl] and F = free_ok_trim [OF H(1)]
    let ?st = "trim_free (st\<lparr>hmem := ?m\<rparr>) (of_nat ?s) (of_nat ?t)"
    have "total (xs @ c # ys) = total (xs @ fl_trim c @ ys) + (?t - ?s)" using fl_trim_pieces(4) [OF c] by simp
    then have "of_nat (total (xs @ c # ys)) - (of_nat ?t - of_nat ?s) = (of_nat (total (xs @ fl_trim c @ ys)) :: u32)"
      using True by (simp only: of_nat_add of_nat_diff less_imp_le) simp
    moreover have "h_remaining ?st = h_remaining st - (of_nat ?t - of_nat ?s)" by (simp add: trim_free_def)
    ultimately have "h_remaining ?st = of_nat (total (xs @ fl_trim c @ ys))" by (simp only: rem)
    moreover have "heap_rep ?st (xs @ fl_trim c @ ys)"
      using R(1) F H(3) rep by (auto simp: heap_rep_def trim_free_def free_list_def struct_span_def)
    ultimately have "trimmed st (xs @ c # ys) ?st (xs @ fl_trim c @ ys)"
      using R(2) by (simp add: trimmed_def) (simp add: trim_free_def)
    then show ?thesis using e True fl_trim_same [OF c] by auto
  qed
qed

lemma trim_loop_run:
  assumes "heap_rep st (xs @ ys)" "\<forall>c \<in> set ys. low_enough c" "h_remaining st = of_nat (total (xs @ ys))"
  shows "\<exists>st'. trim_loop st (hd (map fst ys @ [free_list st])) (node_next (hmem st) (hd (map fst ys @ [free_list st]))) = Some st'
    \<and> trimmed st (xs @ ys) st' (xs @ concat (map fl_trim ys)) \<and> ((\<forall>c \<in> set ys. fl_trim c = [c]) \<longrightarrow> st' = st)"
  using assms
proof (induction ys arbitrary: xs st)
  case Nil
  then show ?case by (simp add: trim_loop.simps trimmed_def)
next
  case (Cons c ys)
  have d: "dll (hmem st) (free_list st) (map fst xs @ fst c # map fst ys)" using Cons.prems(1) by (simp add: heap_rep_def chunks_rep_def)
  have nx: "node_next (hmem st) (fst c) = hd (map fst ys @ [free_list st])" by (rule dll_fields(2) [OF d])
  have ne: "fst c \<noteq> free_list st" using dllD(5) [OF d] by auto
  from trim_chunk_step [OF Cons.prems(1) _ Cons.prems(3)] Cons.prems(2) obtain st1 where
    1: "trim_chunk st (fst c) = Some st1" "trimmed st (xs @ c # ys) st1 (xs @ fl_trim c @ ys)" "fl_trim c = [c] \<longrightarrow> st1 = st" by auto
  note fl = trimmed_same [OF 1(2)]
  have "heap_rep st1 ((xs @ fl_trim c) @ ys)" "h_remaining st1 = of_nat (total ((xs @ fl_trim c) @ ys))"
    using 1(2) by (simp_all add: trimmed_def)
  from Cons.IH [OF this(1) _ this(2)] Cons.prems(2) obtain st2 where
    2: "trim_loop st1 (hd (map fst ys @ [free_list st])) (node_next (hmem st1) (hd (map fst ys @ [free_list st]))) = Some st2"
      "trimmed st1 ((xs @ fl_trim c) @ ys) st2 ((xs @ fl_trim c) @ concat (map fl_trim ys))"
      "(\<forall>c \<in> set ys. fl_trim c = [c]) \<longrightarrow> st2 = st1" by (auto simp: fl)
  have "trim_loop st (fst c) (hd (map fst ys @ [free_list st])) = Some st2"
    using ne 1(1) 2(1) by (subst trim_loop.simps) simp
  moreover have "free_ok (xs @ c # ys)" using Cons.prems(1) by (simp add: heap_rep_def)
  then have "trimmed st (xs @ c # ys) st2 (xs @ fl_trim c @ concat (map fl_trim ys))"
    using trimmed_trans [OF 1(2) _ free_ok_trim(2)] 2(2) by simp
  ultimately show ?case using nx 1(3) 2(3) by (intro exI [of _ st2]) simp
qed

lemma heap_trim_run:
  assumes "heap_rep st cs" "\<forall>c \<in> set cs. low_enough c" "h_remaining st = of_nat (total cs)"
  shows "\<exists>st'. heap_trim st = Some st' \<and> trimmed st cs st' (concat (map fl_trim cs)) \<and> ((\<forall>c \<in> set cs. fl_trim c = [c]) \<longrightarrow> st' = st)"
proof -
  have "dll (hmem st) (free_list st) (map fst cs)" using assms(1) by (simp add: heap_rep_def chunks_rep_def)
  then have "node_next (hmem st) (free_list st) = hd (map fst cs @ [free_list st])" by (rule dll_head(1))
  then show ?thesis using trim_loop_run [of st "[]" cs] assms by (simp add: heap_trim_def miniheap_trim_def Let_def)
qed

section \<open>Property\<close>

text \<open>
  C18. \<^verbatim>\<open>heap_trim\<close> returns. It gives back the whole pages inside each free chunk, as many as leave
  nothing or room for a chunk's header on either side, and keeps the invariant of the heap: the free
  list is exactly the rest of the chunks, the statistics count it, no block in use moves or
  changes. Trimming again changes nothing. (The pages are gone: \<^verbatim>\<open>page_free\<close> and \<^verbatim>\<open>page_alloc\<close> of this
  kernel are stubs.)
\<close>

theorem trim_gives_back_pages:
  assumes "alloc_inv A st cs bs" "\<forall>c \<in> set cs. chunk_end c \<le> 2 ^ 32 - 4096"
  shows "\<exists>st'. heap_trim st = Some st' \<and> alloc_inv (A - (\<Union>c \<in> set cs. given_back c)) st' (concat (map fl_trim cs)) bs
    \<and> (\<forall>c \<in> set cs. given_back c \<subseteq> span c \<and> (\<exists>n k. given_back c = {4096 * n ..< 4096 * k}))
    \<and> (\<forall>b \<in> set bs. \<forall>x. unat x \<in> payload b \<longrightarrow> hmem st' x = hmem st x)
    \<and> heap_trim st' = Some st'"
proof -
  let ?G = "\<Union>c \<in> set cs. given_back c" and ?cs = "concat (map fl_trim cs)"
  have I: "heap_rep st cs" "\<forall>b \<in> set bs. block_ok (hmem st) b" "spans cs \<inter> block_spans bs = {}" "spans cs \<union> block_spans bs = A"
    "struct_span st \<inter> A = {}" "h_remaining st = of_nat (total cs)" "h_low st = 0" "disjoint_blocks bs"
    using assms(1) by (simp_all add: alloc_inv_def)
  have ok: "free_ok cs" "\<And>c. c \<in> set cs \<Longrightarrow> chunk_ok c" using I(1) by (auto simp: heap_rep_def free_ok_def)
  have low: "\<forall>c \<in> set cs. low_enough c" using assms(2) by (simp add: low_enough_def)
  from heap_trim_run [OF I(1) low I(6)] obtain st' where
    st': "heap_trim st = Some st'" "trimmed st cs st' ?cs" by blast
  note T = trimmed_same [OF st'(2)]
  have R: "heap_rep st' ?cs" "h_remaining st' = of_nat (total ?cs)"
    and f: "frame (bytes (struct_span st \<union> spans cs)) (hmem st) (hmem st')" using st'(2) unfolding trimmed_def by blast+
  have P: "chunk_ok d \<and> chunk_end d \<le> chunk_end c \<and> fl_trim d = [d]" if "c \<in> set cs" "d \<in> set (fl_trim c)" for c d
    using fl_trim_pieces(1) [OF ok(2) [OF that(1)] that(2)] by blast
  have low': "\<forall>d \<in> set ?cs. low_enough d" and fixed: "\<forall>d \<in> set ?cs. fl_trim d = [d]"
    using P assms(2) by (fastforce simp: low_enough_def)+
  from heap_trim_run [OF R(1) low' R(2)] obtain st2 where
    st2: "heap_trim st' = Some st2" "(\<forall>d \<in> set ?cs. fl_trim d = [d]) \<longrightarrow> st2 = st'" by blast
  have again: "heap_trim st' = Some st'" using st2(1) mp [OF st2(2) fixed] by (simp only:)
  have G: "given_back c \<subseteq> span c" for c
    using trim_start_props [of "unat (fst c)"] trim_end_props [of "chunk_end c"] by (auto simp: given_back_def span_def)
  have G4: "\<exists>n k. given_back c = {4096 * n ..< 4096 * k}" for c
  proof -
    have "4096 dvd trim_start (unat (fst c))" "4096 dvd trim_end (chunk_end c)"
      using trim_start_props [of "unat (fst c)"] trim_end_props [of "chunk_end c"] by blast+
    then obtain n k where "trim_start (unat (fst c)) = 4096 * n" "trim_end (chunk_end c) = 4096 * k" by (auto elim!: dvdE)
    then show ?thesis by (auto simp: given_back_def)
  qed
  have "spans ?cs = (\<Union>c \<in> set cs. span c - given_back c)"
    using fl_trim_pieces(3) [OF ok(2)] by (auto simp: spans_def)
  also have "\<dots> = spans cs - ?G"
  proof -
    have "x \<notin> given_back d" if "c \<in> set cs" "d \<in> set cs" "x \<in> span c" "x \<notin> given_back c" for c d x
      using that G [of d] free_ok_disjoint [OF ok(1) that(1,2)] by blast
    then show ?thesis by (auto simp: spans_def)
  qed
  finally have S: "spans ?cs = spans cs - ?G" .
  have GS: "?G \<subseteq> spans cs" using G by (auto simp: spans_def)
  have disj: "(struct_span st \<union> spans cs) \<inter> block_spans bs = {}" using I(3,4,5) by blast
  have B: "\<forall>b \<in> set bs. block_ok (hmem st') b" by (rule blocks_frame [OF I(2) f disj])
  have "hmem st' x = hmem st x" if b: "b \<in> set bs" "unat x \<in> payload b" for b x
  proof -
    have "unat x \<in> block_spans bs" using b block_okD(2) I(2) by (fastforce simp: block_spans_def spans_def)
    then have "x \<notin> bytes (struct_span st \<union> spans cs)" using disj by (auto simp: bytes_def)
    then show ?thesis using f by (simp add: frame_def)
  qed
  moreover have "alloc_inv (A - ?G) st' ?cs bs"
    unfolding alloc_inv_def
  proof (intro conjI R B I(8))
    show "spans ?cs \<inter> block_spans bs = {}" "spans ?cs \<union> block_spans bs = A - ?G" using S I(3,4) GS by blast+
    show "struct_span st' \<inter> (A - ?G) = {}" using I(5) by (simp only: T(2)) blast
    show "h_low st' = 0" by (simp only: T(3) I(7))
  qed
  ultimately show ?thesis using st'(1) again G G4 by (intro exI [of _ st'] conjI ballI allI impI) simp_all
qed

theorem trim_gives_back_pages_witness:
  "\<exists>st'. heap_trim one_block = Some st' \<and> alloc_inv (span boot_arena - {0x11000 ..< 0x14000}) st' [(0x1006C, 0xF94)] [(0x10008, (0x10000, 108))]
    \<and> heap_trim st' = Some st'"
proof -
  have g: "given_back (0x1006C, 16276) = {0x11000 ..< 0x14000}" "fl_trim (0x1006C, 16276) = [(0x1006C, 0xF94)]"
    by (simp_all add: given_back_def fl_trim_def trim_start_def trim_end_def chunk_end_def piece_def)
  show ?thesis using trim_gives_back_pages [OF one_block_inv] g by (auto simp: chunk_end_def)
qed

end
