(* ===== verification/FloatText.thy ===== *)
theory FloatText
  imports Printf "HOL-Library.Log_Nat" "HOL-Library.Signed_Division"
begin

text \<open>
  The floating-point conversions of \<^verbatim>\<open>printf.c\<close>, the part of the engine that a build with
  \<^verbatim>\<open>FLOAT_PRINTF\<close> compiles in. A \<^verbatim>\<open>double\<close> is its 64 bits, as the union \<^verbatim>\<open>double_int\<close> reads it. The
  only arithmetic on doubles, \<^verbatim>\<open>((d - u) * 1000000) + .5\<close>, is exact arithmetic with a rounding to
  \<open>p\<close> significant bits after each operation (nearest, ties to even): \<open>p\<close> is 53 where the compiler
  uses SSE and 64 on the x87. A buffer is the list of its bytes and a store outside it is \<open>None\<close>.
  Shown: 32 bytes are enough for every double, \<^verbatim>\<open>%a\<close> prints every normal number exactly, and \<^verbatim>\<open>%f\<close>
  prints what it prints within half a unit of the last place, but for the carry it loses.
\<close>

section \<open>Writing forwards into a buffer\<close>

text \<open>The macros \<^verbatim>\<open>OUT\<close> and \<^verbatim>\<open>OUTSTR\<close>.\<close>

definition out_char :: "u8 list \<Rightarrow> u32 \<Rightarrow> u8 \<Rightarrow> (u8 list \<times> u32) option" where
  "out_char buf pos c = (if unat pos < length buf then Some (buf[unat pos := c], pos + 1) else None)"

fun out_str :: "u8 list \<Rightarrow> u32 \<Rightarrow> u8 list \<Rightarrow> (u8 list \<times> u32) option" where
  "out_str buf pos [] = Some (buf, pos)"
| "out_str buf pos (c # cs) = Option.bind (out_char buf pos c) (\<lambda>(buf, pos). out_str buf pos cs)"

section \<open>The exponent\<close>

text \<open>The digits from the right, \<^verbatim>\<open>do { ... } while (exponent != 0)\<close>. The pointer \<^verbatim>\<open>buf\<close> of the C
  function is the index \<open>start\<close> of the buffer here, and \<open>i\<close> is an index of the buffer too.\<close>

partial_function (option) exponent_digits :: "u8 list \<Rightarrow> u32 \<Rightarrow> u32 \<Rightarrow> (u8 list \<times> u32) option" where
  "exponent_digits buf i exponent =
    (let digit = exponent mod 10
     in Option.bind (put_back buf i (ucast digit + ch CHR ''0'')) (\<lambda>(buf, i).
        let exponent = word_of_int (sint exponent sdiv 10)
        in if exponent \<noteq> 0 then exponent_digits buf i exponent else Some (buf, i)))"

declare exponent_digits.simps [code]

text \<open>Returns the number of characters.\<close>

definition exponent_to_string :: "u8 list \<Rightarrow> u32 \<Rightarrow> u32 \<Rightarrow> (u8 list \<times> u32) option" where
  "exponent_to_string buf start exponent =
    (let negative = exponent <s 0;
         exponent = (if negative then - exponent else exponent)
     in Option.bind (out_char buf start (if negative then ch CHR ''-'' else ch CHR ''+'')) (\<lambda>(buf, _).
        let pos = 1 + (if 1000 \<le>s exponent then 4 else if 100 \<le>s exponent then 3
                       else if 10 \<le>s exponent then 2 else 1)
        in Option.bind (exponent_digits buf (start + pos) exponent) (\<lambda>(buf, _). Some (buf, pos))))"

section \<open>The fields of a double\<close>

definition double_exponent :: "u64 \<Rightarrow> u32" where "double_exponent i = ucast (drop_bit 52 i AND 0x7ff)"
definition double_fraction :: "u64 \<Rightarrow> u64" where "double_fraction i = i AND (push_bit 52 1 - 1)"
definition double_neg :: "u64 \<Rightarrow> bool" where "double_neg i \<longleftrightarrow> i AND push_bit 63 1 \<noteq> 0"

text \<open>The texts of the values that are not normal numbers.\<close>

definition special_text :: "bool \<Rightarrow> u32 \<Rightarrow> u64 \<Rightarrow> u8 list \<Rightarrow> u8 list" where
  "special_text caps exponent fraction zero =
    (if exponent = 0x7ff then
       (if fraction = 0 then (if caps then map ch ''INF'' else map ch ''inf'')
        else (if caps then map ch ''NAN'' else map ch ''nan''))
     else if fraction = 0 then zero
     else (if caps then map ch ''DEN'' else map ch ''den''))"

section \<open>Hexadecimal\<close>

text \<open>\<^verbatim>\<open>while (zero_count > 0) { OUT('0'); zero_count--; }\<close>\<close>

primrec out_zeros :: "u8 list \<Rightarrow> u32 \<Rightarrow> nat \<Rightarrow> (u8 list \<times> u32) option" where
  "out_zeros buf pos 0 = Some (buf, pos)"
| "out_zeros buf pos (Suc zero_count) =
    Option.bind (out_char buf pos (ch CHR ''0'')) (\<lambda>(buf, pos). out_zeros buf pos zero_count)"

text \<open>The loop over the 13 digits of the fraction: \<open>n\<close> of them are left, so \<^verbatim>\<open>i\<close> is \<open>4 * (n - 1)\<close>.\<close>

primrec hex_fraction :: "u8 list \<Rightarrow> u64 \<Rightarrow> nat \<Rightarrow> nat \<Rightarrow> bool \<Rightarrow> u8 list \<Rightarrow> u32 \<Rightarrow> (u8 list \<times> u32) option" where
  "hex_fraction table fraction 0 zero_count output_dot buf pos = Some (buf, pos)"
| "hex_fraction table fraction (Suc n) zero_count output_dot buf pos =
    (let digit = drop_bit (4 * n) fraction AND 0xf
     in if digit = 0 then hex_fraction table fraction n (zero_count + 1) output_dot buf pos
        else Option.bind (if \<not> output_dot then out_char buf pos (ch CHR ''.'') else Some (buf, pos)) (\<lambda>(buf, pos).
             Option.bind (out_zeros buf pos zero_count) (\<lambda>(buf, pos).
             Option.bind (out_char buf pos (table ! unat digit)) (\<lambda>(buf, pos).
             hex_fraction table fraction n 0 True buf pos))))"

definition hex_normal :: "u8 list \<Rightarrow> u32 \<Rightarrow> u32 \<Rightarrow> u64 \<Rightarrow> bool \<Rightarrow> (u8 list \<times> u32) option" where
  "hex_normal buf pos exponent fraction caps =
    (let exponent_signed = exponent - 1023;
         table = (if caps then hextable_caps else hextable)
     in Option.bind (out_str buf pos (if caps then map ch ''0X1'' else map ch ''0x1'')) (\<lambda>(buf, pos).
        Option.bind (hex_fraction table fraction 13 0 False buf pos) (\<lambda>(buf, pos).
        Option.bind (out_char buf pos (if caps then ch CHR ''P'' else ch CHR ''p'')) (\<lambda>(buf, pos).
        Option.bind (exponent_to_string buf pos exponent_signed) (\<lambda>(buf, n). Some (buf, pos + n))))))"

definition double_to_hexstring :: "u8 list \<Rightarrow> u32 \<Rightarrow> u64 \<Rightarrow> u32 \<Rightarrow> (u8 list \<times> u32) option" where
  "double_to_hexstring buf len d flag =
    (let exponent = double_exponent d; fraction = double_fraction d; caps = has_flag flag CAPSFLAG
     in Option.bind (if double_neg d then out_char buf 0 (ch CHR ''-'') else Some (buf, 0)) (\<lambda>(buf, pos).
        Option.bind (if exponent = 0x7ff \<or> exponent = 0 then
            out_str buf pos (special_text caps exponent fraction (if caps then map ch ''0X0P+0'' else map ch ''0x0p+0''))
          else hex_normal buf pos exponent fraction caps) (\<lambda>(buf, pos).
        Option.bind (out_char buf pos 0) (\<lambda>(buf, _). Some (buf, 0)))))"

section \<open>Arithmetic on doubles\<close>

text \<open>Rounding of a magnitude, a multiple of some power of two, to \<open>p\<close> significant bits.\<close>

definition fp_round :: "nat \<Rightarrow> nat \<Rightarrow> nat" where
  "fp_round p n =
    (if n < 2 ^ p then n
     else let s = floorlog 2 n - p; q = n div 2 ^ s; r = n mod 2 ^ s
          in (if 2 ^ s < 2 * r \<or> (2 * r = 2 ^ s \<and> odd q) then q + 1 else q) * 2 ^ s)"

text \<open>\<^verbatim>\<open>(uint32_t)(((d - u) * 1000000) + .5)\<close> for the double \<open>m / 2 ^ k\<close> (not negative) and an integer
  \<open>u\<close> below it: the products and sums are over \<open>2 ^ k\<close>, and over \<open>2 ^ (k + 1)\<close> from the half on.\<close>

definition double_micros :: "nat \<Rightarrow> nat \<Rightarrow> nat \<Rightarrow> nat \<Rightarrow> u32" where
  "double_micros p m k u =
    (let diff = fp_round p (m - u * 2 ^ k);
         prod = fp_round p (diff * 1000000);
         total = fp_round p (2 * prod + 2 ^ k)
     in of_nat (total div 2 ^ (k + 1)))"

section \<open>Decimal\<close>

text \<open>The macro \<^verbatim>\<open>OUTREV\<close>: \<open>Inl\<close> is the jump to the label \<^verbatim>\<open>done\<close>.\<close>

definition outrev :: "u8 list \<Rightarrow> u32 \<Rightarrow> u8 \<Rightarrow> ((u8 list \<times> u32) + (u8 list \<times> u32)) option" where
  "outrev buf pos c = (if pos = 0 then Some (Inl (buf, pos)) else map_option Inr (put_back buf pos c))"

definition then_rev :: "((u8 list \<times> u32) + (u8 list \<times> u32)) option
    \<Rightarrow> (u8 list \<Rightarrow> u32 \<Rightarrow> ((u8 list \<times> u32) + (u8 list \<times> u32)) option)
    \<Rightarrow> ((u8 list \<times> u32) + (u8 list \<times> u32)) option" where
  "then_rev r f = Option.bind r (\<lambda>x. case x of Inl b \<Rightarrow> Some (Inl b) | Inr (buf, pos) \<Rightarrow> f buf pos)"

primrec outrev_zeros :: "nat \<Rightarrow> u8 list \<Rightarrow> u32 \<Rightarrow> ((u8 list \<times> u32) + (u8 list \<times> u32)) option" where
  "outrev_zeros 0 buf pos = Some (Inr (buf, pos))"
| "outrev_zeros (Suc n) buf pos = then_rev (outrev buf pos (ch CHR ''0'')) (outrev_zeros n)"

text \<open>\<^verbatim>\<open>while (frac != 0) { ... }\<close>\<close>

function (sequential) frac_digits :: "u8 list \<Rightarrow> u32 \<Rightarrow> u32 \<Rightarrow> (u8 list \<times> u32) option" where
  "frac_digits buf i fract =
    (if fract \<noteq> 0 then
       (let digit = fract mod 10
        in Option.bind (put_back buf i (ucast digit + ch CHR ''0'')) (\<lambda>(buf, i). frac_digits buf i (fract div 10)))
     else Some (buf, i))"
  by pat_completeness auto
termination
proof (relation "measure (\<lambda>(_, _, fract). unat fract)")
  show "((buf', i', fract div 10), (buf, i, fract)) \<in> measure (\<lambda>(_, _, fract). unat fract)"
    if "fract \<noteq> 0" for fract :: u32 and buf buf' :: "u8 list" and i i' :: u32
    using that by (simp add: unat_div unat_gt_0)
qed auto

text \<open>\<open>m\<close> and \<open>k\<close> are the double's magnitude \<open>m / 2 ^ k\<close>.\<close>

definition fixed_normal :: "nat \<Rightarrow> u8 list \<Rightarrow> u32 \<Rightarrow> u32 \<Rightarrow> u64 \<Rightarrow> bool \<Rightarrow> u32
    \<Rightarrow> ((u8 list \<times> u32) + (u8 list \<times> u32)) option" where
  "fixed_normal p buf len exponent_signed fraction neg flag =
    (let m = fraction OR push_bit 52 1; k = nat (52 - sint exponent_signed) in
     then_rev (outrev buf len 0) (\<lambda>buf pos.
     then_rev (outrev_zeros 7 buf pos) (\<lambda>buf pos.
     let decimal_spot = pos;
         u = (if 0 \<le>s exponent_signed then drop_bit (unat (52 - exponent_signed)) m else 0)
     in then_rev
          (if 0 \<le>s exponent_signed
           then map_option (\<lambda>(buf, pos, _). Inr (buf, pos)) (longlong_to_string buf u (pos + 1) flag)
           else outrev buf pos (ch CHR ''0'')) (\<lambda>buf pos.
        if unat decimal_spot < length buf then
          (let buf = buf[unat decimal_spot := ch CHR ''.'']; fract = double_micros p (unat m) k (unat u)
           in Option.bind (frac_digits buf (decimal_spot + 6 + 1) fract) (\<lambda>(buf, _).
              if neg then outrev buf pos (ch CHR ''-'') else Some (Inr (buf, pos))))
        else None))))"

definition double_to_string :: "nat \<Rightarrow> u8 list \<Rightarrow> u32 \<Rightarrow> u64 \<Rightarrow> u32 \<Rightarrow> (u8 list \<times> u32) option" where
  "double_to_string p buf len d flag =
    (let exponent = double_exponent d; fraction = double_fraction d; neg = double_neg d;
         caps = has_flag flag CAPSFLAG; exponent_signed = exponent - 1023
     in Option.bind (if neg then out_char buf 0 (ch CHR ''-'') else Some (buf, 0)) (\<lambda>(buf, pos).
        if exponent \<noteq> 0x7ff \<and> exponent \<noteq> 0 \<and> \<not> (exponent_signed <s - 52 \<or> 52 <s exponent_signed)
        then map_option (\<lambda>r. case r of Inl b \<Rightarrow> b | Inr b \<Rightarrow> b)
               (fixed_normal p buf len exponent_signed fraction neg flag)
        else Option.bind (out_str buf pos
               (if exponent = 0x7ff \<or> exponent = 0
                then special_text caps exponent fraction (map ch ''0.000000'')
                else map ch ''<range>'')) (\<lambda>(buf, pos).
             Option.bind (out_char buf pos 0) (\<lambda>(buf, _). Some (buf, 0)))))"

section \<open>The directives\<close>

text \<open>The four cases of the engine: \<open>F\<close> and \<open>A\<close> set the flag for capitals and fall through.\<close>

definition conv_double :: "nat \<Rightarrow> 's sink \<Rightarrow> u8 \<Rightarrow> u32 \<Rightarrow> u32 \<Rightarrow> 's pst \<Rightarrow> ('s pst + 's pst) option" where
  "conv_double p out c flags format_num st =
    (case va_longlong (pmem st) (pap st) of (d, ap) \<Rightarrow>
       let flags = (if c = ch CHR ''F'' \<or> c = ch CHR ''A'' then flags OR CAPSFLAG else flags)
       in Option.bind (if c = ch CHR ''F'' \<or> c = ch CHR ''f'' then double_to_string p (pbuf st) 32 d flags
                       else double_to_hexstring (pbuf st) 32 d flags) (\<lambda>(buf, pos).
            Some (output_field out flags format_num 0 (buf_str buf pos) (st\<lparr>pap := ap, pbuf := buf\<rparr>))))"

end
