(* ===== verification/FloatProps.thy ===== *)
theory FloatProps
  imports FloatText Complex_Main
begin

text \<open>
  Properties of the floating-point conversions: what the loops leave in the buffer, the accuracy of
  the one expression on doubles, and the two texts.
\<close>

section \<open>Writing forwards\<close>

text \<open>The first \<open>pos\<close> bytes of the buffer are the text \<open>t\<close>.\<close>

definition written :: "u8 list \<Rightarrow> u8 list \<Rightarrow> u32 \<Rightarrow> bool" where
  "written t buf pos \<longleftrightarrow> length buf = 32 \<and> unat pos = length t \<and> take (length t) buf = t"

definition writes :: "u8 list \<Rightarrow> (u8 list \<times> u32) option \<Rightarrow> bool" where
  "writes t r \<longleftrightarrow> (\<exists>buf pos. r = Some (buf, pos) \<and> written t buf pos)"

lemma writes_Some [simp]: "writes t (Some (buf, pos)) \<longleftrightarrow> written t buf pos"
  by (auto simp: writes_def)

lemma writes_bind:
  "writes t r \<Longrightarrow> (\<And>buf pos. written t buf pos \<Longrightarrow> writes t' (f (buf, pos))) \<Longrightarrow> writes t' (Option.bind r f)"
  by (auto simp: writes_def)

lemma writes_bind2:
  "writes t r \<Longrightarrow> (\<And>buf pos. written t buf pos \<Longrightarrow> writes t' (f buf pos))
    \<Longrightarrow> writes t' (Option.bind r (\<lambda>(buf, pos). f buf pos))"
  by (rule writes_bind) auto

lemma written_start: "length buf = 32 \<Longrightarrow> written [] buf 0"
  by (simp add: written_def)

lemma unat_Suc32: "unat (pos :: u32) < 100 \<Longrightarrow> unat (pos + 1) = unat pos + 1"
  by (simp add: unat_word_ariths)

lemma writes_char:
  assumes "written t buf pos" "length t < 32"
  shows "writes (t @ [c]) (out_char buf pos c)"
  using assms by (auto simp: written_def out_char_def unat_Suc32 take_Suc_conv_app_nth)

lemma writes_str:
  "written t buf pos \<Longrightarrow> length t + length cs \<le> 32 \<Longrightarrow> writes (t @ cs) (out_str buf pos cs)"
proof (induction cs arbitrary: t buf pos)
  case (Cons c cs)
  have "writes (t @ [c]) (out_char buf pos c)" using Cons.prems by (intro writes_char) auto
  then show ?case using Cons.prems(2) Cons.IH [of "t @ [c]"] by (auto intro: writes_bind)
qed simp

lemma writes_zeros:
  "written t buf pos \<Longrightarrow> length t + n \<le> 32 \<Longrightarrow> writes (t @ replicate n (ch CHR ''0'')) (out_zeros buf pos n)"
proof (induction n arbitrary: t buf pos)
  case (Suc n)
  have "writes (t @ [ch CHR ''0'']) (out_char buf pos (ch CHR ''0''))" using Suc.prems by (intro writes_char) auto
  then show ?case using Suc.prems(2) Suc.IH [of "t @ [ch CHR ''0'']"] by (auto intro: writes_bind)
qed simp

text \<open>The string is complete when the terminator follows it.\<close>

definition ends :: "u8 list \<Rightarrow> (u8 list \<times> u32) option \<Rightarrow> bool" where
  "ends t r \<longleftrightarrow> (\<exists>buf. r = Some (buf, 0) \<and> length buf = 32 \<and> buf_str buf 0 = t \<and> 0 \<in> set buf)"

lemma ends_bind:
  "writes t r \<Longrightarrow> (\<And>buf pos. written t buf pos \<Longrightarrow> ends t' (f buf pos))
    \<Longrightarrow> ends t' (Option.bind r (\<lambda>(buf, pos). f buf pos))"
  by (auto simp: writes_def)

lemma ends_char:
  assumes "written t buf pos" "length t < 32" "0 \<notin> set t"
  shows "ends t (Option.bind (out_char buf pos 0) (\<lambda>(buf, _). Some (buf, 0)))"
proof -
  obtain buf' pos' where 2: "out_char buf pos 0 = Some (buf', pos')" "written (t @ [0]) buf' pos'"
    using writes_char [OF assms(1,2), of 0] by (auto simp: writes_def)
  have "drop (unat (0 :: u32)) buf' = t @ 0 # drop (Suc (length t)) buf'"
    using 2(2) append_take_drop_id [of "Suc (length t)" buf'] by (simp add: written_def)
  then have "buf_str buf' 0 = t" "0 \<in> set buf'" using buf_str_eq [OF _ assms(3)] by (auto, metis in_set_conv_decomp)
  then show ?thesis using 2 by (auto simp: written_def ends_def)
qed

section \<open>Writing backwards\<close>

lemma put_back_eq:
  assumes "0 < unat pos" "unat pos \<le> length buf"
  shows "put_back buf pos c = Some (take (unat pos - 1) buf @ c # drop (unat pos) buf, pos - 1)"
    and "unat (pos - 1) = unat pos - 1"
proof -
  show p: "unat (pos - 1) = unat pos - 1" using assms(1) by (intro unat_minus_one) auto
  show "put_back buf pos c = Some (take (unat pos - 1) buf @ c # drop (unat pos) buf, pos - 1)"
    using assms by (simp add: put_back_def Let_def p upd_conv_take_nth_drop)
qed

text \<open>The buffer with the text \<open>t\<close> right in front of the index \<open>i\<close>.\<close>

definition with_text :: "u8 list \<Rightarrow> u8 list \<Rightarrow> nat \<Rightarrow> u8 list" where
  "with_text t buf i = take (i - length t) buf @ t @ drop i buf"

lemma put_back_text:
  assumes "0 < unat i" "unat i \<le> length buf" "length t < unat i"
  shows "put_back buf i c = Some (with_text [c] buf (unat i), i - 1)"
    "with_text t (with_text [c] buf (unat i)) (unat (i - 1)) = with_text (t @ [c]) buf (unat i)"
  using put_back_eq [OF assms(1,2)] assms by (auto simp: with_text_def min_def)

lemma with_text_Nil [simp]: "with_text [] buf i = buf"
  by (simp add: with_text_def)

lemma length_with_text: "length t \<le> i \<Longrightarrow> i \<le> length buf \<Longrightarrow> length (with_text t buf i) = length buf"
  by (simp add: with_text_def)

lemma dec_digit32:
  "ucast (n mod 10 :: u32) + ch CHR ''0'' = dec_char (unat n mod 10)"
  "ucast (n mod 10 :: u32) + 48 = dec_char (unat n mod 10)"
proof -
  have "unat n mod 10 = unat (n mod 10)" by (simp add: unat_mod)
  then show "ucast (n mod 10 :: u32) + 48 = dec_char (unat n mod 10)" by (simp add: dec_char_def)
  then show "ucast (n mod 10 :: u32) + ch CHR ''0'' = dec_char (unat n mod 10)" by simp
qed

declare frac_digits.simps [simp del]

lemma frac_digits_text:
  assumes "n \<noteq> 0" "length (dec_text (unat n)) \<le> unat i" "unat i \<le> length buf"
  shows "\<exists>i'. frac_digits buf i n = Some (with_text (dec_text (unat n)) buf (unat i), i')"
  using assms
proof (induction buf i n rule: frac_digits.induct)
  case (1 buf i n)
  let ?c = "dec_char (unat n mod 10)"
  have i: "0 < unat i" using 1(3) by (cases "unat i") (auto simp: dec_text_def)
  have un: "unat (n div 10) = unat n div 10" by (simp add: unat_div)
  show ?case
  proof (cases "n div 10 = 0")
    case True
    then have "unat n div 10 = 0" using un by simp
    then have "dec_text (unat n) = [?c]" by (simp add: dec_text_def digits_small div_eq_0_iff)
    then show ?thesis using 1(2,4) i put_back_text(1) [OF i 1(4), of "[]"]
      by (subst frac_digits.simps) (simp add: dec_digit32 True frac_digits.simps)
  next
    case False
    then have "unat n div 10 \<noteq> 0" using un by (metis unat_eq_zero)
    then have dg: "dec_text (unat n) = dec_text (unat n div 10) @ [?c]"
      by (simp add: dec_text_def digits_large div_eq_0_iff)
    let ?t = "dec_text (unat n div 10)"
    have l: "length ?t < unat i" using 1(3) dg by simp
    note pb = put_back_text [OF i 1(4) l, of ?c]
    have "\<exists>i'. frac_digits (with_text [?c] buf (unat i)) (i - 1) (n div 10)
        = Some (with_text (dec_text (unat (n div 10))) (with_text [?c] buf (unat i)) (unat (i - 1)), i')"
      using 1(1) [OF 1(2) refl pb(1) [folded dec_digit32(1)] refl False] l put_back_eq(2) [OF i 1(4)] 1(4) i
      by (simp add: un length_with_text dec_digit32)
    then show ?thesis using 1(2) pb un dg
      by (subst frac_digits.simps) (auto simp: dec_digit32)
  qed
qed

text \<open>On a value that is not negative the signed loop is the unsigned one, but for the digit of 0.\<close>

lemma sint_nonneg32:
  assumes "unat (n :: u32) < 2 ^ 31"
  shows "sint n = int (unat n)"
proof -
  have "int (unat n) < int (2 ^ 31)" using assms by (simp only: of_nat_less_iff)
  then have u: "uint n < 2 ^ 31" "0 \<le> uint n" by simp_all
  have "sint n = signed_take_bit 31 (uint n)" by (subst sint_uint) simp
  also have "\<dots> = uint n" by (rule signed_take_bit_int_eq_self) (use u order_trans [OF _ u(2)] in simp_all)
  finally show ?thesis by simp
qed

lemma sdiv_int: "0 \<le> (a :: int) \<Longrightarrow> a sdiv 10 = a div 10"
  by (cases "a = 0") (simp_all add: signed_divide_int_def)

lemma sdiv_nonneg32:
  assumes "unat (n :: u32) < 2 ^ 31"
  shows "word_of_int (sint n sdiv 10) = n div 10"
  using sint_nonneg32 [OF assms] by (simp add: sdiv_int word_div_def)

lemma exponent_digits_unsigned:
  assumes "n \<noteq> 0" "unat n < 2 ^ 31"
  shows "exponent_digits buf i n = frac_digits buf i n"
  using assms
proof (induction buf i n rule: frac_digits.induct)
  case (1 buf i n)
  have sd: "word_of_int (sint n sdiv 10) = n div 10" by (rule sdiv_nonneg32 [OF 1(3)])
  have "unat (n div 10) < 2 ^ 31" using 1(3) by (simp add: unat_div)
  then have "(if n div 10 \<noteq> 0 then exponent_digits b j (n div 10) else Some (b, j)) = frac_digits b j (n div 10)"
    if "put_back buf i (ucast (n mod 10) + ch CHR ''0'') = Some (b, j)" for b j
    using 1(1) [OF 1(2) refl that refl] by (simp add: frac_digits.simps)
  then show ?case using 1(2)
    by (subst exponent_digits.simps, subst frac_digits.simps)
      (auto simp: sd Let_def split: bind_split)
qed

lemma exponent_digits_text:
  assumes "unat n < 2 ^ 31" "length (dec_text (unat n)) \<le> unat i" "unat i \<le> length buf"
  shows "\<exists>i'. exponent_digits buf i n = Some (with_text (dec_text (unat n)) buf (unat i), i')"
proof (cases "n = 0")
  case True
  have i: "0 < unat i" using assms(2) by (cases "unat i") (auto simp: dec_text_def)
  have "dec_text 0 = [48]" by (simp add: dec_text_def digits_small dec_char_def)
  then show ?thesis using True put_back_text(1) [OF i assms(3), of "[]"] i
    by (subst exponent_digits.simps) (simp add: signed_divide_int_def)
qed (use assms frac_digits_text exponent_digits_unsigned in simp)

definition exponent_text :: "int \<Rightarrow> u8 list" where
  "exponent_text e = (if e < 0 then ch CHR ''-'' else ch CHR ''+'') # dec_text (nat \<bar>e\<bar>)"

lemma length_dec_text:
  assumes "n < 10000"
  shows "length (dec_text n) = (if 1000 \<le> n then 4 else if 100 \<le> n then 3 else if 10 \<le> n then 2 else 1)"
proof -
  have *: "length (digits 10 n) = (if n < 10 then 1 else Suc (length (digits 10 (n div 10))))" for n
    by (subst digits.simps) simp
  show ?thesis using assms unfolding dec_text_def length_map
    by (subst * , subst *, subst *, subst *) (auto simp: div_mult2_eq [symmetric])
qed

lemma writes_exponent:
  assumes "written t buf pos" "length t + 5 \<le> 32" "\<bar>sint e\<bar> < 10000"
  shows "\<exists>buf' n. exponent_to_string buf pos e = Some (buf', n) \<and> written (t @ exponent_text (sint e)) buf' (pos + n)"
proof -
  define n where "n = (if e <s 0 then - e else e)"
  have neg: "e <s 0 \<longleftrightarrow> sint e < 0" by (simp add: word_sless_alt)
  have sn: "sint n = \<bar>sint e\<bar>"
    using assms(3) by (auto simp: n_def neg sint_word_ariths signed_take_bit_int_eq_self)
  have "uint n = take_bit 32 (sint n)" by (simp add: uint_sint)
  then have "uint n = \<bar>sint e\<bar>" using assms(3) sn by (simp add: take_bit_int_eq_self)
  then have un: "unat n = nat \<bar>sint e\<bar>" by (simp add: unat_eq_nat_uint)
  let ?t = "dec_text (nat \<bar>sint e\<bar>)" and ?c = "if sint e < 0 then ch CHR ''-'' else ch CHR ''+''"
  define q :: u32 where "q = 1 + (if 1000 \<le>s n then 4 else if 100 \<le>s n then 3 else if 10 \<le>s n then 2 else 1)"
  have lt: "unat q = 1 + length ?t" "length ?t \<le> 4"
    using length_dec_text [of "nat \<bar>sint e\<bar>"] assms(3) by (auto simp: q_def word_sle_eq sn)
  obtain buf1 where 1: "out_char buf pos ?c = Some (buf1, pos + 1)" "written (t @ [?c]) buf1 (pos + 1)"
    using writes_char [OF assms(1), of ?c] assms(2) by (auto simp: writes_def out_char_def split: if_splits)
  have i: "unat (pos + q) = Suc (length t) + length ?t"
    using assms(1,2) lt by (simp add: written_def unat_word_ariths)
  have "nat \<bar>sint e\<bar> < 2147483648" using assms(3) by linarith
  then have "\<exists>i'. exponent_digits buf1 (pos + q) n = Some (with_text ?t buf1 (unat (pos + q)), i')"
    using exponent_digits_text [of n "pos + q" buf1] un i lt assms(2,3) 1(2) by (simp add: written_def)
  moreover have "written (t @ exponent_text (sint e)) (with_text ?t buf1 (unat (pos + q))) (pos + q)"
    using 1(2) i lt assms(2) by (simp add: written_def with_text_def exponent_text_def min_def)
  moreover have "exponent_to_string buf pos e = Option.bind (out_char buf pos ?c) (\<lambda>(buf, _).
      Option.bind (exponent_digits buf (pos + q) n) (\<lambda>(buf, _). Some (buf, q)))"
    by (simp only: exponent_to_string_def Let_def n_def q_def neg)
  ultimately show ?thesis using 1(1) by (elim exE) simp
qed

section \<open>Hexadecimal\<close>

text \<open>The text of a fraction: its digits without the zeros at the end.\<close>

fun trim_zeros :: "nat list \<Rightarrow> nat list" where
  "trim_zeros [] = []"
| "trim_zeros (d # ds) = (if d = 0 \<and> trim_zeros ds = [] then [] else d # trim_zeros ds)"

primrec fraction_digits :: "u64 \<Rightarrow> nat \<Rightarrow> nat list" where
  "fraction_digits f 0 = []"
| "fraction_digits f (Suc n) = unat (drop_bit (4 * n) f AND 0xf) # fraction_digits f n"

definition fraction_text :: "bool \<Rightarrow> nat list \<Rightarrow> u8 list" where
  "fraction_text caps ds = (if ds = [] then [] else ch CHR ''.'' # map (hex_char caps) ds)"

lemma length_trim_zeros: "length (trim_zeros ds) \<le> length ds"
  by (induction ds) auto

lemma trim_zeros_pad: "trim_zeros ds @ replicate (length ds - length (trim_zeros ds)) 0 = ds"
proof (induction ds)
  case (Cons d ds)
  then show ?case using length_trim_zeros [of ds] by (cases "trim_zeros ds") (auto simp: Suc_diff_le)
qed simp

lemma trim_zeros_last: "trim_zeros ds \<noteq> [] \<Longrightarrow> last (trim_zeros ds) \<noteq> 0"
  by (induction ds) auto

lemma set_trim_zeros: "set (trim_zeros ds) \<subseteq> set ds"
  by (induction ds) auto

lemma fraction_digit: "unat (drop_bit k (f :: u64) AND 0xf) = unat f div 2 ^ k mod 16"
proof -
  have "drop_bit k f AND 0xf = take_bit 4 (drop_bit k f)" by (simp add: take_bit_eq_mask mask_eq_exp_minus_1)
  moreover have "unat (take_bit 4 (drop_bit k f)) = take_bit 4 (drop_bit k (unat f))"
    by (simp only: unsigned_take_bit_eq unsigned_drop_bit_eq) (simp add: take_bit_nat_eq_self [OF unat_lt64])
  ultimately show ?thesis by (simp add: take_bit_eq_mod drop_bit_eq_div)
qed

lemma fraction_digits_range: "length (fraction_digits f n) = n" "x \<in> set (fraction_digits f n) \<Longrightarrow> x < 16"
proof -
  show "length (fraction_digits f n) = n" by (induction n) auto
  show "x \<in> set (fraction_digits f n) \<Longrightarrow> x < 16" by (induction n) (auto simp: fraction_digit)
qed

lemma fraction_digits_value: "digits_value 16 (fraction_digits f n) = unat f mod 2 ^ (4 * n)"
proof -
  have "foldl (\<lambda>v d. v * 16 + d) a (fraction_digits f n) = a * 2 ^ (4 * n) + unat f mod 2 ^ (4 * n)" for a
  proof (induction n arbitrary: a)
    case (Suc n)
    have "unat f mod (2 ^ (4 * n) * 16) = 2 ^ (4 * n) * (unat f div 2 ^ (4 * n) mod 16) + unat f mod 2 ^ (4 * n)"
      by (rule mod_mult2_eq)
    moreover have "foldl (\<lambda>v d. v * 16 + d) a (fraction_digits f (Suc n))
        = (a * 16 + unat f div 2 ^ (4 * n) mod 16) * 2 ^ (4 * n) + unat f mod 2 ^ (4 * n)"
      using Suc.IH [of "a * 16 + unat f div 2 ^ (4 * n) mod 16"] by (simp add: fraction_digit)
    ultimately show ?case by (simp add: power_add algebra_simps)
  qed simp
  then show ?thesis by (simp add: digits_value_def)
qed

definition pending_text :: "bool \<Rightarrow> nat \<Rightarrow> bool \<Rightarrow> nat list \<Rightarrow> u8 list" where
  "pending_text caps zero_count output_dot ds =
    (if ds = [] then [] else (if output_dot then [] else [ch CHR ''.'']) @ replicate zero_count (ch CHR ''0'')
       @ map (hex_char caps) ds)"

lemma pending_start: "pending_text caps 0 False ds = fraction_text caps ds"
  by (simp add: pending_text_def fraction_text_def)

lemma writes_hex_fraction:
  assumes "written t buf pos" "length t + (if output_dot then 0 else 1) + zero_count + n \<le> 32" "table = (if caps then hextable_caps else hextable)"
  shows "writes (t @ pending_text caps zero_count output_dot (trim_zeros (fraction_digits f n)))
    (hex_fraction table f n zero_count output_dot buf pos)"
  using assms(1,2)
proof (induction n arbitrary: t zero_count output_dot buf pos)
  case (Suc n)
  let ?d = "unat (drop_bit (4 * n) f AND 0xf)" and ?ds = "trim_zeros (fraction_digits f n)"
  show ?case
  proof (cases "?d = 0")
    case True
    then have "drop_bit (4 * n) f AND 0xf = 0" by (simp add: unat_eq_zero)
    moreover have "hex_char caps 0 = ch CHR ''0''" by (simp add: hex_char_def hextable_def hextable_caps_def)
    ultimately show ?thesis using Suc.IH [of t buf pos output_dot "zero_count + 1"] Suc.prems True
      by (auto simp: pending_text_def replicate_app_Cons_same)
  next
    case False
    let ?t1 = "t @ (if output_dot then [] else [ch CHR ''.''])"
    let ?t2 = "?t1 @ replicate zero_count (ch CHR ''0'')"
    let ?t3 = "?t2 @ [table ! ?d]"
    have 1: "writes ?t1 (if \<not> output_dot then out_char buf pos (ch CHR ''.'') else Some (buf, pos))"
      using Suc.prems writes_char [of t buf pos] by auto
    have 2: "writes ?t2 (out_zeros b q zero_count)" if "written ?t1 b q" for b q
      using that Suc.prems(2) by (intro writes_zeros) auto
    have 3: "writes ?t3 (out_char b q (table ! ?d))" if "written ?t2 b q" for b q
      using that Suc.prems(2) by (intro writes_char) auto
    have 4: "writes (?t3 @ pending_text caps 0 True ?ds) (hex_fraction table f n 0 True b q)" if "written ?t3 b q" for b q
      using that Suc.prems(2) by (intro Suc.IH) auto
    have "?t3 @ pending_text caps 0 True ?ds = t @ pending_text caps zero_count output_dot (trim_zeros (fraction_digits f (Suc n)))"
      using False assms(3) by (auto simp: pending_text_def hex_char_def)
    moreover have "drop_bit (4 * n) f AND 0xf \<noteq> 0" using False by auto
    ultimately show ?thesis using 1 2 3 4
      by (auto simp: Let_def intro!: writes_bind)
  qed
qed (simp add: pending_text_def)

text \<open>The text of a double as \<^verbatim>\<open>%a\<close> prints it.\<close>

definition double_exp :: "u64 \<Rightarrow> int" where "double_exp d = int (unat (double_exponent d)) - 1023"

definition normal :: "u64 \<Rightarrow> bool" where "normal d \<longleftrightarrow> double_exponent d \<noteq> 0x7ff \<and> double_exponent d \<noteq> 0"

definition sign_text :: "u64 \<Rightarrow> u8 list" where "sign_text d = (if double_neg d then [ch CHR ''-''] else [])"

definition hex_double_text :: "bool \<Rightarrow> u64 \<Rightarrow> u8 list" where
  "hex_double_text caps d = sign_text d @
    (if normal d
     then (if caps then map ch ''0X1'' else map ch ''0x1'') @ fraction_text caps (trim_zeros (fraction_digits (double_fraction d) 13))
       @ [if caps then ch CHR ''P'' else ch CHR ''p''] @ exponent_text (double_exp d)
     else special_text caps (double_exponent d) (double_fraction d) (if caps then map ch ''0X0P+0'' else map ch ''0x0p+0''))"

lemma double_fields:
  "unat (double_exponent d) < 2048" "unat (double_fraction d) < 2 ^ 52"
proof -
  have "drop_bit 52 d AND 0x7ff = take_bit 11 (drop_bit 52 d)" by (simp add: take_bit_eq_mask mask_eq_exp_minus_1)
  then have "unat (double_exponent d) = take_bit 32 (take_bit 11 (unat (drop_bit 52 d)))"
    by (simp add: double_exponent_def unsigned_ucast_eq unsigned_take_bit_eq)
  then show "unat (double_exponent d) < 2048"
    using take_bit_nat_less_exp [of 11 "unat (drop_bit 52 d)"] by simp
  have "double_fraction d = take_bit 52 d"
    by (simp add: double_fraction_def take_bit_eq_mask mask_eq_exp_minus_1)
  then show "unat (double_fraction d) < 2 ^ 52"
    using take_bit_nat_less_exp [of 52 "unat d"] by (simp add: unsigned_take_bit_eq)
qed

lemma double_exp_range: "- 1023 \<le> double_exp d" "double_exp d \<le> 1024"
proof -
  have "int (unat (double_exponent d)) < int 2048" using double_fields(1) by (simp only: of_nat_less_iff)
  then show "- 1023 \<le> double_exp d" "double_exp d \<le> 1024" by (simp_all add: double_exp_def)
qed

lemma exponent_signed: "sint (double_exponent d - 1023) = double_exp d"
proof -
  have s: "sint (double_exponent d) = double_exp d + 1023"
    using double_fields(1) [of d] by (subst sint_nonneg32) (simp_all add: double_exp_def)
  show ?thesis using double_exp_range [of d]
    by (simp add: sint_word_ariths s signed_take_bit_int_eq_self)
qed

lemma special_text_length: "length zero \<le> 8 \<Longrightarrow> 8 \<le> k \<Longrightarrow> length (special_text caps e f zero) \<le> k"
  by (simp add: special_text_def)

lemma special_text_nz: "0 \<notin> set zero \<Longrightarrow> 0 \<notin> set (special_text caps e f zero)"
  by (simp add: special_text_def)

lemma exponent_text_props:
  "\<bar>e\<bar> < 10000 \<Longrightarrow> length (exponent_text e) \<le> 5" "0 \<notin> set (exponent_text e)"
proof -
  show "\<bar>e\<bar> < 10000 \<Longrightarrow> length (exponent_text e) \<le> 5"
    using length_dec_text [of "nat \<bar>e\<bar>"] by (simp add: exponent_text_def split: if_splits)
qed (use dec_text_nz in \<open>auto simp: exponent_text_def\<close>)

lemma fraction_text_props:
  fixes f :: u64
  defines "ds \<equiv> trim_zeros (fraction_digits f 13)"
  shows "length (fraction_text caps ds) \<le> 14" "0 \<notin> set (fraction_text caps ds)"
proof -
  have "length ds \<le> 13" using length_trim_zeros [of "fraction_digits f 13"] by (simp add: ds_def fraction_digits_range)
  then show "length (fraction_text caps ds) \<le> 14" by (simp add: fraction_text_def)
  have "\<forall>x\<in>set ds. x < 16" using set_trim_zeros fraction_digits_range(2) unfolding ds_def by blast
  then have "\<forall>x\<in>set ds. 0 \<noteq> hex_char caps x" by (metis hex_char_nz)
  then show "0 \<notin> set (fraction_text caps ds)" by (auto simp: fraction_text_def)
qed

lemma writes_hex_normal:
  assumes "written t buf pos" "length t \<le> 1"
  shows "writes (t @ (if caps then map ch ''0X1'' else map ch ''0x1'')
      @ fraction_text caps (trim_zeros (fraction_digits f 13))
      @ [if caps then ch CHR ''P'' else ch CHR ''p''] @ exponent_text (double_exp d))
    (hex_normal buf pos (double_exponent d) f caps)"
proof -
  define x where "x = (if caps then map ch ''0X1'' else map ch ''0x1'')"
  have lx: "length x = 3" by (simp add: x_def)
  let ?p = "if caps then ch CHR ''P'' else ch CHR ''p''"
  let ?f = "fraction_text caps (trim_zeros (fraction_digits f 13))" and ?e = "exponent_text (double_exp d)"
  have lf: "length ?f \<le> 14" by (rule fraction_text_props)
  have ex: "\<bar>double_exp d\<bar> < 10000" using double_exp_range [of d] by linarith
  have 1: "writes (t @ x) (out_str buf pos x)" using assms lx by (intro writes_str) auto
  have 2: "writes ((t @ x) @ ?f) (hex_fraction (if caps then hextable_caps else hextable) f 13 0 False b q)"
    if "written (t @ x) b q" for b q
  proof -
    have "length (t @ x) + (if False then 0 else 1) + 0 + 13 \<le> 32" using assms(2) lx by simp
    from writes_hex_fraction [OF that this refl, of caps f] show ?thesis
      by (simp only: pending_start append_assoc)
  qed
  have 3: "writes (((t @ x) @ ?f) @ [?p]) (out_char b q ?p)" if "written ((t @ x) @ ?f) b q" for b q
    using that lf lx assms(2) by (intro writes_char) auto
  have 4: "writes ((((t @ x) @ ?f) @ [?p]) @ ?e)
      (Option.bind (exponent_to_string b q (double_exponent d - 1023)) (\<lambda>(buf, n). Some (buf, q + n)))"
    if "written (((t @ x) @ ?f) @ [?p]) b q" for b q
    using writes_exponent [OF that, of "double_exponent d - 1023"] lf lx assms(2) ex
    by (auto simp: exponent_signed writes_def)
  have "writes ((((t @ x) @ ?f) @ [?p]) @ ?e) (hex_normal buf pos (double_exponent d) f caps)"
    unfolding hex_normal_def Let_def x_def [symmetric]
    by (rule writes_bind2 [OF 1], rule writes_bind2 [OF 2], assumption, rule writes_bind2 [OF 3], assumption, rule 4)
  then show ?thesis by (simp add: x_def)
qed

lemma writes_sign:
  "length buf = 32 \<Longrightarrow> writes (sign_text d) (if double_neg d then out_char buf 0 (ch CHR ''-'') else Some (buf, 0))"
  using writes_char [OF written_start] by (auto simp: sign_text_def written_start)

lemma normal_iff: "(double_exponent d = 0x7ff \<or> double_exponent d = 0) = (\<not> normal d)"
  by (auto simp: normal_def)

lemma hex_double_text_props: "length (hex_double_text caps d) \<le> 24" "0 \<notin> set (hex_double_text caps d)"
proof -
  have "\<bar>double_exp d\<bar> < 10000" using double_exp_range [of d] by linarith
  note p = exponent_text_props(1) [OF this] exponent_text_props(2) [of "double_exp d"]
    fraction_text_props [of caps "double_fraction d"]
  show "length (hex_double_text caps d) \<le> 24"
    using p by (auto simp: hex_double_text_def sign_text_def intro!: special_text_length)
  show "0 \<notin> set (hex_double_text caps d)" using p special_text_nz
    by (auto simp: hex_double_text_def sign_text_def)
qed

lemma double_to_hexstring_ok:
  assumes "length buf = 32"
  shows "ends (hex_double_text (has_flag flag CAPSFLAG) d) (double_to_hexstring buf len d flag)"
proof -
  let ?caps = "has_flag flag CAPSFLAG" and ?e = "double_exponent d" and ?f = "double_fraction d"
  let ?zero = "if ?caps then map ch ''0X0P+0'' else map ch ''0x0p+0''"
  have sl: "length (sign_text d) \<le> 1" by (simp add: sign_text_def)
  have z: "length ?zero \<le> 8" by simp
  have b: "writes (hex_double_text ?caps d) (if ?e = 0x7ff \<or> ?e = 0 then out_str b q (special_text ?caps ?e ?f ?zero)
      else hex_normal b q ?e ?f ?caps)" if w: "written (sign_text d) b q" for b q
  proof (cases "normal d")
    case True
    then show ?thesis using writes_hex_normal [OF w sl, of ?caps ?f d]
      by (simp only: normal_iff hex_double_text_def if_True simp_thms if_False)
  next
    case False
    have "length (sign_text d) + length (special_text ?caps ?e ?f ?zero) \<le> 32"
      using sl special_text_length [OF z order_refl, of ?caps ?e ?f] by linarith
    then show ?thesis using writes_str [OF w, of "special_text ?caps ?e ?f ?zero"] False
      by (simp only: normal_iff hex_double_text_def if_True simp_thms if_False)
  qed
  have l: "length (hex_double_text ?caps d) < 32" using hex_double_text_props(1) [of ?caps d] by linarith
  show ?thesis unfolding double_to_hexstring_def Let_def
    by (rule ends_bind [OF writes_sign [OF assms]], rule ends_bind [OF b], assumption)
      (rule ends_char [OF _ l hex_double_text_props(2)])
qed

text \<open>The number a normal double stands for.\<close>

definition double_value :: "u64 \<Rightarrow> real" where
  "double_value d = (if double_neg d then - 1 else 1) * (1 + real (unat (double_fraction d)) / 2 ^ 52)
    * 2 powr real_of_int (double_exp d)"

lemma digits_value_zeros: "digits_value b (ds @ replicate k 0) = digits_value b ds * b ^ k"
proof -
  have "foldl (\<lambda>v d. v * b + d) a (replicate k 0) = a * b ^ k" for a
    by (induction k arbitrary: a) auto
  then show ?thesis by (simp add: digits_value_def)
qed

lemma fraction_value:
  assumes "unat f < 2 ^ 52"
  defines "ds \<equiv> trim_zeros (fraction_digits f 13)"
  shows "real (unat f) / 2 ^ 52 = real (digits_value 16 ds) / 16 ^ length ds"
proof -
  have l: "length ds \<le> 13" using length_trim_zeros [of "fraction_digits f 13"] by (simp add: ds_def fraction_digits_range)
  have "unat f = digits_value 16 (fraction_digits f 13)" using assms(1) fraction_digits_value [of f 13] by simp
  also have "\<dots> = digits_value 16 ds * 16 ^ (13 - length ds)"
    using trim_zeros_pad [of "fraction_digits f 13"] digits_value_zeros [of 16 ds "13 - length ds"]
    by (simp add: ds_def fraction_digits_range)
  finally have "real (unat f) = real (digits_value 16 ds) * 16 ^ (13 - length ds)" by simp
  moreover have "(16 :: real) ^ 13 = 16 ^ length ds * 16 ^ (13 - length ds)" using l by (simp flip: power_add)
  then have "(2 :: real) ^ 52 = 16 ^ length ds * 16 ^ (13 - length ds)" by simp
  ultimately show ?thesis by (simp only: times_divide_eq_right) (simp add: field_simps)
qed

section \<open>The arithmetic\<close>

lemma fp_round_error:
  assumes "0 < p"
  shows "\<bar>real (fp_round p n) - real n\<bar> * 2 ^ p \<le> real n"
proof (cases "n < 2 ^ p")
  case False
  define s q r where "s = floorlog 2 n - p" and "q = n div 2 ^ s" and "r = n mod 2 ^ s"
  have n0: "0 < n" using False by (cases n) auto
  have n: "n = q * 2 ^ s + r" "r < 2 ^ s" by (simp_all add: q_def r_def div_mult_mod_eq)
  have fl: "2 ^ (floorlog 2 n - 1) \<le> n" "n < 2 ^ floorlog 2 n"
    using floorlog_bounds [of n 2] n0 by simp_all
  have "p < floorlog 2 n"
  proof (rule ccontr)
    assume "\<not> p < floorlog 2 n"
    then have "(2 :: nat) ^ floorlog 2 n \<le> 2 ^ p" by (intro power_increasing) auto
    then show False using fl(2) False by linarith
  qed
  then have "floorlog 2 n - 1 = s + (p - 1)" "s \<noteq> 0" using assms by (simp_all add: s_def)
  then have "2 ^ s * 2 ^ (p - 1) \<le> n" using fl(1) by (simp flip: power_add)
  then have "real (2 ^ s * 2 ^ (p - 1)) \<le> real n" by (simp only: of_nat_le_iff)
  moreover have "(2 :: real) ^ p = 2 * 2 ^ (p - 1)" using assms by (cases p) auto
  ultimately have big: "2 ^ s * 2 ^ p \<le> 2 * real n" by simp
  have "fp_round p n = (if 2 ^ s < 2 * r \<or> (2 * r = 2 ^ s \<and> odd q) then q + 1 else q) * 2 ^ s"
    using False by (simp add: fp_round_def Let_def s_def q_def r_def)
  moreover have "real n = real q * 2 ^ s + real r" by (subst n(1)) simp
  moreover have "real (2 * r) < real (2 * 2 ^ s)" using n(2) by (simp only: of_nat_less_iff)
  moreover have "real (2 ^ s) \<le> real (2 * r)" if "2 ^ s < 2 * r \<or> 2 * r = 2 ^ s"
    using that by (simp only: of_nat_le_iff) auto
  moreover have "real (2 * r) \<le> real (2 ^ s)" if "\<not> 2 ^ s < 2 * r" using that by (simp only: of_nat_le_iff)
  ultimately have "2 * \<bar>real (fp_round p n) - real n\<bar> \<le> 2 ^ s"
    by (auto simp: algebra_simps split: if_splits)
  then have "2 * \<bar>real (fp_round p n) - real n\<bar> * 2 ^ p \<le> 2 ^ s * 2 ^ p" by (intro mult_right_mono) auto
  then show ?thesis using big by linarith
qed (simp add: fp_round_def)

text \<open>The sixth decimal of the fraction \<open>f = m / 2 ^ k - u\<close>: half a unit off, and a little for the two
  roundings.\<close>

lemma double_micros_error:
  assumes "53 \<le> p" "u = m div 2 ^ k" "m mod 2 ^ k < 2 ^ 53"
  shows "\<bar>real (unat (double_micros p m k u)) - 1000000 * (real m / 2 ^ k - real u)\<bar> \<le> 1 / 2 + 1 / 2 ^ 31"
    and "unat (double_micros p m k u) \<le> 1000000"
proof -
  define n where "n = m mod 2 ^ k"
  define a where "a = fp_round p (n * 1000000)"
  define b where "b = fp_round p (2 * a + 2 ^ k)"
  have K: "(0 :: real) < 2 ^ k" by simp
  have nk: "n < 2 ^ k" by (simp add: n_def)
  have d: "m - u * 2 ^ k = n" using div_mult_mod_eq [of m "2 ^ k"] by (simp add: n_def assms(2) minus_div_mult_eq_mod)
  have "(2 :: nat) ^ 53 \<le> 2 ^ p" using assms(1) by (intro power_increasing) auto
  then have "n < 2 ^ p" using assms(3) by (simp add: n_def)
  then have r: "fp_round p n = n" by (simp add: fp_round_def)
  have P: "(2 :: real) ^ 53 \<le> 2 ^ p" using assms(1) by (intro power_increasing) auto
  have e1: "\<bar>real a - real n * 1000000\<bar> * 2 ^ 53 \<le> real n * 1000000"
    using fp_round_error [of p "n * 1000000"] assms(1) mult_left_mono [OF P, of "\<bar>real a - real n * 1000000\<bar>"]
    by (simp add: a_def)
  have e2: "\<bar>real b - (2 * real a + 2 ^ k)\<bar> * 2 ^ 53 \<le> 2 * real a + 2 ^ k"
    using fp_round_error [of p "2 * a + 2 ^ k"] assms(1) mult_left_mono [OF P, of "\<bar>real b - (2 * real a + 2 ^ k)\<bar>"]
    by (simp add: b_def)
  define x A B where "x = real n / 2 ^ k" and "A = real a / 2 ^ k" and "B = real b / (2 * 2 ^ k)"
  have xAB: "real n = x * 2 ^ k" "real a = A * 2 ^ k" "real b = 2 * B * 2 ^ k" by (simp_all add: x_def A_def B_def)
  have x: "0 \<le> x" "x < 1" using nk by (simp_all add: x_def)
  have c: "\<bar>y * 2 ^ k\<bar> * 2 ^ 53 \<le> z * 2 ^ k \<Longrightarrow> \<bar>y\<bar> * 2 ^ 53 \<le> z" for y z :: real
    using mult_le_cancel_right_pos [OF K, of "\<bar>y\<bar> * 2 ^ 53" z] by (simp add: abs_mult mult.assoc mult.commute mult.left_commute)
  have E1: "\<bar>A - x * 1000000\<bar> * 2 ^ 53 \<le> x * 1000000"
  proof (rule c)
    have "real a - real n * 1000000 = (A - x * 1000000) * 2 ^ k" "real n * 1000000 = x * 1000000 * 2 ^ k"
      by (simp_all add: xAB left_diff_distrib)
    then show "\<bar>(A - x * 1000000) * 2 ^ k\<bar> * 2 ^ 53 \<le> x * 1000000 * 2 ^ k" using e1 by (simp only:)
  qed
  have E2: "\<bar>2 * B - (2 * A + 1)\<bar> * 2 ^ 53 \<le> 2 * A + 1"
  proof (rule c)
    have "real b - (2 * real a + 2 ^ k) = (2 * B - (2 * A + 1)) * 2 ^ k" "2 * real a + 2 ^ k = (2 * A + 1) * 2 ^ k"
      by (simp_all only: xAB left_diff_distrib distrib_right mult.assoc mult_1)
    then show "\<bar>(2 * B - (2 * A + 1)) * 2 ^ k\<bar> * 2 ^ 53 \<le> (2 * A + 1) * 2 ^ k" using e2 by (simp only:)
  qed
  have A1: "\<bar>A - x * 1000000\<bar> \<le> 1 / 2 ^ 33" using E1 x by (auto simp: abs_le_iff)
  moreover have "A \<le> 1000001"
  proof -
    have "A - x * 1000000 \<le> 1 / 2 ^ 33" using A1 by (rule abs_le_D1)
    also have "(1 :: real) / 2 ^ 33 \<le> 1" by simp
    finally show ?thesis using x(2) by linarith
  qed
  ultimately have A: "\<bar>A - x * 1000000\<bar> \<le> 1 / 2 ^ 33" "A \<le> 1000001" .
  have B: "\<bar>2 * B - (2 * A + 1)\<bar> \<le> 1 / 2 ^ 32" using E2 A(2) by (auto simp: abs_le_iff)
  define fr where "fr = b div 2 ^ (k + 1)"
  have dm: "fr * 2 ^ (k + 1) + b mod 2 ^ (k + 1) = b" "b mod 2 ^ (k + 1) < 2 ^ (k + 1)"
    by (simp_all only: fr_def div_mult_mod_eq mod_less_divisor zero_less_power zero_less_numeral)
  then have "fr * 2 ^ (k + 1) \<le> b" "b < (fr + 1) * 2 ^ (k + 1)"
    unfolding distrib_right by linarith+
  then have "real (fr * 2 ^ (k + 1)) \<le> real b" "real b < real ((fr + 1) * 2 ^ (k + 1))"
    by (simp_all only: of_nat_le_iff of_nat_less_iff)
  then have "real fr * (2 * 2 ^ k) \<le> B * (2 * 2 ^ k)" "B * (2 * 2 ^ k) < (real fr + 1) * (2 * 2 ^ k)"
    by (simp_all add: xAB(3) distrib_right)
  then have F: "real fr \<le> B" "B < real fr + 1"
    using K by (simp_all only: mult_less_cancel_right_pos mult_le_cancel_right_pos zero_less_mult_iff zero_less_numeral simp_thms)
  have "real fr < 1000001"
    using F(1) abs_le_D1 [OF A(1)] abs_le_D1 [OF B] x(2) by (simp only: power_numeral) (simp add: field_simps)
  then have f: "fr \<le> 1000000" by linarith
  have "double_micros p m k u = of_nat fr"
    by (simp add: double_micros_def Let_def d r a_def b_def fr_def)
  then have u: "unat (double_micros p m k u) = fr" using f by (simp add: unsigned_of_nat take_bit_nat_eq_self)
  then show "unat (double_micros p m k u) \<le> 1000000" using f by simp
  have "m = u * 2 ^ k + n" unfolding n_def assms(2) by (rule div_mult_mod_eq [symmetric])
  then have "real m = real (u * 2 ^ k + n)" by (rule arg_cong)
  then have "real m / 2 ^ k - real u = x" by (simp add: x_def add_divide_distrib)
  then have "1000000 * (real m / 2 ^ k - real u) = x * 1000000" by simp
  moreover have "\<bar>real fr - x * 1000000\<bar> \<le> 1 / 2 + 1 / 2 ^ 31"
    using F abs_le_D1 [OF A(1)] abs_le_D1 [OF B] abs_le_D2 [OF A(1)] abs_le_D2 [OF B]
    by (intro abs_leI; simp only: power_numeral; simp add: field_simps)
  ultimately show "\<bar>real (unat (double_micros p m k u)) - 1000000 * (real m / 2 ^ k - real u)\<bar> \<le> 1 / 2 + 1 / 2 ^ 31"
    by (simp only: u)
qed

section \<open>Decimal\<close>

lemma outrev_ok:
  assumes "0 < unat pos" "unat pos \<le> length buf"
  shows "outrev buf pos c = Some (Inr (with_text [c] buf (unat pos), pos - 1))" "unat (pos - 1) = unat pos - 1"
  using put_back_text(1) [OF assms, of "[]"] put_back_eq(2) [OF assms] assms by (auto simp: outrev_def)

lemma then_rev_Inr [simp]: "then_rev (Some (Inr (buf, pos))) f = f buf pos"
  by (simp add: then_rev_def)

lemma with_text_append:
  "length s + length t \<le> i \<Longrightarrow> i \<le> length buf
    \<Longrightarrow> with_text s (with_text t buf i) (i - length t) = with_text (s @ t) buf i"
  by (simp add: with_text_def min_def add.commute)

lemma outrev_zeros_ok:
  "n \<le> unat pos \<Longrightarrow> unat pos \<le> length buf
    \<Longrightarrow> \<exists>pos'. outrev_zeros n buf pos = Some (Inr (with_text (replicate n (ch CHR ''0'')) buf (unat pos), pos'))
      \<and> unat pos' = unat pos - n"
proof (induction n arbitrary: buf pos)
  case (Suc n)
  let ?z = "ch CHR ''0''"
  have p: "0 < unat pos" using Suc.prems(1) by simp
  note o = outrev_ok(1) [OF p Suc.prems(2), of ?z] outrev_ok(2) [OF p Suc.prems(2)]
  have l: "length (with_text [?z] buf (unat pos)) = length buf"
    using p Suc.prems(2) by (intro length_with_text) auto
  have h: "n \<le> unat (pos - 1)" "unat (pos - 1) \<le> length (with_text [?z] buf (unat pos))"
    using o(2) l Suc.prems by linarith+
  obtain pos' where "outrev_zeros n (with_text [?z] buf (unat pos)) (pos - 1)
      = Some (Inr (with_text (replicate n ?z) (with_text [?z] buf (unat pos)) (unat (pos - 1)), pos'))"
      "unat pos' = unat (pos - 1) - n"
    using Suc.IH [OF h] by blast
  moreover have "with_text (replicate n ?z) (with_text [?z] buf (unat pos)) (unat (pos - 1))
      = with_text (replicate (Suc n) ?z) buf (unat pos)"
    using with_text_append [of "replicate n ?z" "[?z]" "unat pos" buf] o(2) Suc.prems by (simp add: replicate_append_same)
  ultimately show ?case using o by simp
qed (simp add: with_text_def)

lemma longlong_to_string_at:
  assumes "length (dec_text (unat u)) < unat len" "unat len \<le> length buf" "unat (u :: u64) < 2 ^ 63"
  shows "\<exists>buf' pos sc. longlong_to_string buf u len flag = Some (buf', pos, sc) \<and> length buf' = length buf
    \<and> unat pos + length (dec_text (unat u)) + 1 = unat len
    \<and> drop (unat pos) buf' = dec_text (unat u) @ 0 # drop (unat len) buf"
proof -
  have l: "0 < unat len" "length (digits 10 (unat u)) < unat len" using assms(1) by (simp_all add: dec_text_def)
  have "int (unat u) < int (2 ^ 63)" using assms(3) by (simp only: of_nat_less_iff)
  then have "uint u < 2 ^ 63" by simp
  then have "sint u = uint u" by (subst sint_uint) (simp add: signed_take_bit_int_eq_self order_trans [OF _ uint_ge_0])
  then have pos: "\<not> u <s 0" by (simp add: word_sless_alt)
  obtain buf1 where 1: "put_back buf len 0 = Some (buf1, len - 1)" "length buf1 = length buf"
      "drop (unat (len - 1)) buf1 = 0 # drop (unat len) buf" "unat (len - 1) = unat len - 1"
    using put_back_ok [OF l(1) assms(2), of 0] by auto
  have "length (digits 10 (unat u)) \<le> Suc (unat (len - 1))" "unat (len - 1) \<le> length buf1"
    using 1(2,4) l assms(2) by simp_all
  from dec_loop_ok [OF this] obtain buf2 pos2 d ds where
    2: "dec_loop buf1 (len - 1) u = Some (buf2, pos2, d)" "digits 10 (unat u) = unat d # ds" "length buf2 = length buf1"
      "unat pos2 = unat (len - 1) - length ds" "drop (unat pos2) buf2 = map dec_char ds @ drop (unat (len - 1)) buf1"
    by auto
  have lds: "length ds + 1 < unat len" using l 2(2) by simp
  then have p2: "0 < unat pos2" "unat pos2 \<le> length buf2" using 2(3,4) 1(2,4) assms(2) by simp_all
  obtain buf3 where 3: "put_back buf2 pos2 (ucast d + ch CHR ''0'') = Some (buf3, pos2 - 1)" "length buf3 = length buf2"
      "drop (unat (pos2 - 1)) buf3 = (ucast d + ch CHR ''0'') # drop (unat pos2) buf2" "unat (pos2 - 1) = unat pos2 - 1"
    using put_back_ok [OF p2, of "ucast d + ch CHR ''0''"] by auto
  have "ucast d + ch CHR ''0'' = dec_char (unat d)" by (simp add: dec_char_def)
  then have "drop (unat (pos2 - 1)) buf3 = dec_text (unat u) @ 0 # drop (unat len) buf"
    using 3(3) 2(2,5) 1(3) by (simp add: dec_text_def)
  moreover have "unat (pos2 - 1) + length (dec_text (unat u)) + 1 = unat len"
    using 3(4) 2(2,4) 1(4) lds by (simp add: dec_text_def)
  ultimately show ?thesis using 1(1,2) 2(1,3) 3(1,2) pos by (auto simp: longlong_to_string_def Let_def)
qed

text \<open>The text after the integer part: the point and six digits, or, when the fraction was rounded up
  to 1000000, seven digits that have overwritten the point.\<close>

definition micros_text :: "nat \<Rightarrow> u8 list" where
  "micros_text fr =
    (if fr < 1000000 then ch CHR ''.'' # replicate (6 - length (dec_text fr)) (ch CHR ''0'') @ dec_text fr
     else dec_text fr)"

lemma length_dec_text6: "fr < 1000000 \<Longrightarrow> length (dec_text fr) \<le> 6"
  using digits_length [of 10 fr 5] by (simp add: dec_text_def)

lemma length_dec_text7: "fr \<le> 1000000 \<Longrightarrow> length (dec_text fr) \<le> 7"
  using digits_length [of 10 fr 6] by (simp add: dec_text_def)

lemma dec_text_million: "length (dec_text 1000000) = 7" "dec_text 0 = [48]"
  by (simp_all add: dec_text_def digits.simps [of 10 0] digits.simps [of 10 "Suc 0"] digits.simps [of 10 10] digits.simps [of 10 100]
    digits.simps [of 10 1000] digits.simps [of 10 10000] digits.simps [of 10 100000] digits.simps [of 10 1000000] dec_char_def)

lemma micros_text_overwrites:
  assumes "fr \<le> 1000000" "t = (if fr = 0 then [] else dec_text fr)"
  shows "take (7 - length t) (ch CHR ''.'' # replicate 6 (ch CHR ''0'')) @ t = micros_text fr"
proof (cases "fr < 1000000")
  case True
  show ?thesis
  proof (cases "fr = 0")
    case True
    have "replicate 6 x = replicate 5 x @ [x]" for x :: u8 using replicate_add [of 5 1 x] by simp
    then show ?thesis using True assms(2) dec_text_million(2) by (simp add: micros_text_def)
  next
    case False
    have l: "length (dec_text fr) \<le> 6" by (rule length_dec_text6 [OF True])
    then have "7 - length (dec_text fr) = Suc (6 - length (dec_text fr))" by simp
    then show ?thesis using False True assms(2) l by (simp add: micros_text_def)
  qed
next
  case False
  then have "fr = 1000000" using assms(1) by simp
  then show ?thesis using assms(2) dec_text_million(1) by (simp add: micros_text_def)
qed

lemma micros_text_props: "fr \<le> 1000000 \<Longrightarrow> length (micros_text fr) = 7" "0 \<notin> set (micros_text fr)"
proof -
  assume a: "fr \<le> 1000000"
  show "length (micros_text fr) = 7"
  proof (cases "fr < 1000000")
    case True
    then show ?thesis using length_dec_text6 [OF True] by (simp add: micros_text_def)
  next
    case False
    then have "fr = 1000000" using a by simp
    then show ?thesis using dec_text_million by (simp add: micros_text_def)
  qed
qed (use dec_text_nz in \<open>auto simp: micros_text_def\<close>)

lemma overwrite_end:
  assumes "length buf = 32" "drop k buf = A @ Z @ [0]" "k + length A + length Z = 31" "length t \<le> length Z"
  shows "drop k (with_text t buf 31) = A @ take (length Z - length t) Z @ t @ [0]"
proof -
  have b: "buf = take k buf @ A @ Z @ [0]" using assms(2) by (metis append_take_drop_id)
  have k: "length (take k buf) = k" using assms(1,3) by simp
  have e: "31 - length t = length (take k buf) + (length A + (length Z - length t))" using assms(3,4) k by simp
  have "take (31 - length t) buf = take k buf @ A @ take (length Z - length t) Z"
    using assms(1,3) by (subst b, subst e) (auto simp: min_def)
  moreover have "drop 31 buf = [0]" using assms(3) k by (subst b) simp
  ultimately show ?thesis using k by (simp add: with_text_def)
qed

lemma point_set:
  assumes "length buf = 32" "drop k buf = A @ x # Z" "k + length A = 24"
  shows "drop k (buf[24 := c]) = A @ c # Z"
proof -
  have "drop k (buf[24 := c]) = (drop k buf)[24 - k := c]" using assms(3) by (simp add: drop_update_swap)
  moreover have "24 - k = length A" using assms(3) by simp
  ultimately show ?thesis using assms(2) by simp
qed

text \<open>The parts of a double in the range \<^verbatim>\<open>%f\<close> prints: its magnitude is \<open>m / 2 ^ k\<close>.\<close>

definition double_m :: "u64 \<Rightarrow> nat" where "double_m d = 2 ^ 52 + unat (double_fraction d)"
definition double_k :: "u64 \<Rightarrow> nat" where "double_k d = nat (52 - double_exp d)"
definition whole :: "u64 \<Rightarrow> nat" where "whole d = double_m d div 2 ^ double_k d"

definition micros :: "nat \<Rightarrow> u64 \<Rightarrow> nat" where
  "micros p d = unat (double_micros p (double_m d) (double_k d) (whole d))"

lemma mantissa: "unat (double_fraction d OR push_bit 52 1) = double_m d"
proof -
  have f: "double_fraction d = take_bit 52 d" by (simp add: double_fraction_def take_bit_eq_mask mask_eq_exp_minus_1)
  have "double_fraction d + push_bit 52 1 = double_fraction d OR push_bit 52 1"
  proof (rule disjunctive_add_eq_or)
    show "double_fraction d AND push_bit 52 1 = 0"
      by (rule bit_word_eqI) (simp only: f bit_and_iff bit_take_bit_iff bit_push_bit_iff, auto)
  qed
  moreover have "unat (double_fraction d + push_bit 52 1) = unat (double_fraction d) + 2 ^ 52"
    using double_fields(2) [of d] by (simp add: unat_word_ariths)
  ultimately show ?thesis by (simp add: double_m_def)
qed

lemma double_m_bound: "double_m d < 2 ^ 53"
  using double_fields(2) [of d] by (simp add: double_m_def)

lemma unat_drop_bit64: "unat (drop_bit j (w :: u64)) = unat w div 2 ^ j"
  by (simp only: unsigned_drop_bit_eq) (simp add: drop_bit_eq_div take_bit_nat_eq_self [OF unat_lt64])

lemma whole_word:
  assumes "\<bar>double_exp d\<bar> \<le> 52"
  defines "e \<equiv> double_exponent d - 1023"
  shows "unat (if 0 \<le>s e then drop_bit (unat (52 - e)) (double_fraction d OR push_bit 52 1) else 0) = whole d"
    and "nat (52 - sint e) = double_k d" and "\<not> 0 \<le>s e \<Longrightarrow> whole d = 0"
proof -
  have e: "sint e = double_exp d" unfolding e_def by (rule exponent_signed)
  then show k: "nat (52 - sint e) = double_k d" by (simp add: double_k_def)
  have neg: "0 \<le>s e \<longleftrightarrow> 0 \<le> double_exp d" by (simp add: word_sle_eq e)
  have z: "whole d = 0" if "double_exp d < 0"
  proof -
    have "53 \<le> double_k d" using that by (simp add: double_k_def)
    then have "(2 :: nat) ^ 53 \<le> 2 ^ double_k d" by (intro power_increasing) auto
    then show ?thesis using double_m_bound [of d] by (simp add: whole_def)
  qed
  then show "\<not> 0 \<le>s e \<Longrightarrow> whole d = 0" by (simp add: neg)
  have "unat (52 - e) = double_k d" if "0 \<le> double_exp d"
  proof -
    have "sint (52 - e) = 52 - double_exp d"
      using assms(1) that by (simp add: sint_word_ariths e signed_take_bit_int_eq_self)
    moreover have "uint (52 - e) = take_bit 32 (sint (52 - e))" by (simp add: uint_sint)
    ultimately have "uint (52 - e) = 52 - double_exp d" using assms(1) that by (simp add: take_bit_int_eq_self)
    then show ?thesis by (simp add: double_k_def unat_eq_nat_uint)
  qed
  then show "unat (if 0 \<le>s e then drop_bit (unat (52 - e)) (double_fraction d OR push_bit 52 1) else 0) = whole d"
  proof (cases "0 \<le> double_exp d")
    case True
    then show ?thesis using \<open>0 \<le> double_exp d \<Longrightarrow> unat (52 - e) = double_k d\<close>
      by (simp only: neg if_True unat_drop_bit64 mantissa whole_def)
  qed (use z in \<open>simp add: neg\<close>)
qed

lemma whole_bound: "whole d < 2 ^ 53" "length (dec_text (whole d)) \<le> 16"
proof -
  show w: "whole d < 2 ^ 53" using double_m_bound [of d] div_le_dividend [of "double_m d" "2 ^ double_k d"]
    unfolding whole_def by linarith
  then show "length (dec_text (whole d)) \<le> 16" using digits_length [of 10 "whole d" 15] by (simp add: dec_text_def)
qed

lemma abs_double_value:
  assumes "\<bar>double_exp d\<bar> \<le> 52"
  shows "\<bar>double_value d\<bar> = real (double_m d) / 2 ^ double_k d" "whole d = nat \<lfloor>\<bar>double_value d\<bar>\<rfloor>"
proof -
  have "(1 + real (unat (double_fraction d)) / 2 ^ 52) = real (double_m d) / 2 ^ 52"
    by (simp add: double_m_def add_divide_distrib)
  moreover have "2 powr real_of_int (double_exp d) * 2 ^ double_k d = 2 ^ 52"
  proof -
    have "real_of_int (double_exp d) + real (double_k d) = real 52" using assms by (simp add: double_k_def)
    then have "2 powr real_of_int (double_exp d) * 2 powr real (double_k d) = (2 :: real) powr real 52"
      by (simp only: powr_add [symmetric])
    then show ?thesis by (simp only: powr_realpow zero_less_numeral)
  qed
  then have "2 powr real_of_int (double_exp d) = 2 ^ 52 / 2 ^ double_k d" by (simp add: field_simps)
  ultimately show v: "\<bar>double_value d\<bar> = real (double_m d) / 2 ^ double_k d"
    by (simp add: double_value_def abs_mult)
  have "\<lfloor>real (double_m d) / real (2 ^ double_k d)\<rfloor> = int (double_m d div 2 ^ double_k d)"
    by (rule floor_divide_of_nat_eq)
  then show "whole d = nat \<lfloor>\<bar>double_value d\<bar>\<rfloor>" by (simp add: v whole_def)
qed

text \<open>The decimal text.\<close>

definition fixed_double_text :: "nat \<Rightarrow> u64 \<Rightarrow> u8 list" where
  "fixed_double_text p d = sign_text d @ dec_text (whole d) @ micros_text (micros p d)"

lemma micros_props:
  assumes "53 \<le> p"
  shows "\<bar>real (micros p d) - 1000000 * (real (double_m d) / 2 ^ double_k d - real (whole d))\<bar> \<le> 1 / 2 + 1 / 2 ^ 31"
    and "micros p d \<le> 1000000"
proof -
  have b: "double_m d mod 2 ^ double_k d < 2 ^ 53"
    using double_m_bound [of d] mod_less_eq_dividend [of "double_m d" "2 ^ double_k d"] by linarith
  note E = double_micros_error [OF assms whole_def b]
  show "\<bar>real (micros p d) - 1000000 * (real (double_m d) / 2 ^ double_k d - real (whole d))\<bar> \<le> 1 / 2 + 1 / 2 ^ 31"
    unfolding micros_def by (rule E(1))
  show "micros p d \<le> 1000000" unfolding micros_def by (rule E(2))
qed

lemma fixed_double_text_props:
  assumes "53 \<le> p"
  shows "length (fixed_double_text p d) \<le> 24" "0 \<notin> set (fixed_double_text p d)"
proof -
  note m = micros_props(2) [OF assms, of d]
  show "length (fixed_double_text p d) \<le> 24"
    using whole_bound(2) [of d] micros_text_props(1) [OF m] by (simp add: fixed_double_text_def sign_text_def)
  show "0 \<notin> set (fixed_double_text p d)"
    using dec_text_nz micros_text_props(2) by (auto simp: fixed_double_text_def sign_text_def)
qed

text \<open>The integer part goes in front of the index 24; the byte at 24 becomes the point.\<close>

lemma whole_digits:
  assumes "length buf = 32" "unat spot = 24" "drop 24 buf = x # Z" "unat u = n" "n < 2 ^ 53" "\<not> c \<Longrightarrow> u = 0"
  shows "\<exists>buf' pos y. (if c then map_option (\<lambda>(buf, pos, _). Inr (buf, pos)) (longlong_to_string buf u (spot + 1) flag)
      else outrev buf spot (ch CHR ''0'')) = Some (Inr (buf', pos))
    \<and> length buf' = 32 \<and> unat pos + length (dec_text n) = 24 \<and> drop (unat pos) buf' = dec_text n @ y # Z"
proof (cases c)
  case True
  have s: "unat (spot + 1) = 25" using assms(2) by (simp add: unat_word_ariths)
  have "length (dec_text (unat u)) \<le> 16" using digits_length [of 10 n 15] assms(4,5) by (simp add: dec_text_def)
  then have "length (dec_text (unat u)) < unat (spot + 1)" "unat (spot + 1) \<le> length buf" "unat u < 2 ^ 63"
    using s assms(1,4,5) by simp_all
  from longlong_to_string_at [OF this, of flag] obtain buf' pos sc where
    "longlong_to_string buf u (spot + 1) flag = Some (buf', pos, sc)" "length buf' = length buf"
    "unat pos + length (dec_text (unat u)) + 1 = unat (spot + 1)"
    "drop (unat pos) buf' = dec_text (unat u) @ 0 # drop (unat (spot + 1)) buf" by blast
  moreover have "drop 25 buf = Z" using arg_cong [OF assms(3), of "drop 1"] by simp
  ultimately show ?thesis using True s assms(1,4) by auto
next
  case False
  then have n: "n = 0" using assms(4,6) by simp
  have "0 < unat spot" "unat spot \<le> length buf" using assms(1,2) by simp_all
  note o = outrev_ok(1) [OF this, of "ch CHR ''0''"] outrev_ok(2) [OF this]
  have "drop 23 (with_text [48] buf 24) = 48 # drop 24 buf"
    using assms(1) by (simp add: with_text_def)
  then show ?thesis using False o assms(1-3) n dec_text_million(2) length_with_text [of "[48]" 24 buf]
    by auto
qed

text \<open>What is left of the work: the digits of the fraction and the sign.\<close>

lemma fraction_and_sign:
  assumes "length buf = 32" "unat pos + length (dec_text n) = 24" "drop (unat pos) buf = dec_text n @ y # replicate 6 48 @ [0]"
    and "unat i = 31" "unat fr \<le> 1000000" "length (dec_text n) \<le> 16"
  shows "\<exists>buf' pos'. Option.bind (frac_digits (buf[24 := ch CHR ''.'']) i fr)
      (\<lambda>(buf, _). if neg then outrev buf pos (ch CHR ''-'') else Some (Inr (buf, pos))) = Some (Inr (buf', pos'))
    \<and> length buf' = 32
    \<and> drop (unat pos') buf' = (if neg then [ch CHR ''-''] else []) @ dec_text n @ micros_text (unat fr) @ [0]"
proof -
  let ?t = "if unat fr = 0 then [] else dec_text (unat fr)" and ?b = "buf[24 := ch CHR ''.'']"
  let ?Z = "ch CHR ''.'' # replicate 6 (ch CHR ''0'')"
  have lt: "length ?t \<le> 7" using length_dec_text7 [OF assms(5)] by simp
  have "drop (unat pos) ?b = dec_text n @ ch CHR ''.'' # replicate 6 48 @ [0]"
    by (rule point_set [OF assms(1,3,2)])
  then have d: "drop (unat pos) ?b = dec_text n @ ?Z @ [0]" by simp
  have "drop (unat pos) (with_text ?t ?b 31) = dec_text n @ take (length ?Z - length ?t) ?Z @ ?t @ [0]"
    by (rule overwrite_end [OF _ d]) (use assms(1,2) lt in simp_all)
  moreover have "length ?Z = 7" by simp
  ultimately have D: "drop (unat pos) (with_text ?t ?b 31) = dec_text n @ micros_text (unat fr) @ [0]"
    using micros_text_overwrites [OF assms(5) refl] by (simp only: append_assoc [symmetric])
  have L: "length (with_text ?t ?b 31) = 32" using lt assms(1) by (subst length_with_text) auto
  obtain i' where F: "frac_digits ?b i fr = Some (with_text ?t ?b 31, i')"
  proof (cases "fr = 0")
    case True
    then have "frac_digits ?b i fr = Some (?b, i)" by (simp add: frac_digits.simps)
    moreover have "with_text ?t ?b 31 = ?b" using True by simp
    ultimately show ?thesis by (intro that [of i]) simp
  next
    case False
    then have "unat fr \<noteq> 0" by (simp add: unat_eq_zero)
    then show ?thesis using frac_digits_text [OF False, of i ?b] that lt assms(1,4) by auto
  qed
  define b where "b = with_text ?t ?b 31"
  have p: "0 < unat pos" "unat pos \<le> length b" using assms(2,6) L by (simp_all only: b_def)
  note F = F [folded b_def] and D = D [folded b_def] and L = L [folded b_def]
  show ?thesis
  proof (cases neg)
    case True
    let ?c = "ch CHR ''-''"
    have "drop (unat (pos - 1)) (with_text [?c] b (unat pos)) = ?c # drop (unat pos) b"
      using outrev_ok(2) [OF p] p by (simp add: with_text_def)
    moreover have "length (with_text [?c] b (unat pos)) = 32" using p L by (subst length_with_text) auto
    ultimately show ?thesis using True F D outrev_ok(1) [OF p, of ?c]
      by (intro exI [of _ "with_text [?c] b (unat pos)"] exI [of _ "pos - 1"]) simp
  next
    case False
    then show ?thesis using F D L by (intro exI [of _ b] exI [of _ pos]) simp
  qed
qed

lemma buf_str_text: "drop (unat pos) buf = t @ [0] \<Longrightarrow> 0 \<notin> set t \<Longrightarrow> buf_str buf pos = t"
  using buf_str_eq [of pos buf t "[]"] by simp

lemma fixed_normal_ok:
  assumes "53 \<le> p" "length buf = 32" "\<bar>double_exp d\<bar> \<le> 52"
  shows "\<exists>buf' pos'. fixed_normal p buf 32 (double_exponent d - 1023) (double_fraction d) (double_neg d) flag = Some (Inr (buf', pos'))
    \<and> length buf' = 32 \<and> buf_str buf' pos' = fixed_double_text p d \<and> 0 \<in> set (drop (unat pos') buf')"
proof -
  let ?e = "double_exponent d - 1023"
  let ?u = "if 0 \<le>s ?e then drop_bit (unat (52 - ?e)) (double_fraction d OR push_bit 52 1) else 0"
  note W = whole_word [OF assms(3)]
  have o1: "outrev buf 32 0 = Some (Inr (with_text [0] buf 32, 31))" using outrev_ok(1) [of 32 buf 0] assms(2) by simp
  define b1 where "b1 = with_text [0] buf 32"
  have b1: "length b1 = 32" "drop 31 b1 = [0]" using assms(2) by (simp_all add: b1_def with_text_def)
  obtain spot where o2: "outrev_zeros 7 b1 31 = Some (Inr (with_text (replicate 7 (ch CHR ''0'')) b1 31, spot))" "unat spot = 24"
    using outrev_zeros_ok [of 7 31 b1] b1(1) by auto
  define b2 where "b2 = with_text (replicate 7 (ch CHR ''0'')) b1 31"
  have b2: "length b2 = 32" "drop 24 b2 = 48 # replicate 6 48 @ [0]"
    using b1 by (simp_all add: b2_def with_text_def) (simp add: replicate_app_Cons_same flip: replicate_Suc)
  obtain b3 pos y where o3: "(if 0 \<le>s ?e then map_option (\<lambda>(buf, pos, _). Inr (buf, pos)) (longlong_to_string b2 ?u (spot + 1) flag)
      else outrev b2 spot (ch CHR ''0'')) = Some (Inr (b3, pos))" "length b3 = 32"
      "unat pos + length (dec_text (whole d)) = 24" "drop (unat pos) b3 = dec_text (whole d) @ y # replicate 6 48 @ [0]"
    using whole_digits [OF b2(1) o2(2) b2(2) W(1) whole_bound(1), of "0 \<le>s ?e" flag] by auto
  have sp: "unat (spot + 6 + 1) = 31" using o2(2) by (simp add: unat_word_ariths)
  define fr where "fr = double_micros p (double_m d) (double_k d) (whole d)"
  have mi: "unat fr = micros p d" by (simp add: micros_def fr_def)
  obtain b5 pos' where o5: "Option.bind (frac_digits (b3[24 := ch CHR ''.'']) (spot + 6 + 1) fr)
      (\<lambda>(buf, _). if double_neg d then outrev buf pos (ch CHR ''-'') else Some (Inr (buf, pos))) = Some (Inr (b5, pos'))"
      "length b5 = 32" "drop (unat pos') b5 = (sign_text d @ dec_text (whole d) @ micros_text (micros p d)) @ [0]"
    using fraction_and_sign [OF o3(2-4) sp _ whole_bound(2), of fr "double_neg d"] micros_props(2) [OF assms(1), of d]
    by (auto simp: mi sign_text_def)
  have "0 \<in> set (drop (unat pos') b5)" by (simp add: o5(3))
  moreover have "buf_str b5 pos' = fixed_double_text p d"
    using buf_str_text [OF o5(3)] fixed_double_text_props(2) [OF assms(1), of d] by (simp add: fixed_double_text_def)
  moreover have "fixed_normal p buf 32 ?e (double_fraction d) (double_neg d) flag = Some (Inr (b5, pos'))"
    unfolding fixed_normal_def Let_def o1 b1_def [symmetric] then_rev_Inr o2(1) b2_def [symmetric] W(1,2) mantissa
      o3(1) fr_def [symmetric]
    using o2(2) o3(2) o5(1) by simp
  ultimately show ?thesis using o5(2) by blast
qed

lemma double_to_string_fixed:
  assumes "53 \<le> p" "length buf = 32" "normal d" "\<bar>double_exp d\<bar> \<le> 52"
  shows "\<exists>buf' pos. double_to_string p buf 32 d flag = Some (buf', pos) \<and> length buf' = 32
    \<and> buf_str buf' pos = fixed_double_text p d \<and> 0 \<in> set (drop (unat pos) buf')"
proof -
  obtain b0 p0 where s: "(if double_neg d then out_char buf 0 (ch CHR ''-'') else Some (buf, 0)) = Some (b0, p0)" "length b0 = 32"
    using writes_sign [OF assms(2), of d] by (auto simp: writes_def written_def)
  have r: "\<not> (double_exponent d - 1023 <s - 52 \<or> 52 <s double_exponent d - 1023)"
    using assms(4) by (auto simp: word_sless_alt exponent_signed abs_le_iff)
  from fixed_normal_ok [OF assms(1) s(2) assms(4)] obtain buf' pos' where
    "fixed_normal p b0 32 (double_exponent d - 1023) (double_fraction d) (double_neg d) flag = Some (Inr (buf', pos'))"
    "length buf' = 32" "buf_str buf' pos' = fixed_double_text p d" "0 \<in> set (drop (unat pos') buf')" by blast
  then show ?thesis using s(1) r assms(3) by (simp add: double_to_string_def Let_def normal_def)
qed

text \<open>The doubles that \<^verbatim>\<open>%f\<close> does not print in digits.\<close>

definition other_double_text :: "bool \<Rightarrow> u64 \<Rightarrow> u8 list" where
  "other_double_text caps d = sign_text d @
    (if normal d then map ch ''<range>''
     else special_text caps (double_exponent d) (double_fraction d) (map ch ''0.000000''))"

lemma other_double_text_props: "length (other_double_text caps d) \<le> 9" "0 \<notin> set (other_double_text caps d)"
  by (auto simp: other_double_text_def sign_text_def special_text_def)

lemma double_to_string_other:
  assumes "length buf = 32" "\<not> (normal d \<and> \<bar>double_exp d\<bar> \<le> 52)"
  shows "ends (other_double_text (has_flag flag CAPSFLAG) d) (double_to_string p buf len d flag)"
proof -
  let ?caps = "has_flag flag CAPSFLAG" and ?e = "double_exponent d" and ?f = "double_fraction d"
  let ?t = "if ?e = 0x7ff \<or> ?e = 0 then special_text ?caps ?e ?f (map ch ''0.000000'') else map ch ''<range>''"
  have c: "\<not> (?e \<noteq> 0x7ff \<and> ?e \<noteq> 0 \<and> \<not> (?e - 1023 <s - 52 \<or> 52 <s ?e - 1023))"
    using assms(2) by (auto simp: normal_def word_sless_alt exponent_signed)
  have t: "sign_text d @ ?t = other_double_text ?caps d"
    by (simp add: other_double_text_def normal_iff)
  have l: "length (other_double_text ?caps d) \<le> 9" by (rule other_double_text_props)
  have w: "writes (other_double_text ?caps d) (out_str b q ?t)" if "written (sign_text d) b q" for b q
  proof -
    have "length (sign_text d) + length ?t \<le> 32" using l by (simp only: t [symmetric] length_append)
    from writes_str [OF that this] show ?thesis by (simp only: t)
  qed
  show ?thesis unfolding double_to_string_def Let_def if_not_P [OF c]
    by (rule ends_bind [OF writes_sign [OF assms(1)]], rule ends_bind [OF w], assumption)
      (rule ends_char [OF _ _ other_double_text_props(2)], use l in simp_all)
qed

section \<open>Properties\<close>

text \<open>
  C23. \<^verbatim>\<open>%f\<close>. For every normal double between 2 to the -52 and 2 to the 53 in magnitude, the conversion
  stays in the 32-byte buffer and prints the sign, the integer part of the magnitude in decimal and
  the fraction in millionths, within half a millionth (and the error of the two roundings) of the
  value; with a fraction that rounds to 1000000 millionths the seven digits replace the point.
\<close>

theorem fixed_accurate:
  assumes "53 \<le> p" "length buf = 32" "normal d" "\<bar>double_exp d\<bar> \<le> 52"
  shows "\<exists>buf' pos n fr. double_to_string p buf 32 d flag = Some (buf', pos)
    \<and> buf_str buf' pos = sign_text d @ dec_text n @ micros_text fr
    \<and> n = nat \<lfloor>\<bar>double_value d\<bar>\<rfloor> \<and> fr \<le> 1000000
    \<and> \<bar>real n + real fr / 1000000 - \<bar>double_value d\<bar>\<bar> \<le> (1 / 2 + 1 / 2 ^ 31) / 1000000"
proof -
  obtain buf' pos where r: "double_to_string p buf 32 d flag = Some (buf', pos)" "buf_str buf' pos = fixed_double_text p d"
    using double_to_string_fixed [OF assms] by blast
  note v = abs_double_value [OF assms(4)] and m = micros_props [OF assms(1), of d]
  have "real (whole d) + real (micros p d) / 1000000 - \<bar>double_value d\<bar>
      = (real (micros p d) - 1000000 * (real (double_m d) / 2 ^ double_k d - real (whole d))) / 1000000"
    by (simp add: v(1) field_simps)
  then have "\<bar>real (whole d) + real (micros p d) / 1000000 - \<bar>double_value d\<bar>\<bar> \<le> (1 / 2 + 1 / 2 ^ 31) / 1000000"
    using m(1) by (simp only: abs_divide abs_numeral divide_right_mono zero_le_numeral)
  then show ?thesis using r m(2) v(2) by (auto simp: fixed_double_text_def)
qed

theorem fixed_accurate_witness:
  "\<exists>buf' pos n fr. double_to_string 64 (replicate 32 0) 32 0xC002000000000000 0 = Some (buf', pos)
    \<and> buf_str buf' pos = ch CHR ''-'' # dec_text n @ micros_text fr
    \<and> n = nat \<lfloor>\<bar>double_value 0xC002000000000000\<bar>\<rfloor>"
proof -
  have n: "normal 0xC002000000000000" "\<bar>double_exp 0xC002000000000000\<bar> \<le> 52" "sign_text 0xC002000000000000 = [ch CHR ''-'']"
    by code_simp+
  from fixed_accurate [OF _ _ n(1,2), of 64 "replicate 32 0" 0] n(3) show ?thesis by auto
qed

text \<open>
  C26. A fraction that rounds up to a whole is not carried: when the magnitude is less than
  0.4 millionths below the next integer, \<^verbatim>\<open>%f\<close> prints the integer part without the carry, no point,
  and the seven digits 1000000, so that 0.9999999 is printed as 01000000.
\<close>

theorem carry_lost:
  assumes "53 \<le> p" "length buf = 32" "normal d" "\<bar>double_exp d\<bar> \<le> 52"
    and "real (nat \<lfloor>\<bar>double_value d\<bar>\<rfloor>) + 1 - 4 / 10000000 \<le> \<bar>double_value d\<bar>"
  shows "\<exists>buf' pos. double_to_string p buf 32 d flag = Some (buf', pos)
    \<and> buf_str buf' pos = sign_text d @ dec_text (nat \<lfloor>\<bar>double_value d\<bar>\<rfloor>) @ map ch ''1000000''"
proof -
  obtain buf' pos where r: "double_to_string p buf 32 d flag = Some (buf', pos)" "buf_str buf' pos = fixed_double_text p d"
    using double_to_string_fixed [OF assms(1-4)] by blast
  note v = abs_double_value [OF assms(4)] and m = micros_props [OF assms(1), of d]
  define X where "X = real (double_m d) / 2 ^ double_k d - real (whole d)"
  have x: "1 - 4 / 10000000 \<le> X"
    unfolding X_def using assms(5) v(1) arg_cong [OF v(2), of real] by linarith
  have "1000000 * (1 - 4 / 10000000) \<le> 1000000 * X" by (rule mult_left_mono [OF x]) simp
  moreover have "1000000 * X - real (micros p d) \<le> 1 / 2 + 1 / 2 ^ 31"
    using abs_le_D2 [OF m(1)] by (simp only: minus_diff_eq X_def)
  moreover have "(1 :: real) / 2 + 1 / 2 ^ 31 \<le> 51 / 100" by simp
  ultimately have "1000000 * (1 - 4 / 10000000) - real (micros p d) \<le> 51 / 100"
    using diff_right_mono order_trans by fastforce
  then have "999999 < real (micros p d)" by simp
  then have "micros p d = 1000000" using m(2) by linarith
  moreover have "dec_text 1000000 = map ch ''1000000''"
    by (simp add: dec_text_def digits.simps [of 10 "Suc 0"] digits.simps [of 10 10] digits.simps [of 10 100] digits.simps [of 10 1000]
      digits.simps [of 10 10000] digits.simps [of 10 100000] digits.simps [of 10 1000000] digits_small dec_char_def)
  ultimately show ?thesis using r v(2) by (auto simp: fixed_double_text_def micros_text_def)
qed

theorem carry_lost_witness:
  "\<exists>buf' pos. double_to_string 64 (replicate 32 0) 32 0x3FEFFFFFCA501ACB 0 = Some (buf', pos)
    \<and> buf_str buf' pos = map ch ''01000000''"
proof -
  let ?d = "0x3FEFFFFFCA501ACB"
  have n: "normal ?d" "\<bar>double_exp ?d\<bar> \<le> 52" "sign_text ?d = []" "double_exp ?d = - 1"
    "double_fraction ?d = 0xFFFFFCA501ACB" by code_simp+
  have v: "\<bar>double_value ?d\<bar> = 9007198354021067 / 2 ^ 53"
    unfolding abs_double_value(1) [OF n(2)] by (simp add: double_m_def double_k_def n(4,5))
  have f: "\<lfloor>\<bar>double_value ?d\<bar>\<rfloor> = 0" unfolding v by (simp add: floor_eq_iff)
  have "real (nat \<lfloor>\<bar>double_value ?d\<bar>\<rfloor>) + 1 - 4 / 10000000 \<le> \<bar>double_value ?d\<bar>"
    unfolding f by (simp add: v)
  from carry_lost [OF _ _ n(1,2) this, of 64 "replicate 32 0" 0] show ?thesis
    by (simp add: n(3) f dec_text_million(2))
qed

text \<open>
  C24. \<^verbatim>\<open>%a\<close> is exact. For every normal double the conversion stays in the 32-byte buffer, and the text
  reads back as the value: the sign, the leading one, at most 13 hexadecimal digits of the fraction,
  without zeros at the end and without the point when there are none, and the binary exponent in
  decimal with its sign.
\<close>

theorem hexfloat_exact:
  assumes "length buf = 32" "normal d"
  shows "\<exists>buf' ds e. double_to_hexstring buf len d flag = Some (buf', 0)
    \<and> buf_str buf' 0 = sign_text d @ map ch (if has_flag flag CAPSFLAG then ''0X1'' else ''0x1'') @ fraction_text (has_flag flag CAPSFLAG) ds
        @ [if has_flag flag CAPSFLAG then ch CHR ''P'' else ch CHR ''p''] @ exponent_text e
    \<and> length ds \<le> 13 \<and> set ds \<subseteq> {..<16} \<and> (ds \<noteq> [] \<longrightarrow> last ds \<noteq> 0)
    \<and> double_value d = (if double_neg d then - 1 else 1) * (1 + real (digits_value 16 ds) / 16 ^ length ds) * 2 powr e"
proof -
  define caps where "caps = has_flag flag CAPSFLAG"
  let ?ds = "trim_zeros (fraction_digits (double_fraction d) 13)"
  have "map ch (if caps then ''0X1'' else ''0x1'') = (if caps then map ch ''0X1'' else map ch ''0x1'')" by simp
  then have t: "hex_double_text caps d = sign_text d @ map ch (if caps then ''0X1'' else ''0x1'') @ fraction_text caps ?ds
        @ [if caps then ch CHR ''P'' else ch CHR ''p''] @ exponent_text (double_exp d)"
    using assms(2) by (simp only: hex_double_text_def if_True)
  have "length ?ds \<le> 13" "set ?ds \<subseteq> {..<16}"
    using length_trim_zeros [of "fraction_digits (double_fraction d) 13"] set_trim_zeros [of "fraction_digits (double_fraction d) 13"]
      fraction_digits_range by fastforce+
  moreover have "double_value d = (if double_neg d then - 1 else 1) * (1 + real (digits_value 16 ?ds) / 16 ^ length ?ds) * 2 powr double_exp d"
    by (simp only: double_value_def fraction_value [OF double_fields(2)])
  moreover have "?ds \<noteq> [] \<longrightarrow> last ?ds \<noteq> 0" using trim_zeros_last by blast
  moreover obtain buf' where "double_to_hexstring buf len d flag = Some (buf', 0)" "buf_str buf' 0 = hex_double_text caps d"
    using double_to_hexstring_ok [OF assms(1), of flag d len] unfolding ends_def caps_def by blast
  ultimately show ?thesis unfolding caps_def [symmetric] t by blast
qed

theorem hexfloat_exact_witness:
  "\<exists>buf' ds e. double_to_hexstring (replicate 32 0) 32 0xBFF8000000000000 0 = Some (buf', 0)
    \<and> buf_str buf' 0 = map ch ''-0x1'' @ fraction_text False ds @ ch CHR ''p'' # exponent_text e
    \<and> double_value 0xBFF8000000000000 = - (1 + real (digits_value 16 ds) / 16 ^ length ds) * 2 powr e"
proof -
  have n: "normal 0xBFF8000000000000" "sign_text 0xBFF8000000000000 = [ch CHR ''-'']" "double_neg 0xBFF8000000000000"
    "has_flag 0 CAPSFLAG = False" by code_simp+
  from hexfloat_exact [OF _ n(1), of "replicate 32 0" 32 0] show ?thesis by (auto simp: n)
qed

lemma terminator:
  assumes "0 \<in> set (drop (unat pos) buf)"
  shows "unat pos + length (buf_str buf pos) < length buf" "buf ! (unat pos + length (buf_str buf pos)) = 0"
proof -
  let ?xs = "drop (unat pos) buf"
  obtain us vs where x: "?xs = us @ 0 # vs" "0 \<notin> set us" using split_list_first [OF assms] by blast
  then have "takeWhile (\<lambda>b. b \<noteq> 0) ?xs = us" by (metis buf_str_def buf_str_eq)
  then have t: "length (takeWhile (\<lambda>b. b \<noteq> 0) ?xs) < length ?xs" using x(1) by simp
  from t show l: "unat pos + length (buf_str buf pos) < length buf" by (simp add: buf_str_def)
  have "?xs ! length (takeWhile (\<lambda>b. b \<noteq> 0) ?xs) = 0"
    using nth_length_takeWhile [OF t] by simp
  then show "buf ! (unat pos + length (buf_str buf pos)) = 0" using l by (simp add: buf_str_def)
qed

text \<open>
  C25. No double overruns the 32-byte buffer of the engine: whatever the 64 bits (zeros, denormals,
  infinities and NaNs included), the flags and the bytes the buffer held before, both conversions return
  (a store outside the buffer would be \<open>None\<close>), and what they return is a string of 1 to 24 characters
  whose terminating zero is in the buffer too.
\<close>

theorem doubles_fit:
  assumes "53 \<le> p" "length buf = 32"
  shows "\<exists>buf' pos buf'' pos'. double_to_string p buf 32 d flag = Some (buf', pos)
    \<and> double_to_hexstring buf 32 d flag = Some (buf'', pos') \<and> length buf' = 32 \<and> length buf'' = 32
    \<and> 0 < length (buf_str buf' pos) \<and> length (buf_str buf' pos) \<le> 24
    \<and> unat pos + length (buf_str buf' pos) < 32 \<and> buf' ! (unat pos + length (buf_str buf' pos)) = 0
    \<and> 0 < length (buf_str buf'' pos') \<and> length (buf_str buf'' pos') \<le> 24
    \<and> unat pos' + length (buf_str buf'' pos') < 32 \<and> buf'' ! (unat pos' + length (buf_str buf'' pos')) = 0"
proof -
  let ?caps = "has_flag flag CAPSFLAG"
  have "ends (hex_double_text ?caps d) (double_to_hexstring buf 32 d flag)" by (rule double_to_hexstring_ok [OF assms(2)])
  then obtain buf'' where h: "double_to_hexstring buf 32 d flag = Some (buf'', 0)" "length buf'' = 32"
      "buf_str buf'' 0 = hex_double_text ?caps d" "0 \<in> set (drop (unat (0 :: u32)) buf'')" by (auto simp: ends_def)
  have hn: "hex_double_text ?caps d \<noteq> []" by (simp add: hex_double_text_def special_text_def)
  have "\<exists>buf' pos t. double_to_string p buf 32 d flag = Some (buf', pos) \<and> length buf' = 32
      \<and> buf_str buf' pos = t \<and> 0 \<in> set (drop (unat pos) buf') \<and> t \<noteq> [] \<and> length t \<le> 24"
  proof (cases "normal d \<and> \<bar>double_exp d\<bar> \<le> 52")
    case True
    then show ?thesis using double_to_string_fixed [OF assms, of d flag] fixed_double_text_props(1) [OF assms(1), of d]
      by (auto simp: fixed_double_text_def dec_text_def)
  next
    case False
    from double_to_string_other [OF assms(2) this, of flag p 32]
    obtain buf' where "double_to_string p buf 32 d flag = Some (buf', 0)" "length buf' = 32"
      "buf_str buf' 0 = other_double_text ?caps d" "0 \<in> set (drop (unat (0 :: u32)) buf')" by (auto simp: ends_def)
    moreover have "other_double_text ?caps d \<noteq> []" by (simp add: other_double_text_def special_text_def)
    moreover have "length (other_double_text ?caps d) \<le> 24" using other_double_text_props(1) [of ?caps d] by simp
    ultimately show ?thesis by blast
  qed
  then obtain buf' pos where d: "double_to_string p buf 32 d flag = Some (buf', pos)" "length buf' = 32"
      "buf_str buf' pos \<noteq> []" "length (buf_str buf' pos) \<le> 24" "0 \<in> set (drop (unat pos) buf')" by blast
  note e = terminator [OF d(5), unfolded d(2)] and e' = terminator [OF h(4), unfolded h(2)]
  have k: "0 < length (buf_str buf'' 0)" "length (buf_str buf'' 0) \<le> 24" using hn hex_double_text_props(1) [of ?caps d] by (simp_all add: h(3))
  show ?thesis
    by (rule exI [of _ buf'], rule exI [of _ pos], rule exI [of _ buf''], rule exI [of _ 0])
      (use d(1-4) e h(1,2) e' k in simp)
qed

theorem doubles_fit_witness:
  "\<exists>buf' pos. double_to_string 53 (replicate 32 0x41) 32 0xFFEFFFFFFFFFFFFF CAPSFLAG = Some (buf', pos)
    \<and> length (buf_str buf' pos) \<le> 24 \<and> buf' ! (unat pos + length (buf_str buf' pos)) = 0"
  using doubles_fit [of 53 "replicate 32 0x41" "0xFFEFFFFFFFFFFFFF" CAPSFLAG] by auto

end
