(* ===== verification/Task.thy ===== *)
theory Task
  imports LinkedList CString
begin

text \<open>
  The cooperative scheduler: \<^verbatim>\<open>task.c\<close>, \<^verbatim>\<open>x86/task.c\<close> and the stack switch of
  \<^verbatim>\<open>x86/task_asm.S\<close>. A \<^verbatim>\<open>task_t\<close> is 36 bytes of memory whose list node comes first, so that the
  node and the task have the same address. The record \<open>kernel\<close> holds the memory, the registers
  a switch touches, the interrupt flag, the static \<^verbatim>\<open>current_task\<close> and the addresses of the
  static objects and of the two places a switch can return to.

  \<^verbatim>\<open>x86_asm_switch\<close> returns on the stack of another task. What runs next there is the end of
  \<^verbatim>\<open>task_reschedule\<close> or the start of \<^verbatim>\<open>task_trampoline\<close>; \<open>continue_at\<close> looks at the address the
  \<^verbatim>\<open>ret\<close> popped, and a jump anywhere else is \<open>None\<close>.
\<close>

section \<open>Machine and task structure\<close>

record kernel =
  kmem :: mem
  ebx :: u32
  ebp :: u32
  esi :: u32
  edi :: u32
  esp :: u32
  eip :: u32
  irq_on :: bool
  current_task :: addr
  idle_task :: addr
  idle_stack :: addr
  run_queue :: addr
  task_trampoline_addr :: addr
  switch_return_addr :: addr

definition INITIAL :: u32 where "INITIAL = 0"
definition READY :: u32 where "READY = 1"
definition RUNNING :: u32 where "RUNNING = 2"
definition DEAD :: u32 where "DEAD = 3"

definition fld :: "mem \<Rightarrow> addr \<Rightarrow> u32 \<Rightarrow> u32" where "fld m t off = ld32 m (t + off)"
definition set_fld :: "mem \<Rightarrow> addr \<Rightarrow> u32 \<Rightarrow> u32 \<Rightarrow> mem" where "set_fld m t off v = st32 m (t + off) v"

definition off_state :: u32 where "off_state = 8"
definition off_count :: u32 where "off_count = 12"
definition off_entry :: u32 where "off_entry = 16"
definition off_arg :: u32 where "off_arg = 20"
definition off_stack :: u32 where "off_stack = 24"
definition off_stack_size :: u32 where "off_stack_size = 28"
definition off_saved_sp :: u32 where "off_saved_sp = 32"
definition sizeof_task :: nat where "sizeof_task = 36"

section \<open>x86/task.c and x86/task\_asm.S\<close>

definition x86_cli :: "kernel \<Rightarrow> kernel" where "x86_cli k = k\<lparr>irq_on := False\<rparr>"
definition x86_sti :: "kernel \<Rightarrow> kernel" where "x86_sti k = k\<lparr>irq_on := True\<rparr>"

text \<open>The frame \<^verbatim>\<open>struct context_switch_frame\<close>: edi, esi, ebp, ebx, return address.\<close>

definition x86_init_task :: "mem \<Rightarrow> addr \<Rightarrow> u32 \<Rightarrow> u32 \<Rightarrow> u32 \<times> mem" where
  "x86_init_task m task entry_point sp =
    (let frm = sp - 20;
         m = st32 m (frm + 12) 0;
         m = st32 m (frm + 8) 0;
         m = st32 m (frm + 4) 0;
         m = st32 m frm 0;
         m = st32 m (frm + 16) entry_point
     in (0, set_fld m task off_saved_sp frm))"

definition push :: "u32 \<Rightarrow> kernel \<Rightarrow> kernel" where
  "push v k = k\<lparr>esp := esp k - 4, kmem := st32 (kmem k) (esp k - 4) v\<rparr>"

definition pop :: "kernel \<Rightarrow> u32 \<times> kernel" where
  "pop k = (ld32 (kmem k) (esp k), k\<lparr>esp := esp k + 4\<rparr>)"

text \<open>\<open>old_sp\<close> is in ecx, \<open>new_sp\<close> in edx.\<close>

definition x86_asm_switch :: "addr \<Rightarrow> u32 \<Rightarrow> kernel \<Rightarrow> kernel" where
  "x86_asm_switch old_sp new_sp k =
    (let k = push (ebx k) k; k = push (ebp k) k; k = push (esi k) k; k = push (edi k) k;
         k = k\<lparr>kmem := st32 (kmem k) old_sp (esp k)\<rparr>;
         k = k\<lparr>esp := new_sp\<rparr>;
         (v, k) = pop k; k = k\<lparr>edi := v\<rparr>;
         (v, k) = pop k; k = k\<lparr>esi := v\<rparr>;
         (v, k) = pop k; k = k\<lparr>ebp := v\<rparr>;
         (v, k) = pop k; k = k\<lparr>ebx := v\<rparr>;
         (v, k) = pop k
     in k\<lparr>eip := v\<rparr>)"

text \<open>The call pushes the return address; the arguments are evaluated before it.\<close>

definition x86_task_switch :: "addr \<Rightarrow> addr \<Rightarrow> kernel \<Rightarrow> kernel" where
  "x86_task_switch old task k =
    (let new_sp = fld (kmem k) task off_saved_sp;
         k = push (switch_return_addr k) k
     in x86_asm_switch (old + off_saved_sp) new_sp k)"

section \<open>Critical sections\<close>

definition enter_critical_section :: "kernel \<Rightarrow> kernel" where
  "enter_critical_section k =
    (let n = fld (kmem k) (current_task k) off_count + 1;
         k = k\<lparr>kmem := set_fld (kmem k) (current_task k) off_count n\<rparr>
     in if n = 1 then x86_cli k else k)"

definition exit_critical_section :: "kernel \<Rightarrow> kernel" where
  "exit_critical_section k =
    (let n = fld (kmem k) (current_task k) off_count - 1;
         k = k\<lparr>kmem := set_fld (kmem k) (current_task k) off_count n\<rparr>
     in if n = 0 then x86_sti k else k)"

section \<open>Tasks\<close>

definition task_create :: "kernel \<Rightarrow> addr \<Rightarrow> u32 \<Rightarrow> u32 \<Rightarrow> addr \<Rightarrow> u32 \<Rightarrow> u32 \<times> kernel" where
  "task_create k t entry arg stack stack_size =
    (let m = rep_stosb (kmem k) t 0 sizeof_task;
         m = list_clear_node m t;
         m = set_fld m t off_state INITIAL;
         m = set_fld m t off_count 1;
         m = set_fld m t off_entry entry;
         m = set_fld m t off_arg arg;
         m = set_fld m t off_stack stack;
         m = set_fld m t off_stack_size stack_size;
         (err, m) = x86_init_task m t (task_trampoline_addr k) (fld m t off_stack + fld m t off_stack_size);
         k = k\<lparr>kmem := m\<rparr>
     in if err <s 0 then (err, k) else (0, k))"

definition task_init :: "kernel \<Rightarrow> kernel" where
  "task_init k =
    (let k = k\<lparr>kmem := list_initialize (kmem k) (run_queue k)\<rparr>;
         (_, k) = task_create k (idle_task k) NULL 0 (idle_stack k) 512
     in k\<lparr>current_task := idle_task k\<rparr>)"

definition task_start :: "kernel \<Rightarrow> addr \<Rightarrow> u32 \<times> kernel" where
  "task_start k t =
    (let k = enter_critical_section k
     in if fld (kmem k) t off_state \<noteq> INITIAL then (- 1, exit_critical_section k)
        else (let m = set_fld (kmem k) t off_state READY;
                  m = list_add_head m (run_queue k) t;
                  k = exit_critical_section (k\<lparr>kmem := m\<rparr>)
              in (0, k)))"

text \<open>The first code of a new task: it leaves the critical section it was created in and calls
  the entry point with its argument; when that returns, it calls \<open>task_exit\<close>.\<close>

definition task_trampoline :: "kernel \<Rightarrow> (u32 \<times> u32) \<times> kernel" where
  "task_trampoline k =
    (let k = exit_critical_section k
     in ((fld (kmem k) (current_task k) off_entry, fld (kmem k) (current_task k) off_arg), k))"

text \<open>The scheduler's choice, up to the switch: the old and the new task.\<close>

definition resched_choose :: "kernel \<Rightarrow> addr \<times> addr \<times> kernel" where
  "resched_choose k =
    (let old_task = current_task k;
         m = kmem k;
         m = (if fld m (current_task k) off_state = RUNNING then
                (let m = set_fld m (current_task k) off_state READY
                 in list_add_tail m (run_queue k) (current_task k))
              else m);
         (next_task, m) = list_remove_head_type m (run_queue k) 0;
         next_task = (if next_task = NULL then idle_task k else next_task);
         k = k\<lparr>current_task := next_task\<rparr>;
         m = set_fld m (current_task k) off_state RUNNING
     in (old_task, next_task, k\<lparr>kmem := m\<rparr>))"

definition continue_at :: "kernel \<Rightarrow> kernel option" where
  "continue_at k =
    (if eip k = switch_return_addr k then Some (exit_critical_section k)
     else if eip k = task_trampoline_addr k then Some (snd (task_trampoline k))
     else None)"

definition task_reschedule :: "kernel \<Rightarrow> kernel option" where
  "task_reschedule k =
    (let k = enter_critical_section k;
         (old_task, next_task, k) = resched_choose k
     in if next_task \<noteq> old_task then continue_at (x86_task_switch old_task next_task k)
        else Some (exit_critical_section k))"

definition task_exit :: "kernel \<Rightarrow> kernel option" where
  "task_exit k =
    (let k = enter_critical_section k;
         k = k\<lparr>kmem := set_fld (kmem k) (current_task k) off_state DEAD\<rparr>
     in task_reschedule k)"

text \<open>
  The boot thread becomes the idle task: it gives up the processor once, and when the scheduler
  falls back on it, it leaves the critical section it was created in and halts between interrupts.
\<close>

definition task_become_idle :: "kernel \<Rightarrow> kernel option" where "task_become_idle k = task_reschedule k"

definition idle_resumed :: "kernel \<Rightarrow> kernel" where "idle_resumed k = exit_critical_section k"

end
