(* ===== verification/Machine.thy ===== *)
theory Machine
  imports MessageText Task
begin

text \<open>
  The machine the drivers run on: the kernel of \<^verbatim>\<open>Task\<close>, the console cursor, the static
  variables of the drivers and the transcript of port accesses. What a port read returns is up to
  the hardware, a parameter of every definition: \<open>dev h p\<close> is the byte port \<open>p\<close> gives after
  the accesses \<open>h\<close>. A \<^verbatim>\<open>printf\<close> with a constant format is \<open>say\<close> of the text the format
  describes, which is what the engine sends to the console.
\<close>

section \<open>State\<close>

datatype io_event = PortOut u16 u8 | PortIn u16 u8

type_synonym device = "io_event list \<Rightarrow> u16 \<Rightarrow> u8"

record machine =
  kern :: kernel
  vst :: vga_state
  io :: "io_event list"
  timer_ticks :: u32
  key_lshift :: bool
  key_rshift :: bool
  lastCode :: u32

definition outp :: "u16 \<Rightarrow> u8 \<Rightarrow> machine \<Rightarrow> machine" where
  "outp p v s = s\<lparr>io := io s @ [PortOut p v]\<rparr>"

definition inp :: "device \<Rightarrow> u16 \<Rightarrow> machine \<Rightarrow> u8 \<times> machine" where
  "inp dev p s = (let v = dev (io s) p in (v, s\<lparr>io := io s @ [PortIn p v]\<rparr>))"

definition io_wait :: "machine \<Rightarrow> machine" where "io_wait s = outp 0x80 0 s"

text \<open>Of the flags register, the interrupt flag.\<close>

definition x86_irq_disable :: "machine \<Rightarrow> bool \<times> machine" where
  "x86_irq_disable s = (irq_on (kern s), s\<lparr>kern := x86_cli (kern s)\<rparr>)"

definition x86_irq_restore :: "bool \<Rightarrow> machine \<Rightarrow> machine" where
  "x86_irq_restore f s = s\<lparr>kern := (kern s)\<lparr>irq_on := f\<rparr>\<rparr>"

definition m_enter :: "machine \<Rightarrow> machine" where "m_enter s = s\<lparr>kern := enter_critical_section (kern s)\<rparr>"
definition m_exit :: "machine \<Rightarrow> machine" where "m_exit s = s\<lparr>kern := exit_critical_section (kern s)\<rparr>"

section \<open>Text on the console\<close>

definition say :: "u8 list \<Rightarrow> machine \<Rightarrow> machine" where
  "say bs s = (let (_, m, v) = console_sink bs (kmem (kern s)) (vst s)
    in s\<lparr>kern := (kern s)\<lparr>kmem := m\<rparr>, vst := v\<rparr>)"

definition scr :: "machine \<Rightarrow> screen" where "scr s = screen_of (kmem (kern s)) (vst s)"

text \<open>\<open>says bs s s'\<close>: \<open>s'\<close> is \<open>s\<close> after \<open>bs\<close> has gone to the console, and nothing else.\<close>

definition says :: "u8 list \<Rightarrow> machine \<Rightarrow> machine \<Rightarrow> bool" where
  "says bs s s' \<longleftrightarrow> on_screen (vst s') \<and> scr s' = scr_text (scr s) bs \<and> frame vga_region (kmem (kern s)) (kmem (kern s'))
     \<and> s' = s\<lparr>kern := (kern s)\<lparr>kmem := kmem (kern s')\<rparr>, vst := vst s'\<rparr>"

lemma says_refl: "on_screen (vst s) \<Longrightarrow> says [] s s"
  by (simp add: says_def)

lemma says_trans: "says as s s1 \<Longrightarrow> says bs s1 s2 \<Longrightarrow> says (as @ bs) s s2"
proof -
  assume a: "says as s s1" and b: "says bs s1 s2"
  have 1: "s1 = s\<lparr>kern := (kern s)\<lparr>kmem := kmem (kern s1)\<rparr>, vst := vst s1\<rparr>" using a by (simp add: says_def)
  have 2: "s2 = s1\<lparr>kern := (kern s1)\<lparr>kmem := kmem (kern s2)\<rparr>, vst := vst s2\<rparr>" using b by (simp add: says_def)
  have "s2 = s\<lparr>kern := (kern s)\<lparr>kmem := kmem (kern s2)\<rparr>, vst := vst s2\<rparr>"
    by (subst 2, subst 1, subst (3) 1) (cases s, cases "kern s", simp)
  then show ?thesis using a b frame_trans by (auto simp: says_def)
qed

lemma say_says:
  assumes "on_screen (vst s)" "0 \<notin> set bs" "length bs < 2 ^ 32"
  shows "says bs s (say bs s)"
  using console_sink_run [OF assms, of "kmem (kern s)"] by (auto simp: say_def says_def scr_def console_run_def)

lemma says_on_screen: "says bs s s' \<Longrightarrow> on_screen (vst s')"
  by (simp add: says_def)

lemma says_fields:
  assumes "says bs s s'"
  shows "io s' = io s" "timer_ticks s' = timer_ticks s" "key_lshift s' = key_lshift s" "key_rshift s' = key_rshift s"
    "lastCode s' = lastCode s" "irq_on (kern s') = irq_on (kern s)" "current_task (kern s') = current_task (kern s)"
proof -
  have 1: "s' = s\<lparr>kern := (kern s)\<lparr>kmem := kmem (kern s')\<rparr>, vst := vst s'\<rparr>" using assms by (simp add: says_def)
  show "io s' = io s" "timer_ticks s' = timer_ticks s" "key_lshift s' = key_lshift s" "key_rshift s' = key_rshift s"
    "lastCode s' = lastCode s" "irq_on (kern s') = irq_on (kern s)" "current_task (kern s') = current_task (kern s)"
    by (subst 1, simp)+
qed

lemma says_kern: "says bs s s' \<Longrightarrow> kern s' = (kern s)\<lparr>kmem := kmem (kern s')\<rparr>"
proof -
  assume "says bs s s'"
  then have 1: "s' = s\<lparr>kern := (kern s)\<lparr>kmem := kmem (kern s')\<rparr>, vst := vst s'\<rparr>" by (simp add: says_def)
  show ?thesis by (subst 1, simp)
qed

section \<open>Port transcripts\<close>

lemma outp_fields [simp]:
  "kern (outp p v s) = kern s" "vst (outp p v s) = vst s" "io (outp p v s) = io s @ [PortOut p v]"
  "timer_ticks (outp p v s) = timer_ticks s" "key_lshift (outp p v s) = key_lshift s"
  "key_rshift (outp p v s) = key_rshift s" "lastCode (outp p v s) = lastCode s" "scr (outp p v s) = scr s"
  by (simp_all add: outp_def scr_def)

lemma io_wait_fields [simp]:
  "kern (io_wait s) = kern s" "vst (io_wait s) = vst s" "io (io_wait s) = io s @ [PortOut 0x80 0]"
  "timer_ticks (io_wait s) = timer_ticks s"
  by (simp_all add: io_wait_def)

lemma inp_eq: "inp dev p s = (dev (io s) p, s\<lparr>io := io s @ [PortIn p (dev (io s) p)]\<rparr>)"
  by (simp add: inp_def Let_def)

end
