(* ===== verification/Pic.thy ===== *)
theory Pic
  imports Machine
begin

text \<open>
  The drivers of the two 8259A interrupt controllers (\<^verbatim>\<open>hw/pic.c\<close>) and of the 8254 timer
  (\<^verbatim>\<open>hw/pit.c\<close>). \<open>chip\<close> is the documented reaction of an 8259A to the bytes written to its two
  ports: the initialisation sequence ICW1 to ICW4, then masks on the data port. It is what
  \<open>reads_masks\<close>, the hypothesis of the lemmas about masks, says a read of the data port returns.
\<close>

section \<open>hw/pic.c\<close>

definition PIC1_CMD :: u16 where "PIC1_CMD = 0x20"
definition PIC1_DATA :: u16 where "PIC1_DATA = 0x21"
definition PIC2_CMD :: u16 where "PIC2_CMD = 0xA0"
definition PIC2_DATA :: u16 where "PIC2_DATA = 0xA1"
definition ICW1_ICW4 :: u8 where "ICW1_ICW4 = 0x01"
definition ICW1_INIT :: u8 where "ICW1_INIT = 0x10"
definition ICW4_8086 :: u8 where "ICW4_8086 = 0x01"
definition PIC_EOI :: u8 where "PIC_EOI = 0x20"
definition IRQ_PIT :: u8 where "IRQ_PIT = 0"
definition IRQ_KEYBOARD :: u8 where "IRQ_KEYBOARD = 1"

definition pic_remap :: "device \<Rightarrow> u32 \<Rightarrow> u32 \<Rightarrow> machine \<Rightarrow> machine" where
  "pic_remap dev offset1 offset2 s =
    (let (a1, s) = inp dev PIC1_DATA s;
         (a2, s) = inp dev PIC2_DATA s;
         s = io_wait (outp PIC1_CMD (ICW1_INIT OR ICW1_ICW4) s);
         s = io_wait (outp PIC2_CMD (ICW1_INIT OR ICW1_ICW4) s);
         s = io_wait (outp PIC1_DATA (ucast offset1) s);
         s = io_wait (outp PIC2_DATA (ucast offset2) s);
         s = io_wait (outp PIC1_DATA 4 s);
         s = io_wait (outp PIC2_DATA 2 s);
         s = io_wait (outp PIC1_DATA ICW4_8086 s);
         s = io_wait (outp PIC2_DATA ICW4_8086 s);
         s = outp PIC1_DATA a1 s
     in outp PIC2_DATA a2 s)"

definition pic_init :: "device \<Rightarrow> machine \<Rightarrow> machine" where
  "pic_init dev s = outp PIC2_DATA 0xFF (outp PIC1_DATA 0xFF (pic_remap dev 0x20 0x28 s))"

definition pic_set_mask :: "device \<Rightarrow> u8 \<Rightarrow> bool \<Rightarrow> machine \<Rightarrow> machine" where
  "pic_set_mask dev irq set_it s =
    (let (port, irq) = (if irq < 8 then (PIC1_DATA, irq) else (PIC2_DATA, irq - 8));
         (val, s) = inp dev port s;
         val = (if set_it then val OR push_bit (unat irq) 1 else val AND NOT (push_bit (unat irq) 1))
     in outp port val s)"

definition pic_send_eoi :: "u8 \<Rightarrow> machine \<Rightarrow> machine" where
  "pic_send_eoi irq s =
    (let s = (if irq \<ge> 8 then outp PIC2_CMD PIC_EOI s else s) in outp PIC1_CMD PIC_EOI s)"

section \<open>hw/pit.c\<close>

definition PIT_DATA0 :: u16 where "PIT_DATA0 = 0x40"
definition PIT_CMD :: u16 where "PIT_CMD = 0x43"
definition PIT_COUNTDOWN :: u32 where "PIT_COUNTDOWN = 11932"

definition pit_read_count :: "device \<Rightarrow> machine \<Rightarrow> u16 \<times> machine" where
  "pit_read_count dev s =
    (let (flags, s) = x86_irq_disable s;
         s = outp PIT_CMD 0 s;
         (lo, s) = inp dev PIT_DATA0 s;
         (hi, s) = inp dev PIT_DATA0 s
     in (ucast lo OR push_bit 8 (ucast hi), x86_irq_restore flags s))"

definition pit_init :: "device \<Rightarrow> machine \<Rightarrow> machine" where
  "pit_init dev s =
    (let (flags, s) = x86_irq_disable s;
         val = push_bit 4 3 OR push_bit 1 2;
         s = outp PIT_CMD val s;
         s = outp PIT_DATA0 (ucast PIT_COUNTDOWN) s;
         s = outp PIT_DATA0 (ucast (drop_bit 8 PIT_COUNTDOWN)) s;
         s = pic_send_eoi IRQ_PIT s;
         s = pic_set_mask dev IRQ_PIT False s;
         s = x86_irq_restore flags s
     in say (lit ''PIT started at 100 Hz'' @ [10]) s)"

definition pit_irq :: "machine \<Rightarrow> machine" where
  "pit_irq s = s\<lparr>timer_ticks := timer_ticks s + 1\<rparr>"

definition current_time :: "machine \<Rightarrow> u32" where
  "current_time s = timer_ticks s * 10"

section \<open>The interrupt controller\<close>

text \<open>Initialisation words still expected, mask register, vector base.\<close>

record chip =
  c_icw :: nat
  c_mask :: u8
  c_base :: u8

fun chip_step :: "u16 \<Rightarrow> u16 \<Rightarrow> chip \<Rightarrow> io_event \<Rightarrow> chip" where
  "chip_step cmd data c (PortOut p v) =
    (if p = cmd then (if bit v 4 then c\<lparr>c_icw := 3, c_mask := 0\<rparr> else c)
     else if p = data then
       (if c_icw c = 0 then c\<lparr>c_mask := v\<rparr>
        else if c_icw c = 3 then c\<lparr>c_icw := 2, c_base := v AND 0xF8\<rparr>
        else c\<lparr>c_icw := c_icw c - 1\<rparr>)
     else c)"
| "chip_step cmd data c (PortIn p v) = c"

definition power_on :: chip where "power_on = \<lparr>c_icw = 0, c_mask = 0xFF, c_base = 0\<rparr>"

definition chip :: "u16 \<Rightarrow> u16 \<Rightarrow> io_event list \<Rightarrow> chip" where
  "chip cmd data h = foldl (chip_step cmd data) power_on h"

definition master :: "machine \<Rightarrow> chip" where "master s = chip PIC1_CMD PIC1_DATA (io s)"
definition slave :: "machine \<Rightarrow> chip" where "slave s = chip PIC2_CMD PIC2_DATA (io s)"

definition reads_masks :: "device \<Rightarrow> bool" where
  "reads_masks dev \<longleftrightarrow> (\<forall>h. dev h PIC1_DATA = c_mask (chip PIC1_CMD PIC1_DATA h)
     \<and> dev h PIC2_DATA = c_mask (chip PIC2_CMD PIC2_DATA h))"

lemma chip_snoc [simp]: "chip cmd data (h @ [e]) = chip_step cmd data (chip cmd data h) e"
  by (simp add: chip_def)

lemma ports_distinct [simp]:
  "PIC1_CMD \<noteq> PIC1_DATA" "PIC1_CMD \<noteq> PIC2_CMD" "PIC1_CMD \<noteq> PIC2_DATA" "PIC1_DATA \<noteq> PIC1_CMD" "PIC1_DATA \<noteq> PIC2_CMD"
  "PIC1_DATA \<noteq> PIC2_DATA" "PIC2_CMD \<noteq> PIC1_CMD" "PIC2_CMD \<noteq> PIC1_DATA" "PIC2_CMD \<noteq> PIC2_DATA" "PIC2_DATA \<noteq> PIC1_CMD"
  "PIC2_DATA \<noteq> PIC1_DATA" "PIC2_DATA \<noteq> PIC2_CMD"
  "0x80 \<noteq> PIC1_CMD" "0x80 \<noteq> PIC1_DATA" "0x80 \<noteq> PIC2_CMD" "0x80 \<noteq> PIC2_DATA"
  "PIT_CMD \<noteq> PIC1_CMD" "PIT_CMD \<noteq> PIC1_DATA" "PIT_CMD \<noteq> PIC2_CMD" "PIT_CMD \<noteq> PIC2_DATA"
  "PIT_DATA0 \<noteq> PIC1_CMD" "PIT_DATA0 \<noteq> PIC1_DATA" "PIT_DATA0 \<noteq> PIC2_CMD" "PIT_DATA0 \<noteq> PIC2_DATA"
  by (simp_all add: PIC1_CMD_def PIC1_DATA_def PIC2_CMD_def PIC2_DATA_def PIT_CMD_def PIT_DATA0_def)

lemma icw_bits: "bit (ICW1_INIT OR ICW1_ICW4) 4" "\<not> bit PIC_EOI 4"
  by (simp_all add: ICW1_INIT_def ICW1_ICW4_def PIC_EOI_def bit_simps)

lemma chip_step_simps [simp]:
  "p \<noteq> cmd \<Longrightarrow> p \<noteq> data \<Longrightarrow> chip_step cmd data c (PortOut p v) = c"
  by simp

text \<open>After \<^verbatim>\<open>pic_init\<close>, whatever state the controllers were in, the lines are vectors 0x20 to 0x2f,
  all masked.\<close>

lemma pic_init_chips:
  "master (pic_init dev s) = \<lparr>c_icw = 0, c_mask = 0xFF, c_base = 0x20\<rparr>"
  "slave (pic_init dev s) = \<lparr>c_icw = 0, c_mask = 0xFF, c_base = 0x28\<rparr>"
  by (simp_all add: pic_init_def pic_remap_def inp_eq master_def slave_def Let_def icw_bits del: append_assoc)

section \<open>Masks and acknowledgements\<close>

lemma master_outp:
  "master (outp p v s) = chip_step PIC1_CMD PIC1_DATA (master s) (PortOut p v)"
  "slave (outp p v s) = chip_step PIC2_CMD PIC2_DATA (slave s) (PortOut p v)"
  by (simp_all add: master_def slave_def)

lemma master_inp:
  "master (snd (inp dev p s)) = master s" "slave (snd (inp dev p s)) = slave s"
  by (simp_all add: inp_eq master_def slave_def)

lemma master_other [simp]:
  "master (s\<lparr>kern := k\<rparr>) = master s" "slave (s\<lparr>kern := k\<rparr>) = slave s"
  "master (s\<lparr>vst := v\<rparr>) = master s" "slave (s\<lparr>vst := v\<rparr>) = slave s"
  by (simp_all add: master_def slave_def)

lemma chips_io: "io s' = io s \<Longrightarrow> master s' = master s \<and> slave s' = slave s"
  by (simp add: master_def slave_def)

lemma pic_send_eoi_chips [simp]: "master (pic_send_eoi irq s) = master s" "slave (pic_send_eoi irq s) = slave s"
  by (simp_all add: pic_send_eoi_def Let_def master_outp icw_bits)

text \<open>Bit \<open>n\<close> of the two mask registers taken together: line \<open>n\<close> is masked.\<close>

definition masked :: "machine \<Rightarrow> nat \<Rightarrow> bool" where
  "masked s n = (if n < 8 then bit (c_mask (master s)) n else bit (c_mask (slave s)) (n - 8))"

definition pics_ready :: "machine \<Rightarrow> bool" where
  "pics_ready s \<longleftrightarrow> c_icw (master s) = 0 \<and> c_icw (slave s) = 0 \<and> c_base (master s) = 0x20 \<and> c_base (slave s) = 0x28"

lemma masked_init: "pics_ready (pic_init dev s)" "n < 16 \<Longrightarrow> masked (pic_init dev s) n"
proof -
  have "bit (0xFF :: u8) k" if "k < 8" for k
  proof -
    have "(0xFF :: u8) = mask 8" by (simp add: mask_eq_exp_minus_1)
    then show ?thesis using that by (simp only: bit_mask_iff) simp
  qed
  then show "n < 16 \<Longrightarrow> masked (pic_init dev s) n" by (auto simp: masked_def pic_init_chips)
  show "pics_ready (pic_init dev s)" by (simp add: pics_ready_def pic_init_chips)
qed

lemma mask_bit: "n < 8 \<Longrightarrow> irq < 8 \<Longrightarrow>
    bit (m OR push_bit irq 1 :: u8) n = (n = irq \<or> bit m n)" "n < 8 \<Longrightarrow> irq < 8 \<Longrightarrow>
    bit (m AND NOT (push_bit irq 1) :: u8) n = (n \<noteq> irq \<and> bit m n)"
  by (auto simp: bit_simps)

lemma pic_set_mask_fields [simp]:
  "kern (pic_set_mask dev irq b s) = kern s" "vst (pic_set_mask dev irq b s) = vst s"
  "timer_ticks (pic_set_mask dev irq b s) = timer_ticks s" "key_lshift (pic_set_mask dev irq b s) = key_lshift s"
  by (simp_all add: pic_set_mask_def Let_def inp_eq split: prod.split)

definition new_mask :: "u8 \<Rightarrow> nat \<Rightarrow> bool \<Rightarrow> u8" where
  "new_mask m i b = (if b then m OR push_bit i 1 else m AND NOT (push_bit i 1))"

lemma bit_new_mask: "n < 8 \<Longrightarrow> i < 8 \<Longrightarrow> bit (new_mask m i b) n = (if n = i then b else bit m n)"
  using mask_bit [of n i m] by (auto simp: new_mask_def)

lemma pic_set_mask_eq:
  "irq < 8 \<Longrightarrow> pic_set_mask dev irq b s =
    outp PIC1_DATA (new_mask (dev (io s) PIC1_DATA) (unat irq) b) (snd (inp dev PIC1_DATA s))"
  "\<not> irq < 8 \<Longrightarrow> pic_set_mask dev irq b s =
    outp PIC2_DATA (new_mask (dev (io s) PIC2_DATA) (unat (irq - 8)) b) (snd (inp dev PIC2_DATA s))"
  by (simp_all add: pic_set_mask_def inp_eq new_mask_def Let_def)

lemma pic_set_mask_chips:
  assumes "reads_masks dev" "pics_ready s"
  shows "irq < 8 \<Longrightarrow> master (pic_set_mask dev irq b s) = (master s)\<lparr>c_mask := new_mask (c_mask (master s)) (unat irq) b\<rparr>
      \<and> slave (pic_set_mask dev irq b s) = slave s"
    "\<not> irq < 8 \<Longrightarrow> slave (pic_set_mask dev irq b s) = (slave s)\<lparr>c_mask := new_mask (c_mask (slave s)) (unat (irq - 8)) b\<rparr>
      \<and> master (pic_set_mask dev irq b s) = master s"
proof -
  have r: "dev (io s) PIC1_DATA = c_mask (master s)" "dev (io s) PIC2_DATA = c_mask (slave s)"
    using assms(1) by (simp_all add: reads_masks_def master_def slave_def)
  show "irq < 8 \<Longrightarrow> master (pic_set_mask dev irq b s) = (master s)\<lparr>c_mask := new_mask (c_mask (master s)) (unat irq) b\<rparr>
      \<and> slave (pic_set_mask dev irq b s) = slave s"
    using assms(2) by (simp add: pic_set_mask_eq r master_outp master_inp pics_ready_def)
  show "\<not> irq < 8 \<Longrightarrow> slave (pic_set_mask dev irq b s) = (slave s)\<lparr>c_mask := new_mask (c_mask (slave s)) (unat (irq - 8)) b\<rparr>
      \<and> master (pic_set_mask dev irq b s) = master s"
    using assms(2) by (simp add: pic_set_mask_eq r master_outp master_inp pics_ready_def)
qed

lemma pic_set_mask_line:
  assumes "reads_masks dev" "pics_ready s" "irq < 16" "n < 16"
  shows "masked (pic_set_mask dev irq b s) n = (if n = unat irq then b else masked s n)" "pics_ready (pic_set_mask dev irq b s)"
proof -
  have u: "unat irq < 16" using assms(3) by (simp add: word_less_nat_alt)
  note C = pic_set_mask_chips [OF assms(1,2), of irq b]
  show "masked (pic_set_mask dev irq b s) n = (if n = unat irq then b else masked s n)"
  proof (cases "irq < 8")
    case True
    then have "unat irq < 8" by (simp add: word_less_nat_alt)
    then show ?thesis using C(1) [OF True] bit_new_mask [of n "unat irq"] bit_new_mask [of "unat irq" "unat irq"] by (simp add: masked_def)
  next
    case False
    then have i: "\<not> unat irq < 8" "unat (irq - 8) = unat irq - 8" by (simp_all add: word_less_nat_alt unat_sub word_le_nat_alt)
    then show ?thesis using C(2) [OF False] bit_new_mask [of "n - 8" "unat irq - 8"] u assms(4)
      by (auto simp: masked_def)
  qed
  show "pics_ready (pic_set_mask dev irq b s)"
    using assms(2) C by (cases "irq < 8") (auto simp: pics_ready_def)
qed

section \<open>Timer\<close>

lemma x86_irq_fields [simp]:
  "io (snd (x86_irq_disable s)) = io s" "io (x86_irq_restore f s) = io s"
  by (simp_all add: x86_irq_disable_def x86_irq_restore_def)

text \<open>\<^verbatim>\<open>pit_init\<close> programs channel 0 as a rate generator with the divisor 11932, enables the timer's
  line and prints; the interrupt flag comes back as it was.\<close>

lemma pit_init_ok:
  assumes "reads_masks dev" "pics_ready s" "on_screen (vst s)"
  shows "pics_ready (pit_init dev s)" "n < 16 \<Longrightarrow> masked (pit_init dev s) n = (n \<noteq> 0 \<and> masked s n)"
    "irq_on (kern (pit_init dev s)) = irq_on (kern s)" "on_screen (vst (pit_init dev s))"
    "scr (pit_init dev s) = scr_text (scr s) (lit ''PIT started at 100 Hz'' @ [10])"
    "timer_ticks (pit_init dev s) = timer_ticks s"
    "\<exists>h. io (pit_init dev s) = io s @ [PortOut PIT_CMD 0x34, PortOut PIT_DATA0 0x9C, PortOut PIT_DATA0 0x2E] @ h"
    "kern (pit_init dev s) = (kern s)\<lparr>kmem := kmem (kern (pit_init dev s))\<rparr>"
    "frame vga_region (kmem (kern s)) (kmem (kern (pit_init dev s)))"
proof -
  let ?s1 = "s\<lparr>kern := x86_cli (kern s)\<rparr>"
  let ?s2 = "outp PIT_DATA0 0x2E (outp PIT_DATA0 0x9C (outp PIT_CMD 0x34 ?s1))"
  let ?s3 = "pic_set_mask dev IRQ_PIT False (pic_send_eoi IRQ_PIT ?s2)"
  let ?s4 = "x86_irq_restore (irq_on (kern s)) ?s3"
  let ?t = "lit ''PIT started at 100 Hz'' @ [10]"
  have low: "(11932 :: u8) = 0x9C" by (simp add: word_unat_eq_iff)
  have e: "pit_init dev s = say ?t ?s4"
    by (simp add: pit_init_def x86_irq_disable_def Let_def PIT_COUNTDOWN_def low)
  have k: "kern ?s4 = kern s" "vst ?s4 = vst s" "timer_ticks ?s4 = timer_ticks s"
    by (simp_all add: x86_irq_restore_def pic_send_eoi_def x86_cli_def Let_def)
  have "says ?t ?s4 (say ?t ?s4)"
    using assms(3) k(2) by (intro say_says) auto
  note S = this says_fields [OF this]
  have c: "master (pit_init dev s) = master ?s3 \<and> slave (pit_init dev s) = slave ?s3"
    by (rule chips_io) (simp only: e S(2) x86_irq_fields)
  have p2: "pics_ready (pic_send_eoi IRQ_PIT ?s2)" "masked (pic_send_eoi IRQ_PIT ?s2) n = masked s n" for n
    using assms(2) by (simp_all add: pics_ready_def masked_def master_outp)
  note M = pic_set_mask_line [OF assms(1) p2(1), of IRQ_PIT _ False]
  have l: "IRQ_PIT < 16" "unat IRQ_PIT = 0" by (simp_all add: IRQ_PIT_def)
  have M1: "masked ?s3 k = (k \<noteq> 0 \<and> masked s k)" if "k < 16" for k
    using M(1) [OF l(1) that] unfolding l p2(2) by auto
  have same: "masked (pit_init dev s) k = masked ?s3 k" for k by (simp only: masked_def c)
  show "pics_ready (pit_init dev s)" using M(2) [OF l(1), of 0] by (simp only: pics_ready_def c)
  show "n < 16 \<Longrightarrow> masked (pit_init dev s) n = (n \<noteq> 0 \<and> masked s n)" by (simp only: same M1)
  show "irq_on (kern (pit_init dev s)) = irq_on (kern s)" "timer_ticks (pit_init dev s) = timer_ticks s"
    using S k by (simp_all add: e)
  show "on_screen (vst (pit_init dev s))" using S(1) by (simp add: e says_def)
  show "scr (pit_init dev s) = scr_text (scr s) ?t" using S(1) k by (simp add: e says_def scr_def)
  show "kern (pit_init dev s) = (kern s)\<lparr>kmem := kmem (kern (pit_init dev s))\<rparr>"
    using says_kern [OF S(1)] unfolding e k .
  show "frame vga_region (kmem (kern s)) (kmem (kern (pit_init dev s)))" using S(1) unfolding e says_def k by blast
  show "\<exists>h. io (pit_init dev s) = io s @ [PortOut PIT_CMD 0x34, PortOut PIT_DATA0 0x9C, PortOut PIT_DATA0 0x2E] @ h"
    by (simp only: e S(2)) (simp add: pic_set_mask_def pic_send_eoi_def inp_eq Let_def split: prod.split)
qed

end
