(* ===== verification/Keyboard.thy ===== *)
theory Keyboard
  imports Pic
begin

text \<open>
  The keyboard driver, \<^verbatim>\<open>hw/keyboard.c\<close>: the i8042 controller's command protocol and the
  translation of scan codes into characters for the console. The busy-wait \<^verbatim>\<open>delay\<close> has no effect
  on the state and is left out; the \<^verbatim>\<open>TRACE\<close> lines print the function and the line number.
\<close>

section \<open>The controller\<close>

definition I8042_COMMAND_REG :: u16 where "I8042_COMMAND_REG = 0x64"
definition I8042_STATUS_REG :: u16 where "I8042_STATUS_REG = 0x64"
definition I8042_DATA_REG :: u16 where "I8042_DATA_REG = 0x60"
definition I8042_CTL_TIMEOUT :: nat where "I8042_CTL_TIMEOUT = 500"
definition I8042_STR_AUXDATA :: u8 where "I8042_STR_AUXDATA = 0x20"
definition I8042_STR_IBF :: u8 where "I8042_STR_IBF = 0x02"
definition I8042_STR_OBF :: u8 where "I8042_STR_OBF = 0x01"
definition I8042_CTR_KBDINT :: u8 where "I8042_CTR_KBDINT = 0x01"
definition I8042_CTR_KBDDIS :: u8 where "I8042_CTR_KBDDIS = 0x10"
definition I8042_CTR_XLATE :: u8 where "I8042_CTR_XLATE = 0x40"
definition I8042_CMD_CTL_RCTR :: u32 where "I8042_CMD_CTL_RCTR = 0x0120"
definition I8042_CMD_CTL_WCTR :: u32 where "I8042_CMD_CTL_WCTR = 0x1060"
definition I8042_BUFFER_LENGTH :: nat where "I8042_BUFFER_LENGTH = 32"

definition i8042_read_data :: "device \<Rightarrow> machine \<Rightarrow> u8 \<times> machine" where
  "i8042_read_data dev s = inp dev I8042_DATA_REG s"

definition i8042_read_status :: "device \<Rightarrow> machine \<Rightarrow> u8 \<times> machine" where
  "i8042_read_status dev s = inp dev I8042_STATUS_REG s"

definition i8042_write_data :: "u8 \<Rightarrow> machine \<Rightarrow> machine" where
  "i8042_write_data val s = outp I8042_DATA_REG val s"

definition i8042_write_command :: "u8 \<Rightarrow> machine \<Rightarrow> machine" where
  "i8042_write_command val s = outp I8042_COMMAND_REG val s"

text \<open>The polling loop the two waits share: read the status, go on while busy and below the
  timeout.\<close>

function (sequential) i8042_poll :: "device \<Rightarrow> (u8 \<Rightarrow> bool) \<Rightarrow> nat \<Rightarrow> machine \<Rightarrow> nat \<times> machine" where
  "i8042_poll dev busy i s =
    (let (st, s) = i8042_read_status dev s
     in if busy st \<and> i < I8042_CTL_TIMEOUT then i8042_poll dev busy (i + 1) s else (i, s))"
  by pat_completeness auto
termination by (relation "measure (\<lambda>(_, _, i, _). I8042_CTL_TIMEOUT - i)") auto

declare i8042_poll.simps [simp del]

definition i8042_wait_read :: "device \<Rightarrow> machine \<Rightarrow> int \<times> machine" where
  "i8042_wait_read dev s =
    (let (i, s) = i8042_poll dev (\<lambda>st. NOT st AND I8042_STR_OBF \<noteq> 0) 0 s
     in (if i = I8042_CTL_TIMEOUT then - 1 else 0, s))"

definition i8042_wait_write :: "device \<Rightarrow> machine \<Rightarrow> int \<times> machine" where
  "i8042_wait_write dev s =
    (let (i, s) = i8042_poll dev (\<lambda>st. st AND I8042_STR_IBF \<noteq> 0) 0 s
     in (if i = I8042_CTL_TIMEOUT then - 1 else 0, s))"

definition flush_text :: "nat \<Rightarrow> u8 list" where
  "flush_text i = fmt_text [(lit ''i8042_flush '', Dec plain_spec (of_nat i))] [10]"

function (sequential) i8042_flush_loop :: "device \<Rightarrow> nat \<Rightarrow> machine \<Rightarrow> nat \<times> machine" where
  "i8042_flush_loop dev i s =
    (let (st, s) = i8042_read_status dev s
     in if st AND I8042_STR_OBF \<noteq> 0 then
          (if i < I8042_BUFFER_LENGTH then
             (let s = say (flush_text (i + 1)) s;
                  (_, s) = i8042_read_data dev s
              in i8042_flush_loop dev (i + 1) s)
           else (i + 1, s))
        else (i, s))"
  by pat_completeness auto
termination by (relation "measure (\<lambda>(_, i, _). I8042_BUFFER_LENGTH - i)") auto

declare i8042_flush_loop.simps [simp del]

definition i8042_flush :: "device \<Rightarrow> machine \<Rightarrow> nat \<times> machine" where
  "i8042_flush dev s = (let (i, s) = i8042_flush_loop dev 0 (m_enter s) in (i, m_exit s))"

text \<open>
  The two loops of \<^verbatim>\<open>i8042_command\<close> over its parameter bytes: \<open>n\<close> bytes are still to be
  sent, or received, from index \<open>i\<close> on.
\<close>

fun command_write :: "device \<Rightarrow> u8 list \<Rightarrow> nat \<Rightarrow> nat \<Rightarrow> machine \<Rightarrow> int \<times> machine" where
  "command_write dev param i 0 s = (0, s)"
| "command_write dev param i (Suc n) s =
    (let (retval, s) = i8042_wait_write dev s
     in if retval \<noteq> 0 then (retval, s)
        else command_write dev param (i + 1) n (i8042_write_data (param ! i) s))"

fun command_read :: "device \<Rightarrow> u8 list \<Rightarrow> nat \<Rightarrow> nat \<Rightarrow> machine \<Rightarrow> int \<times> u8 list \<times> machine" where
  "command_read dev param i 0 s = (0, param, s)"
| "command_read dev param i (Suc n) s =
    (let (retval, s) = i8042_wait_read dev s
     in if retval \<noteq> 0 then (retval, param, s)
        else (let (st, s) = i8042_read_status dev s;
                  (d, s) = i8042_read_data dev s;
                  param = param[i := (if st AND I8042_STR_AUXDATA \<noteq> 0 then NOT d else d)]
              in command_read dev param (i + 1) n s))"

definition i8042_command :: "device \<Rightarrow> u8 list \<Rightarrow> u32 \<Rightarrow> machine \<Rightarrow> int \<times> u8 list \<times> machine" where
  "i8042_command dev param command s =
    (let s = m_enter s;
         (retval, s) = i8042_wait_write dev s;
         s = (if retval = 0 then i8042_write_command (ucast (command AND 0xFF)) s else s);
         (retval, s) = (if retval = 0 then command_write dev param 0 (unat (drop_bit 12 command AND 0xF)) s
                        else (retval, s));
         (retval, param, s) =
           (if retval = 0 then command_read dev param 0 (unat (drop_bit 8 (command AND 0xF0))) s
            else (retval, param, s))
     in (retval, param, m_exit s))"

section \<open>Scan codes\<close>

definition SCANCODE_LSHIFT :: u8 where "SCANCODE_LSHIFT = 0x2A"
definition SCANCODE_RSHIFT :: u8 where "SCANCODE_RSHIFT = 0x36"

text \<open>A character constant of the tables; \<open>- 1\<close> is a key without character, 8, 9, 10, 34, 39 and 92
  are backspace, tab, newline, the two quotes and the backslash. Rows 4 to 7 are all \<open>- 1\<close>.\<close>

abbreviation kc :: "char \<Rightarrow> int" where "kc \<equiv> of_char"

definition KeyCodeSingleLower :: "int list" where
  "KeyCodeSingleLower =
    [- 1, - 1, kc CHR ''1'', kc CHR ''2'', kc CHR ''3'', kc CHR ''4'', kc CHR ''5'', kc CHR ''6'', kc CHR ''7'', kc CHR ''8'', kc CHR ''9'', kc CHR ''0'', kc CHR ''-'', kc CHR ''='', 8, 9,
     kc CHR ''q'', kc CHR ''w'', kc CHR ''e'', kc CHR ''r'', kc CHR ''t'', kc CHR ''y'', kc CHR ''u'', kc CHR ''i'', kc CHR ''o'', kc CHR ''p'', kc CHR ''['', kc CHR '']'', 10, - 1, kc CHR ''a'', kc CHR ''s'',
     kc CHR ''d'', kc CHR ''f'', kc CHR ''g'', kc CHR ''h'', kc CHR ''j'', kc CHR ''k'', kc CHR ''l'', kc CHR '';'', 39, kc CHR 0x60, - 1, 92, kc CHR ''z'', kc CHR ''x'', kc CHR ''c'', kc CHR ''v'',
     kc CHR ''b'', kc CHR ''n'', kc CHR ''m'', kc CHR '','', kc CHR ''.'', kc CHR ''/'', - 1, kc CHR ''*'', - 1, kc CHR '' '', - 1, - 1, - 1, - 1, - 1, - 1] @ replicate 64 (- 1)"

definition KeyCodeMultiLower :: "int list" where
  "KeyCodeMultiLower = replicate 128 (- 1)"

definition KeyCodeSingleUpper :: "int list" where
  "KeyCodeSingleUpper =
    [- 1, - 1, kc CHR ''!'', kc CHR ''@'', kc CHR ''#'', kc CHR ''$'', kc CHR ''%'', kc CHR ''^'', kc CHR ''&'', kc CHR ''*'', kc CHR ''('', kc CHR '')'', kc CHR ''_'', kc CHR ''+'', 8, 9,
     kc CHR ''Q'', kc CHR ''W'', kc CHR ''E'', kc CHR ''R'', kc CHR ''T'', kc CHR ''Y'', kc CHR ''U'', kc CHR ''I'', kc CHR ''O'', kc CHR ''P'', kc CHR ''{'', kc CHR ''}'', 10, - 1, kc CHR ''A'', kc CHR ''S'',
     kc CHR ''D'', kc CHR ''F'', kc CHR ''G'', kc CHR ''H'', kc CHR ''J'', kc CHR ''K'', kc CHR ''L'', kc CHR '':'', 34, kc CHR ''~'', - 1, kc CHR ''|'', kc CHR ''Z'', kc CHR ''X'', kc CHR ''C'', kc CHR ''V'',
     kc CHR ''B'', kc CHR ''N'', kc CHR ''M'', kc CHR ''<'', kc CHR ''>'', kc CHR ''?'', - 1, kc CHR ''*'', - 1, kc CHR '' '', - 1, - 1, - 1, - 1, - 1, - 1] @ replicate 64 (- 1)"

definition KeyCodeMultiUpper :: "int list" where
  "KeyCodeMultiUpper = replicate 128 (- 1)"

definition m_console_input :: "u8 \<Rightarrow> machine \<Rightarrow> machine" where
  "m_console_input c s = (let (m, v) = console_input c (kmem (kern s)) (vst s)
    in s\<lparr>kern := (kern s)\<lparr>kmem := m\<rparr>, vst := v\<rparr>)"

definition process_scode :: "u8 \<Rightarrow> machine \<Rightarrow> machine" where
  "process_scode scode s =
    (let multi = (lastCode s = 0xE0);
         keyUpBit = scode AND 0x80;
         scode = scode AND 0x7F;
         s = (if scode = SCANCODE_LSHIFT then s\<lparr>key_lshift := (keyUpBit = 0)\<rparr> else s);
         s = (if scode = SCANCODE_RSHIFT then s\<lparr>key_rshift := (keyUpBit = 0)\<rparr> else s);
         keyCode = (if key_lshift s \<or> key_rshift s
                    then (if multi then KeyCodeMultiUpper ! unat scode else KeyCodeSingleUpper ! unat scode)
                    else (if multi then KeyCodeMultiLower ! unat scode else KeyCodeSingleLower ! unat scode));
         s = (if keyCode \<noteq> - 1 \<and> keyUpBit = 0 then m_console_input (of_int keyCode) s else s)
     in s\<lparr>lastCode := ucast scode\<rparr>)"

definition keyboard_irq :: "device \<Rightarrow> machine \<Rightarrow> machine" where
  "keyboard_irq dev s =
    (let (str, s) = i8042_read_status dev s
     in if str AND I8042_STR_OBF \<noteq> 0 then
          (let (data, s) = i8042_read_data dev s in process_scode data s)
        else s)"

section \<open>Initialisation\<close>

definition trace_line :: "nat \<Rightarrow> machine \<Rightarrow> machine" where
  "trace_line n s = say (fmt_text [(lit ''keyboard_init:'', Dec plain_spec (of_nat n))] [10]) s"

definition keyboard_init :: "device \<Rightarrow> machine \<Rightarrow> machine" where
  "keyboard_init dev s =
    (let s = trace_line 287 s;
         (_, s) = i8042_flush dev s;
         s = trace_line 290 s;
         (err, param, s) = i8042_command dev [0] I8042_CMD_CTL_RCTR s
     in if err \<noteq> 0 then say (lit ''Failed to read CTR while initializing i8042'' @ [10]) s
        else
          (let s = trace_line 296 s;
               ctr = hd param OR I8042_CTR_XLATE;
               ctr = ctr AND NOT I8042_CTR_KBDDIS;
               ctr = ctr OR I8042_CTR_KBDINT;
               s = trace_line 305 s;
               (err, param, s) = i8042_command dev [ctr] I8042_CMD_CTL_WCTR s
           in if err \<noteq> 0 then say (lit ''Failed to write CTR while initializing i8042'' @ [10]) s
              else
                (let s = trace_line 311 s;
                     s = pic_send_eoi IRQ_KEYBOARD s;
                     s = pic_set_mask dev IRQ_KEYBOARD False s
                 in trace_line 315 s)))"

end
