(* ===== verification/KeyText.thy ===== *)
theory KeyText
  imports Keyboard
begin

text \<open>
  Typing on the keyboard: the scan codes a US layout sends for a text, and what the driver makes
  of them; the extended-key prefix; the transcripts of the controller protocol.
\<close>

section \<open>Keys\<close>

text \<open>
  The layout: the characters of a row of keys without and with shift, from the scan code (of set 1)
  of its first key on. The rows of the 101-key US keyboard are the digits, the three rows of letters
  (the last one starts with the backslash), the space bar, backspace and tab, and enter.
\<close>

definition us_rows :: "(u8 \<times> string \<times> string) list" where
  "us_rows =
    [(0x02, ''1234567890-='', ''!@#$%^&*()_+''),
     (0x10, ''qwertyuiop[]'', ''QWERTYUIOP{}''),
     (0x1E, ''asdfghjkl;'' @ [CHR 0x27, CHR 0x60], ''ASDFGHJKL:'' @ [CHR 0x22, CHR 0x7E]),
     (0x2B, CHR 0x5C # ''zxcvbnm,./'', CHR 0x7C # ''ZXCVBNM<>?''),
     (0x39, '' '', []),
     (0x0E, [CHR 0x08, CHR 0x09], []),
     (0x1C, [CHR 0x0A], [])]"

definition row_keys :: "bool \<Rightarrow> u8 \<Rightarrow> string \<Rightarrow> (u8 \<times> bool \<times> u8) list" where
  "row_keys shift code cs = map (\<lambda>k. (ch (cs ! k), shift, code + of_nat k)) [0..<length cs]"

definition us_keys :: "(u8 \<times> bool \<times> u8) list" where
  "us_keys = concat (map (\<lambda>(code, lower, upper). row_keys False code lower @ row_keys True code upper) us_rows)"

definition key_for :: "u8 \<Rightarrow> (bool \<times> u8) option" where
  "key_for c = map_of us_keys c"

text \<open>Press and release of the key, inside press and release of the left shift key when it is needed.\<close>

definition press :: "u8 \<Rightarrow> u8 list" where
  "press c = (case key_for c of None \<Rightarrow> []
     | Some (sh, i) \<Rightarrow> if sh then [0x2A, i, i OR 0x80, 0xAA] else [i, i OR 0x80])"

definition typable :: "u8 \<Rightarrow> bool" where "typable c \<longleftrightarrow> key_for c \<noteq> None"

lemma tables_length [simp]: "length KeyCodeSingleLower = 128" "length KeyCodeSingleUpper = 128"
  by (simp_all add: KeyCodeSingleLower_def KeyCodeSingleUpper_def)

text \<open>The driver's tables have the layout's character at every key.\<close>

lemma us_keys_in_tables:
  "list_all (\<lambda>(c, sh, i). unat i < 128 \<and> (if sh then KeyCodeSingleUpper else KeyCodeSingleLower) ! unat i = uint c
     \<and> c \<noteq> 0 \<and> i \<noteq> 0x2A \<and> i \<noteq> 0x36) us_keys"
  by code_simp

lemma shift_keys: "KeyCodeSingleLower ! 0x2A = - 1" "KeyCodeSingleLower ! 0x36 = - 1"
  "KeyCodeSingleUpper ! 0x2A = - 1" "KeyCodeSingleUpper ! 0x36 = - 1"
  by (simp_all add: KeyCodeSingleLower_def KeyCodeSingleUpper_def)

lemma key_forD:
  assumes "key_for c = Some (sh, i)"
  shows "unat i < 128" "(if sh then KeyCodeSingleUpper else KeyCodeSingleLower) ! unat i = uint c" "c \<noteq> 0"
    "i \<noteq> 0x2A" "i \<noteq> 0x36"
proof -
  have "(c, sh, i) \<in> set us_keys" using assms by (simp add: key_for_def map_of_SomeD)
  with us_keys_in_tables have "unat i < 128 \<and> (if sh then KeyCodeSingleUpper else KeyCodeSingleLower) ! unat i = uint c
      \<and> c \<noteq> 0 \<and> i \<noteq> 0x2A \<and> i \<noteq> 0x36" unfolding list_all_iff by blast
  then show "unat i < 128" "(if sh then KeyCodeSingleUpper else KeyCodeSingleLower) ! unat i = uint c" "c \<noteq> 0"
    "i \<noteq> 0x2A" "i \<noteq> 0x36" by blast+
qed

lemma scode_bits:
  assumes "unat (i :: u8) < 128"
  shows "i AND 0x7F = i" "i AND 0x80 = 0" "(i OR 0x80) AND 0x7F = i" "(i OR 0x80) AND 0x80 \<noteq> 0"
proof -
  have "take_bit 7 i = i" using assms by (simp add: word_unat_eq_iff unsigned_take_bit_eq take_bit_nat_eq_self)
  then have n: "\<not> bit i n" if "7 \<le> n" for n using that by (metis bit_take_bit_iff not_le)
  have n': "bit i n \<Longrightarrow> n < 7" for n using n not_le by blast
  have m: "bit (0x7F :: u8) n \<longleftrightarrow> n < 7" for n
  proof -
    have "(0x7F :: u8) = mask 7" by (simp add: mask_eq_exp_minus_1)
    then show ?thesis by (simp only: bit_mask_iff) auto
  qed
  have k: "bit (0x80 :: u8) n \<longleftrightarrow> n = 7" for n
  proof -
    have "(0x80 :: u8) = push_bit 7 1" by simp
    then show ?thesis by (simp only: bit_simps) auto
  qed
  have e: "bit (i AND 0x7F) x = bit i x" "bit (i AND 0x80) x = False" "bit ((i OR 0x80) AND 0x7F) x = bit i x" for x
    unfolding bit_and_iff bit_or_iff m k using n' [of x] by auto
  show "i AND 0x7F = i" "i AND 0x80 = 0" "(i OR 0x80) AND 0x7F = i"
    by (rule bit_eqI, simp only: e bit_0_eq bot_apply bot_bool_def)+
  have "bit ((i OR 0x80) AND 0x80) 7" by (simp add: bit_simps k)
  then show "(i OR 0x80) AND 0x80 \<noteq> 0" by (auto simp del: bit_and_iff)
qed

section \<open>What a key does\<close>

text \<open>\<open>shown bs s s'\<close>: \<open>bs\<close> went to the console, no shift key is down and no prefix is pending.\<close>

definition idle_keys :: "machine \<Rightarrow> bool" where
  "idle_keys s \<longleftrightarrow> \<not> key_lshift s \<and> \<not> key_rshift s \<and> lastCode s \<noteq> 0xE0"

definition shown :: "u8 list \<Rightarrow> machine \<Rightarrow> machine \<Rightarrow> bool" where
  "shown bs s s' \<longleftrightarrow> on_screen (vst s') \<and> scr s' = scr_text (scr s) bs \<and> frame vga_region (kmem (kern s)) (kmem (kern s'))
     \<and> timer_ticks s' = timer_ticks s \<and> irq_on (kern s') = irq_on (kern s)"

lemma shown_refl: "on_screen (vst s) \<Longrightarrow> shown [] s s"
  by (simp add: shown_def)

lemma shown_trans: "shown as s s1 \<Longrightarrow> shown bs s1 s2 \<Longrightarrow> shown (as @ bs) s s2"
  by (auto simp: shown_def intro: frame_trans)

lemma says_shown: "says bs s s' \<Longrightarrow> shown bs s s'"
  using says_fields [of bs s s'] by (auto simp: says_def shown_def)

lemma shown_fields [simp]:
  "shown bs (s\<lparr>key_lshift := a\<rparr>) s' = shown bs s s'" "shown bs s (s'\<lparr>key_lshift := a\<rparr>) = shown bs s s'"
  "shown bs s (s'\<lparr>lastCode := c\<rparr>) = shown bs s s'" "shown bs (s\<lparr>lastCode := c\<rparr>) s' = shown bs s s'"
  "shown bs s (s'\<lparr>io := h\<rparr>) = shown bs s s'" "shown bs (s\<lparr>io := h\<rparr>) s' = shown bs s s'"
  by (simp_all add: shown_def scr_def)

lemma m_console_input_says:
  assumes "on_screen (vst s)" "c \<noteq> 0"
  shows "says [c] s (m_console_input c s)"
proof -
  obtain m' v' where r: "console_write [c] 1 True (kmem (kern s)) (vst s) = (1, m', v')" "console_run (kmem (kern s)) (vst s) [c] m' v'"
    using console_write_run [OF assms(1), of "[c]" "[c]" 1 "kmem (kern s)"] assms(2) by auto
  then show ?thesis by (simp add: m_console_input_def console_input_def says_def scr_def console_run_def)
qed

lemma m_console_input_keys:
  "io (m_console_input c s) = io s" "key_lshift (m_console_input c s) = key_lshift s"
  "key_rshift (m_console_input c s) = key_rshift s" "lastCode (m_console_input c s) = lastCode s"
  by (simp_all add: m_console_input_def split: prod.split)

text \<open>The four kinds of scan code of a text.\<close>

lemma process_make:
  assumes k: "key_for c = Some (sh, i)" and l: "lastCode s \<noteq> 0xE0" "sh = (key_lshift s \<or> key_rshift s)"
  shows "process_scode i s = (m_console_input c s)\<lparr>lastCode := ucast i\<rparr>"
proof -
  note K = key_forD [OF k]
  have b: "i AND 0x7F = i" "i AND 0x80 = 0" using scode_bits [OF K(1)] by auto
  have code: "uint c \<noteq> - 1" "of_int (uint c) = c" using uint_ge_0 [of c] by (linarith, simp)
  show ?thesis using l K(2,4,5) code
    by (auto simp: process_scode_def b SCANCODE_LSHIFT_def SCANCODE_RSHIFT_def Let_def split: if_splits)
qed

lemma process_break:
  assumes "unat i < 128" "i \<noteq> 0x2A" "i \<noteq> 0x36"
  shows "process_scode (i OR 0x80) s = s\<lparr>lastCode := ucast i\<rparr>"
  using scode_bits(3,4) [OF assms(1)] assms(2,3)
  by (simp add: process_scode_def SCANCODE_LSHIFT_def SCANCODE_RSHIFT_def Let_def)

lemma process_shift:
  assumes "lastCode s \<noteq> 0xE0"
  shows "process_scode 0x2A s = s\<lparr>key_lshift := True, lastCode := 0x2A\<rparr>"
    "process_scode 0xAA s = s\<lparr>key_lshift := False, lastCode := 0x2A\<rparr>"
  using assms shift_keys by (simp_all add: process_scode_def SCANCODE_LSHIFT_def SCANCODE_RSHIFT_def Let_def)

lemma code_not_prefix: "unat (i :: u8) < 128 \<Longrightarrow> ucast i \<noteq> (0xE0 :: u32)"
proof
  assume "unat i < 128" "ucast i = (0xE0 :: u32)"
  then have "unat (ucast i :: u32) = 0xE0" by simp
  then show False using \<open>unat i < 128\<close> by (simp add: unsigned_ucast_eq take_bit_nat_eq_self)
qed

definition scodes :: "u8 list \<Rightarrow> machine \<Rightarrow> machine" where
  "scodes bs s = foldl (\<lambda>s b. process_scode b s) s bs"

lemma press_shows:
  assumes "typable c" "idle_keys s" "on_screen (vst s)"
  shows "shown [c] s (scodes (press c) s) \<and> idle_keys (scodes (press c) s) \<and> io (scodes (press c) s) = io s"
proof -
  obtain sh i where k: "key_for c = Some (sh, i)" using assms(1) by (auto simp: typable_def)
  note K = key_forD [OF k] and P = code_not_prefix [OF key_forD(1) [OF k]]
  let ?s0 = "if sh then s\<lparr>key_lshift := True, lastCode := 0x2A\<rparr> else s"
  let ?s1 = "(m_console_input c ?s0)\<lparr>lastCode := ucast i\<rparr>"
  have l0: "lastCode ?s0 \<noteq> 0xE0" "sh = (key_lshift ?s0 \<or> key_rshift ?s0)" using assms(2) by (auto simp: idle_keys_def)
  have v: "on_screen (vst ?s0)" using assms(3) by simp
  have sh1: "shown [c] s ?s1" using says_shown [OF m_console_input_says [OF v K(3)]] by (cases sh) simp_all
  have "scodes (press c) s = (if sh then ?s1\<lparr>key_lshift := False, lastCode := 0x2A\<rparr> else ?s1)"
    using process_make [OF k l0] process_break [OF K(1,4,5), of ?s1] process_shift(1) [of s] process_shift(2) [of ?s1] P assms(2)
    by (auto simp: press_def k scodes_def idle_keys_def)
  then show ?thesis using sh1 assms(2) P by (auto simp: idle_keys_def m_console_input_keys)
qed

lemma typing_shows:
  "\<forall>c\<in>set cs. typable c \<Longrightarrow> idle_keys s \<Longrightarrow> on_screen (vst s) \<Longrightarrow>
    shown cs s (scodes (concat (map press cs)) s) \<and> idle_keys (scodes (concat (map press cs)) s)"
proof (induction cs arbitrary: s)
  case Nil
  then show ?case by (simp add: shown_refl scodes_def)
next
  case (Cons c cs)
  let ?s = "scodes (press c) s"
  have 1: "shown [c] s ?s" "idle_keys ?s" using press_shows [of c s] Cons.prems by auto
  then have "on_screen (vst ?s)" by (simp add: shown_def)
  with Cons.IH [of ?s] 1 Cons.prems have "shown cs ?s (scodes (concat (map press cs)) ?s) \<and> idle_keys (scodes (concat (map press cs)) ?s)"
    by simp
  moreover have "scodes (concat (map press (c # cs))) s = scodes (concat (map press cs)) ?s" by (simp add: scodes_def)
  ultimately show ?case using shown_trans [OF 1(1)] by simp
qed

section \<open>The extended-key prefix\<close>

text \<open>The state keeps the code without its top bit, so it is never 0xe0.\<close>

lemma lastCode_no_prefix: "lastCode (process_scode b s) \<noteq> 0xE0"
proof -
  have u: "unat (b AND 0x7F) \<le> 127"
  proof -
    have "(0x7F :: u8) = mask 7" by (simp add: mask_eq_exp_minus_1)
    then have "b AND 0x7F = take_bit 7 b" by (simp only: take_bit_eq_mask)
    moreover have "take_bit 7 (unat b) < 2 ^ 7" by (rule take_bit_nat_less_exp)
    ultimately show ?thesis by (simp only: unsigned_take_bit_eq) simp
  qed
  have "lastCode (process_scode b s) = ucast (b AND 0x7F)" by (simp add: process_scode_def Let_def)
  then show ?thesis using code_not_prefix [of "b AND 0x7F"] u by simp
qed

lemma prefix_dropped: "lastCode s \<noteq> 0xE0 \<Longrightarrow> process_scode b (process_scode 0xE0 s) = process_scode b s"
proof -
  assume l: "lastCode s \<noteq> 0xE0"
  have "process_scode 0xE0 s = s\<lparr>lastCode := 0x60\<rparr>"
    by (simp add: process_scode_def SCANCODE_LSHIFT_def SCANCODE_RSHIFT_def Let_def)
  then show ?thesis using l by (simp add: process_scode_def Let_def m_console_input_def split: prod.split)
qed

section \<open>Transcripts of the controller protocol\<close>

definition adds :: "(io_event \<Rightarrow> bool) \<Rightarrow> machine \<Rightarrow> machine \<Rightarrow> bool" where
  "adds P s s' \<longleftrightarrow> (\<exists>h. io s' = io s @ h \<and> (\<forall>e\<in>set h. P e))"

lemma adds_refl: "io s' = io s \<Longrightarrow> adds P s s'"
  by (simp add: adds_def)

lemma adds_trans: "adds P s s1 \<Longrightarrow> adds P s1 s2 \<Longrightarrow> adds P s s2"
  by (fastforce simp: adds_def)

lemma adds_mono: "adds P s s' \<Longrightarrow> (\<And>e. P e \<Longrightarrow> Q e) \<Longrightarrow> adds Q s s'"
  by (auto simp: adds_def)

lemma io_say [simp]: "io (say bs s) = io s" "io (m_enter s) = io s" "io (m_exit s) = io s"
  by (simp_all add: say_def m_enter_def m_exit_def split: prod.split)

lemma io_trace [simp]: "io (trace_line n s) = io s"
  by (simp add: trace_line_def)

text \<open>The bytes the status register gives when it is read again and again from the history \<open>h\<close> on.\<close>

primrec status_reads :: "device \<Rightarrow> io_event list \<Rightarrow> u8 list \<Rightarrow> bool" where
  "status_reads dev h [] = True"
| "status_reads dev h (v # vs) =
    (v = dev h I8042_STATUS_REG \<and> status_reads dev (h @ [PortIn I8042_STATUS_REG v]) vs)"

lemma poll_run:
  assumes "i \<le> I8042_CTL_TIMEOUT"
  shows "\<exists>j vs. i8042_poll dev busy i s = (j, s\<lparr>io := io s @ map (PortIn I8042_STATUS_REG) vs\<rparr>)
    \<and> status_reads dev (io s) vs \<and> length vs = Suc (j - i) \<and> i \<le> j \<and> j \<le> I8042_CTL_TIMEOUT \<and> (\<forall>v\<in>set (butlast vs). busy v)
    \<and> (j < I8042_CTL_TIMEOUT \<longrightarrow> \<not> busy (last vs))"
  using assms
proof (induction "I8042_CTL_TIMEOUT - i" arbitrary: i s)
  case 0
  let ?v = "dev (io s) I8042_STATUS_REG"
  have "i8042_poll dev busy i s = (i, s\<lparr>io := io s @ map (PortIn I8042_STATUS_REG) [?v]\<rparr>)"
    using 0 by (subst i8042_poll.simps) (simp add: i8042_read_status_def inp_eq)
  then show ?case using 0 by (intro exI [of _ i] exI [of _ "[?v]"]) simp
next
  case (Suc n)
  let ?v = "dev (io s) I8042_STATUS_REG"
  let ?s = "s\<lparr>io := io s @ [PortIn I8042_STATUS_REG ?v]\<rparr>"
  show ?case
  proof (cases "busy ?v")
    case False
    then have "i8042_poll dev busy i s = (i, s\<lparr>io := io s @ map (PortIn I8042_STATUS_REG) [?v]\<rparr>)"
      by (subst i8042_poll.simps) (simp add: i8042_read_status_def inp_eq)
    then show ?thesis using False Suc.prems by (intro exI [of _ i] exI [of _ "[?v]"]) simp
  next
    case True
    have n: "n = I8042_CTL_TIMEOUT - (i + 1)" "i + 1 \<le> I8042_CTL_TIMEOUT" using Suc.hyps(2) by auto
    from Suc.hyps(1) [OF n(1,2), of ?s] obtain j vs where
      r: "i8042_poll dev busy (i + 1) ?s = (j, ?s\<lparr>io := io ?s @ map (PortIn I8042_STATUS_REG) vs\<rparr>)"
        "status_reads dev (io ?s) vs" "length vs = Suc (j - (i + 1))" "i + 1 \<le> j" "j \<le> I8042_CTL_TIMEOUT" "\<forall>v\<in>set (butlast vs). busy v"
        "j < I8042_CTL_TIMEOUT \<longrightarrow> \<not> busy (last vs)" by blast
    have "i8042_poll dev busy i s = i8042_poll dev busy (i + 1) ?s"
      using True n(2) by (subst i8042_poll.simps) (simp add: i8042_read_status_def inp_eq)
    moreover have "vs \<noteq> []" using r(3) by auto
    ultimately show ?thesis using r True by (intro exI [of _ j] exI [of _ "?v # vs"]) auto
  qed
qed

text \<open>A wait: its result tells whether the last status read was ready.\<close>

lemma wait_run:
  "\<exists>vs. i8042_wait_write dev s = (if length vs = 501 then - 1 else 0, s\<lparr>io := io s @ map (PortIn I8042_STATUS_REG) vs\<rparr>)
     \<and> status_reads dev (io s) vs \<and> vs \<noteq> [] \<and> length vs \<le> 501 \<and> (\<forall>v\<in>set (butlast vs). v AND I8042_STR_IBF \<noteq> 0)
     \<and> (length vs \<le> 500 \<longrightarrow> last vs AND I8042_STR_IBF = 0)"
  "\<exists>vs. i8042_wait_read dev s = (if length vs = 501 then - 1 else 0, s\<lparr>io := io s @ map (PortIn I8042_STATUS_REG) vs\<rparr>)
     \<and> status_reads dev (io s) vs \<and> vs \<noteq> [] \<and> length vs \<le> 501 \<and> (\<forall>v\<in>set (butlast vs). NOT v AND I8042_STR_OBF \<noteq> 0)
     \<and> (length vs \<le> 500 \<longrightarrow> NOT (last vs) AND I8042_STR_OBF = 0)"
proof -
  from poll_run [of 0 dev "\<lambda>st. st AND I8042_STR_IBF \<noteq> 0" s] obtain j vs where
    "i8042_poll dev (\<lambda>st. st AND I8042_STR_IBF \<noteq> 0) 0 s = (j, s\<lparr>io := io s @ map (PortIn I8042_STATUS_REG) vs\<rparr>)"
    "status_reads dev (io s) vs" "length vs = Suc j" "j \<le> 500" "\<forall>v\<in>set (butlast vs). v AND I8042_STR_IBF \<noteq> 0"
    "j < 500 \<longrightarrow> last vs AND I8042_STR_IBF = 0" by (auto simp: I8042_CTL_TIMEOUT_def)
  then show "\<exists>vs. i8042_wait_write dev s = (if length vs = 501 then - 1 else 0, s\<lparr>io := io s @ map (PortIn I8042_STATUS_REG) vs\<rparr>)
     \<and> status_reads dev (io s) vs \<and> vs \<noteq> [] \<and> length vs \<le> 501 \<and> (\<forall>v\<in>set (butlast vs). v AND I8042_STR_IBF \<noteq> 0)
     \<and> (length vs \<le> 500 \<longrightarrow> last vs AND I8042_STR_IBF = 0)"
    by (intro exI [of _ vs]) (auto simp: i8042_wait_write_def I8042_CTL_TIMEOUT_def)
  from poll_run [of 0 dev "\<lambda>st. NOT st AND I8042_STR_OBF \<noteq> 0" s] obtain j vs where
    "i8042_poll dev (\<lambda>st. NOT st AND I8042_STR_OBF \<noteq> 0) 0 s = (j, s\<lparr>io := io s @ map (PortIn I8042_STATUS_REG) vs\<rparr>)"
    "status_reads dev (io s) vs" "length vs = Suc j" "j \<le> 500" "\<forall>v\<in>set (butlast vs). NOT v AND I8042_STR_OBF \<noteq> 0"
    "j < 500 \<longrightarrow> NOT (last vs) AND I8042_STR_OBF = 0" by (auto simp: I8042_CTL_TIMEOUT_def)
  then show "\<exists>vs. i8042_wait_read dev s = (if length vs = 501 then - 1 else 0, s\<lparr>io := io s @ map (PortIn I8042_STATUS_REG) vs\<rparr>)
     \<and> status_reads dev (io s) vs \<and> vs \<noteq> [] \<and> length vs \<le> 501 \<and> (\<forall>v\<in>set (butlast vs). NOT v AND I8042_STR_OBF \<noteq> 0)
     \<and> (length vs \<le> 500 \<longrightarrow> NOT (last vs) AND I8042_STR_OBF = 0)"
    by (intro exI [of _ vs]) (auto simp: i8042_wait_read_def I8042_CTL_TIMEOUT_def)
qed

section \<open>Commands\<close>

text \<open>No reply byte is ever asked for: the mask in \<^verbatim>\<open>(command & 0xf0) >> 8\<close> leaves nothing for the shift.\<close>

lemma no_reply_bytes: "drop_bit 8 (command AND 0xF0) = (0 :: u32)"
proof (rule bit_word_eqI)
  fix n assume "n < LENGTH(32)"
  have "(0xF0 :: u32) = push_bit 4 (mask 4)" by (simp add: mask_eq_exp_minus_1)
  then have "\<not> bit (0xF0 :: u32) (8 + n)" by (simp only: bit_simps) auto
  then show "bit (drop_bit 8 (command AND 0xF0)) n = bit (0 :: u32) n" by (simp add: bit_simps)
qed

definition no_data_read :: "io_event \<Rightarrow> bool" where
  "no_data_read e \<longleftrightarrow> (\<forall>v. e \<noteq> PortIn I8042_DATA_REG v)"

definition sends :: "u8 list \<Rightarrow> io_event \<Rightarrow> bool" where
  "sends bs e \<longleftrightarrow> no_data_read e \<and> (\<forall>v. e = PortOut I8042_DATA_REG v \<longrightarrow> v \<in> set bs)"

lemma i8042_regs_distinct [simp]: "I8042_STATUS_REG \<noteq> I8042_DATA_REG" "I8042_COMMAND_REG \<noteq> I8042_DATA_REG"
  by (simp_all add: I8042_STATUS_REG_def I8042_DATA_REG_def I8042_COMMAND_REG_def)

definition cmd_ok :: "(io_event \<Rightarrow> bool) \<Rightarrow> u8 list \<Rightarrow> bool" where
  "cmd_ok P bs \<longleftrightarrow> (\<forall>v. P (PortIn I8042_STATUS_REG v)) \<and> (\<forall>v. P (PortOut I8042_COMMAND_REG v))
     \<and> (\<forall>v\<in>set bs. P (PortOut I8042_DATA_REG v))"

definition i8042_only :: "io_event \<Rightarrow> bool" where
  "i8042_only e \<longleftrightarrow> (\<exists>v. e \<in> {PortIn I8042_STATUS_REG v, PortOut I8042_COMMAND_REG v, PortIn I8042_DATA_REG v, PortOut I8042_DATA_REG v})"

lemma cmd_ok_instances: "cmd_ok (sends bs) bs" "cmd_ok i8042_only bs"
  by (auto simp: cmd_ok_def sends_def no_data_read_def i8042_only_def)

lemma wait_write_adds: "cmd_ok P bs \<Longrightarrow> adds P s (snd (i8042_wait_write dev s))"
  using wait_run(1) [of dev s] by (auto simp: adds_def cmd_ok_def)

lemma command_write_adds:
  "cmd_ok P bs \<Longrightarrow> \<forall>k. i \<le> k \<and> k < i + n \<longrightarrow> param ! k \<in> set bs \<Longrightarrow> adds P s (snd (command_write dev param i n s))"
proof (induction n arbitrary: i s)
  case 0
  then show ?case by (simp add: adds_refl)
next
  case (Suc n)
  obtain r s1 where w: "i8042_wait_write dev s = (r, s1)" by force
  have a: "adds P s s1" using wait_write_adds [OF Suc.prems(1), of s dev] w by simp
  have "adds P s1 (i8042_write_data (param ! i) s1)"
    using Suc.prems by (auto simp: adds_def i8042_write_data_def cmd_ok_def)
  with adds_trans [OF adds_trans [OF a] Suc.IH] Suc.prems a show ?case by (simp add: w)
qed

lemma command_adds:
  assumes ok: "cmd_ok P bs" and "\<forall>k < unat (drop_bit 12 command AND 0xF). param ! k \<in> set bs"
  shows "\<exists>r s'. i8042_command dev param command s = (r, param, s') \<and> adds P s s'"
proof -
  obtain r s1 where w: "i8042_wait_write dev (m_enter s) = (r, s1)" by force
  have a: "adds P s s1"
    using wait_write_adds [OF ok, of "m_enter s" dev] adds_trans [of P s "m_enter s"] w by (simp add: adds_refl)
  let ?n = "unat (drop_bit 12 command AND 0xF)"
  let ?s2 = "i8042_write_command (ucast (command AND 0xFF)) s1"
  obtain r3 s3 where c: "command_write dev param 0 ?n ?s2 = (r3, s3)" by force
  have b: "adds P s1 ?s2" using ok by (auto simp: adds_def i8042_write_command_def cmd_ok_def)
  have d: "adds P ?s2 s3" using command_write_adds [OF ok, of 0 ?n param ?s2 dev] assms c by simp
  note t = adds_trans [OF a adds_trans [OF b d]]
  show ?thesis
  proof (cases "r = 0")
    case False
    then show ?thesis using a by (auto simp: i8042_command_def w no_reply_bytes adds_def)
  next
    case True
    then have "i8042_command dev param command s = (r3, param, m_exit s3)"
      by (simp add: i8042_command_def w c no_reply_bytes)
    moreover have "adds P s (m_exit s3)" using t by (simp add: adds_def)
    ultimately show ?thesis by blast
  qed
qed

text \<open>What \<^verbatim>\<open>keyboard_init\<close> sends after the flush.\<close>

lemma pic_set_mask_sends: "adds (sends bs) s (pic_set_mask dev irq b (pic_send_eoi irq' s))"
  by (auto simp: adds_def sends_def no_data_read_def pic_set_mask_def pic_send_eoi_def inp_eq Let_def
      PIC1_DATA_def PIC2_DATA_def PIC1_CMD_def PIC2_CMD_def I8042_DATA_REG_def split: prod.split)

lemma adds_same: "io s1 = io s \<Longrightarrow> io s1' = io s' \<Longrightarrow> adds P s1 s1' = adds P s s'"
  by (simp add: adds_def)

lemma keyboard_init_sends:
  "adds (sends [0x41]) (snd (i8042_flush dev (trace_line 287 s))) (keyboard_init dev s)"
proof -
  let ?P = "sends [0x41]"
  obtain n s1 where f: "i8042_flush dev (trace_line 287 s) = (n, s1)" by force
  have u: "unat (drop_bit 12 I8042_CMD_CTL_RCTR AND 0xF) = 0" "unat (drop_bit 12 I8042_CMD_CTL_WCTR AND 0xF) = 1"
    by (simp_all add: I8042_CMD_CTL_RCTR_def I8042_CMD_CTL_WCTR_def)
  from command_adds [OF cmd_ok_instances(1) [of "[]"], of I8042_CMD_CTL_RCTR "[0]" dev "trace_line 290 s1"] obtain r2 s2 where
    c: "i8042_command dev [0] I8042_CMD_CTL_RCTR (trace_line 290 s1) = (r2, [0], s2)" "adds (sends []) (trace_line 290 s1) s2"
    by (auto simp: u)
  have ctr: "(0 OR I8042_CTR_XLATE) AND NOT I8042_CTR_KBDDIS OR I8042_CTR_KBDINT = 0x41"
    by (simp add: I8042_CTR_XLATE_def I8042_CTR_KBDDIS_def I8042_CTR_KBDINT_def)
  let ?s3 = "trace_line 305 (trace_line 296 s2)"
  from command_adds [OF cmd_ok_instances(1) [of "[0x41]"], of I8042_CMD_CTL_WCTR "[0x41]" dev ?s3] obtain r4 s4 where
    d: "i8042_command dev [0x41] I8042_CMD_CTL_WCTR ?s3 = (r4, [0x41], s4)" "adds (sends [0x41]) ?s3 s4"
    by (auto simp: u)
  have m: "adds (sends bs) s s' \<Longrightarrow> set bs \<subseteq> {0x41} \<Longrightarrow> adds ?P s s'" for bs s s'
    by (erule adds_mono) (auto simp: sends_def)
  have 1: "adds ?P s1 s2" using m [OF c(2)] by (simp add: adds_def)
  have 2: "adds ?P s2 s4" using m [OF d(2)] by (simp add: adds_def)
  have 3: "adds ?P s4 (pic_set_mask dev IRQ_KEYBOARD False (pic_send_eoi IRQ_KEYBOARD (trace_line 311 s4)))"
    using pic_set_mask_sends [of "[0x41]" "trace_line 311 s4"] by (simp add: adds_def)
  have e: "keyboard_init dev s = (if r2 \<noteq> 0 then say (lit ''Failed to read CTR while initializing i8042'' @ [10]) s2
     else if r4 \<noteq> 0 then say (lit ''Failed to write CTR while initializing i8042'' @ [10]) s4
     else trace_line 315 (pic_set_mask dev IRQ_KEYBOARD False (pic_send_eoi IRQ_KEYBOARD (trace_line 311 s4))))"
    unfolding keyboard_init_def Let_def f c(1) prod.case list.sel ctr d(1) by simp
  have "adds ?P s1 (keyboard_init dev s)"
    using 1 adds_trans [OF 1 2] adds_trans [OF adds_trans [OF 1 2] 3] unfolding e by (simp add: adds_def)
  then show ?thesis by (simp add: f)
qed

section \<open>The interrupt line\<close>

lemma flush_only: "adds i8042_only s (snd (i8042_flush_loop dev i s))"
proof (induction "I8042_BUFFER_LENGTH - i" arbitrary: i s)
  case (0 i s)
  then have "io (snd (i8042_flush_loop dev i s)) = io s @ [PortIn I8042_STATUS_REG (dev (io s) I8042_STATUS_REG)]"
    by (subst i8042_flush_loop.simps) (simp add: i8042_read_status_def inp_eq)
  then show ?case by (auto simp: adds_def i8042_only_def)
next
  case (Suc n i s)
  let ?st = "dev (io s) I8042_STATUS_REG"
  let ?s1 = "s\<lparr>io := io s @ [PortIn I8042_STATUS_REG ?st]\<rparr>"
  let ?s2 = "say (flush_text (i + 1)) ?s1"
  let ?s3 = "?s2\<lparr>io := io ?s2 @ [PortIn I8042_DATA_REG (dev (io ?s2) I8042_DATA_REG)]\<rparr>"
  have a: "adds i8042_only s ?s1" "adds i8042_only ?s1 ?s3" by (auto simp: adds_def i8042_only_def)
  have lt: "i < I8042_BUFFER_LENGTH" and n: "n = I8042_BUFFER_LENGTH - (i + 1)" using Suc.hyps(2) by auto
  show ?case
  proof (cases "?st AND I8042_STR_OBF \<noteq> 0")
    case True
    then have e: "i8042_flush_loop dev i s = i8042_flush_loop dev (i + 1) ?s3"
      using lt by (subst i8042_flush_loop.simps) (simp add: i8042_read_status_def i8042_read_data_def inp_eq)
    show ?thesis unfolding e by (rule adds_trans [OF adds_trans [OF a] Suc.hyps(1) [OF n]])
  next
    case False
    then have "snd (i8042_flush_loop dev i s) = ?s1"
      by (subst i8042_flush_loop.simps) (simp add: i8042_read_status_def inp_eq)
    then show ?thesis using a(1) by simp
  qed
qed

text \<open>Accesses to the keyboard controller do not concern the interrupt controllers.\<close>

lemma chips_i8042:
  assumes "adds i8042_only s s'"
  shows "master s' = master s" "slave s' = slave s"
proof -
  obtain h where h: "io s' = io s @ h" "\<forall>e\<in>set h. i8042_only e" using assms by (auto simp: adds_def)
  have "foldl (chip_step cmd data) c h = c" if "cmd \<notin> {0x60, 0x64}" "data \<notin> {0x60, 0x64}" for cmd data c
    using h(2) that by (induction h arbitrary: c)
      (auto simp: i8042_only_def I8042_STATUS_REG_def I8042_COMMAND_REG_def I8042_DATA_REG_def)
  then show "master s' = master s" "slave s' = slave s"
    by (simp_all add: master_def slave_def chip_def h(1) PIC1_CMD_def PIC1_DATA_def PIC2_CMD_def PIC2_DATA_def)
qed

text \<open>A controller whose input buffer is free takes every command.\<close>

definition accepts :: "device \<Rightarrow> bool" where
  "accepts dev \<longleftrightarrow> (\<forall>h. dev h I8042_STATUS_REG AND I8042_STR_IBF = 0)"

lemma wait_write_accepts: "accepts dev \<Longrightarrow> fst (i8042_wait_write dev s) = 0"
  unfolding i8042_wait_write_def
  by (subst i8042_poll.simps) (simp add: accepts_def i8042_read_status_def inp_eq I8042_CTL_TIMEOUT_def)

lemma command_write_accepts: "accepts dev \<Longrightarrow> fst (command_write dev param i n s) = 0"
  using wait_write_accepts by (induction n arbitrary: i s) (auto split: prod.split dest: arg_cong [where f = fst])

lemma command_accepts: "accepts dev \<Longrightarrow> fst (i8042_command dev param command s) = 0"
proof -
  assume a: "accepts dev"
  obtain s1 where w: "i8042_wait_write dev (m_enter s) = (0, s1)" using wait_write_accepts [OF a] by (metis prod.collapse)
  obtain s2 where "command_write dev param 0 (unat (drop_bit 12 command AND 0xF)) (i8042_write_command (ucast (command AND 0xFF)) s1) = (0, s2)"
    using command_write_accepts [OF a] by (metis prod.collapse)
  then show ?thesis by (simp add: i8042_command_def w no_reply_bytes)
qed

lemma ready_transfer: "master s' = master s \<Longrightarrow> slave s' = slave s \<Longrightarrow> pics_ready s' = pics_ready s \<and> masked s' = masked s"
  by (simp add: pics_ready_def masked_def fun_eq_iff)

text \<open>Initialisation enables the keyboard's line and no other.\<close>

lemma keyboard_init_line:
  assumes "reads_masks dev" "accepts dev" "pics_ready s" "n < 16"
  shows "pics_ready (keyboard_init dev s)" "masked (keyboard_init dev s) n = (n \<noteq> 1 \<and> masked s n)"
proof -
  obtain k s1 where f: "i8042_flush dev (trace_line 287 s) = (k, s1)" by force
  have u: "unat (drop_bit 12 I8042_CMD_CTL_RCTR AND 0xF) = 0" "unat (drop_bit 12 I8042_CMD_CTL_WCTR AND 0xF) = 1"
    by (simp_all add: I8042_CMD_CTL_RCTR_def I8042_CMD_CTL_WCTR_def)
  from command_adds [OF cmd_ok_instances(2) [of "[]"], of I8042_CMD_CTL_RCTR "[0]" dev "trace_line 290 s1"] obtain s2 where
    c: "i8042_command dev [0] I8042_CMD_CTL_RCTR (trace_line 290 s1) = (0, [0], s2)" "adds i8042_only (trace_line 290 s1) s2"
    using command_accepts [OF assms(2), of "[0]" I8042_CMD_CTL_RCTR "trace_line 290 s1"] by (auto simp: u)
  let ?s3 = "trace_line 305 (trace_line 296 s2)"
  from command_adds [OF cmd_ok_instances(2) [of "[0x41]"], of I8042_CMD_CTL_WCTR "[0x41]" dev ?s3] obtain s4 where
    d: "i8042_command dev [0x41] I8042_CMD_CTL_WCTR ?s3 = (0, [0x41], s4)" "adds i8042_only ?s3 s4"
    using command_accepts [OF assms(2), of "[0x41]" I8042_CMD_CTL_WCTR ?s3] by (auto simp: u)
  have ctr: "(0 OR I8042_CTR_XLATE) AND NOT I8042_CTR_KBDDIS OR I8042_CTR_KBDINT = 0x41"
    by (simp add: I8042_CTR_XLATE_def I8042_CTR_KBDDIS_def I8042_CTR_KBDINT_def)
  let ?s5 = "pic_send_eoi IRQ_KEYBOARD (trace_line 311 s4)"
  have e: "keyboard_init dev s = trace_line 315 (pic_set_mask dev IRQ_KEYBOARD False ?s5)"
    unfolding keyboard_init_def Let_def f c(1) prod.case list.sel ctr d(1) by simp
  have "adds i8042_only s s1"
    using flush_only [of "m_enter (trace_line 287 s)" dev 0] f
    by (auto simp: i8042_flush_def adds_def split: prod.splits)
  moreover have "adds i8042_only s1 s2" "adds i8042_only s2 s4" using c(2) d(2) by (simp_all add: adds_def)
  ultimately have "adds i8042_only s s4" using adds_trans by blast
  note chips_i8042 [OF this]
  moreover have "master (trace_line 311 s4) = master s4" "slave (trace_line 311 s4) = slave s4"
    using chips_io [of "trace_line 311 s4" s4] by simp_all
  ultimately have t: "pics_ready ?s5 = pics_ready s \<and> masked ?s5 = masked s" by (intro ready_transfer) simp_all
  have l: "IRQ_KEYBOARD < 16" "unat IRQ_KEYBOARD = 1" by (simp_all add: IRQ_KEYBOARD_def)
  have P: "pics_ready ?s5" using t assms(3) by blast
  note M = pic_set_mask_line [OF assms(1) P l(1) assms(4)]
  let ?s6 = "pic_set_mask dev IRQ_KEYBOARD False ?s5"
  have "master (trace_line 315 ?s6) = master ?s6 \<and> slave (trace_line 315 ?s6) = slave ?s6"
    by (rule chips_io) simp
  then have T: "pics_ready (trace_line 315 ?s6) = pics_ready ?s6 \<and> masked (trace_line 315 ?s6) = masked ?s6"
    by (intro ready_transfer) simp_all
  show "pics_ready (keyboard_init dev s)" unfolding e using T M(2) by blast
  have "masked ?s6 n = (n \<noteq> 1 \<and> masked s n)" using M(1) t l(2) by simp
  then show "masked (keyboard_init dev s) n = (n \<noteq> 1 \<and> masked s n)" unfolding e using T by simp
qed

end
