(* ===== verification/X86.thy ===== *)
theory X86
  imports KeyText
begin

text \<open>
  The processor set-up of \<^verbatim>\<open>x86/x86.c\<close> and \<^verbatim>\<open>x86/tss.c\<close> (descriptor table, interrupt table, task
  state segment), the top-level interrupt handler, and \<^verbatim>\<open>pic_irq\<close>, which hands an interrupt to
  its driver. The addresses the linker gives to the tables are parameters. A handler that ends in
  the \<^verbatim>\<open>cli; hlt\<close> loop is \<open>Halted\<close> with the state at that point.
\<close>

section \<open>Descriptors\<close>

record x86_desc_32 =
  seg_limit_15_0 :: u16
  base_15_0 :: u16
  base_23_16 :: u8
  p_dpl_s_type :: u8
  g_db_seg_limit_19_16 :: u8
  base_31_24 :: u8

record x86_gate_desc_32 =
  seg_offset_15_0 :: u16
  g_seg :: u16
  param_count :: u8
  p_dpl_type :: u8
  seg_offset_31_16 :: u16

record x86_desc_ptr =
  dp_len :: u16
  dp_ptr :: u32

definition CODE_SELECTOR :: u16 where "CODE_SELECTOR = 0x08"
definition DATA_SELECTOR :: u16 where "DATA_SELECTOR = 0x10"
definition USER_CODE_32_SELECTOR :: u16 where "USER_CODE_32_SELECTOR = 0x18 OR 3"
definition USER_DATA_32_SELECTOR :: u16 where "USER_DATA_32_SELECTOR = 0x20 OR 3"
definition KERNEL_TSS_SELECTOR :: u16 where "KERNEL_TSS_SELECTOR = 0x28"
definition GDT_COUNT :: nat where "GDT_COUNT = 6"
definition NUM_INT :: nat where "NUM_INT = 0x30"

text \<open>The sizes of the fields of the task state segment, in order.\<close>

definition x86_tss :: "(string \<times> nat) list" where
  "x86_tss =
    [(''prev_tss'', 2), (''__pad_0'', 2), (''esp0'', 4), (''ss0'', 2), (''__pad_1'', 2), (''esp1'', 4),
     (''ss1'', 2), (''__pad_2'', 2), (''esp2'', 4), (''ss2'', 2), (''__pad_3'', 2), (''cr3'', 4), (''eip'', 4),
     (''eflags'', 4), (''eax'', 4), (''ecx'', 4), (''edx'', 4), (''ebx'', 4), (''esp'', 4), (''ebp'', 4),
     (''esi'', 4), (''edi'', 4), (''es'', 2), (''__pad_4'', 2), (''cs'', 2), (''__pad_5'', 2), (''ss'', 2),
     (''__pad_6'', 2), (''ds'', 2), (''__pad_7'', 2), (''fs'', 2), (''__pad_8'', 2), (''gs'', 2), (''__pad_9'', 2),
     (''ldt'', 2), (''__pad_10'', 2), (''debug_trap'', 2), (''io_map_base'', 2)]"

definition sizeof_tss :: nat where "sizeof_tss = sum_list (map snd x86_tss)"

lemma sizeof_tss_value: "sizeof_tss = 0x68"
  by (simp add: sizeof_tss_def x86_tss_def)

definition desc :: "u16 \<Rightarrow> u16 \<Rightarrow> u8 \<Rightarrow> u8 \<Rightarrow> u8 \<Rightarrow> u8 \<Rightarrow> x86_desc_32" where
  "desc l b m t g h = \<lparr>seg_limit_15_0 = l, base_15_0 = b, base_23_16 = m, p_dpl_s_type = t,
     g_db_seg_limit_19_16 = g, base_31_24 = h\<rparr>"

definition gdt_init :: "x86_desc_32 list" where
  "gdt_init =
    [desc 0 0 0 0 0 0,
     desc 0xFFFF 0 0 0b10011010 0b11001111 0,
     desc 0xFFFF 0 0 0b10010010 0b11001111 0,
     desc 0xFFFF 0 0 0b11111010 0b11001111 0,
     desc 0xFFFF 0 0 0b11110010 0b11001111 0,
     desc 0 0 0 0b10001001 0b10000000 0]"

text \<open>The processor: the tables and the registers that point to them, the selectors, the task register.\<close>

record cpu =
  gdt :: "x86_desc_32 list"
  idt :: "x86_gate_desc_32 list"
  gdtr :: x86_desc_ptr
  idtr :: x86_desc_ptr
  cs_sel :: u16
  data_sels :: u16
  task_reg :: u16

definition x86_tss_init :: "addr \<Rightarrow> cpu \<Rightarrow> cpu" where
  "x86_tss_init kernel_tss c =
    (let i = unat (KERNEL_TSS_SELECTOR div 8);
         d = gdt c ! i;
         d = d\<lparr>seg_limit_15_0 := of_nat sizeof_tss - 1\<rparr>;
         d = d\<lparr>base_15_0 := ucast (kernel_tss AND 0xFFFF)\<rparr>;
         d = d\<lparr>base_23_16 := ucast (drop_bit 16 kernel_tss AND 0xFF)\<rparr>;
         d = d\<lparr>base_31_24 := ucast (drop_bit 24 kernel_tss AND 0xFF)\<rparr>
     in c\<lparr>gdt := (gdt c)[i := d], task_reg := KERNEL_TSS_SELECTOR\<rparr>)"

definition idt_entry :: "addr \<Rightarrow> x86_gate_desc_32" where
  "idt_entry target =
    \<lparr>seg_offset_15_0 = ucast (target AND 0xFFFF), g_seg = CODE_SELECTOR, param_count = 0, p_dpl_type = 0b10001110,
     seg_offset_31_16 = ucast (drop_bit 16 target AND 0xFFFF)\<rparr>"

fun idt_loop :: "nat \<Rightarrow> nat \<Rightarrow> addr \<Rightarrow> x86_gate_desc_32 list \<Rightarrow> x86_gate_desc_32 list" where
  "idt_loop 0 i target tab = tab"
| "idt_loop (Suc n) i target tab = idt_loop n (i + 1) (target + 16) (tab[i := idt_entry target])"

definition x86_init :: "addr \<Rightarrow> addr \<Rightarrow> addr \<Rightarrow> addr \<Rightarrow> cpu \<Rightarrow> cpu" where
  "x86_init gdt_addr idt_addr isr_table kernel_tss c =
    (let c = c\<lparr>gdtr := \<lparr>dp_len = of_nat (GDT_COUNT * 8) - 1, dp_ptr = gdt_addr\<rparr>\<rparr>;
         c = c\<lparr>data_sels := DATA_SELECTOR\<rparr>;
         c = c\<lparr>cs_sel := CODE_SELECTOR\<rparr>;
         c = c\<lparr>idt := idt_loop NUM_INT 0 isr_table (idt c)\<rparr>;
         c = c\<lparr>idtr := \<lparr>dp_len = of_nat (NUM_INT * 8) - 1, dp_ptr = idt_addr\<rparr>\<rparr>
     in x86_tss_init kernel_tss c)"

section \<open>Interrupts\<close>

record x86_iframe =
  i_di :: u32   i_si :: u32   i_bp :: u32   i_sp :: u32
  i_bx :: u32   i_dx :: u32   i_cx :: u32   i_ax :: u32
  i_ds :: u32   i_es :: u32   i_fs :: u32   i_gs :: u32
  i_vector :: u32
  i_err_code :: u32
  i_ip :: u32   i_cs :: u32   i_flags :: u32
  i_user_sp :: u32   i_user_ss :: u32

datatype outcome = Returned machine | Halted machine

definition hex_spec :: "u32 \<Rightarrow> bool \<Rightarrow> fspec" where
  "hex_spec w alt = \<lparr>fleft = False, fzero = (w \<noteq> 0), fplus = False, fblank = False, falt = alt, fwidth = w, flen = LLong\<rparr>"

definition hx :: "u32 \<Rightarrow> u32 \<Rightarrow> directive" where "hx w v = Hex False (hex_spec w False) (ucast v)"

definition dump_fault_frame :: "x86_iframe \<Rightarrow> u32 \<Rightarrow> machine \<Rightarrow> machine" where
  "dump_fault_frame f cr2 s =
    (let s = say (fmt_text [(lit '' CS:     '', hx 4 (i_cs f)), (lit '' EIP: '', hx 8 (i_ip f)),
                            (lit '' EFL: '', hx 8 (i_flags f)), (lit '' CR2: '', hx 8 cr2)] [10]) s;
         s = say (fmt_text [(lit ''EAX: '', hx 8 (i_ax f)), (lit '' ECX: '', hx 8 (i_cx f)),
                            (lit '' EDX: '', hx 8 (i_dx f)), (lit '' EBX: '', hx 8 (i_bx f))] [10]) s;
         s = say (fmt_text [(lit ''ESP: '', hx 8 (i_sp f)), (lit '' EBP: '', hx 8 (i_bp f)),
                            (lit '' ESI: '', hx 8 (i_si f)), (lit '' EDI: '', hx 8 (i_di f))] [10]) s
     in say (fmt_text [(lit '' DS:     '', hx 4 (i_ds f)), (lit ''  ES:     '', hx 4 (i_es f)),
                       (lit ''  FS:   '', hx 4 (i_fs f)), (lit ''    GS:     '', hx 4 (i_gs f))] [10]) s)"

definition exception_die :: "x86_iframe \<Rightarrow> u32 \<Rightarrow> u8 list \<Rightarrow> machine \<Rightarrow> outcome" where
  "exception_die f cr2 msg s =
    (let s = dump_fault_frame f cr2 (say msg s) in Halted (s\<lparr>kern := x86_cli (kern s)\<rparr>))"

definition pic_irq :: "device \<Rightarrow> u32 \<Rightarrow> machine \<Rightarrow> machine" where
  "pic_irq dev vector s =
    (let s = pic_send_eoi (ucast vector) s
     in if vector = ucast IRQ_PIT then pit_irq s
        else if vector = ucast IRQ_KEYBOARD then keyboard_irq dev s
        else say (lit ''unhandled PIC interrupt'' @ [10]) s)"

definition x86_exception_handler :: "device \<Rightarrow> x86_iframe \<Rightarrow> u32 \<Rightarrow> machine \<Rightarrow> outcome" where
  "x86_exception_handler dev f cr2 s =
    (if 0x20 \<le> i_vector f \<and> i_vector f \<le> 0x2F then Returned (pic_irq dev (i_vector f - 0x20) s)
     else exception_die f cr2 (lit ''unhandled exception'' @ [10])
       (say (fmt_text [(lit ''vector '', Uns (plain_spec\<lparr>flen := LLong\<rparr>) (ucast (i_vector f))),
                       (lit '' ('', Hex False (hex_spec 0 True) (ucast (i_vector f)))
                       , (lit ''), err code '', Hex False (hex_spec 0 True) (ucast (i_err_code f)))] [10]) s))"

end
