(* ===== verification/X86Props.thy ===== *)
theory X86Props
  imports X86
begin

text \<open>
  What the descriptor and interrupt tables mean to the processor, and how an interrupt reaches
  its driver; a sample machine for the witnesses of the drivers' properties.
\<close>

section \<open>Reading descriptors\<close>

text \<open>Base, limit and gate target as the architecture manual reads them.\<close>

definition desc_base :: "x86_desc_32 \<Rightarrow> u32" where
  "desc_base d = ucast (base_15_0 d) OR push_bit 16 (ucast (base_23_16 d)) OR push_bit 24 (ucast (base_31_24 d))"

definition desc_limit :: "x86_desc_32 \<Rightarrow> nat" where
  "desc_limit d =
    (let l = unat (seg_limit_15_0 d) + 65536 * unat (g_db_seg_limit_19_16 d AND 0x0F)
     in if bit (g_db_seg_limit_19_16 d) 7 then 4096 * l + 4095 else l)"

definition gate_target :: "x86_gate_desc_32 \<Rightarrow> u32" where
  "gate_target g = ucast (seg_offset_15_0 g) OR push_bit 16 (ucast (seg_offset_31_16 g))"

lemma mask_bits: "bit (0xFFFF :: u32) n \<longleftrightarrow> n < 16" "bit (0xFF :: u32) n \<longleftrightarrow> n < 8"
  "bit (0xFFFF :: int) n \<longleftrightarrow> n < 16" "bit (0xFF :: int) n \<longleftrightarrow> n < 8"
proof -
  have "(0xFFFF :: u32) = mask 16" "(0xFF :: u32) = mask 8" "(0xFFFF :: int) = mask 16" "(0xFF :: int) = mask 8"
    by (simp_all add: mask_eq_exp_minus_1)
  then show "bit (0xFFFF :: u32) n \<longleftrightarrow> n < 16" "bit (0xFF :: u32) n \<longleftrightarrow> n < 8"
    "bit (0xFFFF :: int) n \<longleftrightarrow> n < 16" "bit (0xFF :: int) n \<longleftrightarrow> n < 8"
    by (simp_all only: bit_mask_iff) auto
qed

lemma base_fields:
  "ucast (ucast (a AND 0xFFFF) :: u16) OR push_bit 16 (ucast (ucast (drop_bit 16 a AND 0xFF) :: u8))
     OR push_bit 24 (ucast (ucast (drop_bit 24 a AND 0xFF) :: u8)) = a" (is "?l = a") for a :: u32
proof (rule bit_word_eqI)
  fix n assume "n < LENGTH(32)"
  then consider "n < 16" | "16 \<le> n" "n < 24" | "24 \<le> n" "n < 32" by force
  then show "bit ?l n = bit a n"
    by cases (auto simp: bit_simps mask_bits)
qed

lemma target_fields:
  "ucast (ucast (a AND 0xFFFF) :: u16) OR push_bit 16 (ucast (ucast (drop_bit 16 a AND 0xFFFF) :: u16)) = a" (is "?l = a") for a :: u32
proof (rule bit_word_eqI)
  fix n assume "n < LENGTH(32)"
  then consider "n < 16" | "16 \<le> n" "n < 32" by force
  then show "bit ?l n = bit a n"
    by cases (auto simp: bit_simps mask_bits)
qed

lemma idt_loop_nth:
  "i + n \<le> length tab \<Longrightarrow> k < length tab \<Longrightarrow>
    length (idt_loop n i target tab) = length tab \<and>
    idt_loop n i target tab ! k = (if i \<le> k \<and> k < i + n then idt_entry (target + 16 * of_nat (k - i)) else tab ! k)"
proof (induction n arbitrary: i target tab)
  case 0
  then show ?case by auto
next
  case (Suc n)
  have "target + 16 + 16 * of_nat (k - Suc i) = target + 16 * (of_nat (k - i) :: u32)" if "i < k"
  proof -
    have "k - i = Suc (k - Suc i)" using that by simp
    then show ?thesis by (simp add: algebra_simps)
  qed
  then show ?case using Suc.IH [of "i + 1" "tab[i := idt_entry target]" "target + 16"] Suc.prems
    by (auto simp: nth_list_update not_less_eq_eq le_Suc_eq Suc_le_eq)
qed

lemma idt_gate:
  assumes "length (idt c) = NUM_INT" "n < 48"
  shows "gate_target (idt (x86_init g i isr tss c) ! n) = isr + 16 * of_nat n"
    and "g_seg (idt (x86_init g i isr tss c) ! n) = CODE_SELECTOR"
proof -
  have idt: "idt (x86_init g i isr tss c) = idt_loop NUM_INT 0 isr (idt c)" by (simp add: x86_init_def x86_tss_init_def Let_def)
  show "gate_target (idt (x86_init g i isr tss c) ! n) = isr + 16 * of_nat n"
    "g_seg (idt (x86_init g i isr tss c) ! n) = CODE_SELECTOR"
    using idt_loop_nth [of 0 NUM_INT "idt c" n isr] assms
    by (simp_all add: idt idt_entry_def gate_target_def target_fields NUM_INT_def)
qed

text \<open>
  C34. \<^verbatim>\<open>x86_init\<close> builds the tables the processor needs: the 48 interrupt gates point, in order, to
  the 16-byte stubs of \<^verbatim>\<open>exceptions.S\<close> through the kernel code selector, the code and data
  segments are flat (base 0, all 4 GB), the task state descriptor has the address of
  \<^verbatim>\<open>kernel_tss\<close> as its base, and each table register holds its table's address and its size in
  bytes less 1.
\<close>

theorem descriptor_tables:
  assumes "gdt c = gdt_init" "length (idt c) = NUM_INT" "c' = x86_init g i isr tss c"
  shows "(\<forall>n < 48. gate_target (idt c' ! n) = isr + 16 * of_nat n \<and> g_seg (idt c' ! n) = CODE_SELECTOR)
    \<and> (\<forall>n \<in> {1, 2, 3, 4}. desc_base (gdt c' ! n) = 0 \<and> desc_limit (gdt c' ! n) = 2 ^ 32 - 1)
    \<and> desc_base (gdt c' ! unat (task_reg c' div 8)) = tss
    \<and> gdtr c' = \<lparr>dp_len = 47, dp_ptr = g\<rparr> \<and> idtr c' = \<lparr>dp_len = 383, dp_ptr = i\<rparr>"
proof -
  have "gate_target (idt c' ! n) = isr + 16 * of_nat n \<and> g_seg (idt c' ! n) = CODE_SELECTOR" if "n < 48" for n
    using idt_gate [OF assms(2) that] by (simp add: assms(3))
  moreover have "desc_base (gdt c' ! n) = 0 \<and> desc_limit (gdt c' ! n) = 2 ^ 32 - 1" if "n \<in> {1, 2, 3, 4}" for n
    using that assms(1)
    by (auto simp: assms(3) x86_init_def x86_tss_init_def Let_def KERNEL_TSS_SELECTOR_def gdt_init_def desc_def desc_base_def desc_limit_def)
  moreover have "desc_base (gdt c' ! unat (task_reg c' div 8)) = tss"
    using assms(1) by (simp add: assms(3) x86_init_def x86_tss_init_def Let_def KERNEL_TSS_SELECTOR_def gdt_init_def desc_base_def base_fields)
  moreover have "gdtr c' = \<lparr>dp_len = 47, dp_ptr = g\<rparr>" "idtr c' = \<lparr>dp_len = 383, dp_ptr = i\<rparr>"
    by (simp_all add: assms(3) x86_init_def x86_tss_init_def Let_def GDT_COUNT_def NUM_INT_def)
  ultimately show ?thesis by blast
qed

definition sample_cpu :: cpu where
  "sample_cpu = \<lparr>gdt = gdt_init, idt = replicate 48 (idt_entry 0), gdtr = \<lparr>dp_len = 0, dp_ptr = 0\<rparr>,
     idtr = \<lparr>dp_len = 0, dp_ptr = 0\<rparr>, cs_sel = 0, data_sels = 0, task_reg = 0\<rparr>"

theorem descriptor_tables_witness:
  "gate_target (idt (x86_init 0x12345 0x23456 0x34560 0xABCDEF01 sample_cpu) ! 33) = 0x34770
    \<and> desc_base (gdt (x86_init 0x12345 0x23456 0x34560 0xABCDEF01 sample_cpu) ! 5) = 0xABCDEF01"
proof -
  have t: "task_reg (x86_init 0x12345 0x23456 0x34560 0xABCDEF01 sample_cpu) = 0x28"
    by (simp add: x86_init_def x86_tss_init_def Let_def KERNEL_TSS_SELECTOR_def)
  have "(\<forall>n < 48. gate_target (idt (x86_init 0x12345 0x23456 0x34560 0xABCDEF01 sample_cpu) ! n) = 0x34560 + 16 * of_nat n)
    \<and> desc_base (gdt (x86_init 0x12345 0x23456 0x34560 0xABCDEF01 sample_cpu)
        ! unat (task_reg (x86_init 0x12345 0x23456 0x34560 0xABCDEF01 sample_cpu) div 8)) = 0xABCDEF01"
    using descriptor_tables [of sample_cpu _ "0x12345" "0x23456" "0x34560" "0xABCDEF01"]
    by (simp add: sample_cpu_def NUM_INT_def)
  then show ?thesis by (auto simp: t dest: spec [of _ 33])
qed

text \<open>
  The task state segment is 0x68 bytes and its descriptor is given the limit 0x67, but the
  static table has set the descriptor's granularity bit, so that the processor reads the limit
  in units of 4 KB: the segment appears to end at 0x67fff.
\<close>

theorem tss_limit_in_pages:
  assumes "gdt c = gdt_init"
  shows "desc_limit (gdt (x86_init g i isr tss c) ! 5) = 0x67FFF"
  using assms by (simp add: x86_init_def x86_tss_init_def Let_def KERNEL_TSS_SELECTOR_def gdt_init_def desc_def desc_limit_def sizeof_tss_value)

theorem tss_limit_in_pages_witness: "desc_limit (gdt (x86_init 0 0 0 0 sample_cpu) ! 5) = 0x67FFF"
  by (rule tss_limit_in_pages) (simp add: sample_cpu_def)

section \<open>Interrupts to drivers\<close>

definition eois :: "u32 \<Rightarrow> io_event list" where
  "eois n = (if 8 \<le> n then [PortOut 0xA0 0x20, PortOut 0x20 0x20] else [PortOut 0x20 0x20])"

lemma pic_send_eoi_io: "unat n < 16 \<Longrightarrow> pic_send_eoi (ucast n) s = s\<lparr>io := io s @ eois n\<rparr>"
proof -
  assume "unat n < 16"
  then have "unat (ucast n :: u8) = unat n" by (simp add: unsigned_ucast_eq take_bit_nat_eq_self)
  then have "8 \<le> (ucast n :: u8) \<longleftrightarrow> 8 \<le> n" by (simp add: word_le_nat_alt)
  then show ?thesis
    by (simp add: pic_send_eoi_def eois_def outp_def PIC2_CMD_def PIC1_CMD_def PIC_EOI_def Let_def)
qed

text \<open>The handler on the vectors of the controllers.\<close>

lemma handler_pic:
  assumes "0x20 \<le> i_vector f" "i_vector f \<le> 0x2F"
  shows "x86_exception_handler dev f cr2 s = Returned (pic_irq dev (i_vector f - 0x20) s)"
    "unat (i_vector f - 0x20) < 16"
proof -
  show "x86_exception_handler dev f cr2 s = Returned (pic_irq dev (i_vector f - 0x20) s)"
    using assms by (simp add: x86_exception_handler_def)
  have "unat (i_vector f - 0x20) = unat (i_vector f) - 32" using assms(1) by (simp add: unat_sub)
  then show "unat (i_vector f - 0x20) < 16" using assms by (simp add: word_le_nat_alt)
qed

text \<open>A machine with nothing going on, and the frame of an interrupt.\<close>

definition idle_kernel :: kernel where
  "idle_kernel = \<lparr>kmem = \<lambda>_. 0, ebx = 0, ebp = 0, esi = 0, edi = 0, esp = 0, eip = 0, irq_on = False,
     current_task = 0, idle_task = 0, idle_stack = 0, run_queue = 0, task_trampoline_addr = 0, switch_return_addr = 0\<rparr>"

definition idle_machine :: machine where
  "idle_machine = \<lparr>kern = idle_kernel, vst = \<lparr>vcol = 0, vline = 0\<rparr>, io = [], timer_ticks = 0,
     key_lshift = False, key_rshift = False, lastCode = 0\<rparr>"

definition irq_frame :: "u32 \<Rightarrow> x86_iframe" where
  "irq_frame v = \<lparr>i_di = 0, i_si = 0, i_bp = 0, i_sp = 0, i_bx = 0, i_dx = 0, i_cx = 0, i_ax = 0, i_ds = 0x10, i_es = 0x10,
     i_fs = 0x10, i_gs = 0x10, i_vector = v, i_err_code = 0, i_ip = 0, i_cs = 8, i_flags = 0x202, i_user_sp = 0, i_user_ss = 0\<rparr>"

lemma idle_machine_simps [simp]:
  "idle_keys idle_machine" "on_screen (vst idle_machine)" "io idle_machine = []" "i_vector (irq_frame v) = v"
  by (simp_all add: idle_machine_def idle_keys_def on_screen_def irq_frame_def)

text \<open>What the handler does on each line.\<close>

lemma irq_dispatch:
  assumes "i_vector f = 0x20 + n" "unat n < 16" "on_screen (vst s)"
  shows "\<exists>s'. x86_exception_handler dev f cr2 s = Returned s' \<and>
    (let s1 = s\<lparr>io := io s @ eois n\<rparr>
     in if n = 0 then s' = s1\<lparr>timer_ticks := timer_ticks s + 1\<rparr>
        else if n = 1 then s' = keyboard_irq dev s1
        else says (lit ''unhandled PIC interrupt'' @ [10]) s1 s')"
proof -
  have v: "unat (i_vector f) = 32 + unat n" using assms(1,2) by (simp add: unat_word_ariths)
  have r: "0x20 \<le> i_vector f" "i_vector f \<le> 0x2F" using v assms(2) by (simp_all add: word_le_nat_alt)
  note H = handler_pic(1) [OF r, of dev cr2 s]
  have n: "i_vector f - 0x20 = n" using assms(1) by simp
  let ?s1 = "s\<lparr>io := io s @ eois n\<rparr>"
  have e: "pic_irq dev n s = (if n = 0 then pit_irq ?s1 else if n = 1 then keyboard_irq dev ?s1
     else say (lit ''unhandled PIC interrupt'' @ [10]) ?s1)"
    by (simp add: pic_irq_def Let_def IRQ_PIT_def IRQ_KEYBOARD_def pic_send_eoi_io [OF assms(2)])
  have "says (lit ''unhandled PIC interrupt'' @ [10]) ?s1 (say (lit ''unhandled PIC interrupt'' @ [10]) ?s1)"
    using assms(3) by (intro say_says) auto
  then show ?thesis unfolding H n e Let_def by (simp add: pit_irq_def)
qed

text \<open>
  C33. An interrupt from line \<^verbatim>\<open>n\<close> of the controllers, vector 0x20 + n, is acknowledged before
  anything else, to the slave controller only when it is the slave's and always to the master;
  then line 0 counts one timer tick and changes nothing else, line 1 runs the keyboard driver,
  and every other line prints a message. The handler returns in all these cases.
\<close>

theorem interrupt_dispatch:
  assumes "i_vector f = 0x20 + n" "unat n < 16" "on_screen (vst s)"
  shows "\<exists>s'. x86_exception_handler dev f cr2 s = Returned s' \<and>
    (let s1 = s\<lparr>io := io s @ eois n\<rparr>
     in if n = 0 then s' = s1\<lparr>timer_ticks := timer_ticks s + 1\<rparr>
        else if n = 1 then s' = keyboard_irq dev s1
        else says (lit ''unhandled PIC interrupt'' @ [10]) s1 s')"
  by (rule irq_dispatch [OF assms])

theorem interrupt_dispatch_witness:
  "\<exists>s'. x86_exception_handler (\<lambda>_ _. 0) (irq_frame 0x2A) 0 idle_machine = Returned s' \<and> scr s' = scr_text (scr idle_machine) (lit ''unhandled PIC interrupt'' @ [10])
    \<and> io s' = [PortOut 0xA0 0x20, PortOut 0x20 0x20]"
proof -
  from interrupt_dispatch [of "irq_frame 0x2A" "0xA" idle_machine "\<lambda>_ _. 0" 0] obtain s' where
    "x86_exception_handler (\<lambda>_ _. 0) (irq_frame 0x2A) 0 idle_machine = Returned s'"
    "says (lit ''unhandled PIC interrupt'' @ [10]) (idle_machine\<lparr>io := io idle_machine @ eois 0xA\<rparr>) s'" by (auto simp: Let_def)
  moreover from says_fields(1) [OF this(2)] this(2) have
    "io s' = [PortOut 0xA0 0x20, PortOut 0x20 0x20]" "scr s' = scr_text (scr idle_machine) (lit ''unhandled PIC interrupt'' @ [10])"
    by (simp_all add: eois_def says_def scr_def)
  ultimately show ?thesis by blast
qed

end
