(* ===== verification/TaskRefine.thy ===== *)
theory TaskRefine
  imports Task
begin

text \<open>
  The scheduler as an abstract machine, and the memory invariant that ties the code to it:
  the ready tasks are the run queue, every suspended task has on its own stack the frame that
  will bring it back with the registers it was switched out with, and interrupts are on
  exactly when the running task is in no critical section.
\<close>

section \<open>The abstract scheduler\<close>

record ctx =
  x_edi :: u32
  x_esi :: u32
  x_ebp :: u32
  x_ebx :: u32
  x_ret :: u32
  x_sp :: u32

record sched =
  a_queue :: "addr list"
  a_cur :: addr
  a_state :: "addr \<Rightarrow> u32"
  a_count :: "addr \<Rightarrow> u32"
  a_code :: "addr \<Rightarrow> u32 \<times> u32"
  a_susp :: "addr set"
  a_ctx :: "addr \<Rightarrow> ctx"
  a_irq :: bool

definition regs :: "kernel \<Rightarrow> ctx" where
  "regs k = \<lparr>x_edi = edi k, x_esi = esi k, x_ebp = ebp k, x_ebx = ebx k, x_ret = eip k, x_sp = esp k\<rparr>"

section \<open>Representation\<close>

definition ctx_at :: "mem \<Rightarrow> addr \<Rightarrow> ctx \<Rightarrow> bool" where
  "ctx_at m frm c \<longleftrightarrow> ld32 m frm = x_edi c \<and> ld32 m (frm + 4) = x_esi c \<and> ld32 m (frm + 8) = x_ebp c
     \<and> ld32 m (frm + 12) = x_ebx c \<and> ld32 m (frm + 16) = x_ret c \<and> x_sp c = frm + 20"

text \<open>Tasks, run queue head and stacks do not overlap.\<close>

definition layout :: "addr set \<Rightarrow> (addr \<Rightarrow> addr set) \<Rightarrow> addr \<Rightarrow> bool" where
  "layout T stk rq \<longleftrightarrow> rq \<noteq> 0 \<and> 0 \<notin> T
     \<and> (\<forall>t\<in>T. apart rq 8 t 36 \<and> (\<forall>u\<in>T. t = u \<or> apart t 36 u 36 \<and> stk t \<inter> stk u = {}))
     \<and> (\<forall>t\<in>T. stk t \<inter> region rq 8 = {} \<and> (\<forall>u\<in>T. stk t \<inter> region u 36 = {}))"

definition mem_rep :: "addr set \<Rightarrow> (addr \<Rightarrow> addr set) \<Rightarrow> addr \<Rightarrow> mem \<Rightarrow> sched \<Rightarrow> bool" where
  "mem_rep T stk rq m a \<longleftrightarrow> dll m rq (a_queue a) \<and> set (a_queue a) \<subseteq> T
     \<and> (\<forall>t\<in>T. fld m t off_state = a_state a t \<and> fld m t off_count = a_count a t
          \<and> fld m t off_entry = fst (a_code a t) \<and> fld m t off_arg = snd (a_code a t))
     \<and> a_susp a \<subseteq> T
     \<and> (\<forall>t\<in>a_susp a. ctx_at m (fld m t off_saved_sp) (a_ctx a t) \<and> region (fld m t off_saved_sp) 20 \<subseteq> stk t)"

definition fields :: "u32 set" where "fields = {8, 12, 16, 20, 24, 28, 32}"

lemmas off_defs = off_state_def off_count_def off_entry_def off_arg_def off_stack_def off_stack_size_def
  off_saved_sp_def

lemma off_fields [simp]:
  "off_state \<in> fields" "off_count \<in> fields" "off_entry \<in> fields" "off_arg \<in> fields"
  "off_stack \<in> fields" "off_stack_size \<in> fields" "off_saved_sp \<in> fields"
  by (simp_all add: fields_def off_defs)

lemma off_distinct [simp]:
  "off_state \<noteq> off_count" "off_count \<noteq> off_state" "off_state \<noteq> off_saved_sp" "off_saved_sp \<noteq> off_state"
  "off_count \<noteq> off_saved_sp" "off_saved_sp \<noteq> off_count" "off_state \<noteq> off_entry" "off_state \<noteq> off_arg"
  "off_count \<noteq> off_entry" "off_count \<noteq> off_arg" "off_saved_sp \<noteq> off_entry" "off_saved_sp \<noteq> off_arg"
  by (simp_all add: off_defs)

lemma field_in_task: "off \<in> fields \<Longrightarrow> region (t + off) 4 \<subseteq> region t 36"
  by (rule region_field) (auto simp: fields_def)

lemma field_not_node: "off \<in> fields \<Longrightarrow> region (t + off) 4 \<inter> region t 8 = {}"
proof -
  assume "off \<in> fields"
  then have "apart (t + off) 4 t 8" by (auto simp: fields_def apart_def)
  then show ?thesis by (subst (asm) apart_iff_disjoint) auto
qed

lemma node_in_task: "region t 8 \<subseteq> region t 36"
  by (rule region_mono) simp

lemma layoutD:
  assumes "layout T stk rq"
  shows "t \<in> T \<Longrightarrow> region rq 8 \<inter> region t 36 = {}" "t \<in> T \<Longrightarrow> u \<in> T \<Longrightarrow> t \<noteq> u \<Longrightarrow> region t 36 \<inter> region u 36 = {}"
    "t \<in> T \<Longrightarrow> stk t \<inter> region rq 8 = {}" "t \<in> T \<Longrightarrow> u \<in> T \<Longrightarrow> stk t \<inter> region u 36 = {}"
    "t \<in> T \<Longrightarrow> u \<in> T \<Longrightarrow> t \<noteq> u \<Longrightarrow> stk t \<inter> stk u = {}" "rq \<noteq> 0" "t \<in> T \<Longrightarrow> t \<noteq> 0"
  using assms by (simp_all add: layout_def apart_iff_disjoint) blast+

lemma fld_set_fld:
  assumes "layout T stk rq" "t \<in> T" "u \<in> T" "off \<in> fields" "off' \<in> fields"
  shows "fld (set_fld m t off v) u off' = (if t = u \<and> off = off' then v else fld m u off')"
proof (cases "t = u")
  case True
  have "off = off' \<or> apart (t + off) 4 (t + off') 4" using assms(4,5) by (auto simp: fields_def apart_def)
  then show ?thesis using True by (auto simp: fld_def set_fld_def mem_simps)
next
  case False
  then have "region (t + off) 4 \<inter> region (u + off') 4 = {}"
    using layoutD(2) [OF assms(1-3)] field_in_task assms(4,5) by blast
  then have "apart (t + off) 4 (u + off') 4" by (subst apart_iff_disjoint) auto
  then show ?thesis using False by (simp add: fld_def set_fld_def mem_simps)
qed

lemma set_fld_frame: "off \<in> fields \<Longrightarrow> frame (region t 36) m (set_fld m t off v)"
  using field_in_task by (simp add: set_fld_def frame_st32)

lemma ctx_at_frame:
  assumes "ctx_at m f c" "frame R m m'" "R \<inter> region f 20 = {}"
  shows "ctx_at m' f c"
proof -
  have "region f 4 \<subseteq> region f 20" "region (f + 4) 4 \<subseteq> region f 20" "region (f + 8) 4 \<subseteq> region f 20"
    "region (f + 12) 4 \<subseteq> region f 20" "region (f + 16) 4 \<subseteq> region f 20"
    by (simp_all add: region_mono region_field)
  then have "ld32 m' f = ld32 m f" "ld32 m' (f + 4) = ld32 m (f + 4)" "ld32 m' (f + 8) = ld32 m (f + 8)"
    "ld32 m' (f + 12) = ld32 m (f + 12)" "ld32 m' (f + 16) = ld32 m (f + 16)"
    using assms(3) by (intro frame_ld32 [OF assms(2)]; blast)+
  then show ?thesis using assms(1) by (simp add: ctx_at_def)
qed

text \<open>Writes to fields of tasks keep the queue and the saved frames.\<close>

lemma mem_rep_set_fld:
  assumes L: "layout T stk rq" and M: "mem_rep T stk rq m a" and t: "t \<in> T" and off: "off \<in> fields"
  shows "dll (set_fld m t off v) rq (a_queue a)"
    and "u \<in> a_susp a \<Longrightarrow> ctx_at (set_fld m t off v) (fld m u off_saved_sp) (a_ctx a u)"
proof -
  have d: "dll m rq (a_queue a)" "set (a_queue a) \<subseteq> T" using M by (auto simp: mem_rep_def)
  have f: "frame (region (t + off) 4) m (set_fld m t off v)" by (simp add: set_fld_def frame_st32)
  show "dll (set_fld m t off v) rq (a_queue a)"
  proof (rule dll_frame [OF d(1) f])
    fix p assume "p \<in> set (rq # a_queue a)"
    then show "region p 8 \<inter> region (t + off) 4 = {}"
      using field_in_task [OF off, of t] field_not_node [OF off, of t] layoutD(1,2) [OF L] node_in_task t d(2)
      by (cases "p = t") (auto, blast+)
  qed
  assume u: "u \<in> a_susp a"
  then have "ctx_at m (fld m u off_saved_sp) (a_ctx a u)" "region (fld m u off_saved_sp) 20 \<subseteq> stk u" "u \<in> T"
    using M by (auto simp: mem_rep_def)
  then show "ctx_at (set_fld m t off v) (fld m u off_saved_sp) (a_ctx a u)"
    using layoutD(4) [OF L _ t] by (intro ctx_at_frame [OF _ set_fld_frame [OF off]]) blast+
qed

lemma mem_rep_state:
  assumes "layout T stk rq" "mem_rep T stk rq m a" "t \<in> T"
  shows "mem_rep T stk rq (set_fld m t off_state v) (a\<lparr>a_state := (a_state a)(t := v)\<rparr>)"
  using mem_rep_set_fld [OF assms off_fields(1)] assms(2) fld_set_fld [OF assms(1,3)] assms(3)
  by (auto simp: mem_rep_def subset_eq)

lemma mem_rep_count:
  assumes "layout T stk rq" "mem_rep T stk rq m a" "t \<in> T"
  shows "mem_rep T stk rq (set_fld m t off_count v) (a\<lparr>a_count := (a_count a)(t := v)\<rparr>)"
  using mem_rep_set_fld [OF assms off_fields(2)] assms(2) fld_set_fld [OF assms(1,3)] assms(3)
  by (auto simp: mem_rep_def subset_eq)

section \<open>The run queue\<close>

lemma node_frame_fields:
  assumes L: "layout T stk rq" and f: "frame (nodes_region N) m m'" and N: "N \<subseteq> insert rq T"
    and t: "t \<in> T" and off: "off \<in> fields"
  shows "fld m' t off = fld m t off"
proof -
  have "region (t + off) 4 \<inter> region p 8 = {}" if "p \<in> N" for p
    using that N field_in_task [OF off, of t] field_not_node [OF off, of t] layoutD(1,2) [OF L] node_in_task t
    by (cases "p = t") (auto, blast+)
  then have "region (t + off) 4 \<inter> nodes_region N = {}" by (auto simp: nodes_region_def)
  then show ?thesis unfolding fld_def by (rule frame_ld32 [OF f])
qed

text \<open>An operation on the queue that writes only list nodes keeps everything else.\<close>

lemma mem_rep_queue:
  assumes L: "layout T stk rq" and M: "mem_rep T stk rq m a" and f: "frame (nodes_region N) m m'"
    and N: "N \<subseteq> insert rq T" and q: "dll m' rq q" "set q \<subseteq> T"
  shows "mem_rep T stk rq m' (a\<lparr>a_queue := q\<rparr>)"
proof -
  note fl = node_frame_fields [OF L f N]
  have "nodes_region N \<inter> stk t = {}" if "t \<in> T" for t
    using that N layoutD(3,4) [OF L] node_in_task by (auto simp: nodes_region_def) blast+
  then have "ctx_at m' (fld m t off_saved_sp) (a_ctx a t)" if "t \<in> a_susp a" for t
    using that M by (intro ctx_at_frame [OF _ f]) (auto simp: mem_rep_def, blast)
  then show ?thesis using M q fl by (auto simp: mem_rep_def subset_eq)
qed

lemma layout_fresh_node:
  assumes "layout T stk rq" "set q \<subseteq> T" "t \<in> T" "t \<notin> set q"
  shows "fresh_node rq q t"
proof -
  have "apart t 8 p 8" if "p \<in> set (rq # q)" for p
  proof -
    have "region t 8 \<inter> region p 8 = {}"
      using that assms(2-4) layoutD(1,2) [OF assms(1)] node_in_task by (cases "p = rq") (auto, blast+)
    then show ?thesis by (subst apart_iff_disjoint) auto
  qed
  then show ?thesis using layoutD(7) [OF assms(1,3)] by (simp add: fresh_node_def)
qed

lemma mem_rep_add:
  assumes L: "layout T stk rq" and M: "mem_rep T stk rq m a" and t: "t \<in> T" "t \<notin> set (a_queue a)"
  shows "mem_rep T stk rq (list_add_tail m rq t) (a\<lparr>a_queue := a_queue a @ [t]\<rparr>)"
    and "mem_rep T stk rq (list_add_head m rq t) (a\<lparr>a_queue := t # a_queue a\<rparr>)"
proof -
  have d: "dll m rq (a_queue a)" "set (a_queue a) \<subseteq> T" using M by (auto simp: mem_rep_def)
  note fr = layout_fresh_node [OF L d(2) t]
  have ends: "last (rq # a_queue a) \<in> insert rq T" "hd (a_queue a @ [rq]) \<in> insert rq T"
  proof -
    have "last (rq # a_queue a) \<in> insert rq (set (a_queue a))" "hd (a_queue a @ [rq]) \<in> insert rq (set (a_queue a))"
      by (auto simp: hd_append)
    then show "last (rq # a_queue a) \<in> insert rq T" "hd (a_queue a @ [rq]) \<in> insert rq T" using d(2) by blast+
  qed
  show "mem_rep T stk rq (list_add_tail m rq t) (a\<lparr>a_queue := a_queue a @ [t]\<rparr>)"
    using list_add_tail_frame [of m rq "a_queue a" "[]" t rq] list_add_tail_dll [OF d(1) fr] d fr t ends
    by (intro mem_rep_queue [OF L M, of "{last (rq # a_queue a), rq, t}"]) auto
  show "mem_rep T stk rq (list_add_head m rq t) (a\<lparr>a_queue := t # a_queue a\<rparr>)"
    using list_add_head_frame [of m rq "[]" "a_queue a" t rq] list_add_head_dll [OF d(1) fr] d fr t ends
    by (intro mem_rep_queue [OF L M, of "{rq, hd (a_queue a @ [rq]), t}"]) auto
qed

lemma mem_rep_remove_head:
  assumes L: "layout T stk rq" and M: "mem_rep T stk rq m a"
  shows "\<exists>m'. list_remove_head_type m rq 0 = (if a_queue a = [] then NULL else hd (a_queue a), m')
    \<and> mem_rep T stk rq m' (a\<lparr>a_queue := tl (a_queue a)\<rparr>)"
proof (cases "a_queue a")
  case Nil
  have d: "dll m rq []" using M Nil by (simp add: mem_rep_def)
  have "a\<lparr>a_queue := []\<rparr> = a" using Nil by (cases a) simp
  then have "mem_rep T stk rq m (a\<lparr>a_queue := []\<rparr>)" using M by (simp only:)
  then show ?thesis using list_remove_head_dll(1) [OF d] Nil
    by (simp add: list_remove_head_type_def)
next
  case (Cons t q)
  have d: "dll m rq ([] @ t # q)" "set (t # q) \<subseteq> T" using M Cons by (auto simp: mem_rep_def)
  have "hd (q @ [rq]) \<in> insert rq (set q)" by (auto simp: hd_append)
  then have "hd (q @ [rq]) \<in> insert rq T" using d(2) by auto
  then have "mem_rep T stk rq (list_delete m t) (a\<lparr>a_queue := q\<rparr>)"
    using list_delete_frame [OF d(1)] list_delete_dll(1) [OF d(1)] d(2)
    by (intro mem_rep_queue [OF L M, of "{rq, t, hd (q @ [rq])}"]) auto
  moreover have "t \<noteq> 0" using layoutD(7) [OF L] d(2) by simp
  ultimately show ?thesis using list_remove_head_dll(1) [of m rq "t # q"] d(1) Cons
    by (simp add: list_remove_head_type_def containerof_def)
qed

section \<open>The stack switch\<close>

text \<open>What the switch saves: the five words below the stack pointer.\<close>

definition saved_frame :: "mem \<Rightarrow> u32 \<Rightarrow> ctx \<Rightarrow> mem" where
  "saved_frame m sp c = st32 (st32 (st32 (st32 (st32 m (sp - 4) (x_ret c)) (sp - 8) (x_ebx c)) (sp - 12) (x_ebp c))
     (sp - 16) (x_esi c)) (sp - 20) (x_edi c)"

lemma frame_word_apart: "apart (sp - i) 4 (sp - j) 4" if "i \<in> {4, 8, 12, 16, 20}" "j \<in> {4, 8, 12, 16, 20}" "i \<noteq> j" for sp :: u32
  using that by (auto simp: apart_def)

lemma frame_words: "sp - 20 + 4 = sp - 16" "sp - 20 + 8 = sp - 12" "sp - 20 + 12 = sp - 8" "sp - 20 + 16 = sp - (4 :: u32)"
  by simp_all

lemma saved_frame_ctx:
  "x_sp c = sp \<Longrightarrow> ctx_at (saved_frame m sp c) (sp - 20) c"
  by (simp add: ctx_at_def saved_frame_def frame_words mem_simps frame_word_apart)

lemma frame_word_in:
  "region (sp - 20) 4 \<subseteq> region (sp - 20) 20" "region (sp - 16) 4 \<subseteq> region (sp - 20) 20"
  "region (sp - 12) 4 \<subseteq> region (sp - 20) 20" "region (sp - 8) 4 \<subseteq> region (sp - 20) 20"
  "region (sp - 4) 4 \<subseteq> region (sp - 20) 20" for sp :: u32
proof -
  have "region (sp - 20) 4 \<subseteq> region (sp - 20) 20" "region (sp - 20 + 4) 4 \<subseteq> region (sp - 20) 20"
    "region (sp - 20 + 8) 4 \<subseteq> region (sp - 20) 20" "region (sp - 20 + 12) 4 \<subseteq> region (sp - 20) 20"
    "region (sp - 20 + 16) 4 \<subseteq> region (sp - 20) 20"
    by (rule region_mono, simp) (rule region_field, simp)+
  then show "region (sp - 20) 4 \<subseteq> region (sp - 20) 20" "region (sp - 16) 4 \<subseteq> region (sp - 20) 20"
    "region (sp - 12) 4 \<subseteq> region (sp - 20) 20" "region (sp - 8) 4 \<subseteq> region (sp - 20) 20"
    "region (sp - 4) 4 \<subseteq> region (sp - 20) 20"
    unfolding frame_words .
qed

lemma saved_frame_frame: "frame (region (sp - 20) 20) m (saved_frame m sp c)"
  unfolding saved_frame_def by (intro frame_st32 frame_refl frame_word_in)

text \<open>The register context of the running task when it calls the switch.\<close>

definition call_ctx :: "kernel \<Rightarrow> ctx" where
  "call_ctx k = (regs k)\<lparr>x_ret := switch_return_addr k\<rparr>"

lemma x86_task_switch_eq:
  assumes "ctx_at (st32 (saved_frame (kmem k) (esp k) (call_ctx k)) (old + off_saved_sp) (esp k - 20)) (fld (kmem k) task off_saved_sp) c"
  shows "x86_task_switch old task k =
    k\<lparr>kmem := st32 (saved_frame (kmem k) (esp k) (call_ctx k)) (old + off_saved_sp) (esp k - 20),
      edi := x_edi c, esi := x_esi c, ebp := x_ebp c, ebx := x_ebx c, eip := x_ret c, esp := x_sp c\<rparr>"
  using assms
  by (simp add: x86_task_switch_def x86_asm_switch_def push_def pop_def Let_def saved_frame_def call_ctx_def regs_def ctx_at_def ac_simps)

text \<open>
  A switch away from the running task: its context is saved on its stack, the context of the
  new one is live, and the saved contexts of all the others are as they were.
\<close>

lemma mem_rep_switch:
  assumes L: "layout T stk rq" and M: "mem_rep T stk rq (kmem k) a"
    and old: "old \<in> T" "old \<notin> a_susp a" "region (esp k - 20) 20 \<subseteq> stk old" and new: "new \<in> a_susp a"
  shows "\<exists>m'. x86_task_switch old new k =
      k\<lparr>kmem := m', edi := x_edi (a_ctx a new), esi := x_esi (a_ctx a new), ebp := x_ebp (a_ctx a new),
        ebx := x_ebx (a_ctx a new), eip := x_ret (a_ctx a new), esp := x_sp (a_ctx a new)\<rparr>
    \<and> mem_rep T stk rq m' (a\<lparr>a_susp := insert old (a_susp a - {new}), a_ctx := (a_ctx a)(old := call_ctx k)\<rparr>)"
proof -
  let ?m1 = "saved_frame (kmem k) (esp k) (call_ctx k)"
  let ?m2 = "set_fld ?m1 old off_saved_sp (esp k - 20)"
  have d: "dll (kmem k) rq (a_queue a)" "set (a_queue a) \<subseteq> T" "a_susp a \<subseteq> T" using M by (auto simp: mem_rep_def)
  have f: "frame (stk old) (kmem k) ?m1" by (rule frame_mono [OF saved_frame_frame old(3)])
  have fl: "fld ?m1 t off = fld (kmem k) t off" if "t \<in> T" "off \<in> fields" for t off
    unfolding fld_def using layoutD(4) [OF L old(1) that(1)] field_in_task [OF that(2)]
    by (intro frame_ld32 [OF f]) blast
  have dll1: "dll ?m1 rq (a_queue a)"
    by (rule dll_frame [OF d(1) f]) (use layoutD(3,4) [OF L old(1)] node_in_task d(2) in \<open>auto, blast+\<close>)
  have cx: "ctx_at ?m1 (fld (kmem k) t off_saved_sp) (a_ctx a t)" if "t \<in> a_susp a" for t
  proof -
    have "ctx_at (kmem k) (fld (kmem k) t off_saved_sp) (a_ctx a t)" "region (fld (kmem k) t off_saved_sp) 20 \<subseteq> stk t" "t \<in> T" "t \<noteq> old"
      using M that old(2) by (auto simp: mem_rep_def)
    then show ?thesis using layoutD(5) [OF L old(1), of t] by (intro ctx_at_frame [OF _ f]) auto
  qed
  have M1: "mem_rep T stk rq ?m1 a" using M fl dll1 cx by (auto simp: mem_rep_def subset_eq)
  have s2: "fld ?m2 u off = (if old = u \<and> off_saved_sp = off then esp k - 20 else fld (kmem k) u off)"
    if "u \<in> T" "off \<in> fields" for u off
    using fld_set_fld [OF L old(1) that(1) off_fields(7) that(2)] fl [OF that] by simp
  have cold: "ctx_at ?m2 (esp k - 20) (call_ctx k)"
  proof (rule ctx_at_frame [OF saved_frame_ctx set_fld_frame [OF off_fields(7)]])
    show "x_sp (call_ctx k) = esp k" by (simp add: call_ctx_def regs_def)
    show "region old 36 \<inter> region (esp k - 20) 20 = {}" using old(1,3) layoutD(4) [OF L, of old old] by blast
  qed
  note F = mem_rep_set_fld [OF L M1 old(1) off_fields(7), where v = "esp k - 20"]
  have cnew: "ctx_at ?m2 (fld (kmem k) t off_saved_sp) (a_ctx a t)" if "t \<in> a_susp a" for t
    using F(2) [OF that] fl [of t off_saved_sp] that d(3) by auto
  have "mem_rep T stk rq ?m2 (a\<lparr>a_susp := insert old (a_susp a - {new}), a_ctx := (a_ctx a)(old := call_ctx k)\<rparr>)"
    using M F(1) s2 cold cnew old d(2,3) by (auto simp: mem_rep_def subset_eq)
  moreover have "ctx_at (st32 ?m1 (old + off_saved_sp) (esp k - 20)) (fld (kmem k) new off_saved_sp) (a_ctx a new)"
    using cnew [OF new] by (simp add: set_fld_def)
  from x86_task_switch_eq [OF this] have "x86_task_switch old new k =
      k\<lparr>kmem := ?m2, edi := x_edi (a_ctx a new), esi := x_esi (a_ctx a new), ebp := x_ebp (a_ctx a new),
        ebx := x_ebx (a_ctx a new), eip := x_ret (a_ctx a new), esp := x_sp (a_ctx a new)\<rparr>"
    by (simp add: set_fld_def)
  ultimately show ?thesis by blast
qed

end
