(* ===== verification/TaskSched.thy ===== *)
theory TaskSched
  imports TaskRefine
begin

text \<open>
  Every scheduler function of \<^verbatim>\<open>task.c\<close> refines an operation of the abstract scheduler of
  \<^verbatim>\<open>TaskRefine\<close>: \<open>sched_rep\<close> relates the kernel and the abstract state, and
  each lemma \<open>rep_\<dots>\<close> runs one function through it. \<open>sched_ok\<close> is the scheduler's invariant.
\<close>

section \<open>Abstract operations\<close>

definition a_enter :: "sched \<Rightarrow> sched" where
  "a_enter a = (let n = a_count a (a_cur a) + 1
    in a\<lparr>a_count := (a_count a)(a_cur a := n), a_irq := (n \<noteq> 1 \<and> a_irq a)\<rparr>)"

definition a_exit :: "sched \<Rightarrow> sched" where
  "a_exit a = (let n = a_count a (a_cur a) - 1
    in a\<lparr>a_count := (a_count a)(a_cur a := n), a_irq := (n = 0 \<or> a_irq a)\<rparr>)"

definition a_requeue :: "sched \<Rightarrow> sched" where
  "a_requeue a = (if a_state a (a_cur a) = RUNNING
    then a\<lparr>a_state := (a_state a)(a_cur a := READY), a_queue := a_queue a @ [a_cur a]\<rparr> else a)"

definition a_pick :: "addr \<Rightarrow> sched \<Rightarrow> sched" where
  "a_pick idle a = (let t = (if a_queue a = [] then idle else hd (a_queue a))
    in a\<lparr>a_queue := tl (a_queue a), a_cur := t, a_state := (a_state a)(t := RUNNING)\<rparr>)"

definition a_switch :: "addr \<Rightarrow> ctx \<Rightarrow> sched \<Rightarrow> sched" where
  "a_switch old c a = (if a_cur a = old then a
    else a\<lparr>a_susp := insert old (a_susp a - {a_cur a}), a_ctx := (a_ctx a)(old := c)\<rparr>)"

definition a_reschedule :: "addr \<Rightarrow> ctx \<Rightarrow> sched \<Rightarrow> sched" where
  "a_reschedule idle c a = a_exit (a_switch (a_cur a) c (a_pick idle (a_requeue (a_enter a))))"

definition a_start :: "addr \<Rightarrow> sched \<Rightarrow> sched" where
  "a_start t a = a_exit ((a_enter a)\<lparr>a_state := (a_state a)(t := READY), a_queue := t # a_queue a\<rparr>)"

definition a_create :: "addr \<Rightarrow> u32 \<times> u32 \<Rightarrow> ctx \<Rightarrow> sched \<Rightarrow> sched" where
  "a_create t code c a = a\<lparr>a_state := (a_state a)(t := INITIAL), a_count := (a_count a)(t := 1), a_code := (a_code a)(t := code),
     a_susp := insert t (a_susp a), a_ctx := (a_ctx a)(t := c)\<rparr>"

section \<open>Refinement\<close>

definition sched_rep :: "addr set \<Rightarrow> (addr \<Rightarrow> addr set) \<Rightarrow> kernel \<Rightarrow> sched \<Rightarrow> bool" where
  "sched_rep T stk k a \<longleftrightarrow> layout T stk (run_queue k) \<and> mem_rep T stk (run_queue k) (kmem k) a
     \<and> current_task k = a_cur a \<and> irq_on k = a_irq a \<and> a_cur a \<in> T"

definition consts_of :: "kernel \<Rightarrow> addr \<times> addr \<times> addr \<times> addr \<times> addr" where
  "consts_of k = (idle_task k, idle_stack k, run_queue k, task_trampoline_addr k, switch_return_addr k)"

definition same_cpu :: "kernel \<Rightarrow> kernel \<Rightarrow> bool" where
  "same_cpu k k' \<longleftrightarrow> regs k' = regs k \<and> consts_of k' = consts_of k"

lemma sched_repD:
  assumes "sched_rep T stk k a"
  shows "layout T stk (run_queue k)" "mem_rep T stk (run_queue k) (kmem k) a" "current_task k = a_cur a"
    "irq_on k = a_irq a" "a_cur a \<in> T"
    "t \<in> T \<Longrightarrow> fld (kmem k) t off_state = a_state a t" "t \<in> T \<Longrightarrow> fld (kmem k) t off_count = a_count a t"
  using assms by (simp_all add: sched_rep_def mem_rep_def)

lemma consts_ofD:
  "consts_of k' = consts_of k \<Longrightarrow> idle_task k' = idle_task k \<and> idle_stack k' = idle_stack k \<and> run_queue k' = run_queue k
     \<and> task_trampoline_addr k' = task_trampoline_addr k \<and> switch_return_addr k' = switch_return_addr k"
  by (simp add: consts_of_def)

lemma mem_rep_irq [simp]: "mem_rep T stk rq m (a\<lparr>a_irq := b\<rparr>) = mem_rep T stk rq m a"
  by (simp add: mem_rep_def)

lemma mem_rep_cur [simp]: "mem_rep T stk rq m (a\<lparr>a_cur := b\<rparr>) = mem_rep T stk rq m a"
  by (simp add: mem_rep_def)

lemma rep_enter:
  assumes "sched_rep T stk k a"
  shows "sched_rep T stk (enter_critical_section k) (a_enter a)" "same_cpu k (enter_critical_section k)"
proof -
  note R = sched_repD [OF assms]
  have "mem_rep T stk (run_queue k) (set_fld (kmem k) (a_cur a) off_count n)
      (a\<lparr>a_count := (a_count a)(a_cur a := n), a_irq := b\<rparr>)" for b n
    using mem_rep_count [OF R(1,2,5)] by simp
  then show "sched_rep T stk (enter_critical_section k) (a_enter a)"
    using R by (simp add: sched_rep_def enter_critical_section_def a_enter_def Let_def x86_cli_def)
  show "same_cpu k (enter_critical_section k)"
    by (simp add: same_cpu_def consts_of_def regs_def enter_critical_section_def Let_def x86_cli_def)
qed

lemma rep_exit:
  assumes "sched_rep T stk k a"
  shows "sched_rep T stk (exit_critical_section k) (a_exit a)" "same_cpu k (exit_critical_section k)"
proof -
  note R = sched_repD [OF assms]
  have "mem_rep T stk (run_queue k) (set_fld (kmem k) (a_cur a) off_count n)
      (a\<lparr>a_count := (a_count a)(a_cur a := n), a_irq := b\<rparr>)" for b n
    using mem_rep_count [OF R(1,2,5)] by simp
  then show "sched_rep T stk (exit_critical_section k) (a_exit a)"
    using R by (simp add: sched_rep_def exit_critical_section_def a_exit_def Let_def x86_sti_def)
  show "same_cpu k (exit_critical_section k)"
    by (simp add: same_cpu_def consts_of_def regs_def exit_critical_section_def Let_def x86_sti_def)
qed

lemma same_cpu_trans: "same_cpu k k' \<Longrightarrow> same_cpu k' k'' \<Longrightarrow> same_cpu k k''"
  by (simp add: same_cpu_def)

text \<open>The two halves of the choice: put the running task at the tail, take the head.\<close>

lemma rep_requeue:
  assumes "sched_rep T stk k a" "a_cur a \<notin> set (a_queue a)"
  defines "m \<equiv> (if fld (kmem k) (current_task k) off_state = RUNNING
     then list_add_tail (set_fld (kmem k) (current_task k) off_state READY) (run_queue k) (current_task k) else kmem k)"
  shows "sched_rep T stk (k\<lparr>kmem := m\<rparr>) (a_requeue a)"
proof -
  note R = sched_repD [OF assms(1)]
  have "mem_rep T stk (run_queue k) (list_add_tail (set_fld (kmem k) (a_cur a) off_state READY) (run_queue k) (a_cur a))
     (a\<lparr>a_state := (a_state a)(a_cur a := READY), a_queue := a_queue a @ [a_cur a]\<rparr>)"
    using mem_rep_add(1) [OF R(1) mem_rep_state [OF R(1,2,5)] R(5)] assms(2) by simp
  then show ?thesis using R assms(1) by (auto simp: sched_rep_def a_requeue_def m_def)
qed

lemma rep_choose:
  assumes rep: "sched_rep T stk k a" and "a_cur a \<notin> set (a_queue a)" "idle_task k \<in> T"
  shows "\<exists>k'. resched_choose k = (a_cur a, a_cur (a_pick (idle_task k) (a_requeue a)), k') \<and>
     sched_rep T stk k' (a_pick (idle_task k) (a_requeue a)) \<and> same_cpu k k'"
proof -
  let ?a = "a_requeue a"
  let ?m = "if fld (kmem k) (current_task k) off_state = RUNNING
     then list_add_tail (set_fld (kmem k) (current_task k) off_state READY) (run_queue k) (current_task k) else kmem k"
  from rep_requeue [OF rep assms(2)] have M: "sched_rep T stk (k\<lparr>kmem := ?m\<rparr>) ?a" by simp
  note R = sched_repD [OF M, simplified]
  from mem_rep_remove_head [OF R(1,2)] obtain m' where m':
    "list_remove_head_type ?m (run_queue k) 0 = (if a_queue ?a = [] then NULL else hd (a_queue ?a), m')"
    "mem_rep T stk (run_queue k) m' (?a\<lparr>a_queue := tl (a_queue ?a)\<rparr>)" by auto
  have sub: "set (a_queue ?a) \<subseteq> T" using R(2) by (simp add: mem_rep_def)
  then have hd: "a_queue ?a \<noteq> [] \<Longrightarrow> hd (a_queue ?a) \<in> T \<and> hd (a_queue ?a) \<noteq> NULL"
    using layoutD(7) [OF R(1)] by (cases "a_queue ?a") auto
  let ?t = "if a_queue ?a = [] then idle_task k else hd (a_queue ?a)"
  have t: "?t \<in> T" using hd assms(3) by auto
  note S = mem_rep_state [OF R(1) m'(2) t, of RUNNING]
  have e: "resched_choose k = (a_cur a, ?t, k\<lparr>current_task := ?t, kmem := set_fld m' ?t off_state RUNNING\<rparr>)"
    using m'(1) hd sched_repD(3) [OF rep] by (auto simp: resched_choose_def Let_def split: prod.split)
  have ap: "a_pick (idle_task k) ?a =
      ?a\<lparr>a_queue := tl (a_queue ?a), a_cur := ?t, a_state := (a_state ?a)(?t := RUNNING)\<rparr>"
    by (simp add: a_pick_def Let_def)
  have "sched_rep T stk (k\<lparr>current_task := ?t, kmem := set_fld m' ?t off_state RUNNING\<rparr>) (a_pick (idle_task k) ?a)"
    unfolding ap using S R(1,4) t by (simp add: sched_rep_def mem_rep_def)
  moreover have "a_cur (a_pick (idle_task k) ?a) = ?t" by (simp add: ap)
  ultimately show ?thesis using e by (auto simp: same_cpu_def regs_def consts_of_def)
qed

section \<open>The invariant\<close>

definition sched_ok :: "kernel \<Rightarrow> sched \<Rightarrow> bool" where
  "sched_ok k a \<longleftrightarrow> distinct (a_queue a) \<and> set (a_queue a) \<subseteq> a_susp a \<and> a_cur a \<notin> a_susp a
     \<and> idle_task k \<in> insert (a_cur a) (a_susp a) \<and> (a_irq a \<longleftrightarrow> a_count a (a_cur a) = 0)
     \<and> (\<forall>t. t \<in> set (a_queue a) \<longleftrightarrow> t \<in> a_susp a \<and> a_state a t = READY)
     \<and> a_state a (a_cur a) \<noteq> READY
     \<and> (\<forall>t\<in>a_susp a. a_state a t \<noteq> RUNNING \<and> a_count a t \<noteq> 0
          \<and> x_ret (a_ctx a t) \<in> {switch_return_addr k, task_trampoline_addr k})"

lemma states_distinct [simp]:
  "READY \<noteq> RUNNING" "RUNNING \<noteq> READY" "INITIAL \<noteq> READY" "READY \<noteq> INITIAL" "INITIAL \<noteq> RUNNING" "RUNNING \<noteq> INITIAL"
  "DEAD \<noteq> READY" "READY \<noteq> DEAD" "DEAD \<noteq> RUNNING" "RUNNING \<noteq> DEAD" "DEAD \<noteq> INITIAL" "INITIAL \<noteq> DEAD"
  by (simp_all add: READY_def RUNNING_def INITIAL_def DEAD_def)

lemma sched_ok_consts: "consts_of k' = consts_of k \<Longrightarrow> sched_ok k' a = sched_ok k a"
  by (drule consts_ofD) (simp add: sched_ok_def)

text \<open>The next task to run is the old one or a suspended one.\<close>

lemma pick_suspended:
  assumes "sched_ok k a"
  shows "a_cur (a_pick (idle_task k) (a_requeue (a_enter a))) \<in> insert (a_cur a) (a_susp a)"
  using assms by (cases "a_queue a") (auto simp: sched_ok_def a_pick_def a_requeue_def a_enter_def Let_def)

lemma abstract_frame [simp]:
  "a_susp (a_pick i (a_requeue (a_enter a))) = a_susp a" "a_ctx (a_pick i (a_requeue (a_enter a))) = a_ctx a"
  "a_cur (a_enter a) = a_cur a" "a_queue (a_enter a) = a_queue a" "a_cur (a_requeue a) = a_cur a"
  "a_cur (a_exit a) = a_cur a" "a_cur (a_switch old c a) = a_cur a" "a_susp (a_enter a) = a_susp a"
  "a_state (a_enter a) = a_state a" "a_ctx (a_enter a) = a_ctx a" "a_code (a_reschedule i c a) = a_code a"
  by (auto simp: a_pick_def a_requeue_def a_enter_def a_exit_def a_switch_def a_reschedule_def Let_def)

lemma continue_at_eq:
  "eip k \<in> {switch_return_addr k, task_trampoline_addr k} \<Longrightarrow> continue_at k = Some (exit_critical_section k)"
  by (auto simp: continue_at_def task_trampoline_def Let_def)

section \<open>task\_reschedule\<close>

lemma rep_reschedule:
  assumes rep: "sched_rep T stk k a" and ok: "sched_ok k a" and idle: "idle_task k \<in> T"
    and room: "region (esp k - 20) 20 \<subseteq> stk (a_cur a)"
  defines "a' \<equiv> a_reschedule (idle_task k) (call_ctx k) a"
  shows "\<exists>k'. task_reschedule k = Some k' \<and> sched_rep T stk k' a' \<and> consts_of k' = consts_of k
    \<and> regs k' = (if a_cur a' = a_cur a then regs k else a_ctx a (a_cur a'))"
proof -
  let ?k1 = "enter_critical_section k" and ?b = "a_pick (idle_task k) (a_requeue (a_enter a))"
  have cpu1: "same_cpu k ?k1" and rep1: "sched_rep T stk ?k1 (a_enter a)" using rep_enter [OF rep] by auto
  have c1: "consts_of ?k1 = consts_of k" using cpu1 by (simp add: same_cpu_def)
  have "a_cur a \<notin> set (a_queue a)" using ok by (auto simp: sched_ok_def)
  then obtain k2 where k2: "resched_choose ?k1 = (a_cur a, a_cur ?b, k2)" "sched_rep T stk k2 ?b" "same_cpu ?k1 k2"
    using rep_choose [OF rep1] idle consts_ofD [OF c1] by auto
  have cpu2: "same_cpu k k2" by (rule same_cpu_trans [OF cpu1 k2(3)])
  then have c2: "consts_of k2 = consts_of k" "regs k2 = regs k" "esp k2 = esp k" "call_ctx k2 = call_ctx k"
    by (auto simp: same_cpu_def regs_def call_ctx_def consts_of_def)
  have a': "a' = a_exit (a_switch (a_cur a) (call_ctx k) ?b)" by (simp add: a'_def a_reschedule_def)
  show ?thesis
  proof (cases "a_cur ?b = a_cur a")
    case True
    then have "task_reschedule k = Some (exit_critical_section k2)" by (simp add: task_reschedule_def Let_def k2(1))
    moreover have "a' = a_exit ?b" using True by (simp add: a' a_switch_def)
    ultimately show ?thesis using rep_exit [OF k2(2)] c2 True by (simp add: same_cpu_def)
  next
    case False
    let ?new = "a_cur ?b"
    have new: "?new \<in> a_susp ?b" using pick_suspended [OF ok] False by simp
    have M: "layout T stk (run_queue k2)" "mem_rep T stk (run_queue k2) (kmem k2) ?b" "current_task k2 = ?new"
      "irq_on k2 = a_irq ?b" "?new \<in> T" using sched_repD [OF k2(2)] by auto
    have old: "a_cur a \<in> T" "a_cur a \<notin> a_susp ?b" "region (esp k2 - 20) 20 \<subseteq> stk (a_cur a)"
      using sched_repD(5) [OF rep] ok room c2 by (auto simp: sched_ok_def)
    from mem_rep_switch [OF M(1,2) old new] obtain m' where
      m': "x86_task_switch (a_cur a) ?new k2 = k2\<lparr>kmem := m', edi := x_edi (a_ctx ?b ?new), esi := x_esi (a_ctx ?b ?new),
         ebp := x_ebp (a_ctx ?b ?new), ebx := x_ebx (a_ctx ?b ?new), eip := x_ret (a_ctx ?b ?new), esp := x_sp (a_ctx ?b ?new)\<rparr>"
      "mem_rep T stk (run_queue k2) m' (?b\<lparr>a_susp := insert (a_cur a) (a_susp ?b - {?new}), a_ctx := (a_ctx ?b)(a_cur a := call_ctx k2)\<rparr>)"
      by blast
    let ?k3 = "x86_task_switch (a_cur a) ?new k2"
    have k3: "regs ?k3 = a_ctx a ?new" "consts_of ?k3 = consts_of k" "eip ?k3 = x_ret (a_ctx a ?new)"
      using m'(1) c2 by (auto simp: regs_def consts_of_def)
    have "sched_rep T stk ?k3 (a_switch (a_cur a) (call_ctx k) ?b)"
      using M m' False c2(4) by (simp add: sched_rep_def a_switch_def)
    from rep_exit [OF this] have E: "sched_rep T stk (exit_critical_section ?k3) a'" "same_cpu ?k3 (exit_critical_section ?k3)"
      by (simp_all add: a')
    have "x_ret (a_ctx a ?new) \<in> {switch_return_addr k, task_trampoline_addr k}"
      using ok new by (auto simp: sched_ok_def)
    then have "continue_at ?k3 = Some (exit_critical_section ?k3)"
      using continue_at_eq [of ?k3] k3 consts_ofD [OF k3(2)] by simp
    then have "task_reschedule k = Some (exit_critical_section ?k3)" using False by (simp add: task_reschedule_def Let_def k2(1))
    then show ?thesis using E k3 False by (auto simp: same_cpu_def a')
  qed
qed

text \<open>The invariant across a reschedule.\<close>

lemma ok_reschedule:
  assumes ok: "sched_ok k a" and n: "a_count a (a_cur a) + 1 \<noteq> 0" and r: "x_ret c = switch_return_addr k"
  shows "sched_ok k (a_reschedule (idle_task k) c a)"
proof (cases "a_state a (a_cur a) = RUNNING")
  case True
  then show ?thesis using ok n r
    by (cases "a_queue a")
      (auto simp: sched_ok_def a_reschedule_def a_exit_def a_switch_def a_pick_def a_requeue_def a_enter_def Let_def)
next
  case False
  then show ?thesis using ok n r
    by (cases "a_queue a")
      (auto simp: sched_ok_def a_reschedule_def a_exit_def a_switch_def a_pick_def a_requeue_def a_enter_def Let_def)
qed

end
