(* ===== verification/TaskRun.thy ===== *)
theory TaskRun
  imports TaskSched
begin

text \<open>
  Starting, creating and ending tasks, the scheduler's initial state, and the executions of the
  whole system: \<open>run_step\<close> is one operation of the task that has the processor, \<open>sched_reach\<close> its
  reflexive transitive closure, and \<open>reach_inv\<close> the invariant of every reachable kernel.
\<close>

section \<open>task\_start\<close>

lemma a_start_net:
  assumes "sched_ok k a" "a_count a (a_cur a) + 1 \<noteq> 0"
  shows "a_start t a = a\<lparr>a_state := (a_state a)(t := READY), a_queue := t # a_queue a\<rparr>"
    "a_exit (a_enter a) = a"
  using assms by (cases a, auto simp: a_start_def a_exit_def a_enter_def Let_def sched_ok_def fun_upd_idem)+

lemma rep_start:
  assumes rep: "sched_rep T stk k a" and t: "t \<in> T" and q: "a_state a t = INITIAL \<Longrightarrow> t \<notin> set (a_queue a)"
  shows "\<exists>k'. task_start k t = (if a_state a t = INITIAL then 0 else - 1, k') \<and> same_cpu k k'
    \<and> sched_rep T stk k' (if a_state a t = INITIAL then a_start t a else a_exit (a_enter a))"
proof -
  let ?k1 = "enter_critical_section k"
  have rep1: "sched_rep T stk ?k1 (a_enter a)" and cpu1: "same_cpu k ?k1" using rep_enter [OF rep] by auto
  have st: "fld (kmem ?k1) t off_state = a_state a t" using sched_repD(6) [OF rep1 t] by simp
  show ?thesis
  proof (cases "a_state a t = INITIAL")
    case False
    then show ?thesis using st rep_exit [OF rep1] same_cpu_trans [OF cpu1] by (auto simp: task_start_def Let_def)
  next
    case True
    let ?m = "list_add_head (set_fld (kmem ?k1) t off_state READY) (run_queue ?k1) t"
    note R = sched_repD [OF rep1]
    have "mem_rep T stk (run_queue ?k1) ?m ((a_enter a)\<lparr>a_state := (a_state a)(t := READY), a_queue := t # a_queue a\<rparr>)"
      using mem_rep_add(2) [OF R(1) mem_rep_state [OF R(1,2) t] t] q [OF True] by simp
    then have "sched_rep T stk (?k1\<lparr>kmem := ?m\<rparr>) ((a_enter a)\<lparr>a_state := (a_state a)(t := READY), a_queue := t # a_queue a\<rparr>)"
      using R by (simp add: sched_rep_def)
    from rep_exit [OF this] have "sched_rep T stk (exit_critical_section (?k1\<lparr>kmem := ?m\<rparr>)) (a_start t a)"
      "same_cpu (?k1\<lparr>kmem := ?m\<rparr>) (exit_critical_section (?k1\<lparr>kmem := ?m\<rparr>))" by (simp_all add: a_start_def)
    moreover have "same_cpu ?k1 (?k1\<lparr>kmem := ?m\<rparr>)" by (simp add: same_cpu_def regs_def consts_of_def)
    ultimately show ?thesis using True st same_cpu_trans [OF same_cpu_trans [OF cpu1]] by (auto simp: task_start_def Let_def)
  qed
qed

lemma ok_start:
  assumes "sched_ok k a" "a_count a (a_cur a) + 1 \<noteq> 0" "t \<in> a_susp a" "a_state a t = INITIAL"
  shows "sched_ok k (a_start t a)"
  unfolding a_start_net(1) [OF assms(1,2)] using assms(1,3,4) by (auto simp: sched_ok_def)

section \<open>task\_create\<close>

text \<open>The context a new task is created with.\<close>

definition first_ctx :: "kernel \<Rightarrow> u32 \<Rightarrow> ctx" where
  "first_ctx k sp = \<lparr>x_edi = 0, x_esi = 0, x_ebp = 0, x_ebx = 0, x_ret = task_trampoline_addr k, x_sp = sp\<rparr>"

definition first_frame :: "mem \<Rightarrow> u32 \<Rightarrow> u32 \<Rightarrow> mem" where
  "first_frame m sp entry_point = st32 (st32 (st32 (st32 (st32 m (sp - 8) 0) (sp - 12) 0) (sp - 16) 0) (sp - 20) 0)
     (sp - 4) entry_point"

lemma x86_init_task_eq:
  "x86_init_task m t entry_point sp = (0, set_fld (first_frame m sp entry_point) t off_saved_sp (sp - 20))"
  by (simp add: x86_init_task_def Let_def first_frame_def frame_words)

lemma first_frame_ctx: "ctx_at (first_frame m sp (task_trampoline_addr k)) (sp - 20) (first_ctx k sp)"
  by (simp add: ctx_at_def first_frame_def first_ctx_def frame_words mem_simps frame_word_apart)

lemma first_frame_frame: "frame (region (sp - 20) 20) m (first_frame m sp e)"
  unfolding first_frame_def by (intro frame_st32 frame_refl frame_word_in)

text \<open>A change confined to a task outside the queue and its stack makes it a suspended task.\<close>

lemma mem_rep_fresh:
  assumes L: "layout T stk rq" and M: "mem_rep T stk rq m a" and t: "t \<in> T" "t \<notin> set (a_queue a)"
    and f: "frame (region t 36 \<union> stk t) m m'"
    and c: "ctx_at m' (fld m' t off_saved_sp) c" "region (fld m' t off_saved_sp) 20 \<subseteq> stk t"
  shows "mem_rep T stk rq m' (a\<lparr>a_state := (a_state a)(t := fld m' t off_state),
     a_count := (a_count a)(t := fld m' t off_count), a_code := (a_code a)(t := (fld m' t off_entry, fld m' t off_arg)), a_susp := insert t (a_susp a), a_ctx := (a_ctx a)(t := c)\<rparr>)"
proof -
  have d: "dll m rq (a_queue a)" "set (a_queue a) \<subseteq> T" "a_susp a \<subseteq> T" using M by (auto simp: mem_rep_def)
  have fl: "fld m' u off = fld m u off" if "u \<in> T" "u \<noteq> t" "off \<in> fields" for u off
    unfolding fld_def using layoutD(2,4) [OF L t(1) that(1)] field_in_task [OF that(3)] that(2)
    by (intro frame_ld32 [OF f]) blast
  have dl: "dll m' rq (a_queue a)"
  proof (rule dll_frame [OF d(1) f])
    fix p assume p: "p \<in> set (rq # a_queue a)"
    show "region p 8 \<inter> (region t 36 \<union> stk t) = {}"
    proof (cases "p = rq")
      case True
      then show ?thesis using layoutD(1,3) [OF L t(1)] by blast
    next
      case False
      then have "p \<in> T" "p \<noteq> t" using p d(2) t(2) by auto
      then show ?thesis using layoutD(2,4) [OF L t(1)] node_in_task by blast
    qed
  qed
  have cx: "ctx_at m' (fld m u off_saved_sp) (a_ctx a u)" if "u \<in> a_susp a" "u \<noteq> t" for u
  proof -
    have "ctx_at m (fld m u off_saved_sp) (a_ctx a u)" "region (fld m u off_saved_sp) 20 \<subseteq> stk u" "u \<in> T"
      using M that(1) by (auto simp: mem_rep_def)
    then show ?thesis using layoutD(4) [OF L _ t(1), of u] layoutD(5) [OF L t(1), of u] that(2)
      by (intro ctx_at_frame [OF _ f]) auto
  qed
  show ?thesis using M d dl fl cx c t by (auto simp: mem_rep_def subset_eq)
qed

section \<open>task\_create and task\_init\<close>

definition task_mem :: "mem \<Rightarrow> addr \<Rightarrow> u32 \<Rightarrow> u32 \<Rightarrow> addr \<Rightarrow> u32 \<Rightarrow> mem" where
  "task_mem m t entry arg stack stack_size =
    set_fld (set_fld (set_fld (set_fld (set_fld (set_fld (list_clear_node (rep_stosb m t 0 sizeof_task) t)
      t off_state INITIAL) t off_count 1) t off_entry entry) t off_arg arg) t off_stack stack) t off_stack_size stack_size"

lemma task_mem_frame: "frame (region t 36) m (task_mem m t entry arg stack stack_size)"
proof -
  have "frame (region t 36) m (rep_stosb m t 0 36)" by (simp add: frame_def rep_stosb_eq)
  moreover have "region t 4 \<subseteq> region t 36" "region (t + 4) 4 \<subseteq> region t 36"
    by (rule region_mono, simp) (rule region_field, simp)
  ultimately show ?thesis using field_in_task
    by (simp add: task_mem_def set_fld_def list_clear_node_def set_next_def set_prev_def Let_def sizeof_task_def frame_st32)
qed

lemma task_mem_fields:
  assumes "layout T stk rq" "t \<in> T"
  shows "fld (task_mem m t entry arg stack stack_size) t off_state = INITIAL"
    "fld (task_mem m t entry arg stack stack_size) t off_count = 1"
    "fld (task_mem m t entry arg stack stack_size) t off_entry = entry"
    "fld (task_mem m t entry arg stack stack_size) t off_arg = arg"
    "fld (task_mem m t entry arg stack stack_size) t off_stack = stack"
    "fld (task_mem m t entry arg stack stack_size) t off_stack_size = stack_size"
  by (simp_all add: task_mem_def fld_set_fld [OF assms(1,2,2)]) (simp_all add: off_defs)

lemma task_create_eq:
  assumes "layout T stk rq" "t \<in> T"
  shows "task_create k t entry arg stack stack_size =
    (0, k\<lparr>kmem := set_fld (first_frame (task_mem (kmem k) t entry arg stack stack_size) (stack + stack_size)
       (task_trampoline_addr k)) t off_saved_sp (stack + stack_size - 20)\<rparr>)"
  using task_mem_fields [OF assms, of "kmem k"]
  by (simp add: task_create_def Let_def x86_init_task_eq flip: task_mem_def)

lemma rep_create_mem:
  assumes L: "layout T stk rq" and M: "mem_rep T stk rq m a" and t: "t \<in> T" "t \<notin> set (a_queue a)"
    and room: "region (sp - 20) 20 \<subseteq> stk t" and sp: "sp = stack + stack_size"
    and m'_def: "m' = set_fld (first_frame (task_mem m t entry arg stack stack_size) sp (task_trampoline_addr k)) t off_saved_sp (sp - 20)"
  shows "mem_rep T stk rq m' (a_create t (entry, arg) (first_ctx k sp) a)"
proof -
  let ?m1 = "task_mem m t entry arg stack stack_size" and ?e = "task_trampoline_addr k"
  have f1: "frame (region t 36 \<union> stk t) m ?m1" using task_mem_frame by (rule frame_mono) blast
  have f2: "frame (stk t) ?m1 (first_frame ?m1 sp ?e)" by (rule frame_mono [OF first_frame_frame room])
  have fl: "fld (first_frame ?m1 sp ?e) t off = fld ?m1 t off" if "off \<in> fields" for off
    unfolding fld_def using layoutD(4) [OF L t(1) t(1)] field_in_task [OF that] by (intro frame_ld32 [OF f2]) blast
  have fields': "fld m' t off_saved_sp = sp - 20" "fld m' t off_state = INITIAL" "fld m' t off_count = 1"
    "fld m' t off_entry = entry" "fld m' t off_arg = arg"
    using fl task_mem_fields [OF L t(1)] by (simp_all add: m'_def fld_set_fld [OF L t(1) t(1)])
  have f3: "frame (region t 36) (first_frame ?m1 sp ?e) m'" unfolding m'_def by (rule set_fld_frame) simp
  have "ctx_at m' (sp - 20) (first_ctx k sp)"
    using layoutD(4) [OF L t(1) t(1)] room by (intro ctx_at_frame [OF first_frame_ctx f3]) blast
  moreover have "frame (region t 36 \<union> stk t) m m'"
    by (rule frame_trans [OF f1 frame_trans [OF frame_mono [OF f2] frame_mono [OF f3]]]) auto
  ultimately show "mem_rep T stk rq m' (a_create t (entry, arg) (first_ctx k sp) a)"
    using mem_rep_fresh [OF L M t, of m' "first_ctx k sp"] fields' room by (simp add: a_create_def)
qed

lemma rep_create:
  assumes rep: "sched_rep T stk k a" and t: "t \<in> T" "t \<notin> set (a_queue a)" 
    and room: "region (stack + stack_size - 20) 20 \<subseteq> stk t"
  shows "\<exists>k'. task_create k t entry arg stack stack_size = (0, k') \<and> same_cpu k k'
    \<and> sched_rep T stk k' (a_create t (entry, arg) (first_ctx k (stack + stack_size)) a)"
proof -
  note R = sched_repD [OF rep]
  show ?thesis using rep_create_mem [OF R(1,2) t room refl refl] R
    by (auto simp: task_create_eq [OF R(1) t(1)] sched_rep_def a_create_def same_cpu_def regs_def consts_of_def)
qed

lemma ok_create:
  assumes "sched_ok k a" "t \<notin> insert (a_cur a) (a_susp a)"
  shows "sched_ok k (a_create t (entry, arg) (first_ctx k sp) a)"
  using assms by (auto simp: sched_ok_def a_create_def first_ctx_def)

text \<open>The scheduler before \<^verbatim>\<open>task_init\<close>: no overlap, interrupts off.\<close>

definition boot_ok :: "addr set \<Rightarrow> (addr \<Rightarrow> addr set) \<Rightarrow> kernel \<Rightarrow> bool" where
  "boot_ok T stk k \<longleftrightarrow> layout T stk (run_queue k) \<and> idle_task k \<in> T \<and> \<not> irq_on k
     \<and> region (idle_stack k + 512 - 20) 20 \<subseteq> stk (idle_task k)"

lemma mem_rep_drop: "mem_rep T stk rq m a \<Longrightarrow> S \<subseteq> a_susp a \<Longrightarrow> mem_rep T stk rq m (a\<lparr>a_susp := S\<rparr>)"
  by (auto simp: mem_rep_def)

lemma rep_init:
  assumes "boot_ok T stk k"
  shows "\<exists>a. sched_rep T stk (task_init k) a \<and> sched_ok (task_init k) a \<and> same_cpu k (task_init k)
    \<and> a_cur a = idle_task k \<and> a_susp a = {} \<and> a_queue a = [] \<and> a_state a (idle_task k) = INITIAL \<and> a_count a (idle_task k) = 1"
proof -
  have L: "layout T stk (run_queue k)" and i: "idle_task k \<in> T" and irq: "\<not> irq_on k"
    and room: "region (idle_stack k + 512 - 20) 20 \<subseteq> stk (idle_task k)" using assms by (auto simp: boot_ok_def)
  let ?m = "list_initialize (kmem k) (run_queue k)"
  let ?a = "\<lparr>a_queue = [], a_cur = idle_task k, a_state = \<lambda>t. fld ?m t off_state, a_count = \<lambda>t. fld ?m t off_count,
     a_code = \<lambda>t. (fld ?m t off_entry, fld ?m t off_arg), a_susp = {}, a_ctx = \<lambda>_. first_ctx k 0, a_irq = False\<rparr>"
  have M: "mem_rep T stk (run_queue k) ?m ?a"
    using list_initialize_dll [of "run_queue k" "kmem k"] layoutD(6) [OF L] by (simp add: mem_rep_def)
  note C = rep_create_mem [OF L M i _ room refl refl, of NULL 0 k]
  let ?b = "(a_create (idle_task k) (NULL, 0) (first_ctx k (idle_stack k + 512)) ?a)\<lparr>a_susp := {}\<rparr>"
  have "sched_rep T stk (task_init k) ?b"
    using mem_rep_drop [OF C, of "{}"] L i irq
    by (simp add: task_init_def Let_def task_create_eq [OF L i] sched_rep_def a_create_def)
  moreover have "sched_ok (task_init k) ?b"
    by (simp add: sched_ok_def a_create_def task_init_def Let_def task_create_eq [OF L i])
  moreover have "same_cpu k (task_init k)"
    by (simp add: same_cpu_def regs_def consts_of_def task_init_def Let_def task_create_eq [OF L i])
  ultimately show ?thesis by (intro exI [of _ ?b]) (simp add: a_create_def)
qed

section \<open>task\_exit\<close>

definition a_exit_task :: "ctx \<Rightarrow> addr \<Rightarrow> sched \<Rightarrow> sched" where
  "a_exit_task c idle a = a_reschedule idle c ((a_enter a)\<lparr>a_state := (a_state a)(a_cur a := DEAD)\<rparr>)"

lemma dead_ok:
  assumes "sched_ok k a" "a_count a (a_cur a) + 1 \<noteq> 0"
  shows "sched_ok k ((a_enter a)\<lparr>a_state := (a_state a)(a_cur a := DEAD)\<rparr>)"
  using assms by (auto simp: sched_ok_def a_enter_def Let_def)

lemma rep_exit_task:
  assumes rep: "sched_rep T stk k a" and ok: "sched_ok k a" and idle: "idle_task k \<in> T"
    and room: "region (esp k - 20) 20 \<subseteq> stk (a_cur a)" and n: "a_count a (a_cur a) + 1 \<noteq> 0"
  defines "a' \<equiv> a_exit_task (call_ctx k) (idle_task k) a"
  shows "\<exists>k'. task_exit k = Some k' \<and> sched_rep T stk k' a' \<and> consts_of k' = consts_of k
    \<and> regs k' = (if a_cur a' = a_cur a then regs k else a_ctx a (a_cur a'))"
proof -
  let ?k1 = "enter_critical_section k" and ?b = "(a_enter a)\<lparr>a_state := (a_state a)(a_cur a := DEAD)\<rparr>"
  let ?k2 = "?k1\<lparr>kmem := set_fld (kmem ?k1) (current_task ?k1) off_state DEAD\<rparr>"
  have R1: "sched_rep T stk ?k1 (a_enter a)" and c1: "same_cpu k ?k1" using rep_enter [OF rep] by auto
  note R = sched_repD [OF R1]
  have "mem_rep T stk (run_queue ?k1) (set_fld (kmem ?k1) (a_cur a) off_state DEAD) ?b"
    using mem_rep_state [OF R(1,2,5), of DEAD] by simp
  then have R2: "sched_rep T stk ?k2 ?b" using R by (simp add: sched_rep_def)
  have c2: "consts_of ?k2 = consts_of k" "regs ?k2 = regs k" using c1 by (simp_all add: same_cpu_def consts_of_def regs_def)
  then have s: "esp ?k2 = esp k" "call_ctx ?k2 = call_ctx k" "idle_task ?k2 = idle_task k"
    by (simp_all add: consts_of_def regs_def call_ctx_def)
  have "sched_ok ?k2 ?b" using dead_ok [OF ok n] by (simp add: sched_ok_consts [OF c2(1)])
  note ok2 = this
  have e: "a_cur ?b = a_cur a" "a_ctx ?b = a_ctx a" by simp_all
  have "idle_task ?k2 \<in> T" "region (esp ?k2 - 20) 20 \<subseteq> stk (a_cur ?b)" using idle room by (simp_all only: s e)
  from rep_reschedule [OF R2 ok2 this] show ?thesis
    by (simp only: s c2 e task_exit_def Let_def a'_def a_exit_task_def)
qed

lemma ok_exit_task:
  assumes "sched_ok k a" "a_count a (a_cur a) + 1 \<noteq> 0" "a_count a (a_cur a) + 2 \<noteq> 0" "x_ret c = switch_return_addr k"
  shows "sched_ok k (a_exit_task c (idle_task k) a)"
  unfolding a_exit_task_def
  by (rule ok_reschedule [OF dead_ok [OF assms(1,2)] _ assms(4)]) (use assms(3) in \<open>simp add: a_enter_def Let_def add.commute\<close>)

section \<open>The running task computes\<close>

text \<open>What the code of a task may write: anything but the scheduler's structures and the stacks
  of the other tasks.\<close>

definition task_writes :: "addr set \<Rightarrow> (addr \<Rightarrow> addr set) \<Rightarrow> kernel \<Rightarrow> addr set" where
  "task_writes T stk k = - (region (run_queue k) 8 \<union> (\<Union>t\<in>T. region t 36) \<union> (\<Union>t\<in>T - {current_task k}. stk t))"

lemma rep_compute:
  assumes rep: "sched_rep T stk k a" and ok: "sched_ok k a" and f: "frame (task_writes T stk k) (kmem k) m'"
  shows "sched_rep T stk (k\<lparr>kmem := m', edi := w1, esi := w2, ebp := w3, ebx := w4, eip := w5, esp := w6\<rparr>) a"
proof -
  note R = sched_repD [OF rep]
  have d: "dll (kmem k) (run_queue k) (a_queue a)" "set (a_queue a) \<subseteq> T" "a_susp a \<subseteq> T" using R(2) by (auto simp: mem_rep_def)
  have fl: "fld m' t off = fld (kmem k) t off" if "t \<in> T" "off \<in> fields" for t off
    unfolding fld_def using field_in_task [OF that(2)] that(1) by (intro frame_ld32 [OF f]) (auto simp: task_writes_def)
  have dl: "dll m' (run_queue k) (a_queue a)"
  proof (rule dll_frame [OF d(1) f])
    fix p assume "p \<in> set (run_queue k # a_queue a)"
    then have "p = run_queue k \<or> p \<in> T" using d(2) by auto
    then show "region p 8 \<inter> task_writes T stk k = {}" using node_in_task [of p] by (auto simp: task_writes_def)
  qed
  have cx: "ctx_at m' (fld (kmem k) t off_saved_sp) (a_ctx a t)" if "t \<in> a_susp a" for t
  proof (rule ctx_at_frame [OF _ f])
    show "ctx_at (kmem k) (fld (kmem k) t off_saved_sp) (a_ctx a t)" using R(2) that by (simp add: mem_rep_def)
    have "region (fld (kmem k) t off_saved_sp) 20 \<subseteq> stk t" "t \<in> T" "t \<noteq> current_task k"
      using R(2,3) ok that by (auto simp: mem_rep_def sched_ok_def)
    then show "task_writes T stk k \<inter> region (fld (kmem k) t off_saved_sp) 20 = {}" by (auto simp: task_writes_def)
  qed
  have "mem_rep T stk (run_queue k) m' a" using R(2) fl dl cx d by (auto simp: mem_rep_def subset_eq)
  then show ?thesis using R by (simp add: sched_rep_def)
qed


section \<open>Executions\<close>

text \<open>
  A state is the kernel with the tasks created so far. \<open>has_room\<close>: the 20 bytes a switch
  pushes are on the running task's stack. The counter of critical sections is an \<^verbatim>\<open>int\<close>, so
  the steps that increment it are those that do not wrap it to 0.
\<close>

definition has_room :: "(addr \<Rightarrow> addr set) \<Rightarrow> kernel \<Rightarrow> bool" where
  "has_room stk k \<longleftrightarrow> region (esp k - 20) 20 \<subseteq> stk (current_task k)"

definition count_of :: "kernel \<Rightarrow> u32" where "count_of k = fld (kmem k) (current_task k) off_count"

inductive run_step :: "addr set \<Rightarrow> (addr \<Rightarrow> addr set) \<Rightarrow> addr set \<times> kernel \<Rightarrow> addr set \<times> kernel \<Rightarrow> bool"
  for T stk where
  compute: "frame (task_writes T stk k) (kmem k) m' \<Longrightarrow>
    run_step T stk (C, k) (C, k\<lparr>kmem := m', edi := w1, esi := w2, ebp := w3, ebx := w4, eip := w5, esp := w6\<rparr>)"
| enter: "count_of k + 1 \<noteq> 0 \<Longrightarrow> run_step T stk (C, k) (C, enter_critical_section k)"
| leave: "count_of k \<noteq> 0 \<Longrightarrow> run_step T stk (C, k) (C, exit_critical_section k)"
| create: "t \<in> T - C \<Longrightarrow> region (stack + stack_size - 20) 20 \<subseteq> stk t \<Longrightarrow>
    run_step T stk (C, k) (insert t C, snd (task_create k t entry arg stack stack_size))"
| start: "t \<in> C \<Longrightarrow> t \<noteq> current_task k \<Longrightarrow> count_of k + 1 \<noteq> 0 \<Longrightarrow>
    run_step T stk (C, k) (C, snd (task_start k t))"
| yield: "has_room stk k \<Longrightarrow> count_of k + 1 \<noteq> 0 \<Longrightarrow> task_reschedule k = Some k' \<Longrightarrow> run_step T stk (C, k) (C, k')"
| quit: "has_room stk k \<Longrightarrow> count_of k + 1 \<noteq> 0 \<Longrightarrow> count_of k + 2 \<noteq> 0 \<Longrightarrow> task_exit k = Some k' \<Longrightarrow> run_step T stk (C, k) (C, k')"

inductive_cases run_stepE: "run_step T stk (C, k) x"

definition run_inv :: "addr set \<Rightarrow> (addr \<Rightarrow> addr set) \<Rightarrow> addr set \<Rightarrow> kernel \<Rightarrow> sched \<Rightarrow> bool" where
  "run_inv T stk C k a \<longleftrightarrow> sched_rep T stk k a \<and> sched_ok k a \<and> C = insert (a_cur a) (a_susp a) \<and> idle_task k \<in> T"

lemma run_invD:
  assumes "run_inv T stk C k a"
  shows "sched_rep T stk k a" "sched_ok k a" "C = insert (a_cur a) (a_susp a)" "idle_task k \<in> T"
    "count_of k = a_count a (a_cur a)" "current_task k = a_cur a"
    "has_room stk k \<Longrightarrow> region (esp k - 20) 20 \<subseteq> stk (a_cur a)"
  using assms by (auto simp: run_inv_def count_of_def has_room_def sched_rep_def mem_rep_def)

lemma run_inv_consts:
  "consts_of k' = consts_of k \<Longrightarrow> run_inv T stk C k' a \<longleftrightarrow> sched_rep T stk k' a \<and> sched_ok k a \<and> C = insert (a_cur a) (a_susp a) \<and> idle_task k \<in> T"
  using sched_ok_consts [of k' k a] by (auto simp: run_inv_def dest: consts_ofD)

lemma same_cpu_consts: "same_cpu k k' \<Longrightarrow> consts_of k' = consts_of k"
  by (simp add: same_cpu_def)

text \<open>A reschedule keeps the set of tasks and the saved contexts of those it does not resume.\<close>

lemma reschedule_tasks:
  assumes "sched_ok k a" and a'_def: "a' = a_reschedule (idle_task k) c a"
  shows "insert (a_cur a') (a_susp a') = insert (a_cur a) (a_susp a)"
    "t \<noteq> a_cur a \<Longrightarrow> a_ctx a' t = a_ctx a t" "a_cur a' \<noteq> a_cur a \<Longrightarrow> a_ctx a' (a_cur a) = c"
  using pick_suspended [OF assms(1)] by (auto simp: a'_def a_reschedule_def a_switch_def a_exit_def Let_def)

lemma exit_tasks:
  assumes "sched_ok k a" "a_count a (a_cur a) + 1 \<noteq> 0" and a'_def: "a' = a_exit_task c (idle_task k) a"
  shows "insert (a_cur a') (a_susp a') = insert (a_cur a) (a_susp a)"
    "t \<noteq> a_cur a \<Longrightarrow> a_ctx a' t = a_ctx a t" "a_cur a' \<noteq> a_cur a \<Longrightarrow> a_ctx a' (a_cur a) = c"
  using reschedule_tasks [OF dead_ok [OF assms(1,2)] refl, where c = c] by (simp_all add: a'_def a_exit_task_def)

text \<open>A dead task is not resumed, unless it is the idle task.\<close>

lemma reschedule_dead:
  assumes "sched_ok k a" "t \<in> a_susp a" "a_state a t = DEAD" "t \<noteq> idle_task k"
  shows "a_state (a_reschedule (idle_task k) c a) t = DEAD" "a_cur (a_reschedule (idle_task k) c a) \<noteq> t"
proof -
  have "t \<notin> set (a_queue a)" "t \<noteq> a_cur a" using assms(1-3) by (auto simp: sched_ok_def)
  then show "a_state (a_reschedule (idle_task k) c a) t = DEAD" "a_cur (a_reschedule (idle_task k) c a) \<noteq> t"
    using assms(3,4) by (cases "a_queue a";
      auto simp: a_reschedule_def a_exit_def a_switch_def a_pick_def a_requeue_def a_enter_def Let_def)+
qed

lemma exit_dead:
  assumes "sched_ok k a" "a_count a (a_cur a) + 1 \<noteq> 0" "t \<in> a_susp a" "a_state a t = DEAD" "t \<noteq> idle_task k"
  shows "a_state (a_exit_task c (idle_task k) a) t = DEAD" "a_cur (a_exit_task c (idle_task k) a) \<noteq> t"
  using reschedule_dead [OF dead_ok [OF assms(1,2)], of t c] assms(3-5) by (simp_all add: a_exit_task_def)

text \<open>What one step does to the abstract state.\<close>

definition step_to :: "addr set \<Rightarrow> (addr \<Rightarrow> addr set) \<Rightarrow> kernel \<Rightarrow> sched \<Rightarrow> addr set \<Rightarrow> kernel \<Rightarrow> sched \<Rightarrow> bool" where
  "step_to T stk k a C' k' a' \<longleftrightarrow> run_inv T stk C' k' a' \<and> consts_of k' = consts_of k
     \<and> (\<forall>t\<in>insert (a_cur a) (a_susp a). t \<noteq> a_cur a \<longrightarrow> a_ctx a' t = a_ctx a t)
     \<and> (a_cur a' \<noteq> a_cur a \<longrightarrow> a_ctx a' (a_cur a) = call_ctx k \<and> regs k' = a_ctx a (a_cur a'))
     \<and> (\<forall>t\<in>a_susp a. a_state a t = DEAD \<and> t \<noteq> idle_task k \<longrightarrow> a_state a' t = DEAD \<and> a_cur a' \<noteq> t)"

lemma step_same_task:
  assumes "run_inv T stk C k a" "sched_rep T stk k' a'" "consts_of k' = consts_of k" "sched_ok k a'"
    and "a_cur a' = a_cur a" "a_susp a' = a_susp a" "a_ctx a' = a_ctx a"
    and "\<And>t. a_state a t = DEAD \<Longrightarrow> a_state a' t = DEAD"
  shows "step_to T stk k a C k' a'"
  using assms run_inv_consts [OF assms(3), of T stk C a'] run_invD [OF assms(1)] by (auto simp: step_to_def sched_ok_def)

lemma step_enter:
  assumes I: "run_inv T stk C k a" and n: "count_of k + 1 \<noteq> 0"
  shows "step_to T stk k a C (enter_critical_section k) (a_enter a)"
proof (rule step_same_task [OF I])
  note R = run_invD [OF I]
  show "sched_rep T stk (enter_critical_section k) (a_enter a)" "consts_of (enter_critical_section k) = consts_of k"
    using rep_enter [OF R(1)] by (simp_all add: same_cpu_consts)
  show "sched_ok k (a_enter a)" using R(2,5) n by (auto simp: sched_ok_def a_enter_def Let_def)
qed (simp_all add: a_enter_def Let_def)

lemma step_leave:
  assumes I: "run_inv T stk C k a" and n: "count_of k \<noteq> 0"
  shows "step_to T stk k a C (exit_critical_section k) (a_exit a)"
proof (rule step_same_task [OF I])
  note R = run_invD [OF I]
  show "sched_rep T stk (exit_critical_section k) (a_exit a)" "consts_of (exit_critical_section k) = consts_of k"
    using rep_exit [OF R(1)] by (simp_all add: same_cpu_consts)
  show "sched_ok k (a_exit a)" using R(2,5) n by (auto simp: sched_ok_def a_exit_def Let_def)
qed (simp_all add: a_exit_def Let_def)

lemma step_compute:
  assumes I: "run_inv T stk C k a" and f: "frame (task_writes T stk k) (kmem k) m'"
  shows "step_to T stk k a C (k\<lparr>kmem := m', edi := w1, esi := w2, ebp := w3, ebx := w4, eip := w5, esp := w6\<rparr>) a"
proof (rule step_same_task [OF I rep_compute [OF run_invD(1,2) [OF I] f]])
  show "sched_ok k a" using I by (rule run_invD)
qed (simp_all add: consts_of_def)

lemma step_start:
  assumes I: "run_inv T stk C k a" and t: "t \<in> C" "t \<noteq> current_task k" and n: "count_of k + 1 \<noteq> 0"
  shows "step_to T stk k a C (snd (task_start k t)) (if a_state a t = INITIAL then a_start t a else a)"
proof -
  note R = run_invD [OF I]
  have ts: "t \<in> a_susp a" using t R(3,6) by auto
  have tT: "t \<in> T" using ts sched_repD(2) [OF R(1)] by (auto simp: mem_rep_def)
  have nq: "a_state a t = INITIAL \<Longrightarrow> t \<notin> set (a_queue a)" using R(2) by (auto simp: sched_ok_def)
  have n': "a_count a (a_cur a) + 1 \<noteq> 0" using n R(5) by simp
  obtain k' where k': "task_start k t = (if a_state a t = INITIAL then 0 else - 1, k')" "consts_of k' = consts_of k"
    "sched_rep T stk k' (if a_state a t = INITIAL then a_start t a else a_exit (a_enter a))"
    using rep_start [OF R(1) tT nq] same_cpu_consts by auto
  show ?thesis
  proof (rule step_same_task [OF I])
    let ?b = "if a_state a t = INITIAL then a_start t a else a"
    show "sched_rep T stk (snd (task_start k t)) ?b" "consts_of (snd (task_start k t)) = consts_of k"
      using k' a_start_net(2) [OF R(2) n'] by (auto split: if_splits)
    show "sched_ok k ?b" using ok_start [OF R(2) n' ts] R(2) by simp
    show "a_cur ?b = a_cur a" "a_susp ?b = a_susp a" "a_ctx ?b = a_ctx a"
      "\<And>u. a_state a u = DEAD \<Longrightarrow> a_state ?b u = DEAD"
      by (auto simp: a_start_net(1) [OF R(2) n'])
  qed
qed

lemma step_create:
  assumes I: "run_inv T stk C k a" and t: "t \<in> T - C" and room: "region (stack + stack_size - 20) 20 \<subseteq> stk t"
  shows "step_to T stk k a (insert t C) (snd (task_create k t entry arg stack stack_size))
    (a_create t (entry, arg) (first_ctx k (stack + stack_size)) a)"
proof -
  note R = run_invD [OF I]
  have nt: "t \<notin> insert (a_cur a) (a_susp a)" "t \<in> T" using t R(3) by auto
  then have nq: "t \<notin> set (a_queue a)" using R(2) by (auto simp: sched_ok_def)
  from rep_create [OF R(1) nt(2) nq room, of entry arg] obtain k' where
    k': "task_create k t entry arg stack stack_size = (0, k')" "consts_of k' = consts_of k"
    "sched_rep T stk k' (a_create t (entry, arg) (first_ctx k (stack + stack_size)) a)" by (auto dest: same_cpu_consts)
  moreover have "a_cur a \<notin> a_susp a" using R(2) by (simp add: sched_ok_def)
  ultimately show ?thesis using ok_create [OF R(2) nt(1), of entry arg] nt R(3,4)
    by (auto simp: step_to_def run_inv_consts [OF k'(2)] a_create_def)
qed

lemma step_yield:
  assumes I: "run_inv T stk C k a" and room: "has_room stk k" and n: "count_of k + 1 \<noteq> 0"
  shows "\<exists>k'. task_reschedule k = Some k' \<and> step_to T stk k a C k' (a_reschedule (idle_task k) (call_ctx k) a)"
proof -
  note R = run_invD [OF I]
  from rep_reschedule [OF R(1,2,4) R(7) [OF room]] obtain k' where k': "task_reschedule k = Some k'"
    "sched_rep T stk k' (a_reschedule (idle_task k) (call_ctx k) a)" "consts_of k' = consts_of k"
    "regs k' = (if a_cur (a_reschedule (idle_task k) (call_ctx k) a) = a_cur a then regs k
       else a_ctx a (a_cur (a_reschedule (idle_task k) (call_ctx k) a)))" by blast
  have "sched_ok k (a_reschedule (idle_task k) (call_ctx k) a)"
    using R(5) n by (intro ok_reschedule [OF R(2)]) (simp_all add: call_ctx_def)
  then show ?thesis using k' reschedule_tasks [OF R(2) refl] reschedule_dead [OF R(2)] R(3,4)
    by (auto simp: step_to_def run_inv_consts [OF k'(3)])
qed

lemma step_quit:
  assumes I: "run_inv T stk C k a" and room: "has_room stk k" and n: "count_of k + 1 \<noteq> 0" "count_of k + 2 \<noteq> 0"
  shows "\<exists>k'. task_exit k = Some k' \<and> step_to T stk k a C k' (a_exit_task (call_ctx k) (idle_task k) a)"
proof -
  note R = run_invD [OF I]
  have n': "a_count a (a_cur a) + 1 \<noteq> 0" "a_count a (a_cur a) + 2 \<noteq> 0" using n R(5) by simp_all
  from rep_exit_task [OF R(1,2,4) R(7) [OF room] n'(1)] obtain k' where k': "task_exit k = Some k'"
    "sched_rep T stk k' (a_exit_task (call_ctx k) (idle_task k) a)" "consts_of k' = consts_of k"
    "regs k' = (if a_cur (a_exit_task (call_ctx k) (idle_task k) a) = a_cur a then regs k
       else a_ctx a (a_cur (a_exit_task (call_ctx k) (idle_task k) a)))" by blast
  have "sched_ok k (a_exit_task (call_ctx k) (idle_task k) a)"
    by (intro ok_exit_task [OF R(2) n']) (simp add: call_ctx_def)
  then show ?thesis using k' exit_tasks [OF R(2) n'(1) refl] exit_dead [OF R(2) n'(1)] R(3,4)
    by (auto simp: step_to_def run_inv_consts [OF k'(3)])
qed

theorem run_step_inv:
  assumes "run_step T stk (C, k) (C', k')" "run_inv T stk C k a"
  shows "\<exists>a'. step_to T stk k a C' k' a'"
  using assms(1)
proof (rule run_stepE)
  fix k'' assume "has_room stk k" "count_of k + 1 \<noteq> 0" "(C', k') = (C, k'')" "task_reschedule k = Some k''"
  then show ?thesis using step_yield [OF assms(2)] by force
next
  fix k'' assume "has_room stk k" "count_of k + 1 \<noteq> 0" "count_of k + 2 \<noteq> 0" "(C', k') = (C, k'')" "task_exit k = Some k''"
  then show ?thesis using step_quit [OF assms(2)] by force
qed (use step_compute [OF assms(2)] step_enter [OF assms(2)] step_leave [OF assms(2)] step_create [OF assms(2)]
    step_start [OF assms(2)] in blast)+

text \<open>Reachable states, from \<^verbatim>\<open>task_init\<close> on.\<close>

inductive sched_reach :: "addr set \<Rightarrow> (addr \<Rightarrow> addr set) \<Rightarrow> kernel \<Rightarrow> addr set \<times> kernel \<Rightarrow> bool"
  for T stk k0 where
  boot: "sched_reach T stk k0 ({idle_task k0}, task_init k0)"
| step: "sched_reach T stk k0 x \<Longrightarrow> run_step T stk x y \<Longrightarrow> sched_reach T stk k0 y"

lemma reach_inv:
  assumes "sched_reach T stk k0 x" "boot_ok T stk k0"
  shows "\<exists>a. run_inv T stk (fst x) (snd x) a \<and> consts_of (snd x) = consts_of k0"
  using assms(1)
proof (induction rule: sched_reach.induct)
  case boot
  from rep_init [OF assms(2)] obtain a where "sched_rep T stk (task_init k0) a" "sched_ok (task_init k0) a"
    "consts_of (task_init k0) = consts_of k0" "a_cur a = idle_task k0" "a_susp a = {}" by (auto dest: same_cpu_consts)
  then show ?case using assms(2) consts_ofD [of "task_init k0" k0] by (auto simp: run_inv_def boot_ok_def)
next
  case (step x y)
  obtain C k C' k' where "x = (C, k)" "y = (C', k')" by (cases x, cases y)
  moreover from step.IH this obtain a where "run_inv T stk C k a" "consts_of k = consts_of k0" by auto
  ultimately show ?case using step.hyps run_step_inv [of T stk C k C' k' a] by (auto simp: step_to_def)
qed

end
