(* ===== verification/TaskDemo.thy ===== *)
theory TaskDemo
  imports TaskRun
begin

text \<open>
  What the scheduler's state reads as, from the memory of a kernel, and a sample system of three
  tasks carried through creation, start and a first reschedule: the concrete input of the
  witnesses of \<^verbatim>\<open>TaskProps\<close>.
\<close>

definition state_of :: "kernel \<Rightarrow> addr \<Rightarrow> u32" where "state_of k t = fld (kmem k) t off_state"
definition ready_list :: "kernel \<Rightarrow> addr list option" where "ready_list k = list_for_every (kmem k) (run_queue k)"

lemma run_inv_reads:
  assumes "run_inv T stk C k a"
  shows "ready_list k = Some (a_queue a)" "t \<in> C \<Longrightarrow> state_of k t = a_state a t"
    "irq_on k = a_irq a" "t \<in> C \<Longrightarrow> t \<in> T"
proof -
  note R = run_invD [OF assms] and S = sched_repD [OF run_invD(1) [OF assms]]
  show "ready_list k = Some (a_queue a)" using S(2) by (simp add: ready_list_def list_for_every_dll mem_rep_def)
  show T: "t \<in> C \<Longrightarrow> t \<in> T" for t using S(2,5) R(3) by (auto simp: mem_rep_def)
  show "t \<in> C \<Longrightarrow> state_of k t = a_state a t" using S(6) T by (simp add: state_of_def)
  show "irq_on k = a_irq a" by (rule S(4))
qed

section \<open>A sample system\<close>

text \<open>An idle task and two tasks with 512-byte stacks; used by the witnesses.\<close>

definition demo_tasks :: "addr set" where "demo_tasks = {0x200, 0x600, 0x700}"

definition demo_stk :: "addr \<Rightarrow> addr set" where
  "demo_stk t = (if t = 0x200 then region 0x300 512 else if t = 0x600 then region 0x1000 512 else region 0x2000 512)"

definition demo_boot :: kernel where
  "demo_boot = \<lparr>kmem = \<lambda>_. 0, ebx = 0, ebp = 0, esi = 0, edi = 0, esp = 0x500, eip = 0, irq_on = False,
     current_task = 0, idle_task = 0x200, idle_stack = 0x300, run_queue = 0x100,
     task_trampoline_addr = 0x9000, switch_return_addr = 0xA000\<rparr>"

definition demo_created :: kernel where
  "demo_created = snd (task_create (snd (task_create (task_init demo_boot) 0x600 0x1234 7 0x1000 512)) 0x700 0x5678 8 0x2000 512)"

definition demo_ready :: kernel where
  "demo_ready = (snd (task_start (snd (task_start demo_created 0x600)) 0x700))\<lparr>esp := 0x500\<rparr>"

definition demo_running :: kernel where "demo_running = the (task_reschedule demo_ready)"

lemma demo_boot_ok: "boot_ok demo_tasks demo_stk demo_boot"
proof -
  have "region (0x300 :: u32) 512 \<inter> region 0x1000 512 = {}" "region (0x300 :: u32) 512 \<inter> region 0x2000 512 = {}"
    "region (0x1000 :: u32) 512 \<inter> region 0x2000 512 = {}"
    by (simp_all add: apart_def flip: apart_iff_disjoint)
  moreover have "region (0x300 :: u32) 512 \<inter> region t 36 = {}" "region (0x1000 :: u32) 512 \<inter> region t 36 = {}"
    "region (0x2000 :: u32) 512 \<inter> region t 36 = {}" if "t \<in> {0x200, 0x600, 0x700}" for t :: u32
    using that by (auto simp: apart_def simp flip: apart_iff_disjoint)
  moreover have "region (0x300 :: u32) 512 \<inter> region 0x100 8 = {}" "region (0x1000 :: u32) 512 \<inter> region 0x100 8 = {}"
    "region (0x2000 :: u32) 512 \<inter> region 0x100 8 = {}"
    by (simp_all add: apart_def flip: apart_iff_disjoint)
  ultimately show ?thesis
    using region_field [of 492 20 512 "0x300 :: u32"]
    by (auto simp: boot_ok_def layout_def demo_boot_def demo_tasks_def demo_stk_def apart_def Int_commute)
qed


text \<open>One step of the sample system, with the concrete and the abstract state side by side.\<close>

definition demo_at :: "addr set \<Rightarrow> kernel \<Rightarrow> sched \<Rightarrow> bool" where
  "demo_at C k a \<longleftrightarrow> run_inv demo_tasks demo_stk C k a \<and> consts_of k = consts_of demo_boot
     \<and> sched_reach demo_tasks demo_stk demo_boot (C, k)"

lemma demo_step:
  assumes "demo_at C k a" "step_to demo_tasks demo_stk k a C' k' a'" "run_step demo_tasks demo_stk (C, k) (C', k')"
  shows "demo_at C' k' a'"
  using assms sched_reach.step by (auto simp: demo_at_def step_to_def)

lemma demo_create:
  assumes D: "demo_at C k a" and t: "t \<in> demo_tasks - C" and room: "region (stack + stack_size - 20) 20 \<subseteq> demo_stk t"
  shows "demo_at (insert t C) (snd (task_create k t entry arg stack stack_size)) (a_create t (entry, arg) (first_ctx demo_boot (stack + stack_size)) a)"
proof -
  have "first_ctx k sp = first_ctx demo_boot sp" for sp
    using D by (auto simp: demo_at_def first_ctx_def dest: consts_ofD)
  then show ?thesis using demo_step [OF D step_create run_step.create] D t room by (simp add: demo_at_def)
qed

lemma demo_start:
  assumes D: "demo_at C k a" and t: "t \<in> C" "t \<noteq> a_cur a" "a_state a t = INITIAL" and n: "a_count a (a_cur a) + 1 \<noteq> 0"
  shows "demo_at C (snd (task_start k t)) (a\<lparr>a_state := (a_state a)(t := READY), a_queue := t # a_queue a\<rparr>)"
proof -
  have I: "run_inv demo_tasks demo_stk C k a" using D by (simp add: demo_at_def)
  note R = run_invD [OF I]
  have n': "count_of k + 1 \<noteq> 0" "t \<noteq> current_task k" using n t R(5,6) by auto
  show ?thesis using demo_step [OF D step_start [OF I t(1) n'(2,1)] run_step.start [OF t(1) n'(2,1)]] t(3)
      a_start_net(1) [OF R(2) n] by simp
qed

lemma demo_esp:
  assumes D: "demo_at C k a"
  shows "demo_at C (k\<lparr>esp := sp\<rparr>) a"
proof -
  have "frame R (kmem k) (kmem k)" for R by simp
  note f = this [of "task_writes demo_tasks demo_stk k"]
  have e: "k\<lparr>kmem := kmem k, edi := edi k, esi := esi k, ebp := ebp k, ebx := ebx k, eip := eip k, esp := sp\<rparr> = k\<lparr>esp := sp\<rparr>"
    by simp
  show ?thesis
    using demo_step [OF D step_compute [OF _ f] run_step.compute [OF f], of sp "eip k" "ebx k" "ebp k" "esi k" "edi k"] D
    unfolding e by (simp add: demo_at_def)
qed

lemma demo_init:
  "\<exists>a. demo_at {0x200} (task_init demo_boot) a \<and> a_cur a = 0x200 \<and> a_susp a = {} \<and> a_queue a = []
     \<and> a_state a 0x200 = INITIAL \<and> a_count a 0x200 = 1"
proof -
  have i: "idle_task demo_boot = 0x200" by (simp add: demo_boot_def)
  have "sched_reach demo_tasks demo_stk demo_boot ({0x200}, task_init demo_boot)"
    using sched_reach.boot [of demo_tasks demo_stk demo_boot] by (simp add: i)
  then show ?thesis using rep_init [OF demo_boot_ok] i consts_ofD [of "task_init demo_boot" demo_boot]
    by (auto simp: demo_at_def run_inv_def same_cpu_def demo_tasks_def)
qed

lemma demo_ready_at:
  "\<exists>a. demo_at demo_tasks demo_ready a \<and> a_cur a = 0x200 \<and> a_queue a = [0x700, 0x600]
     \<and> a_state a 0x200 = INITIAL \<and> a_count a 0x200 = 1 \<and> a_count a 0x600 = 1 \<and> a_count a 0x700 = 1
     \<and> a_ctx a 0x600 = first_ctx demo_boot 0x1200 \<and> a_ctx a 0x700 = first_ctx demo_boot 0x2200"
proof -
  from demo_init obtain a where a: "demo_at {0x200} (task_init demo_boot) a" "a_cur a = 0x200" "a_susp a = {}"
    "a_queue a = []" "a_state a 0x200 = INITIAL" "a_count a 0x200 = 1" by blast
  have rm: "region (0x1000 + 512 - 20) 20 \<subseteq> demo_stk 0x600" "region (0x2000 + 512 - 20) 20 \<subseteq> demo_stk 0x700"
    using region_field [of 492 20 512 "0x1000 :: u32"] region_field [of 492 20 512 "0x2000 :: u32"]
    by (simp_all add: demo_stk_def)
  have T: "0x600 \<in> demo_tasks - {0x200}" "0x700 \<in> demo_tasks - {0x600, 0x200}" "{0x700, 0x600, 0x200} = demo_tasks" "0x600 \<in> demo_tasks"
    by (auto simp: demo_tasks_def)
  note D3 = demo_create [OF demo_create [OF a(1) T(1) rm(1), where entry = "0x1234" and arg = "7"] T(2) rm(2), where entry = "0x5678" and arg = "8", folded demo_created_def]
  note D4 = demo_start [OF D3, of "0x600"]
  have D5: "demo_at demo_tasks (snd (task_start demo_created 0x600)) ((a_create 0x700 (0x5678, 8) (first_ctx demo_boot 0x2200)
     (a_create 0x600 (0x1234, 7) (first_ctx demo_boot 0x1200) a))\<lparr>a_state := (a_state a)(0x700 := INITIAL, 0x600 := READY), a_queue := [0x600]\<rparr>)"
    using D4 a T(4) by (simp add: T(3) a_create_def fun_upd_twist)
  show ?thesis using demo_esp [OF demo_start [OF D5, of "0x700"], of "0x500", folded demo_ready_def] a
    by (intro exI) (auto simp: a_create_def demo_tasks_def)
qed

lemma demo_running_at:
  "\<exists>a. demo_at demo_tasks demo_running a \<and> a_cur a = 0x700 \<and> a_queue a = [0x600]
     \<and> a_state a 0x700 = RUNNING \<and> a_count a 0x700 = 0 \<and> a_count a 0x600 = 1 \<and> a_state a 0x600 = READY
     \<and> a_ctx a 0x600 = first_ctx demo_boot 0x1200 \<and> regs demo_running = first_ctx demo_boot 0x2200
     \<and> task_reschedule demo_ready = Some demo_running"
proof -
  from demo_ready_at obtain a where a: "demo_at demo_tasks demo_ready a" "a_cur a = 0x200" "a_queue a = [0x700, 0x600]"
    "a_state a 0x200 = INITIAL" "a_count a 0x200 = 1" "a_count a 0x600 = 1" "a_count a 0x700 = 1"
    "a_ctx a 0x600 = first_ctx demo_boot 0x1200" "a_ctx a 0x700 = first_ctx demo_boot 0x2200" by blast
  have I: "run_inv demo_tasks demo_stk demo_tasks demo_ready a" using a(1) by (simp add: demo_at_def)
  note R = run_invD [OF I]
  have room: "has_room demo_stk demo_ready" and n: "count_of demo_ready + 1 \<noteq> 0"
    using R(5,6) a region_field [of 492 20 512 "0x300 :: u32"] region_field [of "0x1EC" 20 512 "0x300 :: u32"]
    by (simp_all add: has_room_def demo_ready_def demo_stk_def)
  let ?b = "a_reschedule (idle_task demo_ready) (call_ctx demo_ready) a"
  from step_yield [OF I room n] have k': "task_reschedule demo_ready = Some demo_running"
    "step_to demo_tasks demo_stk demo_ready a demo_tasks demo_running ?b" by (auto simp: demo_running_def)
  have "demo_at demo_tasks demo_running ?b" by (rule demo_step [OF a(1) k'(2) run_step.yield [OF room n k'(1)]])
  moreover have s: "a_state a 0x200 \<noteq> RUNNING" using a(4) by simp
  moreover have "a_state a 0x600 = READY" using R(2) a(3) by (auto simp: sched_ok_def)
  moreover have "a_cur ?b = 0x700" using a s by (simp add: a_reschedule_def a_pick_def a_requeue_def a_enter_def Let_def)
  ultimately show ?thesis using k' a
    by (intro exI [of _ ?b])
      (auto simp: step_to_def a_reschedule_def a_switch_def a_exit_def a_pick_def a_requeue_def a_enter_def Let_def)
qed

text \<open>The readings the witnesses discharge hypotheses with.\<close>

lemma demo_facts:
  "sched_reach demo_tasks demo_stk demo_boot (demo_tasks, demo_ready)" "ready_list demo_ready = Some [0x700, 0x600]"
  "state_of demo_ready 0x200 = INITIAL" "current_task demo_ready = 0x200"
  "sched_reach demo_tasks demo_stk demo_boot (demo_tasks, demo_running)" "ready_list demo_running = Some [0x600]"
  "state_of demo_running 0x700 = RUNNING" "current_task demo_running = 0x700" "count_of demo_running = 0"
  "has_room demo_stk demo_running" "task_reschedule demo_ready = Some demo_running"
proof -
  obtain a where a: "demo_at demo_tasks demo_ready a" "a_cur a = 0x200" "a_queue a = [0x700, 0x600]"
    "a_state a 0x200 = INITIAL" using demo_ready_at by blast
  have I: "run_inv demo_tasks demo_stk demo_tasks demo_ready a" using a(1) by (simp add: demo_at_def)
  show "sched_reach demo_tasks demo_stk demo_boot (demo_tasks, demo_ready)" "ready_list demo_ready = Some [0x700, 0x600]"
    "state_of demo_ready 0x200 = INITIAL" "current_task demo_ready = 0x200"
    using a run_inv_reads [OF I] run_invD(6) [OF I] by (auto simp: demo_at_def demo_tasks_def)
  obtain b where b: "demo_at demo_tasks demo_running b" "a_cur b = 0x700" "a_queue b = [0x600]"
    "a_state b 0x700 = RUNNING" "a_count b 0x700 = 0" "regs demo_running = first_ctx demo_boot 0x2200"
    "task_reschedule demo_ready = Some demo_running" using demo_running_at by blast
  have J: "run_inv demo_tasks demo_stk demo_tasks demo_running b" using b(1) by (simp add: demo_at_def)
  show "sched_reach demo_tasks demo_stk demo_boot (demo_tasks, demo_running)" "ready_list demo_running = Some [0x600]"
    "state_of demo_running 0x700 = RUNNING" "current_task demo_running = 0x700" "count_of demo_running = 0"
    "task_reschedule demo_ready = Some demo_running"
    using b run_inv_reads [OF J] run_invD(5,6) [OF J] by (auto simp: demo_at_def demo_tasks_def)
  have "esp demo_running = 0x2200" using b(6) by (simp add: regs_def first_ctx_def)
  then show "has_room demo_stk demo_running"
    using run_invD(6) [OF J] b(2) region_field [of 492 20 512 "0x2000 :: u32"] by (simp add: has_room_def demo_stk_def)
qed

end
