(* ===== verification/TaskProps.thy ===== *)
theory TaskProps
  imports TaskDemo
begin

text \<open>
  The properties of the scheduler, stated over the code's own state: the fields of the tasks in
  memory, the run queue as the traversal macro reads it, the registers and the interrupt flag,
  for every kernel reachable from \<^verbatim>\<open>task_init\<close> by any sequence of scheduler calls and
  computations of the running tasks.
\<close>

section \<open>The invariant of every execution\<close>

text \<open>
  C1. In every state that any interleaving of task creation, start, exit, yields, critical
  sections and computation reaches from \<^verbatim>\<open>task_init\<close>: interrupts are on exactly when the running
  task's critical section count is 0; the run queue is a well-formed list of distinct tasks
  and holds exactly the created tasks whose state is READY; and no task but the current one is
  RUNNING.
\<close>

theorem scheduler_invariant:
  assumes "boot_ok T stk k0" "sched_reach T stk k0 (C, k)"
  shows "(irq_on k \<longleftrightarrow> count_of k = 0) \<and> current_task k \<in> C
    \<and> (\<exists>q. ready_list k = Some q \<and> distinct q \<and> set q = {t \<in> C. state_of k t = READY})
    \<and> (\<forall>t\<in>C. state_of k t = RUNNING \<longrightarrow> t = current_task k)"
proof -
  obtain a where I: "run_inv T stk C k a" using reach_inv [OF assms(2,1)] by auto
  note R = run_invD [OF I] and V = run_inv_reads [OF I]
  have "set (a_queue a) = {t \<in> C. state_of k t = READY}"
    using R(2,3) V(2) by (auto simp: sched_ok_def)
  moreover have "\<forall>t\<in>C. state_of k t = RUNNING \<longrightarrow> t = current_task k"
    using R(2,3,6) V(2) by (auto simp: sched_ok_def)
  ultimately show ?thesis using R(2,3,5,6) V(1,3) by (auto simp: sched_ok_def)
qed

theorem scheduler_invariant_witness:
  "\<exists>q. ready_list demo_running = Some q \<and> distinct q \<and> set q = {t \<in> demo_tasks. state_of demo_running t = READY}"
  using scheduler_invariant [OF demo_boot_ok demo_facts(5)] by blast

section \<open>A yield\<close>

text \<open>The abstract reschedule of a running task with someone waiting.\<close>

lemma a_reschedule_rotates:
  assumes "sched_ok k a" "a_state a (a_cur a) = RUNNING" "a_queue a = t # q"
  shows "a_cur (a_reschedule i c a) = t" "a_queue (a_reschedule i c a) = q @ [a_cur a]"
    "a_state (a_reschedule i c a) = (a_state a)(a_cur a := READY, t := RUNNING)" "t \<noteq> a_cur a" "t \<in> a_susp a"
    "a_count (a_reschedule i c a) t = a_count a t - 1" "a_count a t \<noteq> 0"
  using assms by (auto simp: sched_ok_def a_reschedule_def a_exit_def a_switch_def a_pick_def a_requeue_def a_enter_def Let_def)

text \<open>The task that comes next has room for a switch of its own.\<close>

lemma resumed_room:
  assumes "run_inv T stk C k a" "t \<in> a_susp a" "run_inv T stk C k' a'" "a_cur a' = t" "regs k' = a_ctx a t"
  shows "has_room stk k'"
proof -
  have "ctx_at (kmem k) (fld (kmem k) t off_saved_sp) (a_ctx a t)" "region (fld (kmem k) t off_saved_sp) 20 \<subseteq> stk t"
    using sched_repD(2) [OF run_invD(1) [OF assms(1)]] assms(2) by (auto simp: mem_rep_def)
  moreover have "esp k' = x_sp (a_ctx a t)" by (simp add: regs_def flip: assms(5))
  ultimately show ?thesis using run_invD(6) [OF assms(3)] assms(4) by (simp add: has_room_def ctx_at_def)
qed

definition can_yield :: "(addr \<Rightarrow> addr set) \<Rightarrow> kernel \<Rightarrow> bool" where
  "can_yield stk k \<longleftrightarrow> has_room stk k \<and> count_of k + 1 \<noteq> 0 \<and> state_of k (current_task k) = RUNNING"

lemma yield_next:
  assumes I: "run_inv T stk C k a" and y: "can_yield stk k" and q: "a_queue a = t # q"
  shows "\<exists>k' a'. task_reschedule k = Some k' \<and> run_inv T stk C k' a' \<and> a_cur a' = t \<and> a_queue a' = q @ [a_cur a]
    \<and> a_state a' = (a_state a)(a_cur a := READY, t := RUNNING) \<and> regs k' = a_ctx a t \<and> can_yield stk k'
    \<and> step_to T stk k a C k' a'"
proof -
  note R = run_invD [OF I] and V = run_inv_reads [OF I]
  have run: "a_state a (a_cur a) = RUNNING" using y V(2) R(3,6) by (simp add: can_yield_def)
  let ?a = "a_reschedule (idle_task k) (call_ctx k) a"
  note A = a_reschedule_rotates [OF R(2) run q]
  from y step_yield [OF I] obtain k' where k': "task_reschedule k = Some k'" "step_to T stk k a C k' ?a"
    by (auto simp: can_yield_def)
  have I': "run_inv T stk C k' ?a" "regs k' = a_ctx a t" using k'(2) A by (auto simp: step_to_def)
  note R' = run_invD [OF I'(1)] and V' = run_inv_reads [OF I'(1)]
  have "has_room stk k'" using resumed_room [OF I A(5) I'(1) A(1) I'(2)] .
  moreover have "count_of k' + 1 \<noteq> 0" using R'(5) A by simp
  moreover have "state_of k' (current_task k') = RUNNING" using V'(2) R'(3,6) A by simp
  ultimately show ?thesis using k' I' A by (auto simp: can_yield_def)
qed

text \<open>
  C5. A running task that calls \<^verbatim>\<open>task_reschedule\<close> while tasks are ready goes to the tail of
  the run queue in state READY and the head of the queue becomes the running task: the call
  always comes out on the head's stack, the rest of the queue moves up by one, and no other
  task changes state.
\<close>

theorem reschedule_round_robin:
  assumes "boot_ok T stk k0" "sched_reach T stk k0 (C, k)" "can_yield stk k" "ready_list k = Some (t # q)"
  shows "\<exists>k'. task_reschedule k = Some k' \<and> current_task k' = t \<and> ready_list k' = Some (q @ [current_task k])
    \<and> (\<forall>u\<in>C. state_of k' u = (if u = t then RUNNING else if u = current_task k then READY else state_of k u))"
proof -
  obtain a where I: "run_inv T stk C k a" using reach_inv [OF assms(2,1)] by auto
  note R = run_invD [OF I] and V = run_inv_reads [OF I]
  have q: "a_queue a = t # q" using assms(4) V(1) by simp
  obtain k' a' where k': "task_reschedule k = Some k'" "run_inv T stk C k' a'" "a_cur a' = t" "a_queue a' = q @ [a_cur a]"
    "a_state a' = (a_state a)(a_cur a := READY, t := RUNNING)" using yield_next [OF I assms(3) q] by blast
  show ?thesis using k' run_invD(6) [OF k'(2)] run_inv_reads [OF k'(2)] V(2) R(6) by auto
qed

lemma demo_can_yield: "can_yield demo_stk demo_running"
  by (simp add: can_yield_def demo_facts)

theorem reschedule_round_robin_witness:
  "\<exists>k'. task_reschedule demo_running = Some k' \<and> current_task k' = 0x600 \<and> ready_list k' = Some [0x700]"
  using reschedule_round_robin [OF demo_boot_ok demo_facts(5) demo_can_yield demo_facts(6)]
  by (auto simp: demo_facts)

text \<open>A sequence of yields, each by the task that is then running.\<close>

fun yields :: "nat \<Rightarrow> kernel \<Rightarrow> kernel option" where
  "yields 0 k = Some k"
| "yields (Suc n) k = (case task_reschedule k of None \<Rightarrow> None | Some k' \<Rightarrow> yields n k')"

lemma yields_reach:
  assumes "run_inv T stk C k a" "can_yield stk k" "i < length (a_queue a)"
  shows "\<exists>k' a'. yields (Suc i) k = Some k' \<and> run_inv T stk C k' a' \<and> a_cur a' = a_queue a ! i \<and> can_yield stk k'
    \<and> a_queue a' = drop (Suc i) (a_queue a) @ a_cur a # take i (a_queue a)"
  using assms
proof (induction i arbitrary: k a)
  case 0
  then obtain t q where q: "a_queue a = t # q" by (cases "a_queue a") auto
  from yield_next [OF 0(1,2) q] show ?case using q by auto
next
  case (Suc i)
  then obtain t q where q: "a_queue a = t # q" by (cases "a_queue a") auto
  obtain k1 a1 where k1: "task_reschedule k = Some k1" "run_inv T stk C k1 a1" "a_cur a1 = t" "a_queue a1 = q @ [a_cur a]"
    "can_yield stk k1" using yield_next [OF Suc.prems(1,2) q] by blast
  have i: "i < length q" using Suc.prems(3) q by simp
  with k1 have "i < length (a_queue a1)" by simp
  from Suc.IH [OF k1(2,5) this] k1 q i show ?case by (auto simp: nth_append)
qed

text \<open>
  C6. No ready task is starved by yields: the task at position i of the run queue is the
  running one after i + 1 calls of \<^verbatim>\<open>task_reschedule\<close>, all of which return, and in the
  meantime the tasks ahead of it went to the tail in their order.
\<close>

theorem every_ready_task_runs:
  assumes "boot_ok T stk k0" "sched_reach T stk k0 (C, k)" "can_yield stk k" "ready_list k = Some q" "i < length q"
  shows "\<exists>k'. yields (Suc i) k = Some k' \<and> current_task k' = q ! i
    \<and> ready_list k' = Some (drop (Suc i) q @ current_task k # take i q)"
proof -
  obtain a where I: "run_inv T stk C k a" using reach_inv [OF assms(2,1)] by auto
  have q: "a_queue a = q" using run_inv_reads(1) [OF I] assms(4) by simp
  obtain k' a' where k': "yields (Suc i) k = Some k'" "run_inv T stk C k' a'" "a_cur a' = q ! i"
    "a_queue a' = drop (Suc i) q @ a_cur a # take i q" using yields_reach [OF I assms(3)] assms(5) unfolding q by blast
  then show ?thesis using run_invD(6) [OF k'(2)] run_inv_reads(1) [OF k'(2)] run_invD(6) [OF I] by auto
qed

theorem every_ready_task_runs_witness:
  "\<exists>k'. yields (Suc 0) demo_running = Some k' \<and> current_task k' = [0x600] ! 0
    \<and> ready_list k' = Some (drop (Suc 0) [0x600] @ current_task demo_running # take 0 [0x600])"
  by (rule every_ready_task_runs [OF demo_boot_ok demo_facts(5) demo_can_yield demo_facts(6)]) simp

section \<open>A task comes back as it left\<close>

text \<open>The executions between the moment another task got the processor and \<open>t\<close>'s return.\<close>

inductive away :: "addr set \<Rightarrow> (addr \<Rightarrow> addr set) \<Rightarrow> addr \<Rightarrow> addr set \<times> kernel \<Rightarrow> addr set \<times> kernel \<Rightarrow> bool"
  for T stk t where
  here: "away T stk t x x"
| on: "away T stk t x y \<Longrightarrow> current_task (snd y) \<noteq> t \<Longrightarrow> run_step T stk y z \<Longrightarrow> away T stk t x z"

definition keeps_ctx :: "addr set \<Rightarrow> (addr \<Rightarrow> addr set) \<Rightarrow> addr \<Rightarrow> ctx \<Rightarrow> addr set \<times> kernel \<Rightarrow> bool" where
  "keeps_ctx T stk t c x \<longleftrightarrow> (\<exists>a. run_inv T stk (fst x) (snd x) a \<and> (if a_cur a = t then regs (snd x) = c
     else t \<in> a_susp a \<and> a_ctx a t = c))"

lemma keeps_ctx_step:
  assumes "keeps_ctx T stk t c x" "current_task (snd x) \<noteq> t" "run_step T stk x y"
  shows "keeps_ctx T stk t c y"
proof -
  obtain C k C' k' where xy: "x = (C, k)" "y = (C', k')" by (cases x, cases y)
  obtain a where I: "run_inv T stk C k a" and a: "a_cur a \<noteq> t" "t \<in> a_susp a" "a_ctx a t = c"
    using assms(1,2) run_invD(6) by (fastforce simp: keeps_ctx_def xy split: if_splits)
  obtain a' where S: "step_to T stk k a C' k' a'" using run_step_inv [of T stk C k C' k' a] assms(3) I by (auto simp: xy)
  have I': "run_inv T stk C' k' a'" using S by (simp add: step_to_def)
  have "t \<in> C" using a run_invD(3) [OF I] by simp
  moreover have "C \<subseteq> C'" using assms(3) unfolding xy by (cases rule: run_step.cases) auto
  ultimately have "t \<in> insert (a_cur a') (a_susp a')" using run_invD(3) [OF I'] by auto
  then show ?thesis using S I' a unfolding keeps_ctx_def xy step_to_def by (intro exI [of _ a']) auto
qed

lemma keeps_ctx_away: "away T stk t x y \<Longrightarrow> keeps_ctx T stk t c x \<Longrightarrow> keeps_ctx T stk t c y"
  by (induction rule: away.induct) (auto intro: keeps_ctx_step)

text \<open>
  C2. When a task loses the processor, by a yield, the call of \<^verbatim>\<open>x86_task_switch\<close> comes back
  to it, after any number of steps of the other tasks (their switches, creations, exits and
  writes), with the callee-saved registers and the stack pointer it had, at the instruction
  after the call.
\<close>

theorem context_restored:
  assumes "boot_ok T stk k0" "sched_reach T stk k0 (C, k)" "run_step T stk (C, k) x" "current_task (snd x) \<noteq> current_task k"
    and "away T stk (current_task k) x y" "current_task (snd y) = current_task k"
  shows "regs (snd y) = (regs k)\<lparr>x_ret := switch_return_addr k\<rparr>"
proof -
  obtain C' k' where x: "x = (C', k')" by (cases x)
  obtain a where I: "run_inv T stk C k a" using reach_inv [OF assms(2,1)] by auto
  obtain a' where S: "step_to T stk k a C' k' a'" using run_step_inv [of T stk C k C' k' a] assms(3) I by (auto simp: x)
  have I': "run_inv T stk C' k' a'" and cur: "a_cur a' \<noteq> a_cur a" "a_ctx a' (a_cur a) = call_ctx k"
    using S assms(4) run_invD(6) [OF I] run_invD(6) [of T stk C' k' a'] by (auto simp: step_to_def x)
  have "C \<subseteq> C'" using assms(3) unfolding x by (cases rule: run_step.cases) auto
  then have "keeps_ctx T stk (current_task k) (call_ctx k) x"
    using I' cur run_invD(3,6) [OF I] run_invD(3) [OF I'] by (auto simp: keeps_ctx_def x)
  from keeps_ctx_away [OF assms(5) this] show ?thesis
    using assms(6) run_invD(6) by (fastforce simp: keeps_ctx_def call_ctx_def split: if_splits)
qed

definition demo_other :: kernel where "demo_other = the (task_reschedule demo_running)"
definition demo_back :: kernel where "demo_back = the (task_reschedule demo_other)"

lemma demo_yields:
  "run_step demo_tasks demo_stk (demo_tasks, demo_running) (demo_tasks, demo_other)" "current_task demo_other = 0x600"
  "run_step demo_tasks demo_stk (demo_tasks, demo_other) (demo_tasks, demo_back)" "current_task demo_back = 0x700"
proof -
  obtain a where I: "run_inv demo_tasks demo_stk demo_tasks demo_running a"
    using reach_inv [OF demo_facts(5) demo_boot_ok] by auto
  have q: "a_queue a = [0x600]" "a_cur a = 0x700" using run_inv_reads(1) [OF I] run_invD(6) [OF I] demo_facts by auto
  obtain a1 where o: "task_reschedule demo_running = Some demo_other" "run_inv demo_tasks demo_stk demo_tasks demo_other a1"
    "a_cur a1 = 0x600" "a_queue a1 = [0x700]" "can_yield demo_stk demo_other"
    using yield_next [OF I demo_can_yield q(1)] q(2) by (auto simp: demo_other_def)
  obtain a2 where b: "task_reschedule demo_other = Some demo_back" "run_inv demo_tasks demo_stk demo_tasks demo_back a2"
    "a_cur a2 = 0x700" using yield_next [OF o(2,5,4)] by (auto simp: demo_back_def)
  show "run_step demo_tasks demo_stk (demo_tasks, demo_running) (demo_tasks, demo_other)" "current_task demo_other = 0x600"
    "run_step demo_tasks demo_stk (demo_tasks, demo_other) (demo_tasks, demo_back)" "current_task demo_back = 0x700"
    using o b demo_can_yield run_invD(6) [OF o(2)] run_invD(6) [OF b(2)] by (auto simp: can_yield_def intro: run_step.yield)
qed

theorem context_restored_witness:
  "regs demo_back = (regs demo_running)\<lparr>x_ret := switch_return_addr demo_running\<rparr>"
proof -
  have "away demo_tasks demo_stk 0x700 (demo_tasks, demo_other) (demo_tasks, demo_back)"
    by (rule away.on [OF away.here _ demo_yields(3)]) (simp add: demo_yields(2))
  then show ?thesis
    using context_restored [OF demo_boot_ok demo_facts(5) demo_yields(1), of "(demo_tasks, demo_back)"]
    by (simp add: demo_facts demo_yields)
qed

section \<open>Exit\<close>

lemma exit_picks:
  assumes I: "run_inv T stk C k a" and y: "has_room stk k" "count_of k + 1 \<noteq> 0" "count_of k + 2 \<noteq> 0"
    and i: "current_task k \<noteq> idle_task k"
  shows "\<exists>k' a'. task_exit k = Some k' \<and> run_inv T stk C k' a' \<and> a_cur a' \<noteq> a_cur a \<and> a_state a' (a_cur a) = DEAD
    \<and> a_cur a' = (if a_queue a = [] then idle_task k else hd (a_queue a)) \<and> a_queue a' = tl (a_queue a)"
proof -
  note R = run_invD [OF I]
  let ?a = "a_exit_task (call_ctx k) (idle_task k) a"
  obtain k' where k': "task_exit k = Some k'" "step_to T stk k a C k' ?a" using step_quit [OF I y] by blast
  have "a_cur a \<notin> set (a_queue a)" using R(2) by (auto simp: sched_ok_def)
  then have "a_cur ?a \<noteq> a_cur a \<and> a_state ?a (a_cur a) = DEAD \<and> a_queue ?a = tl (a_queue a)
      \<and> a_cur ?a = (if a_queue a = [] then idle_task k else hd (a_queue a))"
    using i R(6) by (cases "a_queue a")
      (auto simp: a_exit_task_def a_reschedule_def a_exit_def a_switch_def a_pick_def a_requeue_def a_enter_def Let_def)
  then show ?thesis using k' by (auto simp: step_to_def)
qed

text \<open>
  C27. \<^verbatim>\<open>task_exit\<close> of any task but the idle task marks it DEAD, leaves it out of the run queue
  and gives the processor to the head of the queue, or to the idle task when the queue is
  empty; the call does not come back to the task.
\<close>

theorem exit_gives_up_the_processor:
  assumes "boot_ok T stk k0" "sched_reach T stk k0 (C, k)" "has_room stk k" "count_of k + 1 \<noteq> 0" "count_of k + 2 \<noteq> 0"
    and "current_task k \<noteq> idle_task k" "ready_list k = Some q"
  shows "\<exists>k'. task_exit k = Some k' \<and> state_of k' (current_task k) = DEAD \<and> current_task k' \<noteq> current_task k
    \<and> current_task k' = (if q = [] then idle_task k else hd q) \<and> ready_list k' = Some (tl q)"
proof -
  obtain a where I: "run_inv T stk C k a" using reach_inv [OF assms(2,1)] by auto
  have q: "a_queue a = q" using run_inv_reads(1) [OF I] assms(7) by simp
  obtain k' a' where k': "task_exit k = Some k'" "run_inv T stk C k' a'" "a_cur a' \<noteq> a_cur a" "a_state a' (a_cur a) = DEAD"
    "a_cur a' = (if q = [] then idle_task k else hd q)" "a_queue a' = tl q"
    using exit_picks [OF I assms(3-6)] unfolding q by blast
  then show ?thesis
    using run_invD(3,6) [OF I] run_invD(6) [OF k'(2)] run_inv_reads(1) [OF k'(2)] run_inv_reads(2) [OF k'(2), of "a_cur a"]
    by auto
qed

definition demo_exited :: kernel where "demo_exited = the (task_exit demo_running)"

lemma demo_idle: "idle_task demo_running = 0x200"
  using reach_inv [OF demo_facts(5) demo_boot_ok] consts_ofD by (fastforce simp: demo_boot_def)

theorem exit_gives_up_the_processor_witness:
  "\<exists>k'. task_exit demo_running = Some k' \<and> state_of k' 0x700 = DEAD \<and> current_task k' = 0x600 \<and> ready_list k' = Some []"
  using exit_gives_up_the_processor [OF demo_boot_ok demo_facts(5) demo_facts(10) _ _ _ demo_facts(6)]
  by (auto simp: demo_facts demo_idle)

lemma demo_exit:
  "run_step demo_tasks demo_stk (demo_tasks, demo_running) (demo_tasks, demo_exited)"
  "state_of demo_exited 0x700 = DEAD" "current_task demo_exited = 0x600"
proof -
  obtain a where I: "run_inv demo_tasks demo_stk demo_tasks demo_running a"
    using reach_inv [OF demo_facts(5) demo_boot_ok] by auto
  have q: "a_queue a = [0x600]" "a_cur a = 0x700" using run_inv_reads(1) [OF I] run_invD(6) [OF I] demo_facts by auto
  obtain k' a' where k': "task_exit demo_running = Some k'" "run_inv demo_tasks demo_stk demo_tasks k' a'"
    "a_state a' 0x700 = DEAD" "a_cur a' = 0x600"
    using exit_picks [OF I demo_facts(10)] q by (auto simp: demo_facts demo_idle)
  have e: "k' = demo_exited" using k'(1) by (simp add: demo_exited_def)
  show "run_step demo_tasks demo_stk (demo_tasks, demo_running) (demo_tasks, demo_exited)"
    using k'(1) by (intro run_step.quit) (simp_all add: demo_facts e)
  show "state_of demo_exited 0x700 = DEAD" "current_task demo_exited = 0x600"
    using run_invD(6) [OF k'(2)] run_inv_reads(2) [OF k'(2), of "0x700"] k'(3,4) by (simp_all add: e demo_tasks_def)
qed

text \<open>
  C28. A task that has exited never runs again: once it is DEAD and off the processor, no
  sequence of steps of the other tasks gives it the processor or another state. (The idle
  task is the exception: the scheduler falls back on it whatever its state.)
\<close>

theorem dead_stays_dead:
  assumes "boot_ok T stk k0" "sched_reach T stk k0 x" "(run_step T stk)\<^sup>*\<^sup>* x y"
    and "t \<in> fst x" "t \<noteq> idle_task k0" "state_of (snd x) t = DEAD" "t \<noteq> current_task (snd x)"
  shows "state_of (snd y) t = DEAD \<and> t \<noteq> current_task (snd y)"
proof -
  from assms(3) have "sched_reach T stk k0 y \<and> t \<in> fst y \<and> state_of (snd y) t = DEAD \<and> t \<noteq> current_task (snd y)"
  proof (induction rule: rtranclp_induct)
    case base
    then show ?case using assms by simp
  next
    case (step y z)
    obtain C k C' k' where yz: "y = (C, k)" "z = (C', k')" by (cases y, cases z)
    obtain a where I: "run_inv T stk C k a" and c: "consts_of k = consts_of k0" using reach_inv [OF _ assms(1)] step.IH yz by fastforce
    obtain a' where S: "step_to T stk k a C' k' a'" using run_step_inv [of T stk C k C' k' a] step.hyps(2) I by (auto simp: yz)
    have I': "run_inv T stk C' k' a'" using S by (simp add: step_to_def)
    have t: "t \<in> a_susp a" "a_state a t = DEAD" "t \<noteq> idle_task k"
      using step.IH yz run_invD(3,6) [OF I] run_inv_reads(2) [OF I] assms(5) consts_ofD [OF c] by auto
    then have t': "a_state a' t = DEAD" "a_cur a' \<noteq> t" using S by (auto simp: step_to_def)
    have "C \<subseteq> C'" using step.hyps(2) unfolding yz by (cases rule: run_step.cases) auto
    then have "t \<in> C'" using step.IH yz by auto
    then show ?case using step.IH sched_reach.step [OF _ step.hyps(2)] t' run_inv_reads(2) [OF I'] run_invD(6) [OF I'] yz by auto
  qed
  then show ?thesis by simp
qed

text \<open>The task that took over computes: it loads 5 into edi.\<close>

definition demo_later :: kernel where
  "demo_later = demo_exited\<lparr>kmem := kmem demo_exited, edi := 5, esi := 0, ebp := 0, ebx := 0, eip := 0x1234, esp := 0x1200\<rparr>"

theorem dead_stays_dead_witness: "state_of demo_later 0x700 = DEAD \<and> 0x700 \<noteq> current_task demo_later"
proof -
  have "run_step demo_tasks demo_stk (demo_tasks, demo_exited) (demo_tasks, demo_later)"
    unfolding demo_later_def by (rule run_step.compute) simp
  then have "(run_step demo_tasks demo_stk)\<^sup>*\<^sup>* (demo_tasks, demo_exited) (demo_tasks, demo_later)" by (rule r_into_rtranclp)
  from dead_stays_dead [OF demo_boot_ok sched_reach.step [OF demo_facts(5) demo_exit(1)] this, of "0x700"]
  show ?thesis using demo_exit by (simp add: demo_tasks_def demo_boot_def)
qed

section \<open>A new task\<close>

lemma create_first:
  assumes I: "run_inv T stk C k a" and t: "t \<in> T - C" and room: "region (stack + stack_size - 20) 20 \<subseteq> stk t"
  shows "\<exists>k1. task_create k t entry arg stack stack_size = (0, k1)
    \<and> run_inv T stk (insert t C) k1 (a_create t (entry, arg) (first_ctx k (stack + stack_size)) a)
    \<and> consts_of k1 = consts_of k \<and> regs k1 = regs k"
proof -
  note R = run_invD [OF I]
  have nq: "t \<in> T" "t \<notin> set (a_queue a)" using t R(2,3) by (auto simp: sched_ok_def)
  from rep_create [OF R(1) nq room, of entry arg] obtain k1 where k1: "task_create k t entry arg stack stack_size = (0, k1)"
    "same_cpu k k1" by blast
  then show ?thesis using step_create [OF I t room, of entry arg] by (auto simp: step_to_def same_cpu_def)
qed

lemma start_first:
  assumes I: "run_inv T stk C k a" and t: "t \<in> a_susp a" "a_state a t = INITIAL" and n: "count_of k + 1 \<noteq> 0"
  shows "\<exists>k1. task_start k t = (0, k1) \<and> regs k1 = regs k \<and> consts_of k1 = consts_of k
    \<and> run_inv T stk C k1 (a\<lparr>a_state := (a_state a)(t := READY), a_queue := t # a_queue a\<rparr>)"
proof -
  note R = run_invD [OF I]
  have tT: "t \<in> T" "t \<in> C" "t \<noteq> current_task k" "t \<notin> set (a_queue a)"
    using t R(2,3,6) run_inv_reads(4) [OF I] by (auto simp: sched_ok_def)
  obtain k1 where k1: "task_start k t = (0, k1)" "same_cpu k k1" using rep_start [OF R(1) tT(1,4)] t(2) by auto
  have "a_count a (a_cur a) + 1 \<noteq> 0" using n R(5) by simp
  note net = a_start_net(1) [OF R(2) this]
  show ?thesis using step_start [OF I tT(2,3) n] k1 t(2) by (auto simp: step_to_def net same_cpu_def)
qed

text \<open>Creation and start, from any state of the scheduler.\<close>

lemma launch:
  assumes I: "run_inv T stk C k a" and t: "t \<in> T - C" "region (stack + stack_size - 20) 20 \<subseteq> stk t" and n: "count_of k + 1 \<noteq> 0"
  shows "\<exists>k1 k2 a2. task_create k t entry arg stack stack_size = (0, k1) \<and> task_start k1 t = (0, k2)
    \<and> run_inv T stk (insert t C) k2 a2 \<and> regs k2 = regs k \<and> consts_of k2 = consts_of k \<and> count_of k2 = count_of k
    \<and> a_queue a2 = t # a_queue a \<and> a_cur a2 = a_cur a \<and> a_count a2 t = 1 \<and> a_code a2 t = (entry, arg)
    \<and> a_ctx a2 t = first_ctx k (stack + stack_size) \<and> t \<noteq> a_cur a \<and> a_state a2 (a_cur a) = a_state a (a_cur a)"
proof -
  let ?a1 = "a_create t (entry, arg) (first_ctx k (stack + stack_size)) a"
  obtain k1 where k1: "task_create k t entry arg stack stack_size = (0, k1)" "run_inv T stk (insert t C) k1 ?a1"
    "consts_of k1 = consts_of k" "regs k1 = regs k" using create_first [OF I t] by blast
  have tn: "t \<notin> insert (a_cur a) (a_susp a)" using t(1) run_invD(3) [OF I] by simp
  have c1: "count_of k1 = count_of k" using run_invD(5) [OF I] run_invD(5) [OF k1(2)] tn by (auto simp: a_create_def)
  let ?a2 = "?a1\<lparr>a_state := (a_state ?a1)(t := READY), a_queue := t # a_queue ?a1\<rparr>"
  obtain k2 where k2: "task_start k1 t = (0, k2)" "regs k2 = regs k1" "consts_of k2 = consts_of k1"
    "run_inv T stk (insert t C) k2 ?a2"
    using start_first [OF k1(2), of t] n c1 by (auto simp: a_create_def)
  have "count_of k2 = count_of k1" using run_invD(5) [OF k2(4)] run_invD(5) [OF k1(2)] by (simp add: a_create_def)
  then show ?thesis using k1 k2 c1 tn by (intro exI [of _ k1] exI [of _ k2] exI [of _ ?a2]) (auto simp: a_create_def)
qed

text \<open>A new task at the head of the queue is the next to run.\<close>

lemma launched_runs:
  assumes I: "run_inv T stk C k a" and room: "has_room stk k" and n: "count_of k + 1 \<noteq> 0"
    and t: "a_queue a = t # q" "a_count a t = 1" "t \<noteq> a_cur a"
  shows "\<exists>k'. task_reschedule k = Some k' \<and> current_task k' = t \<and> regs k' = a_ctx a t \<and> irq_on k' \<and> consts_of k' = consts_of k
    \<and> (fld (kmem k') t off_entry, fld (kmem k') t off_arg) = a_code a t
    \<and> (\<exists>w. ready_list k' = Some (q @ w) \<and> set w \<subseteq> {a_cur a} \<and> (a_state a (a_cur a) \<noteq> RUNNING \<longrightarrow> w = []))"
proof -
  let ?b = "a_reschedule (idle_task k) (call_ctx k) a"
  obtain k' where k': "task_reschedule k = Some k'" "step_to T stk k a C k' ?b" using step_yield [OF I room n] by blast
  have A: "a_cur ?b = t" "a_irq ?b" "a_code ?b = a_code a"
    "\<exists>w. a_queue ?b = q @ w \<and> set w \<subseteq> {a_cur a} \<and> (a_state a (a_cur a) \<noteq> RUNNING \<longrightarrow> w = [])"
    using t by (auto simp: a_reschedule_def a_exit_def a_switch_def a_pick_def a_requeue_def a_enter_def Let_def)
  have I': "run_inv T stk C k' ?b" "regs k' = a_ctx a t" "consts_of k' = consts_of k" using k'(2) A(1) t(3) by (auto simp: step_to_def)
  have "t \<in> T" using sched_repD(2) [OF run_invD(1) [OF I]] t(1) by (auto simp: mem_rep_def)
  then have "(fld (kmem k') t off_entry, fld (kmem k') t off_arg) = a_code a t"
    using sched_repD(2) [OF run_invD(1) [OF I'(1)]] by (simp add: mem_rep_def A(3))
  then show ?thesis using k'(1) A I'(2,3) run_invD(6) [OF I'(1)] run_inv_reads(1,3) [OF I'(1)] by auto
qed

text \<open>
  C7. A task that is created, started and then yielded to runs next: the yield comes out on the
  top of the stack it was given, with interrupts on, and the trampoline calls the entry
  point it was created with, with its argument, while every task that was ready still waits in
  the same order behind it.
\<close>

theorem new_task_first_run:
  assumes "boot_ok T stk k0" "sched_reach T stk k0 (C, k)" "has_room stk k" "count_of k + 1 \<noteq> 0"
    and "t \<in> T - C" "region (stack + stack_size - 20) 20 \<subseteq> stk t" "ready_list k = Some q"
  shows "\<exists>k1 k2 k3. task_create k t entry arg stack stack_size = (0, k1) \<and> task_start k1 t = (0, k2)
    \<and> task_reschedule k2 = Some k3 \<and> current_task k3 = t \<and> esp k3 = stack + stack_size \<and> eip k3 = task_trampoline_addr k
    \<and> irq_on k3 \<and> (fld (kmem k3) t off_entry, fld (kmem k3) t off_arg) = (entry, arg)
    \<and> (\<exists>w. ready_list k3 = Some (q @ w) \<and> set w \<subseteq> {current_task k})"
proof -
  obtain a where I: "run_inv T stk C k a" using reach_inv [OF assms(2,1)] by auto
  from launch [OF I assms(5,6,4)] obtain k1 k2 a2 where
    L: "task_create k t entry arg stack stack_size = (0, k1)" "task_start k1 t = (0, k2)"
      "run_inv T stk (insert t C) k2 a2" "regs k2 = regs k" "consts_of k2 = consts_of k" "count_of k2 = count_of k"
      "a_queue a2 = t # a_queue a" "a_cur a2 = a_cur a" "a_count a2 t = 1" "a_code a2 t = (entry, arg)"
      "a_ctx a2 t = first_ctx k (stack + stack_size)" "t \<noteq> a_cur a" by blast
  have room: "has_room stk k2"
    using assms(3) L(4,8) run_invD(6) [OF L(3)] run_invD(6) [OF I] by (simp add: has_room_def regs_def)
  from launched_runs [OF L(3) room _ L(7,9)] L(6,8,12) assms(4) obtain k3 w where
    "task_reschedule k2 = Some k3" "current_task k3 = t" "regs k3 = a_ctx a2 t" "irq_on k3"
    "(fld (kmem k3) t off_entry, fld (kmem k3) t off_arg) = a_code a2 t" "ready_list k3 = Some (a_queue a @ w)" "set w \<subseteq> {a_cur a}"
    by auto
  then show ?thesis using L(1,2,10,11) run_invD(6) [OF I] run_inv_reads(1) [OF I] assms(7)
    by (auto simp: regs_def first_ctx_def)
qed

text \<open>The idle task alone, with its stack pointer set.\<close>

definition demo_idle_only :: kernel where "demo_idle_only = (task_init demo_boot)\<lparr>esp := 0x500\<rparr>"

lemma demo_idle_only_facts:
  "sched_reach demo_tasks demo_stk demo_boot ({0x200}, demo_idle_only)" "has_room demo_stk demo_idle_only"
  "count_of demo_idle_only = 1" "ready_list demo_idle_only = Some []" "current_task demo_idle_only = 0x200"
  "state_of demo_idle_only 0x200 = INITIAL"
proof -
  obtain a where "demo_at {0x200} (task_init demo_boot) a" and a: "a_cur a = 0x200" "a_queue a = []" "a_count a 0x200 = 1"
    "a_state a 0x200 = INITIAL" using demo_init by blast
  from demo_esp [OF this(1), of "0x500", folded demo_idle_only_def] have D: "demo_at {0x200} demo_idle_only a" .
  then have I: "run_inv demo_tasks demo_stk {0x200} demo_idle_only a" by (simp add: demo_at_def)
  show "sched_reach demo_tasks demo_stk demo_boot ({0x200}, demo_idle_only)" using D by (simp add: demo_at_def)
  show "count_of demo_idle_only = 1" "ready_list demo_idle_only = Some []" "current_task demo_idle_only = 0x200"
    "state_of demo_idle_only 0x200 = INITIAL"
    using run_invD(5,6) [OF I] run_inv_reads(1,2) [OF I] a by auto
  then show "has_room demo_stk demo_idle_only"
    using region_field [of 492 20 512 "0x300 :: u32"] by (simp add: has_room_def demo_idle_only_def demo_stk_def)
qed

theorem new_task_first_run_witness:
  "\<exists>k1 k2 k3. task_create demo_idle_only 0x600 0x1234 7 0x1000 512 = (0, k1) \<and> task_start k1 0x600 = (0, k2)
    \<and> task_reschedule k2 = Some k3 \<and> current_task k3 = 0x600 \<and> esp k3 = 0x1200 \<and> irq_on k3
    \<and> (fld (kmem k3) 0x600 off_entry, fld (kmem k3) 0x600 off_arg) = (0x1234, 7)"
proof -
  have "region (0x1000 + 512 - 20) 20 \<subseteq> demo_stk 0x600" "0x600 \<in> demo_tasks - {0x200}"
    using region_field [of 492 20 512 "0x1000 :: u32"] by (simp_all add: demo_stk_def demo_tasks_def)
  from new_task_first_run [OF demo_boot_ok demo_idle_only_facts(1,2) _ this(2,1) demo_idle_only_facts(4), where entry = "0x1234" and arg = "7"]
  show ?thesis by (auto simp: demo_idle_only_facts)
qed

section \<open>Calls that change nothing\<close>

text \<open>
  C29. \<^verbatim>\<open>task_start\<close> of a task that is not INITIAL fails with -1 and leaves the kernel as it
  was: no task is queued twice, and the critical section around the test is undone exactly,
  the interrupt flag included.
\<close>

theorem start_rejected:
  assumes "boot_ok T stk k0" "sched_reach T stk k0 (C, k)" "t \<in> C" "state_of k t \<noteq> INITIAL" "count_of k + 1 \<noteq> 0"
  shows "task_start k t = (- 1, k)"
proof -
  obtain a where I: "run_inv T stk C k a" using reach_inv [OF assms(2,1)] by auto
  note R = run_invD [OF I]
  have irq: "irq_on k \<longleftrightarrow> count_of k = 0" using R(2,5) run_inv_reads(3) [OF I] by (simp add: sched_ok_def)
  have "fld (kmem (enter_critical_section k)) t off_state = state_of k t"
    using sched_repD(6) [OF rep_enter(1) [OF R(1)]] run_inv_reads(2,4) [OF I assms(3)] by simp
  then have "task_start k t = (- 1, exit_critical_section (enter_critical_section k))"
    using assms(4) by (simp add: task_start_def Let_def)
  moreover have "kmem (exit_critical_section (enter_critical_section k)) = kmem k"
    using st32_ld32_same [of "kmem k" "current_task k + off_count"]
    by (auto simp: exit_critical_section_def enter_critical_section_def Let_def x86_cli_def x86_sti_def fld_def set_fld_def
        mem_simps st32_st32_same)
  moreover have "exit_critical_section (enter_critical_section k) = k\<lparr>kmem := kmem (exit_critical_section (enter_critical_section k))\<rparr>"
    using irq assms(5) by (cases k)
      (auto simp: exit_critical_section_def enter_critical_section_def Let_def x86_cli_def x86_sti_def fld_def set_fld_def
        count_of_def mem_simps)
  ultimately show ?thesis by simp
qed

theorem start_rejected_witness: "task_start demo_running 0x600 = (- 1, demo_running)"
proof -
  obtain a where I: "run_inv demo_tasks demo_stk demo_tasks demo_running a"
    using reach_inv [OF demo_facts(5) demo_boot_ok] by auto
  have "a_queue a = [0x600]" using run_inv_reads(1) [OF I] demo_facts(6) by simp
  then have "0x600 \<in> set (a_queue a)" by simp
  then have "a_state a 0x600 = READY" using run_invD(2) [OF I] by (simp add: sched_ok_def)
  then have "state_of demo_running 0x600 = READY" using run_inv_reads(2) [OF I] by (simp add: demo_tasks_def)
  then show ?thesis
    using start_rejected [OF demo_boot_ok demo_facts(5), of "0x600"] by (simp add: demo_facts demo_tasks_def)
qed

text \<open>
  A running task that yields when no other task is ready goes on at once: no switch is
  made, its registers and state are unchanged and the queue is empty again.
\<close>

theorem yield_alone:
  assumes "boot_ok T stk k0" "sched_reach T stk k0 (C, k)" "can_yield stk k" "ready_list k = Some []"
  shows "\<exists>k'. task_reschedule k = Some k' \<and> current_task k' = current_task k \<and> regs k' = regs k
    \<and> ready_list k' = Some [] \<and> count_of k' = count_of k \<and> (\<forall>t\<in>C. state_of k' t = state_of k t)"
proof -
  obtain a where I: "run_inv T stk C k a" using reach_inv [OF assms(2,1)] by auto
  note R = run_invD [OF I] and V = run_inv_reads [OF I]
  have a: "a_queue a = []" "a_state a (a_cur a) = RUNNING"
    using assms(3,4) V(1,2) R(3,6) by (auto simp: can_yield_def)
  let ?a = "a_reschedule (idle_task k) (call_ctx k) a"
  have A: "a_cur ?a = a_cur a" "a_queue ?a = []" "a_count ?a (a_cur a) = a_count a (a_cur a)" "a_state ?a = a_state a"
    using a by (auto simp: a_reschedule_def a_exit_def a_switch_def a_pick_def a_requeue_def a_enter_def Let_def)
  obtain k' where k': "task_reschedule k = Some k'" "run_inv T stk C k' ?a" 
    using step_yield [OF I] assms(3) by (auto simp: step_to_def can_yield_def)
  moreover have "regs k' = regs k"
    using rep_reschedule [OF R(1,2,4)] R(7) assms(3) k'(1) A(1) by (auto simp: can_yield_def)
  ultimately show ?thesis using run_invD(5,6) [OF k'(2)] run_inv_reads(1,2) [OF k'(2)] V(2) A R(5,6) by auto
qed

text \<open>The idle task after its first reschedule, with no other task.\<close>

definition demo_alone :: kernel where "demo_alone = the (task_reschedule demo_idle_only)"

lemma demo_alone_facts:
  "sched_reach demo_tasks demo_stk demo_boot ({0x200}, demo_alone)" "ready_list demo_alone = Some []" "can_yield demo_stk demo_alone"
proof -
  obtain a where I: "run_inv demo_tasks demo_stk {0x200} demo_idle_only a" and c: "consts_of demo_idle_only = consts_of demo_boot"
    using reach_inv [OF demo_idle_only_facts(1) demo_boot_ok] by auto
  note R = run_invD [OF I] and V = run_inv_reads [OF I] and F = demo_idle_only_facts
  have a: "a_cur a = 0x200" "a_queue a = []" "a_count a 0x200 = 1" "a_state a 0x200 = INITIAL" "idle_task demo_idle_only = 0x200"
    using R(5,6) V(1,2) F consts_ofD [OF c] by (auto simp: demo_boot_def)
  let ?a = "a_reschedule (idle_task demo_idle_only) (call_ctx demo_idle_only) a"
  have n: "count_of demo_idle_only + 1 \<noteq> 0" using F by simp
  have A: "a_cur ?a = 0x200" "a_queue ?a = []" "a_count ?a 0x200 = 1" "a_state ?a 0x200 = RUNNING"
    using a by (auto simp: a_reschedule_def a_exit_def a_switch_def a_pick_def a_requeue_def a_enter_def Let_def)
  obtain k' where k': "task_reschedule demo_idle_only = Some k'" "run_inv demo_tasks demo_stk {0x200} k' ?a" "regs k' = regs demo_idle_only"
    using rep_reschedule [OF R(1,2,4) R(7) [OF F(2)]] step_yield [OF I F(2) n] A(1) a(1) by (auto simp: step_to_def)
  have e: "k' = demo_alone" using k'(1) by (simp add: demo_alone_def)
  show "sched_reach demo_tasks demo_stk demo_boot ({0x200}, demo_alone)"
    using sched_reach.step [OF F(1) run_step.yield [OF F(2) n k'(1)]] by (simp add: e)
  show "ready_list demo_alone = Some []" using run_inv_reads(1) [OF k'(2)] A by (simp add: e)
  have "esp demo_alone = 0x500" "current_task demo_alone = 0x200"
    using k'(3) run_invD(6) [OF k'(2)] A by (simp_all add: e regs_def demo_idle_only_def)
  then show "can_yield demo_stk demo_alone"
    using run_invD(5) [OF k'(2)] run_inv_reads(2) [OF k'(2)] A F(2,5)
    by (auto simp: can_yield_def has_room_def e demo_idle_only_def)
qed

theorem yield_alone_witness:
  "\<exists>k'. task_reschedule demo_alone = Some k' \<and> current_task k' = current_task demo_alone \<and> regs k' = regs demo_alone"
  using yield_alone [OF demo_boot_ok demo_alone_facts(1,3,2)] by auto

end
