(* ===== verification/EntryProps.thy ===== *)
theory EntryProps
  imports Entry TaskProps
begin

text \<open>
  An interrupt leaves the code it interrupts as it was: its registers and flags come back and, of its
  memory, only the screen and the bytes below its stack pointer change. So for the scheduler an
  interrupt is a step of computation of the running task, and the invariants of the scheduler hold
  with interrupts taken between any two steps.
\<close>

section \<open>Pushing and popping words\<close>

lemma push_fields [simp]:
  "esp (push v k) = esp k - 4" "ebx (push v k) = ebx k" "ebp (push v k) = ebp k" "esi (push v k) = esi k"
  "edi (push v k) = edi k" "eip (push v k) = eip k" "irq_on (push v k) = irq_on k" "kmem (push v k) = st32 (kmem k) (esp k - 4) v"
  by (simp_all add: push_def)

lemma push_update [simp]:
  "push v (k\<lparr>eip := e\<rparr>) = (push v k)\<lparr>eip := e\<rparr>" "push v (k\<lparr>irq_on := b\<rparr>) = (push v k)\<lparr>irq_on := b\<rparr>"
  by (simp_all add: push_def)

lemma fold_push_eq:
  "fold push ws k = k\<lparr>esp := esp k - of_nat (4 * length ws), kmem := kmem (fold push ws k)\<rparr>"
proof (induction ws arbitrary: k)
  case (Cons w ws)
  show ?case unfolding fold.simps comp_apply by (subst Cons.IH) (simp add: push_def)
qed simp

lemma unat_small32: "n < 4294967296 \<Longrightarrow> unat (of_nat n :: u32) = n"
  by (simp add: unsigned_of_nat take_bit_nat_eq_self)

lemma fold_push_frame:
  assumes "length ws < 100"
  shows "frame (region (esp k - of_nat (4 * length ws)) (4 * length ws)) (kmem k) (kmem (fold push ws k))"
  using assms
proof (induction ws arbitrary: k)
  case (Cons w ws)
  let ?n = "4 * length ws" and ?b = "esp k - of_nat (4 * length (w # ws))"
  have e: "esp (push w k) - of_nat ?n = ?b" by simp
  have "frame (region (esp (push w k) - of_nat ?n) ?n) (kmem (push w k)) (kmem (fold push ws (push w k)))"
    using Cons.prems by (intro Cons.IH) simp
  then have "frame (region ?b ?n) (kmem (push w k)) (kmem (fold push ws (push w k)))" unfolding e .
  then have "frame (region ?b (4 * length (w # ws))) (kmem (push w k)) (kmem (fold push ws (push w k)))"
    by (rule frame_mono) (rule region_mono, simp)
  moreover have "region (?b + of_nat ?n) 4 \<subseteq> region ?b (4 * length (w # ws))"
    using Cons.prems unat_small32 [of ?n] by (intro region_field) simp
  then have "frame (region ?b (4 * length (w # ws))) (kmem k) (kmem (push w k))"
    by (simp add: frame_st32)
  ultimately show ?case using frame_trans by fastforce
qed simp

lemma fold_push_word:
  assumes "length ws < 100" "i < length ws"
  shows "ld32 (kmem (fold push ws k)) (esp k - of_nat (4 * Suc i)) = ws ! i"
  using assms
proof (induction ws arbitrary: k i)
  case (Cons w ws)
  show ?case
  proof (cases i)
    case 0
    let ?n = "4 * length ws"
    have "region (esp k - 4) 4 \<inter> region (esp k - 4 - of_nat ?n) ?n = {}"
    proof (cases "ws = []")
      case False
      let ?a = "esp k - 4" and ?c = "esp k - 4 - of_nat ?n"
      have d: "unat (?a - ?c) = ?n" using Cons.prems(1) unat_small32 [of ?n] by simp
      then have "?a \<noteq> ?c" using False by auto
      then have "unat (?c - ?a) = 2 ^ 32 - ?n" using unat_diff_swap [of ?c ?a] d by simp
      then have "apart ?a 4 ?c ?n" using Cons.prems(1) d by (simp add: apart_def)
      then show ?thesis using False by (simp add: apart_iff_disjoint)
    qed (simp add: region_def)
    then have "ld32 (kmem (fold push ws (push w k))) (esp k - 4) = ld32 (kmem (push w k)) (esp k - 4)"
      using fold_push_frame [of ws "push w k"] Cons.prems(1) by (intro frame_ld32) auto
    then show ?thesis using 0 by (simp add: mem_simps)
  next
    case (Suc j)
    have "ld32 (kmem (fold push ws (push w k))) (esp (push w k) - of_nat (4 * Suc j)) = ws ! j"
      using Cons.IH [of j "push w k"] Cons.prems Suc by (simp only: length_Cons)
    moreover have "esp (push w k) - of_nat (4 * Suc j) = esp k - of_nat (4 * Suc i)" using Suc by (simp add: algebra_simps)
    ultimately have "ld32 (kmem (fold push ws (push w k))) (esp k - of_nat (4 * Suc i)) = ws ! j" by (simp only:)
    then show ?thesis using Suc by (simp only: fold_simps nth_Cons_Suc)
  qed
qed simp

section \<open>What the handler leaves alone\<close>

definition keeps :: "machine \<Rightarrow> machine \<Rightarrow> bool" where
  "keeps s s' \<longleftrightarrow> on_screen (vst s') \<and> frame vga_region (kmem (kern s)) (kmem (kern s'))
     \<and> kern s' = (kern s)\<lparr>kmem := kmem (kern s')\<rparr>"

lemma keeps_refl: "on_screen (vst s) \<Longrightarrow> keeps s s"
  by (simp add: keeps_def)

lemma says_keeps: "says bs s s' \<Longrightarrow> keeps s s'"
  using says_kern [of bs s s'] unfolding says_def keeps_def by blast

lemma keeps_fields [simp]:
  "keeps (s\<lparr>key_lshift := a\<rparr>) s' = keeps s s'" "keeps (s\<lparr>key_rshift := a\<rparr>) s' = keeps s s'"
  "keeps s (s'\<lparr>lastCode := c\<rparr>) = keeps s s'" "keeps (s\<lparr>io := h\<rparr>) s' = keeps s s'"
  "keeps s (s'\<lparr>timer_ticks := n\<rparr>) = keeps s s'"
  by (simp_all add: keeps_def)

lemma table_chars:
  "x \<in> set KeyCodeSingleLower \<Longrightarrow> x \<noteq> - 1 \<Longrightarrow> (of_int x :: u8) \<noteq> 0"
  "x \<in> set KeyCodeSingleUpper \<Longrightarrow> x \<noteq> - 1 \<Longrightarrow> (of_int x :: u8) \<noteq> 0"
  by (auto simp: KeyCodeSingleLower_def KeyCodeSingleUpper_def)

lemma scode_index: "unat (b AND 0x7F :: u8) < 128"
proof -
  have "(0x7F :: u8) = mask 7" by (simp add: mask_eq_exp_minus_1)
  then have "b AND 0x7F = take_bit 7 b" by (simp only: take_bit_eq_mask)
  moreover have "take_bit 7 (unat b) < 2 ^ 7" by (rule take_bit_nat_less_exp)
  ultimately show ?thesis by (simp only: unsigned_take_bit_eq) simp
qed

lemma process_scode_keeps:
  assumes "on_screen (vst s)"
  shows "keeps s (process_scode b s)"
proof -
  let ?i = "unat (b AND 0x7F)"
  have nz: "(of_int c :: u8) \<noteq> 0" if "c \<noteq> - 1" "c \<in> {KeyCodeSingleLower ! ?i, KeyCodeSingleUpper ! ?i, KeyCodeMultiLower ! ?i, KeyCodeMultiUpper ! ?i}" for c
    using that scode_index [of b] table_chars [of c] nth_mem [of ?i KeyCodeSingleLower] nth_mem [of ?i KeyCodeSingleUpper]
    by (auto simp: KeyCodeMultiLower_def KeyCodeMultiUpper_def)
  define s1 where "s1 = (let s = (if b AND 0x7F = SCANCODE_LSHIFT then s\<lparr>key_lshift := (b AND 0x80 = 0)\<rparr> else s)
    in if b AND 0x7F = SCANCODE_RSHIFT then s\<lparr>key_rshift := (b AND 0x80 = 0)\<rparr> else s)"
  have s1: "keeps s1 s' = keeps s s'" "vst s1 = vst s" "keeps s s1" for s'
    using keeps_refl [OF assms] by (auto simp: s1_def Let_def keeps_def)
  have k: "keeps s (m_console_input (of_int c) s1)" if "(of_int c :: u8) \<noteq> 0" for c
    using says_keeps [OF m_console_input_says [of s1 "of_int c"]] assms that s1 by auto
  show ?thesis
    unfolding process_scode_def Let_def s1_def [unfolded Let_def, symmetric]
    using k nz s1(3) by (auto simp del: nth_mem)
qed

lemma keyboard_irq_keeps: "on_screen (vst s) \<Longrightarrow> keeps s (keyboard_irq dev s)"
  using process_scode_keeps [of "s\<lparr>io := h\<rparr>" for h] keeps_refl [of s]
  by (simp add: keyboard_irq_def i8042_read_status_def i8042_read_data_def inp_eq Let_def split: prod.split) (auto simp: keeps_def)

lemma handler_keeps:
  assumes "32 \<le> n" "n < 48" "i_vector f = of_nat n" "on_screen (vst s)"
  shows "\<exists>s'. x86_exception_handler dev f cr2 s = Returned s' \<and> keeps s s'"
proof -
  have v: "i_vector f = 0x20 + of_nat (n - 32)" using assms(1,3) by (simp add: of_nat_diff)
  have "unat (of_nat (n - 32) :: u32) < 16" using assms(1,2) unat_small32 [of "n - 32"] by simp
  from irq_dispatch [OF v this assms(4), of dev cr2] obtain s' where
    H: "x86_exception_handler dev f cr2 s = Returned s'" and
    D: "let s1 = s\<lparr>io := io s @ eois (of_nat (n - 32))\<rparr> in
     if (of_nat (n - 32) :: u32) = 0 then s' = s1\<lparr>timer_ticks := timer_ticks s + 1\<rparr>
     else if (of_nat (n - 32) :: u32) = 1 then s' = keyboard_irq dev s1
     else says (lit ''unhandled PIC interrupt'' @ [10]) s1 s'" by blast
  let ?s1 = "s\<lparr>io := io s @ eois (of_nat (n - 32))\<rparr>"
  have "keeps ?s1 s'"
    using D assms(4) says_keeps [of "lit ''unhandled PIC interrupt'' @ [10]" ?s1 s'] keyboard_irq_keeps [of ?s1 dev] keeps_refl [of ?s1]
    by (auto simp: Let_def simp del: keeps_fields split: if_splits) (simp_all add: keeps_def)
  then show ?thesis using H by simp
qed

section \<open>Through the stub and back\<close>

definition entry_code :: "nat \<Rightarrow> instr list" where
  "entry_code n = isr_stub n @ [PushSeg GS, PushSeg FS, PushSeg ES, PushSeg DS, Pusha,
     MovEaxImm (ucast DATA_SELECTOR), MovSegEax GS, MovSegEax FS, MovSegEax ES, MovSegEax DS, MovEcxEsp]"

definition exit_code :: "instr list" where
  "exit_code = [Popa, PopSeg DS, PopSeg ES, PopSeg FS, PopSeg GS, AddEsp 8, Iret]"

lemma interrupt_code: "isr_stub n @ x86_interrupt_common = entry_code n @ CallHandler # exit_code"
  by (simp add: entry_code_def exit_code_def x86_interrupt_common_def)

lemma irun_append:
  "irun dev cr2 ra clob (is @ js) st = (case irun dev cr2 ra clob is st of Inl s \<Rightarrow> Inl s | Inr st \<Rightarrow> irun dev cr2 ra clob js st)"
  by (induction "is" arbitrary: st) (auto split: sum.split)

text \<open>The words of the frame, in the order they are pushed.\<close>

definition err_word :: "nat \<Rightarrow> u32 \<Rightarrow> u32" where
  "err_word n err = (if has_error_code n then err else 0)"

definition frame_of :: "u32 \<Rightarrow> nat \<Rightarrow> xregs \<Rightarrow> kernel \<Rightarrow> u32 list" where
  "frame_of e n x k = [eflags x, ucast (csel x), eip k, e, of_nat n,
     ucast (sel x GS), ucast (sel x FS), ucast (sel x ES), ucast (sel x DS),
     eax x, ecx x, edx x, ebx k, esp k - 36, ebp k, esi k, edi k]"

lemma entry_run:
  "irun dev cr2 ra clob (entry_code n) (deliver c n err (s, x)) =
    Inr (s\<lparr>kern := (fold push (frame_of (err_word n err) n x (kern s)) (kern s))\<lparr>eip := gate_target (idt c ! n), irq_on := False\<rparr>\<rparr>,
      x\<lparr>eax := ucast DATA_SELECTOR, ecx := esp (kern s) - 68,
        sel := (sel x)(GS := DATA_SELECTOR, FS := DATA_SELECTOR, ES := DATA_SELECTOR, DS := DATA_SELECTOR),
        csel := g_seg (idt c ! n), eflags := eflags x AND NOT 0x34300\<rparr>)"
proof -
  have "(ucast (ucast DATA_SELECTOR :: u32) :: u16) = DATA_SELECTOR" by (simp add: DATA_SELECTOR_def)
  then show ?thesis
    by (simp add: entry_code_def isr_stub_def deliver_def err_word_def mpush_def pusha_def frame_of_def Let_def)
qed

lemma exit_run:
  fixes s :: machine
  defines "m \<equiv> kmem (kern s)" and "p \<equiv> esp (kern s)"
  shows "irun dev cr2 ra clob exit_code (s, x) =
    Inr (s\<lparr>kern := (kern s)\<lparr>edi := ld32 m p, esi := ld32 m (p + 4), ebp := ld32 m (p + 8), ebx := ld32 m (p + 16),
        esp := p + 68, eip := ld32 m (p + 56), irq_on := bit (ld32 m (p + 64)) IF_bit\<rparr>\<rparr>,
      x\<lparr>edx := ld32 m (p + 20), ecx := ld32 m (p + 24), eax := ld32 m (p + 28),
        sel := (sel x)(DS := ucast (ld32 m (p + 32)), ES := ucast (ld32 m (p + 36)), FS := ucast (ld32 m (p + 40)),
          GS := ucast (ld32 m (p + 44))),
        csel := ucast (ld32 m (p + 60)), eflags := ld32 m (p + 64)\<rparr>)"
  by (simp add: exit_code_def popa_def mpop_def pop_def Let_def m_def p_def add.assoc)

lemma frame_words_at:
  fixes k :: kernel
  defines "p \<equiv> esp k - 68"
  assumes "\<And>a. region a 4 \<subseteq> region p 68 \<Longrightarrow> ld32 m a = ld32 (kmem (fold push (frame_of e n x k @ [ra]) k)) a"
  shows "ld32 m p = edi k" "ld32 m (p + 4) = esi k" "ld32 m (p + 8) = ebp k" "ld32 m (p + 16) = ebx k"
    "ld32 m (p + 20) = edx x" "ld32 m (p + 24) = ecx x" "ld32 m (p + 28) = eax x"
    "ld32 m (p + 32) = ucast (sel x DS)" "ld32 m (p + 36) = ucast (sel x ES)" "ld32 m (p + 40) = ucast (sel x FS)"
    "ld32 m (p + 44) = ucast (sel x GS)" "ld32 m (p + 48) = of_nat n" "ld32 m (p + 52) = e" "ld32 m (p + 56) = eip k"
    "ld32 m (p + 60) = ucast (csel x)" "ld32 m (p + 64) = eflags x" "ld32 m (p + 12) = esp k - 36"
proof -
  let ?ws = "frame_of e n x k @ [ra]"
  have w: "ld32 m (p + of_nat j) = ?ws ! i" if "j + 4 * Suc i = 68" for i j
  proof -
    have "length ?ws = 18" by (simp add: frame_of_def)
    then have "ld32 (kmem (fold push ?ws k)) (esp k - of_nat (4 * Suc i)) = ?ws ! i"
      using that by (intro fold_push_word) simp_all
    moreover have "of_nat j + of_nat (4 * Suc i) = (68 :: u32)" using that by (metis of_nat_add of_nat_numeral)
    then have "p + of_nat j = esp k - of_nat (4 * Suc i)" by (simp only: p_def) (simp add: algebra_simps)
    moreover have "region (p + of_nat j) 4 \<subseteq> region p 68"
      using that unat_small32 [of j] by (intro region_field) simp
    ultimately show ?thesis using assms(2) by simp
  qed
  show "ld32 m p = edi k" "ld32 m (p + 4) = esi k" "ld32 m (p + 8) = ebp k" "ld32 m (p + 16) = ebx k"
    "ld32 m (p + 20) = edx x" "ld32 m (p + 24) = ecx x" "ld32 m (p + 28) = eax x"
    "ld32 m (p + 32) = ucast (sel x DS)" "ld32 m (p + 36) = ucast (sel x ES)" "ld32 m (p + 40) = ucast (sel x FS)"
    "ld32 m (p + 44) = ucast (sel x GS)" "ld32 m (p + 48) = of_nat n" "ld32 m (p + 52) = e" "ld32 m (p + 56) = eip k"
    "ld32 m (p + 60) = ucast (csel x)" "ld32 m (p + 64) = eflags x" "ld32 m (p + 12) = esp k - 36"
    using w [of 0 16] w [of 4 15] w [of 8 14] w [of 16 12] w [of 20 11] w [of 24 10] w [of 28 9] w [of 32 8]
      w [of 36 7] w [of 40 6] w [of 44 5] w [of 48 4] w [of 52 3] w [of 56 2] w [of 60 1] w [of 64 0] w [of 12 13]
    by (simp_all add: frame_of_def)
qed

lemma ucast_up_down [simp]: "ucast (ucast (w :: u16) :: u32) = w"
  by (rule bit_word_eqI) (auto simp: bit_simps)

text \<open>The interrupt up to the handler and from there: the handler gets the frame \<open>f\<close>.\<close>

lemma interrupt_run:
  fixes s :: machine and x :: xregs
  defines "k \<equiv> kern s"
  assumes n: "32 \<le> n" "n < 48" and v: "on_screen (vst s)"
    and fl: "bit (eflags x) IF_bit = irq_on k" and dis: "region (esp k - 72) 72 \<inter> vga_region = {}"
  shows "\<exists>s1 s2 f m. irun dev cr2 ra clob (isr_stub n @ x86_interrupt_common) (deliver c n err (s, x))
      = Inr (s2\<lparr>kern := k\<lparr>kmem := m\<rparr>\<rparr>, x)
    \<and> frame (vga_region \<union> region (esp k - 72) 72) (kmem k) m \<and> on_screen (vst s2)
    \<and> x86_exception_handler dev f cr2 s1 = Returned s2 \<and> s1 = s\<lparr>kern := kern s1\<rparr> \<and> kmem (kern s2) = m
    \<and> kern s2 = (kern s1)\<lparr>kmem := m\<rparr>
    \<and> i_vector f = of_nat n \<and> i_ip f = eip k"
proof -
  let ?ws = "frame_of (err_word n err) n x k @ [ra]" and ?p = "esp k - 68" and ?g = "gate_target (idt c ! n)"
  let ?m1 = "kmem (fold push ?ws k)"
  define x1 where "x1 = x\<lparr>eax := ucast DATA_SELECTOR, ecx := ?p,
        sel := (sel x)(GS := DATA_SELECTOR, FS := DATA_SELECTOR, ES := DATA_SELECTOR, DS := DATA_SELECTOR),
        csel := g_seg (idt c ! n), eflags := eflags x AND NOT 0x34300\<rparr>"
  define K where "K = (fold push (frame_of (err_word n err) n x k) k)\<lparr>eip := ?g, irq_on := False\<rparr>"
  have entry: "irun dev cr2 ra clob (entry_code n) (deliver c n err (s, x)) = Inr (s\<lparr>kern := K\<rparr>, x1)"
    unfolding K_def x1_def k_def by (rule entry_run)
  have K1: "push ra K = (fold push ?ws k)\<lparr>eip := ?g, irq_on := False\<rparr>" by (simp add: K_def)
  have len: "length ?ws = 18" by (simp add: frame_of_def)
  have pe: "fold push ?ws k = k\<lparr>esp := esp k - 72, kmem := ?m1\<rparr>"
    using fold_push_eq [of ?ws k] len by simp
  have fr1: "frame (region (esp k - 72) 72) (kmem k) ?m1" using fold_push_frame [of ?ws k] len by simp
  define s1 where "s1 = s\<lparr>kern := push ra K\<rparr>"
  define f where "f = read_iframe ?m1 ?p"
  have vec: "i_vector f = of_nat n" "i_ip f = eip k"
    using frame_words_at(12,14) [of k ?m1 "err_word n err" n x ra] by (simp_all add: f_def read_iframe_def)
  have "on_screen (vst s1)" using v by (simp add: s1_def)
  from handler_keeps [OF n vec(1) this, of dev cr2] obtain s2 where
    H: "x86_exception_handler dev f cr2 s1 = Returned s2" and kp: "keeps s1 s2" by blast
  define m where "m = kmem (kern s2)"
  have k2: "kern s2 = k\<lparr>esp := esp k - 72, kmem := m, eip := ?g, irq_on := False\<rparr>"
  proof -
    have "kern s2 = (kern s1)\<lparr>kmem := m\<rparr>" using kp by (simp add: keeps_def m_def)
    also have "kern s1 = (fold push ?ws k)\<lparr>eip := ?g, irq_on := False\<rparr>" unfolding K1 [symmetric] by (simp add: s1_def)
    also have "fold push ?ws k = k\<lparr>esp := esp k - 72, kmem := ?m1\<rparr>" by (rule pe)
    finally show ?thesis by simp
  qed
  have fr2: "frame vga_region ?m1 m" using kp by (simp add: keeps_def m_def s1_def K1)
  have call: "istep dev cr2 ra clob CallHandler (s\<lparr>kern := K\<rparr>, x1) =
      (case clob of (a, b, d) \<Rightarrow> Inr (s2\<lparr>kern := (kern s2)\<lparr>esp := ?p\<rparr>\<rparr>, x1\<lparr>eax := a, ecx := b, edx := d\<rparr>))"
  proof -
    have "mpush ra (s\<lparr>kern := K\<rparr>) = s1" by (simp add: mpush_def s1_def)
    moreover have "kmem (kern s1) = ?m1" by (simp add: s1_def K1)
    ultimately show ?thesis using H by (simp add: x1_def f_def Let_def mpop_def pop_def k2 split: prod.split)
  qed
  have low: "region ?p 68 \<subseteq> region (esp k - 72) 72"
    using region_field [of 4 68 72 "esp k - 72"] by simp
  have words: "ld32 m a = ld32 ?m1 a" if "region a 4 \<subseteq> region ?p 68" for a
    using that low dis by (intro frame_ld32 [OF fr2]) blast
  note W = frame_words_at [of k m "err_word n err" n x ra, OF words]
  obtain a b d where cl: "clob = (a, b, d)" by (cases clob)
  define s3 where "s3 = s2\<lparr>kern := (kern s2)\<lparr>esp := ?p\<rparr>\<rparr>"
  define x3 where "x3 = x1\<lparr>eax := a, ecx := b, edx := d\<rparr>"
  have k3: "kern s3 = k\<lparr>esp := ?p, kmem := m, eip := ?g, irq_on := False\<rparr>" by (simp add: s3_def k2)
  have sel: "(sel x3)(DS := ucast (ucast (sel x DS) :: u32), ES := ucast (ucast (sel x ES) :: u32), FS := ucast (ucast (sel x FS) :: u32),
      GS := ucast (ucast (sel x GS) :: u32)) = sel x"
  proof
    fix r show "((sel x3)(DS := ucast (ucast (sel x DS) :: u32), ES := ucast (ucast (sel x ES) :: u32), FS := ucast (ucast (sel x FS) :: u32),
      GS := ucast (ucast (sel x GS) :: u32))) r = sel x r" by (cases r) simp_all
  qed
  have exit: "irun dev cr2 ra clob exit_code (s3, x3) = Inr (s2\<lparr>kern := k\<lparr>kmem := m\<rparr>\<rparr>, x)"
    unfolding exit_run k3 using W sel fl by (simp add: s3_def x3_def x1_def)
  have "irun dev cr2 ra clob (isr_stub n @ x86_interrupt_common) (deliver c n err (s, x)) = Inr (s2\<lparr>kern := k\<lparr>kmem := m\<rparr>\<rparr>, x)"
    unfolding interrupt_code irun_append entry using call exit by (simp add: cl s3_def x3_def)
  moreover have "frame (vga_region \<union> region (esp k - 72) 72) (kmem k) m"
    using frame_trans [OF frame_mono [OF fr1] frame_mono [OF fr2]] by blast
  moreover have "on_screen (vst s2)" using kp by (simp add: keeps_def)
  moreover have "kern s2 = (kern s1)\<lparr>kmem := m\<rparr>" using kp by (simp add: keeps_def m_def)
  moreover have "s1 = s\<lparr>kern := kern s1\<rparr>" by (simp add: s1_def)
  ultimately show ?thesis using H vec m_def by blast
qed

lemma stub_of_gate:
  assumes "n < 48"
  shows "isr_code isr (isr + 16 * of_nat n) = Some (isr_stub n @ x86_interrupt_common)"
proof -
  have "unat (16 * of_nat n :: u32) = 16 * n" using assms unat_small32 [of "16 * n"] by simp
  then show ?thesis using assms by (simp add: isr_code_def Let_def NUM_INT_def)
qed

lemma interrupt_eq:
  assumes "length (idt c) = NUM_INT" "n < 48"
  shows "interrupt dev (x86_init g i isr tss c) isr cr2 ra clob n err st =
    Some (irun dev cr2 ra clob (isr_stub n @ x86_interrupt_common) (deliver (x86_init g i isr tss c) n err st))"
proof -
  have "eip (kern (fst (deliver (x86_init g i isr tss c) n err st))) = isr + 16 * of_nat n"
    using idt_gate(1) [OF assms] by (simp add: deliver_def Let_def split: prod.split)
  then show ?thesis by (simp add: interrupt_def Let_def stub_of_gate [OF assms(2)])
qed

section \<open>Properties\<close>

text \<open>
  C10. An interrupt is invisible to the code it interrupts. With the tables of \<^verbatim>\<open>x86_init\<close>, when line
  \<open>n - 32\<close> of the controllers interrupts at any point, whatever the C code leaves in the registers it
  may use, the stub, the common code and the handler come back to the interrupted instruction with
  every register, selector and flag as it was, interrupts on or off as they were; the handler was
  given a frame with the vector and the interrupted address, and of the memory only the screen and the
  72 bytes below the stack pointer have changed.
\<close>

theorem interrupt_transparent:
  assumes "length (idt c) = NUM_INT" "32 \<le> n" "n < 48" "on_screen (vst s)"
    and "bit (eflags x) IF_bit = irq_on (kern s)" "region (esp (kern s) - 72) 72 \<inter> vga_region = {}"
  shows "\<exists>s' f k1. interrupt dev (x86_init g i isr tss c) isr cr2 ra clob n err (s, x) = Some (Inr (s', x))
    \<and> kern s' = (kern s)\<lparr>kmem := kmem (kern s')\<rparr> \<and> on_screen (vst s')
    \<and> frame (vga_region \<union> region (esp (kern s) - 72) 72) (kmem (kern s)) (kmem (kern s'))
    \<and> i_vector f = of_nat n \<and> i_ip f = eip (kern s)
    \<and> x86_exception_handler dev f cr2 (s\<lparr>kern := k1\<rparr>) = Returned (s'\<lparr>kern := k1\<lparr>kmem := kmem (kern s')\<rparr>\<rparr>)"
proof -
  obtain s1 s2 f m where r: "irun dev cr2 ra clob (isr_stub n @ x86_interrupt_common) (deliver (x86_init g i isr tss c) n err (s, x))
      = Inr (s2\<lparr>kern := (kern s)\<lparr>kmem := m\<rparr>\<rparr>, x)"
    "frame (vga_region \<union> region (esp (kern s) - 72) 72) (kmem (kern s)) m" "on_screen (vst s2)"
    "x86_exception_handler dev f cr2 s1 = Returned s2" "s1 = s\<lparr>kern := kern s1\<rparr>" "kmem (kern s2) = m"
    "kern s2 = (kern s1)\<lparr>kmem := m\<rparr>" "i_vector f = of_nat n" "i_ip f = eip (kern s)"
    using interrupt_run [OF assms(2-6), of dev cr2 ra clob "x86_init g i isr tss c" err] by blast
  let ?s = "s2\<lparr>kern := (kern s)\<lparr>kmem := m\<rparr>\<rparr>"
  have e: "?s\<lparr>kern := (kern s1)\<lparr>kmem := kmem (kern ?s)\<rparr>\<rparr> = s2" using r(6,7) by (cases s2) simp
  show ?thesis unfolding interrupt_eq [OF assms(1,3)] r(1)
    by (rule exI [of _ ?s], rule exI [of _ f], rule exI [of _ "kern s1"]) (use e r(2-4,8,9) r(5) [symmetric] in simp)
qed

text \<open>A machine with a stack, interrupts on, in the middle of something.\<close>

definition busy_machine :: machine where
  "busy_machine = idle_machine\<lparr>kern := idle_kernel\<lparr>esp := 0x8000, eip := 0x1234, ebx := 7, esi := 9, irq_on := True\<rparr>\<rparr>"

definition busy_regs :: xregs where
  "busy_regs = \<lparr>eax = 1, ecx = 2, edx = 3, sel = \<lambda>_. 0x10, csel = 8, eflags = 0x202\<rparr>"

theorem interrupt_transparent_witness:
  "\<exists>s'. interrupt (\<lambda>_ _. 0) (x86_init 0 0 0x5000 0 sample_cpu) 0x5000 0 0 (0xAA, 0xBB, 0xCC) 33 0 (busy_machine, busy_regs)
      = Some (Inr (s', busy_regs)) \<and> esi (kern s') = 9 \<and> eip (kern s') = 0x1234 \<and> irq_on (kern s')"
proof -
  have "apart (0x8000 - 72) 72 vga 4000" by (simp add: apart_def vga_def)
  then have d: "region (esp (kern busy_machine) - 72) 72 \<inter> vga_region = {}"
    by (simp add: busy_machine_def vga_region_def apart_iff_disjoint)
  have f: "bit (eflags busy_regs) IF_bit = irq_on (kern busy_machine)" "length (idt sample_cpu) = NUM_INT"
    "on_screen (vst busy_machine)"
    by (simp_all add: busy_machine_def busy_regs_def IF_bit_def sample_cpu_def NUM_INT_def)
  obtain s' where s': "interrupt (\<lambda>_ _. 0) (x86_init 0 0 0x5000 0 sample_cpu) 0x5000 0 0 (0xAA, 0xBB, 0xCC) 33 0 (busy_machine, busy_regs)
      = Some (Inr (s', busy_regs))" "kern s' = (kern busy_machine)\<lparr>kmem := kmem (kern s')\<rparr>"
    using interrupt_transparent [OF f(2) _ _ f(3) f(1) d, of 33] by force
  have "esi (kern s') = 9 \<and> eip (kern s') = 0x1234 \<and> irq_on (kern s')" by (subst (1 2 3) s'(2)) (simp add: busy_machine_def)
  then show ?thesis using s'(1) by blast
qed

end
