(* ===== verification/System.thy ===== *)
theory System
  imports EntryProps
begin

text \<open>
  The whole running system: tasks that compute, print and call the scheduler, and interrupts of the
  controllers between any two of their steps, each through the code of \<^verbatim>\<open>x86/exceptions.S\<close> on the
  stack of the task it interrupts. For the scheduler an interrupt and a print are steps of
  computation, so every property of the reachable states of \<^verbatim>\<open>TaskRun\<close> is one of this system.

  A print is one step, so the system has it only with interrupts off, as in a critical section: the
  console is not made for interrupts inside \<^verbatim>\<open>vga_console_putchar\<close>. The last section shows what goes wrong
  then.
\<close>

section \<open>Steps\<close>

type_synonym system = "addr set \<times> machine \<times> xregs"

text \<open>
  The stack of an interrupt: 72 bytes that the processor, the stub and the common code push, and \<open>D\<close>
  bytes for the frames of the C functions called from there, whatever the compiler makes of them.
  \<open>room_for_irq\<close>: they are on the running task's stack.
\<close>

definition room_for_irq :: "nat \<Rightarrow> (addr \<Rightarrow> addr set) \<Rightarrow> kernel \<Rightarrow> bool" where
  "room_for_irq D stk k \<longleftrightarrow> region (esp k - of_nat (72 + D)) (72 + D) \<subseteq> stk (current_task k)"

definition c_frames :: "nat \<Rightarrow> kernel \<Rightarrow> addr set" where
  "c_frames D k = region (esp k - of_nat (72 + D)) D"

lemma irq_stack: "region (esp k - 72) 72 \<subseteq> region (esp k - of_nat (72 + D)) (72 + D)"
  "c_frames D k \<subseteq> region (esp k - of_nat (72 + D)) (72 + D)"
proof -
  have "unat (of_nat D :: u32) \<le> D" by (simp add: unat_of_nat)
  then have "region (esp k - of_nat (72 + D) + of_nat D) 72 \<subseteq> region (esp k - of_nat (72 + D)) (72 + D)"
    by (intro region_field) simp
  moreover have "esp k - of_nat (72 + D) + of_nat D = esp k - 72" by simp
  ultimately show "region (esp k - 72) 72 \<subseteq> region (esp k - of_nat (72 + D)) (72 + D)" by (simp only:)
  show "c_frames D k \<subseteq> region (esp k - of_nat (72 + D)) (72 + D)" by (simp add: c_frames_def region_mono)
qed

definition set_mem :: "mem \<Rightarrow> machine \<Rightarrow> machine" where
  "set_mem m s = s\<lparr>kern := (kern s)\<lparr>kmem := m\<rparr>\<rparr>"

lemma set_mem_fields [simp]: "kern (set_mem m s) = (kern s)\<lparr>kmem := m\<rparr>" "vst (set_mem m s) = vst s"
  by (simp_all add: set_mem_def)

definition flags_agree :: "machine \<Rightarrow> xregs \<Rightarrow> bool" where
  "flags_agree s x \<longleftrightarrow> bit (eflags x) IF_bit = irq_on (kern s)"

inductive sys_step :: "nat \<Rightarrow> device \<Rightarrow> cpu \<Rightarrow> addr \<Rightarrow> addr set \<Rightarrow> (addr \<Rightarrow> addr set) \<Rightarrow> system \<Rightarrow> system \<Rightarrow> bool"
  for D dev c isr T stk where
  task: "run_step T stk (C, kern s) (C', k') \<Longrightarrow> flags_agree (s\<lparr>kern := k'\<rparr>) x'
    \<Longrightarrow> sys_step D dev c isr T stk (C, s, x) (C', s\<lparr>kern := k'\<rparr>, x')"
| print: "\<not> irq_on (kern s) \<Longrightarrow> 0 \<notin> set bs \<Longrightarrow> length bs < 2 ^ 32
    \<Longrightarrow> sys_step D dev c isr T stk (C, s, x) (C, say bs s, x)"
| irq: "irq_on (kern s) \<Longrightarrow> 32 \<le> n \<Longrightarrow> n < 48 \<Longrightarrow> room_for_irq D stk (kern s)
    \<Longrightarrow> interrupt dev c isr cr2 ra clob n err (s, x) = Some (Inr (s', x'))
    \<Longrightarrow> frame (c_frames D (kern s)) (kmem (kern s')) m
    \<Longrightarrow> sys_step D dev c isr T stk (C, s, x) (C, set_mem m s', x')"

inductive_cases sys_stepE: "sys_step D dev c isr T stk (C, s, x) y"

inductive sys_reach :: "nat \<Rightarrow> device \<Rightarrow> cpu \<Rightarrow> addr \<Rightarrow> addr set \<Rightarrow> (addr \<Rightarrow> addr set) \<Rightarrow> machine \<Rightarrow> system \<Rightarrow> bool"
  for D dev c isr T stk s0 where
  boot: "flags_agree (s0\<lparr>kern := task_init (kern s0)\<rparr>) x
    \<Longrightarrow> sys_reach D dev c isr T stk s0 ({idle_task (kern s0)}, s0\<lparr>kern := task_init (kern s0)\<rparr>, x)"
| step: "sys_reach D dev c isr T stk s0 y \<Longrightarrow> sys_step D dev c isr T stk y z \<Longrightarrow> sys_reach D dev c isr T stk s0 z"

text \<open>The screen is apart from the tasks, their stacks and the run queue.\<close>

definition screen_apart :: "addr set \<Rightarrow> (addr \<Rightarrow> addr set) \<Rightarrow> kernel \<Rightarrow> bool" where
  "screen_apart T stk k \<longleftrightarrow> vga_region \<inter> (region (run_queue k) 8 \<union> (\<Union>t\<in>T. region t 36 \<union> stk t)) = {}"

lemma screen_task_writes: "screen_apart T stk k \<Longrightarrow> vga_region \<subseteq> task_writes T stk k"
  by (auto simp: screen_apart_def task_writes_def)

lemma memory_step:
  assumes "frame (task_writes T stk k) (kmem k) m" "k' = k\<lparr>kmem := m\<rparr>"
  shows "run_step T stk (C, k) (C, k')"
proof -
  have e: "k\<lparr>kmem := m, edi := edi k, esi := esi k, ebp := ebp k, ebx := ebx k, eip := eip k, esp := esp k\<rparr> = k'"
    by (simp add: assms(2))
  show ?thesis using run_step.compute [OF assms(1), of C, where ?w1.0 = "edi k" and ?w2.0 = "esi k" and ?w3.0 = "ebp k"
      and ?w4.0 = "ebx k" and ?w5.0 = "eip k" and ?w6.0 = "esp k"] by (simp only: e)
qed

lemma memory_step_inv:
  assumes "frame (task_writes T stk k) (kmem k) m" "k' = k\<lparr>kmem := m\<rparr>" "run_inv T stk C k a"
  shows "run_inv T stk C k' a"
proof -
  have e: "k\<lparr>kmem := m, edi := edi k, esi := esi k, ebp := ebp k, ebx := ebx k, eip := eip k, esp := esp k\<rparr> = k'"
    by (simp add: assms(2))
  show ?thesis using step_compute [OF assms(3,1), where ?w1.0 = "edi k" and ?w2.0 = "esi k" and ?w3.0 = "ebp k"
      and ?w4.0 = "ebx k" and ?w5.0 = "eip k" and ?w6.0 = "esp k"] by (simp only: e step_to_def)
qed

lemma own_stack_writes:
  assumes "run_inv T stk C k a" "room_for_irq D stk k"
  shows "region (esp k - of_nat (72 + D)) (72 + D) \<subseteq> task_writes T stk k"
proof -
  note S = sched_repD [OF run_invD(1) [OF assms(1)]]
  have "stk (a_cur a) \<subseteq> task_writes T stk k"
  proof -
    have "stk (a_cur a) \<inter> region (run_queue k) 8 = {}" by (rule layoutD(3) [OF S(1,5)])
    moreover have "stk (a_cur a) \<inter> (\<Union>t\<in>T. region t 36) = {}" 
      unfolding Int_UN_distrib using layoutD(4) [OF S(1,5)] by (intro SUP_eqI) auto
    moreover have "stk (a_cur a) \<inter> (\<Union>t\<in>T - {current_task k}. stk t) = {}"
      unfolding Int_UN_distrib using layoutD(5) [OF S(1,5)] S(3) by (intro SUP_eqI) auto
    ultimately show ?thesis unfolding task_writes_def by blast
  qed
  then show ?thesis using assms(2) S(3) by (simp add: room_for_irq_def)
qed

text \<open>An interrupt of the system returns, and is a step of computation.\<close>

lemma irq_is_computation:
  assumes "run_inv T stk C (kern s) a" "screen_apart T stk (kern s)" "on_screen (vst s)" "flags_agree s x"
    and "length (idt c0) = NUM_INT" "32 \<le> n" "n < 48" "room_for_irq D stk (kern s)"
  shows "\<exists>s'. interrupt dev (x86_init g i isr tss c0) isr cr2 ra clob n err (s, x) = Some (Inr (s', x))
    \<and> on_screen (vst s') \<and> kern s' = (kern s)\<lparr>kmem := kmem (kern s')\<rparr>
    \<and> (\<forall>m. frame (c_frames D (kern s)) (kmem (kern s')) m \<longrightarrow>
         run_step T stk (C, kern s) (C, (kern s)\<lparr>kmem := m\<rparr>) \<and> run_inv T stk C ((kern s)\<lparr>kmem := m\<rparr>) a)"
proof -
  let ?R = "region (esp (kern s) - of_nat (72 + D)) (72 + D)"
  have own: "?R \<subseteq> task_writes T stk (kern s)" by (rule own_stack_writes [OF assms(1,8)])
  have "a_cur a \<in> T" "current_task (kern s) = a_cur a" using sched_repD(3,5) [OF run_invD(1) [OF assms(1)]] by simp_all
  then have "?R \<inter> vga_region = {}" using assms(2,8) by (auto simp: screen_apart_def room_for_irq_def)
  then have "region (esp (kern s) - 72) 72 \<inter> vga_region = {}" using irq_stack(1) [of "kern s" D] by blast
  from interrupt_run [OF assms(6,7,3) assms(4) [unfolded flags_agree_def] this, of dev cr2 ra clob "x86_init g i isr tss c0" err]
  obtain s2 m where r: "irun dev cr2 ra clob (isr_stub n @ x86_interrupt_common) (deliver (x86_init g i isr tss c0) n err (s, x))
      = Inr (s2\<lparr>kern := (kern s)\<lparr>kmem := m\<rparr>\<rparr>, x)"
    "frame (vga_region \<union> region (esp (kern s) - 72) 72) (kmem (kern s)) m" "on_screen (vst s2)" by blast
  have step: "run_step T stk (C, kern s) (C, (kern s)\<lparr>kmem := m'\<rparr>) \<and> run_inv T stk C ((kern s)\<lparr>kmem := m'\<rparr>) a"
    if "frame (c_frames D (kern s)) m m'" for m'
  proof -
    have "frame (task_writes T stk (kern s)) (kmem (kern s)) m'"
      using own screen_task_writes [OF assms(2)] irq_stack [where k = "kern s" and D = D]
      by (intro frame_trans [OF frame_mono [OF r(2)] frame_mono [OF that]]) blast+
    then show ?thesis using memory_step memory_step_inv [OF _ _ assms(1)] by blast
  qed
  show ?thesis using interrupt_eq [OF assms(5,7)] r(1,3) step by (intro exI [of _ "s2\<lparr>kern := (kern s)\<lparr>kmem := m\<rparr>\<rparr>"]) simp
qed

lemma print_is_computation:
  assumes "screen_apart T stk (kern s)" "says bs s s'"
  shows "run_step T stk (C, kern s) (C, kern s')" "on_screen (vst s')" "irq_on (kern s') = irq_on (kern s)"
proof -
  have f: "frame vga_region (kmem (kern s)) (kmem (kern s'))" using assms(2) by (simp only: says_def)
  show "run_step T stk (C, kern s) (C, kern s')"
    by (rule memory_step [OF frame_mono [OF f screen_task_writes [OF assms(1)]] says_kern [OF assms(2)]])
  show "on_screen (vst s')" "irq_on (kern s') = irq_on (kern s)"
    by (rule says_on_screen [OF assms(2)], rule says_fields(6) [OF assms(2)])
qed

section \<open>Reachable states\<close>

text \<open>The scheduler's part of a reachable state is reachable for the scheduler alone.\<close>

lemma sys_step_sched:
  assumes "sys_step D dev (x86_init g i isr tss c0) isr T stk (C, s, x) z" "run_inv T stk C (kern s) a"
    and "screen_apart T stk (kern s)" "on_screen (vst s)" "flags_agree s x" "length (idt c0) = NUM_INT"
  shows "run_step T stk (C, kern s) (fst z, kern (fst (snd z))) \<and> on_screen (vst (fst (snd z)))
    \<and> flags_agree (fst (snd z)) (snd (snd z))"
  using assms(1)
proof (cases rule: sys_step.cases)
  case (task C' k' x')
  then show ?thesis using assms(4) by simp
next
  case (print bs)
  then show ?thesis using print_is_computation [OF assms(3) say_says [OF assms(4) print(3,4)]] assms(5) by (simp add: flags_agree_def)
next
  case (irq n cr2 ra clob err s' x' m)
  from irq_is_computation [OF assms(2-6) irq(3,4,5), of dev g i isr tss cr2 ra clob err] irq(6) have
    k: "x' = x" "on_screen (vst s')" "kern s' = (kern s)\<lparr>kmem := kmem (kern s')\<rparr>"
      "run_step T stk (C, kern s) (C, (kern s)\<lparr>kmem := m\<rparr>)" using irq(7) by auto
  have "kern (set_mem m s') = (kern s)\<lparr>kmem := m\<rparr>" by (simp, subst k(3), simp)
  then show ?thesis using k assms(5) irq(1) by (simp add: flags_agree_def)
qed

lemma sys_reach_sched:
  assumes "sys_reach D dev (x86_init g i isr tss c0) isr T stk s0 y" "boot_ok T stk (kern s0)" "screen_apart T stk (kern s0)"
    and "on_screen (vst s0)" "length (idt c0) = NUM_INT"
  shows "sched_reach T stk (kern s0) (fst y, kern (fst (snd y))) \<and> on_screen (vst (fst (snd y)))
    \<and> flags_agree (fst (snd y)) (snd (snd y))"
  using assms(1)
proof (induction rule: sys_reach.induct)
  case (boot x)
  then show ?case using assms(4) sched_reach.boot [of T stk "kern s0"] by simp
next
  case (step y z)
  obtain C s x where y: "y = (C, s, x)" by (cases y)
  have R: "sched_reach T stk (kern s0) (C, kern s)" and v: "on_screen (vst s)" and fl: "flags_agree s x"
    using step.IH by (simp_all add: y)
  obtain a where I: "run_inv T stk C (kern s) a" and co: "consts_of (kern s) = consts_of (kern s0)"
    using reach_inv [OF R assms(2)] by auto
  have "screen_apart T stk (kern s)" using assms(3) consts_ofD [OF co] by (simp add: screen_apart_def)
  from sys_step_sched [OF step.hyps(2) [unfolded y] I this v fl assms(5)] show ?case
    using sched_reach.step [OF R] by blast
qed

section \<open>Properties\<close>

text \<open>
  C9. The running system is well formed and makes progress. In every state that any interleaving of
  scheduler operations, computation, prints with interrupts off and interrupts reaches: interrupts are on exactly when
  the running task's critical section count is 0, the flags register agrees, the cursor is on the
  screen, and the run queue is a list of distinct tasks, exactly the created tasks whose state is
  READY. And whenever interrupts are on and the running task has 72 bytes of stack left and \<open>D\<close> more,
  where \<open>D\<close> is what the frames of the C functions of an interrupt take, an interrupt
  of any line is handled and comes back: to a state of the system, whatever is left in those \<open>D\<close>
  bytes, with the same registers, the same running task and the same run queue.
\<close>

theorem system_well_formed:
  assumes "boot_ok T stk (kern s0)" "screen_apart T stk (kern s0)" "on_screen (vst s0)" "length (idt c0) = NUM_INT"
    and "sys_reach D dev (x86_init g i isr tss c0) isr T stk s0 (C, s, x)"
  shows "(irq_on (kern s) \<longleftrightarrow> count_of (kern s) = 0) \<and> flags_agree s x \<and> on_screen (vst s)
    \<and> (\<exists>q. ready_list (kern s) = Some q \<and> distinct q \<and> set q = {t \<in> C. state_of (kern s) t = READY}
      \<and> (irq_on (kern s) \<and> room_for_irq D stk (kern s) \<longrightarrow> (\<forall>n \<in> {32..<48}. \<exists>s'.
          interrupt dev (x86_init g i isr tss c0) isr cr2 ra clob n err (s, x) = Some (Inr (s', x))
          \<and> (\<forall>m. frame (c_frames D (kern s)) (kmem (kern s')) m \<longrightarrow>
               sys_reach D dev (x86_init g i isr tss c0) isr T stk s0 (C, set_mem m s', x)
               \<and> current_task (kern (set_mem m s')) = current_task (kern s) \<and> ready_list (kern (set_mem m s')) = Some q))))"
proof -
  have R: "sched_reach T stk (kern s0) (C, kern s)" and v: "on_screen (vst s)" and fl: "flags_agree s x"
    using sys_reach_sched [OF assms(5,1-4)] by simp_all
  obtain a where I: "run_inv T stk C (kern s) a" and co: "consts_of (kern s) = consts_of (kern s0)"
    using reach_inv [OF R assms(1)] by auto
  have sa: "screen_apart T stk (kern s)" using assms(2) consts_ofD [OF co] by (simp add: screen_apart_def)
  note D = run_invD [OF I] and V = run_inv_reads [OF I]
  have "\<exists>s'. interrupt dev (x86_init g i isr tss c0) isr cr2 ra clob n err (s, x) = Some (Inr (s', x))
      \<and> (\<forall>m. frame (c_frames D (kern s)) (kmem (kern s')) m \<longrightarrow>
           sys_reach D dev (x86_init g i isr tss c0) isr T stk s0 (C, set_mem m s', x)
           \<and> current_task (kern (set_mem m s')) = current_task (kern s) \<and> ready_list (kern (set_mem m s')) = Some (a_queue a))"
    if n: "32 \<le> n" "n < 48" and on: "irq_on (kern s)" and room: "room_for_irq D stk (kern s)" for n
  proof -
    from irq_is_computation [OF I sa v fl assms(4) n room, of dev g i isr tss cr2 ra clob err] obtain s' where
      s': "interrupt dev (x86_init g i isr tss c0) isr cr2 ra clob n err (s, x) = Some (Inr (s', x))"
        "kern s' = (kern s)\<lparr>kmem := kmem (kern s')\<rparr>"
        "\<And>m. frame (c_frames D (kern s)) (kmem (kern s')) m \<Longrightarrow> run_inv T stk C ((kern s)\<lparr>kmem := m\<rparr>) a" by blast
    have km: "kern (set_mem m s') = (kern s)\<lparr>kmem := m\<rparr>" for m by (simp, subst s'(2), simp)
    have "current_task (kern (set_mem m s')) = current_task (kern s) \<and> ready_list (kern (set_mem m s')) = Some (a_queue a)"
      if "frame (c_frames D (kern s)) (kmem (kern s')) m" for m
      using run_inv_reads(1) [OF s'(3) [OF that]] unfolding km by simp
    then show ?thesis using s'(1) sys_reach.step [OF assms(5) sys_step.irq [OF on n room s'(1)]] by blast
  qed
  moreover have "set (a_queue a) = {t \<in> C. state_of (kern s) t = READY}"
    using D(2,3) V(2) by (auto simp: sched_ok_def)
  ultimately show ?thesis using D(2,5,6) V(1,3) v fl by (auto simp: sched_ok_def)
qed

text \<open>What the scheduler alone reaches, the system reaches.\<close>

definition regs_for :: "bool \<Rightarrow> xregs" where "regs_for b = busy_regs\<lparr>eflags := (if b then 0x202 else 2)\<rparr>"

lemma regs_for_agree: "flags_agree s (regs_for (irq_on (kern s)))"
  by (simp add: flags_agree_def regs_for_def busy_regs_def IF_bit_def)

lemma sched_reach_sys:
  assumes "sched_reach T stk (kern s0) y"
  shows "sys_reach D dev c isr T stk s0 (fst y, s0\<lparr>kern := snd y\<rparr>, regs_for (irq_on (snd y)))"
  using assms
proof (induction rule: sched_reach.induct)
  case boot
  then show ?case using sys_reach.boot regs_for_agree [of "s0\<lparr>kern := task_init (kern s0)\<rparr>"] by simp
next
  case (step x y)
  obtain C k C' k' where xy: "x = (C, k)" "y = (C', k')" by (cases x, cases y)
  have "sys_step D dev c isr T stk (C, s0\<lparr>kern := k\<rparr>, regs_for (irq_on k))
      (C', (s0\<lparr>kern := k\<rparr>)\<lparr>kern := k'\<rparr>, regs_for (irq_on k'))"
    using step.hyps(2) regs_for_agree [of "s0\<lparr>kern := k'\<rparr>"] by (intro sys_step.task) (simp_all add: xy)
  from sys_reach.step [OF step.IH [unfolded xy fst_conv snd_conv] this] show ?case by (simp add: xy)
qed

lemma demo_screen_apart: "screen_apart demo_tasks demo_stk demo_boot"
proof -
  have "vga_region \<inter> region (0x100 :: u32) 8 = {}" "vga_region \<inter> region (0x300 :: u32) 512 = {}"
    "vga_region \<inter> region (0x1000 :: u32) 512 = {}" "vga_region \<inter> region (0x2000 :: u32) 512 = {}"
    "vga_region \<inter> region (0x200 :: u32) 36 = {}" "vga_region \<inter> region (0x600 :: u32) 36 = {}"
    "vga_region \<inter> region (0x700 :: u32) 36 = {}"
    unfolding vga_region_def by (simp_all add: apart_def vga_def flip: apart_iff_disjoint)
  then show ?thesis by (simp add: screen_apart_def demo_tasks_def demo_stk_def demo_boot_def Int_Un_distrib)
qed

lemma demo_room: "room_for_irq 256 demo_stk demo_running"
proof -
  have "regs demo_running = first_ctx demo_boot 0x2200" using demo_running_at by blast
  then have "esp demo_running = 0x2200" by (simp add: regs_def first_ctx_def)
  then show ?thesis
    using region_field [of 184 328 512 "0x2000 :: u32"] by (simp add: room_for_irq_def demo_facts demo_stk_def)
qed

text \<open>Room for 256 bytes of C frames.\<close>

theorem system_well_formed_witness:
  "\<exists>s'. interrupt (\<lambda>_ _. 0) (x86_init 0 0 0x5000 0 sample_cpu) 0x5000 0 0 (1, 2, 3) 33 0
      (idle_machine\<lparr>kern := demo_running\<rparr>, regs_for True) = Some (Inr (s', regs_for True))
    \<and> (\<forall>m. frame (c_frames 256 demo_running) (kmem (kern s')) m \<longrightarrow>
         current_task (kern (set_mem m s')) = 0x700 \<and> ready_list (kern (set_mem m s')) = Some [0x600])"
proof -
  let ?boot = "idle_machine\<lparr>kern := demo_boot\<rparr>" and ?s = "idle_machine\<lparr>kern := demo_running\<rparr>"
  have h: "boot_ok demo_tasks demo_stk (kern ?boot)" "screen_apart demo_tasks demo_stk (kern ?boot)" "on_screen (vst ?boot)"
    "length (idt sample_cpu) = NUM_INT"
    by (simp_all add: demo_boot_ok demo_screen_apart sample_cpu_def NUM_INT_def)
  have "sched_reach demo_tasks demo_stk (kern ?boot) (demo_tasks, demo_running)" using demo_facts(5) by simp
  from sched_reach_sys [OF this, of 256] have r: "sys_reach 256 (\<lambda>_ _. 0) (x86_init 0 0 0x5000 0 sample_cpu) 0x5000 demo_tasks demo_stk ?boot
      (demo_tasks, ?s, regs_for (irq_on demo_running))" by simp
  note W = system_well_formed [OF h r, where ?cr2.0 = 0 and ra = 0 and clob = "(1, 2, 3)" and err = 0]
  have on: "irq_on demo_running" using W by (simp add: demo_facts)
  have "\<forall>n\<in>{32..<48}. \<exists>s'. interrupt (\<lambda>_ _. 0) (x86_init 0 0 0x5000 0 sample_cpu) 0x5000 0 0 (1, 2, 3) n 0 (?s, regs_for True)
        = Some (Inr (s', regs_for True))
      \<and> (\<forall>m. frame (c_frames 256 demo_running) (kmem (kern s')) m \<longrightarrow>
           current_task (kern (set_mem m s')) = 0x700 \<and> ready_list (kern (set_mem m s')) = Some [0x600])"
    using W on demo_room by (simp add: demo_facts del: set_mem_fields) fast
  from bspec [OF this, of 33] show ?thesis by simp
qed

section \<open>An interrupt inside a print\<close>

text \<open>
  With interrupts on a key can be typed while \<^verbatim>\<open>vga_console_putchar\<close> runs. Here it comes between the
  \<^verbatim>\<open>line++\<close> of a newline in the last line and the test of the line: the character is stored behind
  the 4000 bytes of the frame buffer, its own \<^verbatim>\<open>vga_console_putchar\<close> does the scrolling, and it never appears on the screen.
\<close>

theorem key_lost_inside_print:
  assumes "vline s = 24" "vcol s < 79" "32 \<le> unat c" "unat c < 127"
  shows "\<exists>m1 s1 m2 s2. step_char m s 10 = (m1, s1) \<and> vga_console_putchar m1 s1 c = (m2, s2)
    \<and> cells m2 = drop 80 (cells m) @ replicate 80 blank \<and> s2 = \<lparr>vcol = vcol s + 1, vline = 24\<rparr>
    \<and> m2 (vga + 4000 + 2 * vcol s) = c"
proof -
  let ?s1 = "s\<lparr>vline := 25\<rparr>" and ?a = "vga + 4000 + 2 * vcol s" and ?v = "0xF00 OR (scast c AND 0x7F) :: u16"
  have u: "unat (vcol s) < 79" using assms(2) by (simp add: word_less_nat_alt)
  have a: "vga + 2 * (25 * SCREEN_WIDTH + vcol s) = ?a" by (simp add: SCREEN_WIDTH_def)
  let ?m = "st16 m ?a ?v"
  have "unat (2 * vcol s) = 2 * unat (vcol s)" using u by (simp add: unat_word_ariths)
  then have off: "unat (4000 + 2 * vcol s) = 4000 + 2 * unat (vcol s)" using u by (simp add: unat_word_ariths)
  have v: "unat ?a = 0xB8000 + 4000 + 2 * unat (vcol s)"
    using off u by (simp only: add.assoc) (simp add: vga_def unat_word_ariths)
  then have ap: "apart vga 4000 ?a 2" using u by (intro apart_nat) (simp_all add: vga_def)
  have "cells ?m = cells m"
  proof -
    have "ld16 ?m (cell_addr i) = ld16 m (cell_addr i)" if "i < 2000" for i
    proof -
      have "apart (cell_addr i) 2 ?a 2" using unat_cell [OF that] that u by (intro apart_nat) (simp_all add: v)
      then show ?thesis using apart_sym by (simp add: ld16_st16_apart)
    qed
    then show ?thesis by (simp add: cells_def)
  qed
  moreover have "vga_console_putchar m ?s1 c = (vga_console_scrup ?m, \<lparr>vcol = vcol s + 1, vline = 24\<rparr>)"
  proof -
    have "\<not> 80 \<le> vcol s + 1" using u by (simp add: word_le_nat_alt unat_word_ariths)
    moreover have "c \<noteq> 10" "c \<noteq> 13" "c \<noteq> 9" using assms(3) by auto
    ultimately show ?thesis using assms(3,4)
      by (simp add: vga_console_putchar_def isprint_char vga_store_def a SCREEN_HEIGHT_def Let_def) (simp add: SCREEN_WIDTH_def add.assoc)
  qed
  moreover have "step_char m s 10 = (m, ?s1)" using assms(1) by (simp add: step_char_def)
  moreover have "vga_console_scrup ?m ?a = c"
  proof -
    have "?a \<notin> vga_region" using off by (simp add: vga_region_def in_region_iff add.assoc)
    then have "vga_console_scrup ?m ?a = ?m ?a" using scrup_cells(2) [of ?m] by (simp add: frame_def)
    moreover have "?m ?a = ucast ?v" by (simp add: st16_def)
    moreover have "ucast ?v = c"
    proof -
      have "\<not> bit (0xF00 :: u16) n" if "n < 8" for n
      proof -
        have "(0xF00 :: u16) = push_bit 8 0xF" by simp
        then show ?thesis using that by (simp only: bit_push_bit_iff) simp
      qed
      then show ?thesis unfolding char_cell [OF assms(4)] by (intro bit_word_eqI) (auto simp: bit_simps)
    qed
    ultimately show ?thesis by simp
  qed
  ultimately show ?thesis using scrup_cells(1) [of ?m]
    by (intro exI [of _ m] exI [of _ ?s1] exI [of _ "vga_console_scrup ?m"] exI [of _ "\<lparr>vcol = vcol s + 1, vline = 24\<rparr>"]) simp
qed

end
