(* ===== verification/KeyProps.thy ===== *)
theory KeyProps
  imports X86Props
begin

text \<open>
  The keyboard and the controllers end to end: what typing a text does, which scan codes have no
  effect, what the controller is told, how long the driver waits for it, and the interrupt lines
  that are open after the drivers' initialisation.
\<close>

section \<open>Interrupts in a row\<close>

text \<open>\<open>n\<close> interrupts with the frame \<open>f\<close>, one after another, as long as the handler returns.\<close>

fun interrupts :: "device \<Rightarrow> x86_iframe \<Rightarrow> u32 \<Rightarrow> nat \<Rightarrow> machine \<Rightarrow> outcome" where
  "interrupts dev f cr2 0 s = Returned s"
| "interrupts dev f cr2 (Suc n) s =
    (case x86_exception_handler dev f cr2 s of
       Returned s' \<Rightarrow> interrupts dev f cr2 n s'
     | Halted s' \<Rightarrow> Halted s')"

text \<open>The keyboard controller holds the bytes \<open>bs\<close>: its output buffer is full until they are read,
  and each read of the data port takes the next of them.\<close>

definition data_reads :: "io_event list \<Rightarrow> nat" where
  "data_reads h = length (filter (\<lambda>e. \<not> no_data_read e) h)"

definition keyboard_holds :: "device \<Rightarrow> u8 list \<Rightarrow> io_event list \<Rightarrow> bool" where
  "keyboard_holds dev bs h0 \<longleftrightarrow> (\<forall>h. data_reads h < length bs \<longrightarrow>
     dev (h0 @ h) I8042_STATUS_REG AND I8042_STR_OBF \<noteq> 0 \<and> dev (h0 @ h) I8042_DATA_REG = bs ! data_reads h)"

lemma data_reads_simps [simp]:
  "data_reads [] = 0" "data_reads (h @ h') = data_reads h + data_reads h'"
  "data_reads (eois n) = 0" "data_reads [PortIn I8042_STATUS_REG v] = 0" "data_reads [PortIn I8042_DATA_REG v] = 1"
  by (auto simp: data_reads_def no_data_read_def eois_def I8042_DATA_REG_def I8042_STATUS_REG_def)

lemma keyboard_holds_append:
  "keyboard_holds dev bs h0 \<Longrightarrow> keyboard_holds dev (drop (data_reads h) bs) (h0 @ h)"
proof -
  assume a: "keyboard_holds dev bs h0"
  show ?thesis unfolding keyboard_holds_def
  proof (intro allI impI)
    fix h' assume "data_reads h' < length (drop (data_reads h) bs)"
    then have "data_reads (h @ h') < length bs" by simp
    with a have "dev (h0 @ h @ h') I8042_STATUS_REG AND I8042_STR_OBF \<noteq> 0
        \<and> dev (h0 @ h @ h') I8042_DATA_REG = bs ! data_reads (h @ h')"
      unfolding keyboard_holds_def by blast
    then show "dev ((h0 @ h) @ h') I8042_STATUS_REG AND I8042_STR_OBF \<noteq> 0
        \<and> dev ((h0 @ h) @ h') I8042_DATA_REG = drop (data_reads h) bs ! data_reads h'"
      using \<open>data_reads (h @ h') < length bs\<close> by simp
  qed
qed

lemma m_console_input_io: "m_console_input c (s\<lparr>io := h\<rparr>) = (m_console_input c s)\<lparr>io := h\<rparr>"
  by (simp add: m_console_input_def split: prod.split)

lemma process_scode_io: "process_scode b (s\<lparr>io := h\<rparr>) = (process_scode b s)\<lparr>io := h\<rparr>"
proof -
  have u: "(s\<lparr>io := h\<rparr>)\<lparr>key_lshift := x\<rparr> = (s\<lparr>key_lshift := x\<rparr>)\<lparr>io := h\<rparr>" "(s\<lparr>io := h\<rparr>)\<lparr>key_rshift := x\<rparr> = (s\<lparr>key_rshift := x\<rparr>)\<lparr>io := h\<rparr>" for s x
    by simp_all
  have "(if P then A\<lparr>io := h\<rparr> else B\<lparr>io := h\<rparr>) = (if P then A else B)\<lparr>io := h\<rparr>" for P and A B :: machine by simp
  then show ?thesis unfolding process_scode_def Let_def by (simp add: u m_console_input_io)
qed

lemma data_reads_cons [simp]:
  "data_reads (PortIn I8042_STATUS_REG v # h) = data_reads h" "data_reads (PortIn I8042_DATA_REG v # h) = Suc (data_reads h)"
  by (auto simp: data_reads_def no_data_read_def I8042_DATA_REG_def I8042_STATUS_REG_def)

lemma process_scode_io_same: "io (process_scode b s) = io s"
  by (auto simp: process_scode_def Let_def m_console_input_def split: prod.split)

lemma scodes_io: "scodes bs (s\<lparr>io := h\<rparr>) = (scodes bs s)\<lparr>io := h\<rparr>"
  by (induction bs arbitrary: s) (simp_all add: scodes_def process_scode_io)

text \<open>One interrupt takes one byte, and a row of them all the bytes.\<close>

lemma keyboard_interrupt:
  assumes "i_vector f = 0x21" "keyboard_holds dev (b # bs) (io s)"
  shows "\<exists>h. x86_exception_handler dev f cr2 s = Returned ((process_scode b s)\<lparr>io := io s @ h\<rparr>) \<and> data_reads h = 1"
proof -
  have r: "0x20 \<le> i_vector f" "i_vector f \<le> 0x2F" using assms(1) by simp_all
  let ?v = "dev (io s @ eois 1) I8042_STATUS_REG"
  let ?h = "(eois 1 @ [PortIn I8042_STATUS_REG ?v]) @ [PortIn I8042_DATA_REG b]"
  have k: "data_reads h = 0 \<Longrightarrow> dev (io s @ h) I8042_STATUS_REG AND I8042_STR_OBF \<noteq> 0 \<and> dev (io s @ h) I8042_DATA_REG = b" for h
    using assms(2) by (simp add: keyboard_holds_def)
  have v: "?v AND I8042_STR_OBF \<noteq> 0" "dev (io s @ eois 1 @ [PortIn I8042_STATUS_REG ?v]) I8042_DATA_REG = b"
    using k [of "eois 1"] k [of "eois 1 @ [PortIn I8042_STATUS_REG ?v]"] by simp_all
  have "keyboard_irq dev (s\<lparr>io := io s @ eois 1\<rparr>) = (process_scode b s)\<lparr>io := io s @ ?h\<rparr>"
    using v by (simp add: keyboard_irq_def i8042_read_status_def i8042_read_data_def inp_eq process_scode_io)
  then have "x86_exception_handler dev f cr2 s = Returned ((process_scode b s)\<lparr>io := io s @ ?h\<rparr>)"
    using handler_pic(1) [OF r, of dev cr2 s] assms(1) pic_send_eoi_io [of 1 s]
    by (simp add: pic_irq_def Let_def IRQ_PIT_def IRQ_KEYBOARD_def)
  then show ?thesis by (intro exI [of _ ?h]) simp
qed

lemma keyboard_interrupts:
  "i_vector f = 0x21 \<Longrightarrow> keyboard_holds dev bs (io s) \<Longrightarrow>
    \<exists>h. interrupts dev f cr2 (length bs) s = Returned ((scodes bs s)\<lparr>io := h\<rparr>)"
proof (induction bs arbitrary: s)
  case Nil
  then show ?case by (auto simp: scodes_def intro: exI [of _ "io s"])
next
  case (Cons b bs)
  from keyboard_interrupt [OF Cons.prems] obtain h where
    h: "x86_exception_handler dev f cr2 s = Returned ((process_scode b s)\<lparr>io := io s @ h\<rparr>)" "data_reads h = 1" by blast
  let ?s = "(process_scode b s)\<lparr>io := io s @ h\<rparr>"
  have "keyboard_holds dev bs (io ?s)" using keyboard_holds_append [OF Cons.prems(2), of h] h(2) by simp
  from Cons.IH [OF Cons.prems(1) this] obtain h' where "interrupts dev f cr2 (length bs) ?s = Returned ((scodes bs ?s)\<lparr>io := h'\<rparr>)" by blast
  moreover have "(scodes bs ?s)\<lparr>io := h'\<rparr> = (scodes (b # bs) s)\<lparr>io := h'\<rparr>" by (simp add: scodes_io) (simp add: scodes_def)
  ultimately show ?case using h(1) by auto
qed

text \<open>Every printable character, backspace, tab and newline have a key.\<close>

definition on_keyboard :: "u8 \<Rightarrow> bool" where
  "on_keyboard c \<longleftrightarrow> c \<in> {8, 9, 10} \<or> 0x20 \<le> c \<and> c \<le> 0x7E"

lemma us_keys_cover: "list_all (\<lambda>n. word_of_int n \<in> set (map fst us_keys)) ([8, 9, 10] @ [0x20..0x7E])"
  by code_simp

lemma on_keyboard_typable: "on_keyboard c \<Longrightarrow> typable c"
proof -
  assume c: "on_keyboard c"
  have "0x20 \<le> c \<and> c \<le> 0x7E \<Longrightarrow> uint c \<in> {0x20..0x7E}" by (simp add: word_le_def)
  then have "uint c \<in> set ([8, 9, 10] @ [0x20..0x7E])"
    unfolding set_append set_upto using c by (auto simp: on_keyboard_def)
  then have "word_of_int (uint c) \<in> set (map fst us_keys)" using us_keys_cover unfolding list_all_iff by blast
  then show ?thesis by (simp add: typable_def key_for_def map_of_eq_None_iff)
qed

section \<open>Typing\<close>

text \<open>
  C32. Typing a text is showing it: when the keyboard sends the scan codes of the US layout (\<open>us_rows\<close>) for the
  text \<^verbatim>\<open>cs\<close> (each key pressed and released, inside a press of the left shift key where the character
  needs one) and raises one interrupt for every byte, then after the last of them the screen has
  received exactly the characters of \<^verbatim>\<open>cs\<close>, no shift key is held and nothing outside the frame
  buffer has changed. It holds for the printable ASCII characters, backspace, tab and newline.
\<close>

theorem typing_echo:
  assumes "\<forall>c\<in>set cs. on_keyboard c" "keyboard_holds dev (concat (map press cs)) (io s)"
    "i_vector f = 0x21" "idle_keys s" "on_screen (vst s)"
  shows "\<exists>s'. interrupts dev f cr2 (length (concat (map press cs))) s = Returned s'
    \<and> scr s' = scr_text (scr s) cs \<and> idle_keys s' \<and> timer_ticks s' = timer_ticks s
    \<and> (\<forall>x. x \<notin> region vga 4000 \<longrightarrow> kmem (kern s') x = kmem (kern s) x)"
proof -
  from keyboard_interrupts [OF assms(3,2)] obtain h where
    r: "interrupts dev f cr2 (length (concat (map press cs))) s = Returned ((scodes (concat (map press cs)) s)\<lparr>io := h\<rparr>)" by blast
  have "\<forall>c\<in>set cs. typable c" using assms(1) on_keyboard_typable by blast
  from typing_shows [OF this assms(4,5)] show ?thesis
    unfolding r by (auto simp: shown_def idle_keys_def scr_def frame_def vga_region_def)
qed

definition typist :: "u8 list \<Rightarrow> device" where
  "typist bs h p = (if p = I8042_STATUS_REG then 1 else if p = I8042_DATA_REG then bs ! data_reads h else 0)"

theorem typing_echo_witness:
  "length (concat (map press (lit ''Hi!''))) = 10 \<and>
   (\<exists>s'. interrupts (typist (concat (map press (lit ''Hi!'')))) (irq_frame 0x21) 0 10 idle_machine = Returned s'
    \<and> scr s' = scr_text (scr idle_machine) (lit ''Hi!''))"
proof -
  have l: "length (concat (map press (lit ''Hi!''))) = 10" by code_simp
  have d: "keyboard_holds (typist bs) bs []" for bs
    by (simp add: keyboard_holds_def typist_def I8042_STR_OBF_def I8042_DATA_REG_def I8042_STATUS_REG_def)
  have "\<forall>c\<in>set (lit ''Hi!''). on_keyboard c" by (simp add: on_keyboard_def)
  from typing_echo [OF this, of "typist (concat (map press (lit ''Hi!'')))" idle_machine "irq_frame 0x21" 0] d l
  show ?thesis by auto
qed

section \<open>The extended-key prefix\<close>

lemma process_scode_last:
  assumes "lastCode s \<noteq> 0xE0" "c \<noteq> 0xE0"
  shows "process_scode b (s\<lparr>lastCode := c\<rparr>) = process_scode b s"
  using assms by (simp add: process_scode_def Let_def m_console_input_def split: prod.split)

lemma scodes_no_prefix: "lastCode s \<noteq> 0xE0 \<Longrightarrow> lastCode (scodes bs s) \<noteq> 0xE0"
  by (induction bs arbitrary: s) (simp_all add: scodes_def lastCode_no_prefix)

lemma scodes_without_prefix:
  "lastCode s \<noteq> 0xE0 \<Longrightarrow> (scodes cs s)\<lparr>lastCode := 0\<rparr> = (scodes (filter (\<lambda>b. b \<noteq> 0xE0) cs) s)\<lparr>lastCode := 0\<rparr>"
proof (induction cs arbitrary: s)
  case Nil
  then show ?case by (simp add: scodes_def)
next
  case (Cons b cs)
  note IH = Cons.IH [OF lastCode_no_prefix, of b s]
  show ?case
  proof (cases "b = 0xE0")
    case False
    then show ?thesis using IH by (simp add: scodes_def)
  next
    case True
    have p: "process_scode 0xE0 s = s\<lparr>lastCode := 0x60\<rparr>"
      using Cons.prems by (simp add: process_scode_def SCANCODE_LSHIFT_def SCANCODE_RSHIFT_def Let_def)
    have "scodes cs s = scodes cs (s\<lparr>lastCode := 0x60\<rparr>) \<or> cs = []"
      using process_scode_last [OF Cons.prems, of "0x60"] by (cases cs) (simp_all add: scodes_def)
    moreover have "scodes (b # cs) s = scodes cs (s\<lparr>lastCode := 0x60\<rparr>)" by (simp add: scodes_def True p)
    ultimately have "(scodes (b # cs) s)\<lparr>lastCode := 0\<rparr> = (scodes cs s)\<lparr>lastCode := 0\<rparr>" by (auto simp: scodes_def)
    then show ?thesis using Cons.IH [OF Cons.prems] True by simp
  qed
qed

text \<open>
  C36. The driver ignores the prefix byte 0xe0 of the extended keys: whatever the machine's state when
  the first scan code comes (\<^verbatim>\<open>lastCode\<close> is 0 then, the value of its initialisation), and whatever scan
  codes \<open>bs\<close> have come since, a sequence of scan codes has the same effect as the sequence without its
  0xe0 bytes, but for the variable \<^verbatim>\<open>lastCode\<close>, which is never 0xe0. So the tables for extended keys
  are never looked at, and the press of an extended key (the arrow keys, the keypad's enter and
  slash) is the press of the plain key with the same code.
\<close>

theorem prefix_ignored:
  assumes "lastCode s = 0"
  shows "lastCode (scodes bs s) \<noteq> 0xE0
    \<and> (scodes cs (scodes bs s))\<lparr>lastCode := 0\<rparr> = (scodes (filter (\<lambda>b. b \<noteq> 0xE0) cs) (scodes bs s))\<lparr>lastCode := 0\<rparr>"
proof -
  have "lastCode (scodes bs s) \<noteq> 0xE0" by (rule scodes_no_prefix) (simp add: assms)
  then show ?thesis using scodes_without_prefix by blast
qed

text \<open>The right arrow key, 0xe0 0x4d, does what the keypad's 6, 0x4d, does.\<close>

theorem prefix_ignored_witness:
  "(scodes [0x1E, 0x9E, 0xE0, 0x4D] idle_machine)\<lparr>lastCode := 0\<rparr> = (scodes [0x1E, 0x9E, 0x4D] idle_machine)\<lparr>lastCode := 0\<rparr>"
proof -
  have "lastCode idle_machine = 0" by (simp add: idle_machine_def)
  from prefix_ignored [OF this, of "[0x1E, 0x9E]" "[0xE0, 0x4D]"] show ?thesis by (simp add: scodes_def)
qed

section \<open>Talking to the keyboard controller\<close>

text \<open>
  C37. \<^verbatim>\<open>i8042_command\<close> never gives its caller a reply: the number of reply bytes is computed by
  \<^verbatim>\<open>(command & 0xf0) >> 8\<close>, which is 0, so for every command and every device the parameter buffer
  is returned as it was. So \<^verbatim>\<open>keyboard_init\<close>, which asks for the control byte in order to change
  three of its bits, works on the 0 it put in the buffer: after the flush, no byte is read from the
  data port, and the only byte that can be written to it is the constant 0x41.
\<close>

theorem control_byte_not_read:
  "fst (snd (i8042_command dev param command s)) = param
    \<and> adds (sends [0x41]) (snd (i8042_flush dev (trace_line 287 s))) (keyboard_init dev s)"
proof
  show "fst (snd (i8042_command dev param command s)) = param"
    by (simp add: i8042_command_def no_reply_bytes Let_def split: prod.split)
qed (rule keyboard_init_sends)

text \<open>
  The driver never waits for ever on a controller that does not answer: \<^verbatim>\<open>i8042_wait_write\<close> and
  \<^verbatim>\<open>i8042_wait_read\<close> read the status register at most 501 times and nothing else (\<open>status_reads\<close>: the bytes
  are what the register gives one after the other), go on only as long as it says
  busy, and return 0 exactly when it said ready in one of the first 500 reads, -1 otherwise.
\<close>

lemma waits_end:
  "\<exists>vs ws. i8042_wait_write dev s = (if length vs = 501 then - 1 else 0, s\<lparr>io := io s @ map (PortIn I8042_STATUS_REG) vs\<rparr>)
     \<and> i8042_wait_read dev s = (if length ws = 501 then - 1 else 0, s\<lparr>io := io s @ map (PortIn I8042_STATUS_REG) ws\<rparr>)
     \<and> status_reads dev (io s) vs \<and> status_reads dev (io s) ws
     \<and> 0 < length vs \<and> length vs \<le> 501 \<and> 0 < length ws \<and> length ws \<le> 501
     \<and> list_all (\<lambda>v. v AND I8042_STR_IBF \<noteq> 0) (butlast vs) \<and> (length vs = 501 \<or> last vs AND I8042_STR_IBF = 0)
     \<and> list_all (\<lambda>v. v AND I8042_STR_OBF = 0) (butlast ws) \<and> (length ws = 501 \<or> last ws AND I8042_STR_OBF \<noteq> 0)"
proof -
  have b: "NOT v AND I8042_STR_OBF \<noteq> 0 \<longleftrightarrow> v AND I8042_STR_OBF = 0" for v :: u8
    by (simp add: I8042_STR_OBF_def and_one_eq even_not_iff mod2_eq_if)
  obtain vs where v: "i8042_wait_write dev s = (if length vs = 501 then - 1 else 0, s\<lparr>io := io s @ map (PortIn I8042_STATUS_REG) vs\<rparr>)"
     "status_reads dev (io s) vs" "vs \<noteq> []" "length vs \<le> 501" "\<forall>v\<in>set (butlast vs). v AND I8042_STR_IBF \<noteq> 0"
     "length vs \<le> 500 \<longrightarrow> last vs AND I8042_STR_IBF = 0" using wait_run(1) by blast
  obtain ws where w: "i8042_wait_read dev s = (if length ws = 501 then - 1 else 0, s\<lparr>io := io s @ map (PortIn I8042_STATUS_REG) ws\<rparr>)"
     "status_reads dev (io s) ws" "ws \<noteq> []" "length ws \<le> 501" "\<forall>v\<in>set (butlast ws). NOT v AND I8042_STR_OBF \<noteq> 0"
     "length ws \<le> 500 \<longrightarrow> NOT (last ws) AND I8042_STR_OBF = 0" using wait_run(2) by blast
  show ?thesis using v w b
    by (intro exI [of _ vs] exI [of _ ws]) (auto simp: list_all_iff)
qed

text \<open>On a controller that is busy for ever the wait gives up.\<close>

lemma busy_reads: "status_reads (\<lambda>_ _. 0xFF) h vs \<Longrightarrow> \<forall>v\<in>set vs. v = 0xFF"
  by (induction vs arbitrary: h) auto

theorem waits_end_witness: "\<exists>s'. i8042_wait_write (\<lambda>_ _. 0xFF) idle_machine = (- 1, s')"
proof -
  from waits_end [of "\<lambda>_ _. 0xFF" idle_machine] obtain vs where
    "i8042_wait_write (\<lambda>_ _. 0xFF) idle_machine
       = (if length vs = 501 then - 1 else 0, idle_machine\<lparr>io := io idle_machine @ map (PortIn I8042_STATUS_REG) vs\<rparr>)"
    "status_reads (\<lambda>_ _. 0xFF) (io idle_machine) vs" "0 < length vs"
    "length vs = 501 \<or> last vs AND I8042_STR_IBF = 0" by blast
  moreover have "last vs = 0xFF" using busy_reads [OF calculation(2)] calculation(3) by simp
  ultimately show ?thesis by (simp add: I8042_STR_IBF_def)
qed

section \<open>The open interrupt lines\<close>

text \<open>
  After the initialisation of the drivers as the kernel starts them, the controllers first, then
  the timer, then the keyboard, and whatever state the controllers were in, their lines are the
  vectors 0x20 to 0x2f and exactly lines 0 (timer) and 1 (keyboard) are open, provided reading a
  controller's data port gives its mask and the keyboard controller takes its commands.
\<close>

theorem boot_irq_lines:
  assumes "reads_masks dev" "accepts dev" "on_screen (vst s)" "n < 16"
  shows "pics_ready (keyboard_init dev (pit_init dev (pic_init dev s)))
    \<and> (masked (keyboard_init dev (pit_init dev (pic_init dev s))) n \<longleftrightarrow> n \<noteq> 0 \<and> n \<noteq> 1)"
proof -
  have v: "on_screen (vst (pic_init dev s))"
    using assms(3) by (simp add: pic_init_def pic_remap_def inp_eq Let_def io_wait_def outp_def)
  note P = pit_init_ok [OF assms(1) masked_init(1) v]
  note K = keyboard_init_line [OF assms(1,2) P(1) assms(4)]
  show ?thesis using K P(2) [OF assms(4)] masked_init(2) [OF assms(4), of dev s] by auto
qed

text \<open>A machine whose keyboard controller is always ready and silent.\<close>

definition quiet :: device where
  "quiet h p = (if p = PIC1_DATA then c_mask (chip PIC1_CMD PIC1_DATA h)
    else if p = PIC2_DATA then c_mask (chip PIC2_CMD PIC2_DATA h) else 0)"

theorem boot_irq_lines_witness:
  "\<not> masked (keyboard_init quiet (pit_init quiet (pic_init quiet idle_machine))) 1
    \<and> masked (keyboard_init quiet (pit_init quiet (pic_init quiet idle_machine))) 2"
proof -
  have d: "reads_masks quiet" "accepts quiet"
    by (simp_all add: reads_masks_def accepts_def quiet_def PIC1_DATA_def PIC2_DATA_def I8042_STATUS_REG_def)
  show ?thesis using boot_irq_lines [OF d, of idle_machine 1] boot_irq_lines [OF d, of idle_machine 2] by simp
qed

end
