(* ===== verification/Debug.thy ===== *)
theory Debug
  imports X86
begin

text \<open>
  The debugging aids of \<^verbatim>\<open>debug.c\<close>: the memory dump and the panic, and what every printing
  function does to the machine (\<open>printed\<close>).
\<close>

section \<open>debug.c\<close>

text \<open>\<^verbatim>\<open>_panic\<close> prints and halts with interrupts disabled; \<open>None\<close> if its format does not end.\<close>

definition panic :: "addr \<Rightarrow> addr \<Rightarrow> addr \<Rightarrow> machine \<Rightarrow> outcome option" where
  "panic caller fmt ap s =
    (let s = say (fmt_text [(lit ''panic (caller '', Ptr caller)] (lit ''): '')) s
     in map_option (\<lambda>(_, m, v). Halted (s\<lparr>kern := x86_cli ((kern s)\<lparr>kmem := m\<rparr>), vst := v\<rparr>))
          (vprintf fmt ap (kmem (kern s)) (vst s)))"

definition word_text :: "u32 \<Rightarrow> u8 list" where "word_text w = fmt_text [([], hx 8 w)] (lit '' '')"

text \<open>The bytes of the buffer's words, as the union's other member shows them.\<close>

definition cbuf :: "u32 list \<Rightarrow> u8 list" where
  "cbuf buf = concat (map (\<lambda>w. [ucast w, ucast (drop_bit 8 w), ucast (drop_bit 16 w), ucast (drop_bit 24 w)]) buf)"

fun dump_words :: "nat \<Rightarrow> addr \<Rightarrow> nat \<Rightarrow> machine \<Rightarrow> u32 list \<times> machine" where
  "dump_words 0 address i s = ([], s)"
| "dump_words (Suc n) address i s =
    (let w = ld32 (kmem (kern s)) (address + 4 * of_nat i);
         s = say (word_text w) s;
         (buf, s) = dump_words n address (i + 1) s
     in (w # buf, s))"

fun dump_blanks :: "nat \<Rightarrow> machine \<Rightarrow> machine" where
  "dump_blanks 0 s = s"
| "dump_blanks (Suc n) s = dump_blanks n (say (lit ''         '') s)"

fun dump_chars :: "nat \<Rightarrow> nat \<Rightarrow> nat \<Rightarrow> u8 list \<Rightarrow> machine \<Rightarrow> machine" where
  "dump_chars 0 i n cb s = s"
| "dump_chars (Suc k) i n cb s =
    dump_chars k (i + 1) n cb (say (if i < n \<and> isprint (scast (cb ! i)) then [cb ! i] else lit ''.'') s)"

definition hexdump_line :: "addr \<Rightarrow> u32 \<Rightarrow> machine \<Rightarrow> machine" where
  "hexdump_line address n s =
    (let s = say (fmt_text [(lit ''0x'', hx 8 address)] (lit '': '')) s;
         (buf, s) = dump_words (unat (n div 4)) address 0 s;
         s = dump_blanks (4 - unat (n div 4)) s;
         s = say (lit ''|'') s;
         s = dump_chars 16 0 (unat n) (cbuf buf) s
     in say (lit ''|'' @ [10]) s)"

partial_function (option) hexdump_loop :: "addr \<Rightarrow> u32 \<Rightarrow> u32 \<Rightarrow> machine \<Rightarrow> machine option" where
  "hexdump_loop address count len s =
    (if count < len then
       hexdump_loop (address + 16) (count + 16) len (hexdump_line address (ROUNDUP (MIN_u32 (len - count) 16) 4) s)
     else Some s)"

definition hexdump :: "addr \<Rightarrow> u32 \<Rightarrow> machine \<Rightarrow> machine option" where
  "hexdump ptr len s = hexdump_loop ptr 0 len s"

section \<open>Printing\<close>

text \<open>What printing anything does: the screen changes, and nothing else.\<close>

definition printed :: "machine \<Rightarrow> machine \<Rightarrow> bool" where
  "printed s s' \<longleftrightarrow> on_screen (vst s') \<and> frame vga_region (kmem (kern s)) (kmem (kern s'))
     \<and> s' = s\<lparr>kern := (kern s)\<lparr>kmem := kmem (kern s')\<rparr>, vst := vst s'\<rparr>"

lemma printed_refl: "on_screen (vst s) \<Longrightarrow> printed s s"
  by (simp add: printed_def)

lemma printed_trans:
  assumes "printed s s1" "printed s1 s2"
  shows "printed s s2"
proof -
  have 1: "s1 = s\<lparr>kern := (kern s)\<lparr>kmem := kmem (kern s1)\<rparr>, vst := vst s1\<rparr>" using assms(1) by (simp add: printed_def)
  have 2: "s2 = s1\<lparr>kern := (kern s1)\<lparr>kmem := kmem (kern s2)\<rparr>, vst := vst s2\<rparr>" using assms(2) by (simp add: printed_def)
  have "s2 = s\<lparr>kern := (kern s)\<lparr>kmem := kmem (kern s2)\<rparr>, vst := vst s2\<rparr>"
    by (subst 2, subst 1, subst (3) 1) (cases s, cases "kern s", simp)
  then show ?thesis using assms frame_trans by (auto simp: printed_def)
qed

lemma console_loop_screen:
  assumes "on_screen v"
  shows "case console_loop bs i len True m v of (_, m', v') \<Rightarrow> on_screen v' \<and> frame vga_region m m'"
  using assms
proof (induction bs arbitrary: i m v)
  case Nil
  then show ?case by simp
next
  case (Cons c bs)
  obtain m1 v1 where 1: "(let (m, s) = (if c = 10 then vga_console_putchar m v 13 else (m, v)) in vga_console_putchar m s c) = (m1, v1)"
      "console_run m v [c] m1 v1"
    using console_char_run [OF Cons.prems, where m = m and c = c] by blast
  then have s1: "on_screen v1" "frame vga_region m m1" by (simp_all add: console_run_def)
  have e: "console_loop (c # bs) i len True m v = (if c \<noteq> 0 \<and> i < len then console_loop bs (i + 1) len True m1 v1 else (i, m, v))"
    using 1(1) by (auto split: prod.splits)
  show ?case using Cons.IH [OF s1(1), where i = "i + 1" and m = m1] s1 Cons.prems frame_trans unfolding e by (auto split: prod.splits)
qed

lemma say_printed: "on_screen (vst s) \<Longrightarrow> printed s (say bs s)"
  using console_loop_screen [of "vst s", where bs = bs and i = 0 and len = "of_nat (length bs)" and m = "kmem (kern s)"]
  by (auto simp: printed_def say_def console_sink_def console_write_def split: prod.splits)

lemma says_printed: "says bs s s' \<Longrightarrow> printed s s'"
  by (simp add: says_def printed_def)

lemma printed_on_screen: "printed s s' \<Longrightarrow> on_screen (vst s')"
  by (simp add: printed_def)

lemma say_prints: "printed s s' \<Longrightarrow> printed s (say bs s')"
  using printed_trans say_printed printed_on_screen by blast

section \<open>The memory dump\<close>

text \<open>What a line of the dump shows of the memory: the address, the words, the characters.\<close>

definition dump_line :: "mem \<Rightarrow> addr \<Rightarrow> nat \<Rightarrow> u8 list" where
  "dump_line m a n =
    fmt_text [(lit ''0x'', hx 8 a)] (lit '': '')
    @ concat (map (\<lambda>j. word_text (ld32 m (a + 4 * of_nat j))) [0..<n div 4])
    @ concat (replicate (4 - n div 4) (lit ''         ''))
    @ lit ''|'' @ map (\<lambda>j. if j < n \<and> isprint (scast (m (a + of_nat j))) then m (a + of_nat j) else ch CHR ''.'') [0..<16]
    @ lit ''|'' @ [10]"

lemma hx_text: "0 \<notin> set (dir_text (hx w v))" "length (dir_text (hx w v)) \<le> 16 + unat w"
proof -
  let ?n = "unat (ucast (ucast v :: u64) :: u32)"
  have "length (digits 16 ?n) \<le> 16" using digits_length [of 16 ?n 15] unat_lt32 [of "ucast (ucast v :: u64)"] by simp
  then have "length (hex_text False ?n) \<le> 16" by (simp add: hex_text_def)
  then show "length (dir_text (hx w v)) \<le> 16 + unat w"
    by (simp add: hx_def hex_spec_def field_text_def unsigned_value_def Let_def) linarith
  show "0 \<notin> set (dir_text (hx w v))"
    using hex_text_nz [of False ?n] by (auto simp: hx_def hex_spec_def field_text_def unsigned_value_def Let_def)
qed

lemma word_text_says:
  assumes "on_screen (vst s)"
  shows "says (word_text w) s (say (word_text w) s)"
proof (rule say_says [OF assms])
  show "0 \<notin> set (word_text w)" "length (word_text w) < 2 ^ 32"
    using hx_text [of 8 w] by (auto simp: word_text_def)
qed

lemma says_then:
  assumes "says as s s1" "says bs s1 s2" "cs = as @ bs"
  shows "says cs s s2"
  using says_trans [OF assms(1,2)] assms(3) by simp

lemma dump_words_says:
  assumes "on_screen (vst s)" "frame vga_region m (kmem (kern s))"
    and "\<And>j. i \<le> j \<Longrightarrow> j < i + n \<Longrightarrow> region (a + 4 * of_nat j) 4 \<inter> vga_region = {}"
  shows "\<exists>s'. dump_words n a i s = (map (\<lambda>j. ld32 m (a + 4 * of_nat j)) [i..<i + n], s')
    \<and> says (concat (map (\<lambda>j. word_text (ld32 m (a + 4 * of_nat j))) [i..<i + n])) s s'"
  using assms
proof (induction n arbitrary: i s)
  case 0
  then show ?case by (simp add: says_refl)
next
  case (Suc n)
  let ?w = "ld32 m (a + 4 * of_nat i)"
  have w: "ld32 (kmem (kern s)) (a + 4 * of_nat i) = ?w"
    using Suc.prems(3) [of i] by (intro frame_ld32 [OF Suc.prems(2)]) simp
  let ?s = "say (word_text ?w) s"
  have S: "says (word_text ?w) s ?s" by (rule word_text_says [OF Suc.prems(1)])
  then have "on_screen (vst ?s)" "frame vga_region m (kmem (kern ?s))"
    using Suc.prems(2) frame_trans by (auto simp: says_def)
  from Suc.IH [OF this, of "i + 1"] Suc.prems(3) obtain s' where
    r: "dump_words n a (i + 1) ?s = (map (\<lambda>j. ld32 m (a + 4 * of_nat j)) [i + 1..<i + 1 + n], s')"
      "says (concat (map (\<lambda>j. word_text (ld32 m (a + 4 * of_nat j))) [i + 1..<i + 1 + n])) ?s s'" by force
  have u: "[i..<i + Suc n] = i # [i + 1..<i + 1 + n]" by (simp add: upt_conv_Cons)
  have e: "dump_words (Suc n) a i s = (?w # map (\<lambda>j. ld32 m (a + 4 * of_nat j)) [i + 1..<i + 1 + n], s')"
    using r(1) by (simp only: dump_words.simps Let_def w prod.case)
  show ?case using says_trans [OF S r(2)] unfolding e u by simp
qed

lemma dump_blanks_says: "on_screen (vst s) \<Longrightarrow> says (concat (replicate n (lit ''         ''))) s (dump_blanks n s)"
proof (induction n arbitrary: s)
  case 0
  then show ?case by (simp add: says_refl)
next
  case (Suc n)
  have S: "says (lit ''         '') s (say (lit ''         '') s)" by (rule say_says [OF Suc.prems]) auto
  show ?case using says_trans [OF S Suc.IH [OF says_on_screen [OF S]]] by simp
qed

lemma dump_chars_says:
  assumes "on_screen (vst s)"
  shows "says (map (\<lambda>j. if j < n \<and> isprint (scast (cb ! j)) then cb ! j else ch CHR ''.'') [i..<i + k]) s (dump_chars k i n cb s)"
  using assms
proof (induction k arbitrary: i s)
  case 0
  then show ?case by (simp add: says_refl)
next
  case (Suc k)
  let ?t = "if i < n \<and> isprint (scast (cb ! i)) then [cb ! i] else lit ''.''"
  have nz: "0 \<notin> set ?t" using isprint_char [of "cb ! i"] by (cases "cb ! i = 0") auto
  have S: "says ?t s (say ?t s)" by (rule say_says [OF Suc.prems nz]) simp
  have u: "[i..<i + Suc k] = i # [i + 1..<i + 1 + k]" by (simp add: upt_conv_Cons)
  show ?case unfolding u dump_chars.simps
    by (rule says_then [OF S Suc.IH [OF says_on_screen [OF S], of "i + 1"]]) simp
qed

lemma cbuf_nth:
  "j < 4 * length buf \<Longrightarrow> cbuf buf ! j = ucast (drop_bit (8 * (j mod 4)) (buf ! (j div 4)))" "length (cbuf buf) = 4 * length buf"
proof -
  show l: "length (cbuf buf) = 4 * length buf" for buf by (induction buf) (simp_all add: cbuf_def)
  show "j < 4 * length buf \<Longrightarrow> cbuf buf ! j = ucast (drop_bit (8 * (j mod 4)) (buf ! (j div 4)))"
  proof (induction buf arbitrary: j)
    case (Cons w buf)
    show ?case
    proof (cases "j < 4")
      case True
      then have "j \<in> {0, 1, 2, 3}" by auto
      then show ?thesis by (auto simp: cbuf_def)
    next
      case False
      then obtain k where k: "j = k + 4" by (metis add.commute le_add_diff_inverse not_less)
      have "cbuf (w # buf) ! j = cbuf buf ! k" by (simp add: cbuf_def k)
      moreover have "(k + 4) div 4 = Suc (k div 4)" by simp
      ultimately show ?thesis using Cons.IH [of k] Cons.prems by (simp add: k)
    qed
  qed simp
qed

lemma ld32_byte: "k < 4 \<Longrightarrow> ucast (drop_bit (8 * k) (ld32 m a)) = m (a + of_nat k)"
proof -
  assume "k < 4"
  then have "k \<in> {0, 1, 2, 3}" by auto
  then show ?thesis
    by (auto simp: ld32_def intro!: bit_word_eqI) (auto simp: bit_simps dest: bit_imp_le_length)
qed

lemma hexdump_line_says:
  assumes "on_screen (vst s)" "frame vga_region m (kmem (kern s))" "unat n mod 4 = 0" "unat n \<le> 16"
    and "\<And>j. j < unat n div 4 \<Longrightarrow> region (a + 4 * of_nat j) 4 \<inter> vga_region = {}"
  shows "says (dump_line m a (unat n)) s (hexdump_line a n s)"
proof -
  let ?k = "unat n div 4"
  let ?buf = "map (\<lambda>j. ld32 m (a + 4 * of_nat j)) [0..<?k]"
  have k: "unat (n div 4) = ?k" by (simp add: unat_div)
  let ?t1 = "fmt_text [(lit ''0x'', hx 8 a)] (lit '': '')" and ?s1 = "say (fmt_text [(lit ''0x'', hx 8 a)] (lit '': '')) s"
  have S1: "says ?t1 s ?s1" by (rule say_says [OF assms(1)]) (use hx_text [of 8 a] in auto)
  have f1: "frame vga_region m (kmem (kern ?s1))" using S1 assms(2) frame_trans by (auto simp: says_def)
  from dump_words_says [OF says_on_screen [OF S1] f1, of 0 ?k a] assms(5) obtain s2 where
    w: "dump_words ?k a 0 ?s1 = (?buf, s2)" "says (concat (map (\<lambda>j. word_text (ld32 m (a + 4 * of_nat j))) [0..<?k])) ?s1 s2" by auto
  let ?s3 = "dump_blanks (4 - ?k) s2"
  have S3: "says (concat (replicate (4 - ?k) (lit ''         ''))) s2 ?s3" by (rule dump_blanks_says [OF says_on_screen [OF w(2)]])
  let ?s4 = "say (lit ''|'') ?s3"
  have S4: "says (lit ''|'') ?s3 ?s4" by (rule say_says [OF says_on_screen [OF S3]]) auto
  let ?s5 = "dump_chars 16 0 (unat n) (cbuf ?buf) ?s4"
  note S5 = dump_chars_says [OF says_on_screen [OF S4], of "unat n" "cbuf ?buf" 0 16]
  let ?s6 = "say (lit ''|'' @ [10]) ?s5"
  have S6: "says (lit ''|'' @ [10]) ?s5 ?s6" by (rule say_says [OF says_on_screen [OF S5]]) auto
  have n4: "4 * ?k = unat n" using assms(3) div_mult_mod_eq [of "unat n" 4] by simp
  have c: "cbuf ?buf ! j = m (a + of_nat j)" if "j < unat n" for j
  proof -
    have "(of_nat (4 * (j div 4) + j mod 4) :: u32) = of_nat j" by (simp only: mult_div_mod_eq)
    then have E: "a + 4 * of_nat (j div 4) + of_nat (j mod 4) = a + (of_nat j :: u32)"
      unfolding of_nat_add of_nat_mult by (simp add: add.assoc)
    have "j div 4 < ?k" using that n4 by (simp add: less_mult_imp_div_less)
    then have "cbuf ?buf ! j = m (a + 4 * of_nat (j div 4) + of_nat (j mod 4))"
      using cbuf_nth(1) [of j ?buf] ld32_byte [of "j mod 4" m] that n4 by simp
    then show ?thesis by (simp only: E)
  qed
  have cs: "map (\<lambda>j. if j < unat n \<and> isprint (scast (cbuf ?buf ! j)) then cbuf ?buf ! j else ch CHR ''.'') [0..<0 + 16]
     = map (\<lambda>j. if j < unat n \<and> isprint (scast (m (a + of_nat j))) then m (a + of_nat j) else ch CHR ''.'') [0..<16]"
    using c by auto
  have "hexdump_line a n s = ?s6" unfolding hexdump_line_def Let_def k w(1) prod.case ..
  moreover have "says (dump_line m a (unat n)) s ?s6"
    using says_trans [OF S1 says_trans [OF w(2) says_trans [OF S3 says_trans [OF S4 says_trans [OF S5 S6]]]]]
    unfolding cs dump_line_def .
  ultimately show ?thesis by simp
qed

lemma u32_of_nat: "n < 2 ^ 32 \<Longrightarrow> unat (of_nat n :: u32) = n"
  by (simp add: unsigned_of_nat take_bit_nat_eq_self)

text \<open>The bytes shown of the line at offset \<open>c\<close> of a dump of \<open>len\<close> bytes: at most 16, rounded up to words.\<close>

definition line_bytes :: "nat \<Rightarrow> nat \<Rightarrow> nat" where
  "line_bytes len c = 4 * ((min 16 (len - c) + 3) div 4)"

lemma line_bytes_code:
  assumes "c < len"
  shows "unat (ROUNDUP (MIN_u32 (len - c) 16) 4) = line_bytes (unat len) (unat c)"
proof -
  have d: "unat (len - c) = unat len - unat c" by (rule unat_sub) (use assms in simp)
  have m: "unat (MIN_u32 (len - c) 16) = min 16 (unat len - unat c)" by (simp add: MIN_u32_def word_less_nat_alt d)
  have "unat (ROUNDUP (MIN_u32 (len - c) 16) (2 ^ 2)) = (unat (MIN_u32 (len - c) 16) + (2 ^ 2 - 1)) div 2 ^ 2 * 2 ^ 2"
    by (rule unat_ROUNDUP) (simp_all add: m)
  then show ?thesis by (simp add: m line_bytes_def)
qed

lemma line_bytes_le: "line_bytes len c \<le> 16" "c < len \<Longrightarrow> c + line_bytes len c \<le> len + 3" "line_bytes len c mod 4 = 0"
  by (auto simp: line_bytes_def min_def)

definition dump_text :: "mem \<Rightarrow> addr \<Rightarrow> nat \<Rightarrow> nat list \<Rightarrow> u8 list" where
  "dump_text m p len ls = concat (map (\<lambda>k. dump_line m (p + of_nat (16 * k)) (line_bytes len (16 * k))) ls)"

lemma hexdump_loop_says:
  assumes "unat len \<le> 2 ^ 32 - 16" "region p (unat len + 3) \<inter> vga_region = {}"
  shows "on_screen (vst s) \<Longrightarrow> frame vga_region m (kmem (kern s)) \<Longrightarrow> i \<le> (unat len + 15) div 16 \<Longrightarrow>
    \<exists>s'. hexdump_loop (p + of_nat (16 * i)) (of_nat (16 * i)) len s = Some s'
      \<and> says (dump_text m p (unat len) [i..<(unat len + 15) div 16]) s s'"
proof (induction "(unat len + 15) div 16 - i" arbitrary: i s)
  case 0
  then have "i = (unat len + 15) div 16" by simp
  moreover have "16 * ((unat len + 15) div 16) \<le> unat len + 15" "unat len + 15 < 2 ^ 32" using assms(1) by simp_all
  ultimately have i: "unat len \<le> 16 * i" "16 * i < 2 ^ 32" by linarith+
  then have "unat (of_nat (16 * i) :: u32) = 16 * i"
    by (intro u32_of_nat)
  then have "\<not> of_nat (16 * i) < len" using i(1) by (simp add: word_less_nat_alt)
  then show ?case using 0 by (subst hexdump_loop.simps) (simp add: says_refl dump_text_def)
next
  case (Suc n)
  have lt: "i < (unat len + 15) div 16" using Suc.hyps(2) by simp
  then have i: "16 * i < unat len" by linarith
  then have u: "unat (of_nat (16 * i) :: u32) = 16 * i"
    using unat_lt32 [of len] by (intro u32_of_nat) simp
  then have c: "of_nat (16 * i) < len" using i by (simp only: word_less_nat_alt)
  let ?a = "p + of_nat (16 * i)" and ?n = "ROUNDUP (MIN_u32 (len - of_nat (16 * i)) 16) 4"
  have n: "unat ?n = line_bytes (unat len) (16 * i)" using line_bytes_code [OF c] u by simp
  note LB = line_bytes_le [where len = "unat len" and c = "16 * i"]
  have reg: "region (?a + 4 * of_nat j) 4 \<inter> vga_region = {}" if "j < unat ?n div 4" for j
  proof -
    have j: "16 * i + 4 * j + 4 \<le> unat len + 3" using that LB(2) [OF i] LB(3) n by linarith
    then have "unat (of_nat (16 * i + 4 * j) :: u32) \<le> 16 * i + 4 * j"
      using unat_lt32 [of len] by (subst u32_of_nat) simp_all
    then have "region (p + of_nat (16 * i + 4 * j)) 4 \<subseteq> region p (unat len + 3)"
      using j by (intro region_field) simp
    then show ?thesis using assms(2) by (auto simp: add.assoc)
  qed
  have S: "says (dump_line m ?a (unat ?n)) s (hexdump_line ?a ?n s)"
    by (rule hexdump_line_says [OF Suc.prems(1,2)]) (use LB n reg in auto)
  have f: "frame vga_region m (kmem (kern (hexdump_line ?a ?n s)))" using S Suc.prems(2) frame_trans by (auto simp: says_def)
  have "n = (unat len + 15) div 16 - (i + 1)" "i + 1 \<le> (unat len + 15) div 16" using Suc.hyps(2) lt by simp_all
  from Suc.hyps(1) [OF this(1) says_on_screen [OF S] f this(2)] obtain s' where
    r: "hexdump_loop (p + of_nat (16 * (i + 1))) (of_nat (16 * (i + 1))) len (hexdump_line ?a ?n s) = Some s'"
      "says (dump_text m p (unat len) [i + 1..<(unat len + 15) div 16]) (hexdump_line ?a ?n s) s'" by blast
  have next_: "?a + 16 = p + of_nat (16 * (i + 1))" "of_nat (16 * i) + 16 = (of_nat (16 * (i + 1)) :: u32)" by (simp_all add: algebra_simps)
  have "hexdump_loop ?a (of_nat (16 * i)) len s = Some s'"
    using c r(1) by (subst hexdump_loop.simps) (simp only: next_ if_True)
  moreover have "dump_text m p (unat len) [i..<(unat len + 15) div 16] = dump_line m ?a (unat ?n) @ dump_text m p (unat len) [i + 1..<(unat len + 15) div 16]"
    unfolding n using lt by (simp add: dump_text_def upt_conv_Cons)
  ultimately show ?case using says_trans [OF S r(2)] by auto
qed

end
