(* ===== verification/Boot.thy ===== *)
theory Boot
  imports Debug HeapProps TaskProps
begin

text \<open>
  \<^verbatim>\<open>main.c\<close>: the kernel's entry and its boot task, with the heap's dump (\<^verbatim>\<open>miniheap_dump\<close>). The
  pieces share one memory and one screen, the kernel's: the heap's record has a copy of the memory
  and of the cursor that is refreshed before every call of the heap. The addresses the linker gives are parameters (\<open>links\<close>).
\<close>

section \<open>The heap's dump\<close>

definition dump_free_chunk :: "addr \<Rightarrow> machine \<Rightarrow> machine" where
  "dump_free_chunk chunk s =
    (let len = chunk_len (kmem (kern s)) chunk
     in say (fmt_text [([9, 9] @ lit ''base '', Ptr chunk), (lit '', end 0x'', hx 0 (chunk + len)),
                       (lit '', len 0x'', Hex False (size_spec) (ucast len))] [10]) s)"

partial_function (option) dump_loop :: "addr \<Rightarrow> addr \<Rightarrow> machine \<Rightarrow> machine option" where
  "dump_loop fl chunk s =
    (if chunk \<noteq> fl then
       (let s = dump_free_chunk chunk s in dump_loop fl (node_next (kmem (kern s)) chunk) s)
     else Some s)"

definition miniheap_dump :: "heap \<Rightarrow> machine \<Rightarrow> machine option" where
  "miniheap_dump h s =
    (let s = say (lit ''Heap dump (using miniheap):'' @ [10]) s;
         s = say (fmt_text [([9] @ lit ''base '', Ptr (h_base h)), (lit '', len 0x'', Hex False size_spec (ucast (h_len h)))] [10]) s;
         s = say ([9] @ lit ''free list:'' @ [10]) s
     in dump_loop (free_list h) (node_next (kmem (kern s)) (free_list h)) s)"

definition heap_dump :: "heap \<Rightarrow> machine \<Rightarrow> machine option" where
  "heap_dump h s = miniheap_dump h s"

section \<open>main.c\<close>

text \<open>A memory range as the boot loader describes it, in 32 bytes.\<close>

record e820 =
  e_base :: u64
  e_len :: u64
  e_type :: u32

definition ld64 :: "mem \<Rightarrow> addr \<Rightarrow> u64" where
  "ld64 m p = ucast (ld32 m p) OR push_bit 32 (ucast (ld32 m (p + 4)))"

definition get_e820 :: "mem \<Rightarrow> addr \<Rightarrow> e820" where
  "get_e820 m p = \<lparr>e_base = ld64 m p, e_len = ld64 m (p + 8), e_type = ld32 m (p + 0x10)\<rparr>"

lemma get_e820_frame: "frame R m m' \<Longrightarrow> region p 20 \<inter> R = {} \<Longrightarrow> get_e820 m' p = get_e820 m p"
proof -
  assume f: "frame R m m'" and d: "region p 20 \<inter> R = {}"
  have "ld32 m' (p + i) = ld32 m (p + i)" if "unat i + 4 \<le> 20" for i
    using region_field [OF that, of p] d by (intro frame_ld32 [OF f]) blast
  from this [of 0] this [of 4] this [of 8] this [of 12] this [of 16] show ?thesis
    by (simp add: get_e820_def ld64_def add.assoc)
qed

definition e820_text :: "nat \<Rightarrow> e820 \<Rightarrow> u8 list" where
  "e820_text i e =
    (let alt = plain_spec\<lparr>falt := True, flen := LLongLong\<rparr>
     in fmt_text [(lit ''e820 '', Uns size_spec (of_nat i)), (lit '': base '', Hex False alt (e_base e)),
                  (lit '' len '', Hex False alt (e_len e)), (lit '' type '', Uns (plain_spec\<lparr>flen := LLong\<rparr>) (ucast (e_type e)))] [10])"

fun dump_e820 :: "addr \<Rightarrow> nat \<Rightarrow> nat \<Rightarrow> machine \<Rightarrow> machine" where
  "dump_e820 ptr i 0 s = s"
| "dump_e820 ptr i (Suc n) s =
    dump_e820 ptr (i + 1) n (say (e820_text i (get_e820 (kmem (kern s)) (ptr + 32 * of_nat i))) s)"

record links =
  gdt_addr :: addr
  idt_addr :: addr
  isr_table :: addr
  kernel_tss_addr :: addr
  default_heap :: addr
  main2_addr :: addr

record system =
  mach :: machine
  heapst :: heap
  proc :: cpu

definition args_text :: "u32 \<Rightarrow> addr \<Rightarrow> u32 \<Rightarrow> u32 \<Rightarrow> addr \<Rightarrow> u8 list" where
  "args_text mem ext_mem_block ext_mem_count in_vesa vesa_ptr =
    fmt_text [(lit ''Arguments from bootloader:'' @ [10, 9] @ lit ''mem '', Hex False (plain_spec\<lparr>falt := True\<rparr>) (ucast mem)),
              ([10, 9] @ lit ''ext_mem_block '', Ptr ext_mem_block),
              (lit '' ext_mem_count '', Uns size_spec (ucast ext_mem_count)),
              ([10, 9] @ lit ''in_vesa '', Dec plain_spec (ucast in_vesa)),
              (lit '' vesa_ptr '', Ptr vesa_ptr)] [10]"

text \<open>The early part: screen, processor tables, messages, interrupt controllers, timer, scheduler.\<close>

definition early_init :: "device \<Rightarrow> u32 \<Rightarrow> addr \<Rightarrow> u32 \<Rightarrow> u32 \<Rightarrow> addr \<Rightarrow> machine \<Rightarrow> machine" where
  "early_init dev mem ext_mem_block ext_mem_count in_vesa vesa_ptr s =
    (let (ports, m) = console_init (kmem (kern s));
         s = s\<lparr>kern := (kern s)\<lparr>kmem := m\<rparr>, io := io s @ map (\<lambda>(p, v). PortOut p v) ports\<rparr>;
         s = say (lit ''Welcome to 3x86 OS'' @ [10]) s;
         s = say (args_text mem ext_mem_block ext_mem_count in_vesa vesa_ptr) s;
         s = dump_e820 ext_mem_block 0 (unat ext_mem_count) s;
         s = pic_init dev s;
         s = pit_init dev s
     in s\<lparr>kern := task_init (kern s)\<rparr>)"

text \<open>
  The entry, up to the first task running: the result has the address of the boot task and of its
  stack. The two results of \<^verbatim>\<open>malloc\<close> are used without a test. \<^verbatim>\<open>x86_init\<close> is called between the first
  two steps of \<open>early_init\<close> and works on the processor only.
\<close>

definition start_c :: "device \<Rightarrow> links \<Rightarrow> u32 \<Rightarrow> addr \<Rightarrow> u32 \<Rightarrow> u32 \<Rightarrow> addr \<Rightarrow> system \<Rightarrow> (addr \<times> addr \<times> system) option" where
  "start_c dev L mem ext_mem_block ext_mem_count in_vesa vesa_ptr sys =
    (let s = early_init dev mem ext_mem_block ext_mem_count in_vesa vesa_ptr (mach sys);
         c = x86_init (gdt_addr L) (idt_addr L) (isr_table L) (kernel_tss_addr L) (proc sys)
     in Option.bind (heap_init ((heapst sys)\<lparr>hmem := kmem (kern s), h_vst := vst s\<rparr>) (default_heap L)) (\<lambda>h.
        Option.bind (malloc h (of_nat sizeof_task)) (\<lambda>(boot_thread, h).
        Option.bind (malloc h 512) (\<lambda>(boot_stack, h).
          let k = (kern s)\<lparr>kmem := hmem h\<rparr>;
              (_, k) = task_create k boot_thread (main2_addr L) NULL boot_stack 512;
              (_, k) = task_start k boot_thread;
              s = say (lit ''starting multitasking'' @ [10]) (s\<lparr>kern := k, vst := h_vst h\<rparr>)
          in map_option (\<lambda>k. (boot_thread, boot_stack, \<lparr>mach = s\<lparr>kern := k\<rparr>, heapst = h, proc = c\<rparr>))
               (task_become_idle (kern s))))))"

text \<open>The boot task.\<close>

definition main2 :: "device \<Rightarrow> heap \<Rightarrow> machine \<Rightarrow> machine option" where
  "main2 dev h s =
    (let s = say (lit ''top of secondary boot thread'' @ [10]) s;
         s = keyboard_init dev s
     in map_option (say (lit ''secondary boot thread exiting'' @ [10])) (heap_dump h s))"

end
