(* ===== verification/TaskFrame.thy ===== *)
theory TaskFrame
  imports TaskProps
begin

text \<open>
  What the scheduler writes: the head of the run queue, the task structures, and the five words a
  switch saves below the stack pointer, or the first frame of a new task on the top of its stack.
  The rest of the kernel's memory, the heap and the screen in it, is as it was.
\<close>

section \<open>The scheduler's own memory\<close>

definition sched_area :: "addr set \<Rightarrow> addr \<Rightarrow> addr set" where
  "sched_area T rq = region rq 8 \<union> (\<Union>t\<in>T. region t 36)"

lemma sched_area_task: "t \<in> T \<Longrightarrow> region t 36 \<subseteq> sched_area T rq"
  by (auto simp: sched_area_def)

lemma sched_area_nodes: "N \<subseteq> insert rq T \<Longrightarrow> nodes_region N \<subseteq> sched_area T rq"
  using node_in_task by (auto simp: nodes_region_def sched_area_def)

lemma area_fld: "frame (sched_area T rq) m m' \<Longrightarrow> t \<in> T \<Longrightarrow> off \<in> fields \<Longrightarrow> frame (sched_area T rq) m (set_fld m' t off v)"
  using frame_trans frame_mono [OF set_fld_frame sched_area_task] by blast

lemma enter_writes:
  "current_task k \<in> T \<Longrightarrow> frame (sched_area T rq) (kmem k) (kmem (enter_critical_section k))"
  by (simp add: enter_critical_section_def Let_def x86_cli_def area_fld)

lemma exit_writes:
  "current_task k \<in> T \<Longrightarrow> frame (sched_area T rq) (kmem k) (kmem (exit_critical_section k))"
  by (simp add: exit_critical_section_def Let_def x86_sti_def area_fld)

section \<open>The run queue\<close>

lemma queue_ends: "hd (q @ [rq]) \<in> insert rq (set q)" "last (rq # q) \<in> insert rq (set q)"
  by (auto simp: hd_append)

lemma add_writes:
  assumes L: "layout T stk rq" and M: "mem_rep T stk rq m a" and t: "t \<in> T" "t \<notin> set (a_queue a)"
  shows "frame (sched_area T rq) m (list_add_tail m rq t)" "frame (sched_area T rq) m (list_add_head m rq t)"
proof -
  have d: "dll m rq (a_queue a)" "set (a_queue a) \<subseteq> T" using M by (auto simp: mem_rep_def)
  note fr = layout_fresh_node [OF L d(2) t] and e = queue_ends [where q = "a_queue a" and rq = rq]
  have "{last (rq # a_queue a), rq, t} \<subseteq> insert rq T" "{rq, hd (a_queue a @ [rq]), t} \<subseteq> insert rq T" using e d(2) t(1) by blast+
  note N = this [THEN sched_area_nodes]
  show "frame (sched_area T rq) m (list_add_tail m rq t)"
    using frame_mono [OF list_add_tail_frame [of m rq "a_queue a" "[]" t rq] N(1)] d fr by simp
  show "frame (sched_area T rq) m (list_add_head m rq t)"
    using frame_mono [OF list_add_head_frame [of m rq "[]" "a_queue a" t rq] N(2)] d fr by simp
qed

lemma remove_writes:
  assumes L: "layout T stk rq" and M: "mem_rep T stk rq m a"
  shows "frame (sched_area T rq) m (snd (list_remove_head_type m rq 0))"
proof (cases "a_queue a")
  case Nil
  then have "dll m rq []" using M by (simp add: mem_rep_def)
  from list_remove_head_dll(1) [OF this] show ?thesis by (simp add: list_remove_head_type_def)
next
  case (Cons t q)
  have d: "dll m rq ([] @ t # q)" "set (t # q) \<subseteq> T" using M Cons by (auto simp: mem_rep_def)
  have "{last (rq # []), t, hd (q @ [rq])} \<subseteq> insert rq T" using queue_ends(1) [where q = q and rq = rq] d(2) by auto
  from frame_mono [OF list_delete_frame [OF d(1)] sched_area_nodes [OF this]] show ?thesis
    using list_remove_head_dll(1) [of m rq "t # q"] d(1) by (simp add: list_remove_head_type_def)
qed

lemma choose_writes:
  assumes rep: "sched_rep T stk k a" and nq: "a_cur a \<notin> set (a_queue a)" and i: "idle_task k \<in> T"
  shows "frame (sched_area T (run_queue k)) (kmem k) (kmem (snd (snd (resched_choose k))))"
proof -
  let ?A = "sched_area T (run_queue k)"
  let ?m = "if fld (kmem k) (current_task k) off_state = RUNNING
     then list_add_tail (set_fld (kmem k) (current_task k) off_state READY) (run_queue k) (current_task k) else kmem k"
  note R = sched_repD [OF rep]
  have "frame ?A (set_fld (kmem k) (a_cur a) off_state READY)
      (list_add_tail (set_fld (kmem k) (a_cur a) off_state READY) (run_queue k) (a_cur a))"
    using add_writes(1) [OF R(1) mem_rep_state [OF R(1,2,5)] R(5)] nq by simp
  then have "frame ?A (kmem k) (list_add_tail (set_fld (kmem k) (a_cur a) off_state READY) (run_queue k) (a_cur a))"
    by (rule frame_trans [OF area_fld [OF frame_refl R(5) off_fields(1)]])
  then have f1: "frame ?A (kmem k) ?m" using R(3) by simp
  have "sched_rep T stk (k\<lparr>kmem := ?m\<rparr>) (a_requeue a)" using rep_requeue [OF rep nq] by simp
  then have M: "mem_rep T stk (run_queue k) ?m (a_requeue a)" by (auto dest: sched_repD(2))
  from rep_choose [OF rep nq i] obtain k' where c: "resched_choose k = (a_cur a, a_cur (a_pick (idle_task k) (a_requeue a)), k')"
    "a_cur (a_pick (idle_task k) (a_requeue a)) \<in> T" using sched_repD(5) by blast
  obtain p m' where p: "list_remove_head_type ?m (run_queue k) 0 = (p, m')" by force
  then have f2: "frame ?A (kmem k) m'" using remove_writes [OF R(1) M] frame_trans [OF f1] by simp
  let ?t = "if p = NULL then idle_task k else p"
  have e: "resched_choose k = (current_task k, ?t, k\<lparr>current_task := ?t, kmem := set_fld m' ?t off_state RUNNING\<rparr>)"
    unfolding resched_choose_def Let_def p by simp
  then have "?t \<in> T" using c by auto
  then show ?thesis using area_fld [OF f2] by (simp add: e)
qed

section \<open>The switch\<close>

lemma switch_writes:
  "kmem (x86_task_switch old task k) = set_fld (saved_frame (kmem k) (esp k) (call_ctx k)) old off_saved_sp (esp k - 20)"
  by (simp add: x86_task_switch_def x86_asm_switch_def push_def pop_def Let_def saved_frame_def call_ctx_def regs_def set_fld_def ac_simps)

lemma continue_writes: "continue_at k = Some k' \<Longrightarrow> k' = exit_critical_section k"
  by (auto simp: continue_at_def task_trampoline_def Let_def split: if_splits)

lemma reschedule_writes:
  assumes rep: "sched_rep T stk k a" and ok: "sched_ok k a" and i: "idle_task k \<in> T" and k': "task_reschedule k = Some k'"
  shows "frame (sched_area T (run_queue k) \<union> region (esp k - 20) 20) (kmem k) (kmem k')"
proof -
  let ?A = "sched_area T (run_queue k)" and ?k1 = "enter_critical_section k"
  note R = sched_repD [OF rep]
  have rep1: "sched_rep T stk ?k1 (a_enter a)" and cpu1: "same_cpu k ?k1" using rep_enter [OF rep] by auto
  then have c1: "consts_of ?k1 = consts_of k" by (simp add: same_cpu_def)
  note C1 = consts_ofD [OF c1]
  have nq: "a_cur (a_enter a) \<notin> set (a_queue (a_enter a))" "idle_task ?k1 \<in> T" using ok i C1 by (auto simp: sched_ok_def)
  from rep_choose [OF rep1 nq] obtain t k2 where k2: "resched_choose ?k1 = (a_cur a, t, k2)" "t = current_task k2" "t \<in> T"
    "same_cpu ?k1 k2" using sched_repD(3,5) by fastforce
  have f2: "frame ?A (kmem k) (kmem k2)"
    using frame_trans [OF enter_writes choose_writes [OF rep1 nq]] R(3,5) C1 k2(1) by simp
  have sp: "esp k2 = esp k" using cpu1 k2(4) by (simp add: same_cpu_def regs_def)
  let ?k3 = "x86_task_switch (a_cur a) t k2"
  let ?m1 = "saved_frame (kmem k2) (esp k) (call_ctx k2)"
  have "frame ?A ?m1 (set_fld ?m1 (a_cur a) off_saved_sp (esp k - 20))" by (rule area_fld [OF frame_refl R(5)]) simp
  then have "frame ?A ?m1 (kmem ?k3)" by (simp add: switch_writes sp)
  from frame_trans [OF frame_mono [OF f2] frame_trans [OF frame_mono [OF saved_frame_frame] frame_mono [OF this]]]
  have f3: "frame (?A \<union> region (esp k - 20) 20) (kmem k) (kmem ?k3)" by blast
  have "current_task ?k3 = t" by (simp add: x86_task_switch_def x86_asm_switch_def push_def pop_def Let_def k2(2))
  then have e: "frame ?A (kmem k2) (kmem (exit_critical_section k2))" "frame ?A (kmem ?k3) (kmem (exit_critical_section ?k3))"
    using k2(2,3) by (auto intro: exit_writes)
  show ?thesis
  proof (cases "t = a_cur a")
    case True
    then have "k' = exit_critical_section k2" using k' k2(1) by (simp add: task_reschedule_def Let_def)
    then show ?thesis using frame_mono [OF frame_trans [OF f2 e(1)]] by simp
  next
    case False
    then have "k' = exit_critical_section ?k3" using k' k2(1) continue_writes by (simp add: task_reschedule_def Let_def)
    then show ?thesis using frame_trans [OF f3 frame_mono [OF e(2)]] by simp
  qed
qed

lemma die_writes:
  assumes rep: "sched_rep T stk k a" and ok: "sched_ok k a" and i: "idle_task k \<in> T" and n: "a_count a (a_cur a) + 1 \<noteq> 0"
    and k': "task_exit k = Some k'"
  shows "frame (sched_area T (run_queue k) \<union> region (esp k - 20) 20) (kmem k) (kmem k')"
proof -
  let ?A = "sched_area T (run_queue k)" and ?k1 = "enter_critical_section k"
  let ?k2 = "?k1\<lparr>kmem := set_fld (kmem ?k1) (current_task ?k1) off_state DEAD\<rparr>"
  let ?b = "(a_enter a)\<lparr>a_state := (a_state a)(a_cur a := DEAD)\<rparr>"
  note R = sched_repD [OF rep]
  have R1: "sched_rep T stk ?k1 (a_enter a)" and c1: "same_cpu k ?k1" using rep_enter [OF rep] by auto
  note R1' = sched_repD [OF R1]
  have "mem_rep T stk (run_queue ?k1) (set_fld (kmem ?k1) (a_cur a) off_state DEAD) ?b"
    using mem_rep_state [OF R1'(1,2,5), of DEAD] by simp
  then have R2: "sched_rep T stk ?k2 ?b" using R1' by (simp add: sched_rep_def)
  have c: "consts_of ?k1 = consts_of k" "esp ?k1 = esp k" using c1 by (simp_all add: same_cpu_def regs_def)
  note C = consts_ofD [OF c(1)]
  have "consts_of ?k2 = consts_of k" using c(1) by (simp add: consts_of_def)
  from sched_ok_consts [OF this] have ok2: "sched_ok ?k2 ?b" using dead_ok [OF ok n] by blast
  have f: "frame ?A (kmem k) (kmem ?k1)" using R(3,5) by (simp add: enter_writes)
  have "frame ?A (kmem k) (kmem ?k2)" using area_fld [OF f R(5), of off_state DEAD] R1'(3) by simp
  moreover have "frame (?A \<union> region (esp k - 20) 20) (kmem ?k2) (kmem k')"
    using reschedule_writes [OF R2 ok2] i k' C c(2) by (simp add: task_exit_def Let_def)
  ultimately show ?thesis using frame_trans [OF frame_mono] by blast
qed

lemma create_writes:
  assumes "layout T stk rq" "t \<in> T" "task_create k t entry arg stack stack_size = (e, k')"
  shows "frame (region t 36 \<union> region (stack + stack_size - 20) 20) (kmem k) (kmem k')"
proof -
  let ?m1 = "task_mem (kmem k) t entry arg stack stack_size" and ?sp = "stack + stack_size"
  let ?m2 = "first_frame ?m1 ?sp (task_trampoline_addr k)"
  have "frame (region t 36) ?m2 (set_fld ?m2 t off_saved_sp (?sp - 20))" by (rule set_fld_frame) simp
  from frame_trans [OF frame_mono [OF task_mem_frame] frame_trans [OF frame_mono [OF first_frame_frame] frame_mono [OF this]]]
  show ?thesis using assms(3) by (auto simp: task_create_eq [OF assms(1,2)])
qed

lemma init_writes:
  assumes "layout T stk (run_queue k)" "idle_task k \<in> T"
  shows "frame (sched_area T (run_queue k) \<union> region (idle_stack k + 512 - 20) 20) (kmem k) (kmem (task_init k))"
proof -
  let ?k1 = "k\<lparr>kmem := list_initialize (kmem k) (run_queue k)\<rparr>"
  have "frame (nodes_region {run_queue k}) (kmem k) (kmem ?k1)"
    by (simp add: list_initialize_def Let_def frame_fields)
  moreover have "nodes_region {run_queue k} \<subseteq> sched_area T (run_queue k)" by (rule sched_area_nodes) blast
  then have "nodes_region {run_queue k} \<subseteq> sched_area T (run_queue k) \<union> region (idle_stack k + 512 - 20) 20" by blast
  ultimately have f: "frame (sched_area T (run_queue k) \<union> region (idle_stack k + 512 - 20) 20) (kmem k) (kmem ?k1)"
    by (rule frame_mono)
  obtain e k2 where c: "task_create ?k1 (idle_task k) NULL 0 (idle_stack k) 512 = (e, k2)" by force
  then have "kmem (task_init k) = kmem k2" by (simp add: task_init_def Let_def)
  moreover have "frame (sched_area T (run_queue k) \<union> region (idle_stack k + 512 - 20) 20) (kmem ?k1) (kmem k2)"
    by (rule frame_mono [OF create_writes [OF assms c]]) (use sched_area_task [OF assms(2)] in blast)
  ultimately show ?thesis using frame_trans [OF f] by simp
qed

lemma start_writes:
  assumes rep: "sched_rep T stk k a" and t: "t \<in> T" "a_state a t = INITIAL \<Longrightarrow> t \<notin> set (a_queue a)" and k': "task_start k t = (e, k')"
  shows "frame (sched_area T (run_queue k)) (kmem k) (kmem k')"
proof -
  let ?A = "sched_area T (run_queue k)" and ?k1 = "enter_critical_section k"
  note R = sched_repD [OF rep]
  have R1: "sched_rep T stk ?k1 (a_enter a)" and c1: "same_cpu k ?k1" using rep_enter [OF rep] by auto
  note R1' = sched_repD [OF R1]
  have rq: "run_queue ?k1 = run_queue k" using c1 by (auto simp: same_cpu_def dest: consts_ofD)
  have f: "frame ?A (kmem k) (kmem ?k1)" "current_task ?k1 \<in> T" using R(3,5) R1'(3) by (simp_all add: enter_writes)
  show ?thesis
  proof (cases "a_state a t = INITIAL")
    case False
    then have "k' = exit_critical_section ?k1" using k' sched_repD(6) [OF R1 t(1)] by (simp add: task_start_def Let_def)
    then show ?thesis using frame_trans [OF f(1) exit_writes [OF f(2)]] by simp
  next
    case True
    let ?m1 = "set_fld (kmem ?k1) t off_state READY" and ?m2 = "list_add_head (set_fld (kmem ?k1) t off_state READY) (run_queue k) t"
    have "mem_rep T stk (run_queue k) ?m1 ((a_enter a)\<lparr>a_state := (a_state (a_enter a))(t := READY)\<rparr>)"
      using mem_rep_state [OF R1'(1,2) t(1)] rq by simp
    from add_writes(2) [OF R(1) this t(1)] have "frame ?A ?m1 ?m2" using t(2) [OF True] by simp
    then have "frame ?A (kmem k) ?m2" by (rule frame_trans [OF area_fld [OF f(1) t(1) off_fields(1)]])
    then have g: "frame ?A (kmem k) (kmem (?k1\<lparr>kmem := ?m2\<rparr>))" by simp
    have "k' = exit_critical_section (?k1\<lparr>kmem := ?m2\<rparr>)"
      using k' True sched_repD(6) [OF R1 t(1)] rq by (simp add: task_start_def Let_def)
    then show ?thesis using frame_trans [OF g exit_writes] f(2) by simp
  qed
qed

lemma launch_writes:
  assumes I: "run_inv T stk C k a" and t: "t \<in> T - C" "region (stack + stack_size - 20) 20 \<subseteq> stk t"
    and k1: "task_create k t entry arg stack stack_size = (e, k1)" and k2: "task_start k1 t = (e', k2)"
  shows "frame (sched_area T (run_queue k) \<union> region (stack + stack_size - 20) 20) (kmem k) (kmem k2)"
proof -
  note R = run_invD [OF I]
  from create_first [OF I t, of entry arg] k1 have I1: "run_inv T stk (insert t C) k1 (a_create t (entry, arg) (first_ctx k (stack + stack_size)) a)"
    and c1: "consts_of k1 = consts_of k" by auto
  have nq: "t \<notin> set (a_queue a)" "t \<in> T" using t R(2,3) by (auto simp: sched_ok_def)
  have "frame (sched_area T (run_queue k1)) (kmem k1) (kmem k2)"
    using start_writes [OF run_invD(1) [OF I1] nq(2) _ k2] nq(1) by (simp add: a_create_def)
  moreover have "frame (region t 36 \<union> region (stack + stack_size - 20) 20) (kmem k) (kmem k1)"
    using create_writes [OF sched_repD(1) [OF R(1)] nq(2) k1] .
  then have "frame (sched_area T (run_queue k) \<union> region (stack + stack_size - 20) 20) (kmem k) (kmem k1)"
    by (rule frame_mono) (use sched_area_task [OF nq(2)] in blast)
  moreover have "run_queue k1 = run_queue k" using consts_ofD [OF c1] by simp
  ultimately show ?thesis using frame_trans frame_mono [OF _ Un_upper1] by metis
qed

section \<open>Property\<close>

text \<open>
  C12. The scheduler touches nothing but its own. In every reachable state, a yield and the end of a task
  write only the head of the run queue, the task structures and the 20 bytes below the running task's
  stack pointer; a start, successful or not, only the head and the structures; and the creation of a
  task only its own structure and the top 20 bytes of its stack. Everything else, the heap, the screen and
  the stacks of all tasks above their stack pointers, is byte for byte as before.
\<close>

theorem scheduler_writes:
  assumes "boot_ok T stk k0" "sched_reach T stk k0 (C, k)" "has_room stk k" "count_of k + 1 \<noteq> 0" "count_of k + 2 \<noteq> 0"
  shows "(\<exists>k1 k2. task_reschedule k = Some k1 \<and> task_exit k = Some k2
      \<and> frame (sched_area T (run_queue k0) \<union> region (esp k - 20) 20) (kmem k) (kmem k1)
      \<and> frame (sched_area T (run_queue k0) \<union> region (esp k - 20) 20) (kmem k) (kmem k2))
    \<and> (\<forall>t\<in>C. frame (sched_area T (run_queue k0)) (kmem k) (kmem (snd (task_start k t))))
    \<and> (\<forall>t\<in>T. frame (region t 36 \<union> region (stack + stack_size - 20) 20) (kmem k)
        (kmem (snd (task_create k t entry arg stack stack_size))))"
proof -
  obtain a where I: "run_inv T stk C k a" "consts_of k = consts_of k0" using reach_inv [OF assms(2,1)] by auto
  note R = run_invD [OF I(1)] and C = consts_ofD [OF I(2)]
  have n: "a_count a (a_cur a) + 1 \<noteq> 0" using assms(4) R(5) by simp
  obtain k1 k2 where "task_reschedule k = Some k1" "task_exit k = Some k2"
    using step_yield [OF I(1) assms(3,4)] step_quit [OF I(1) assms(3-5)] by blast
  moreover note reschedule_writes [OF R(1,2,4) this(1)] die_writes [OF R(1,2,4) n this(2)]
  moreover have "frame (sched_area T (run_queue k)) (kmem k) (kmem (snd (task_start k t)))" if "t \<in> C" for t
  proof -
    have "t \<in> T" "a_state a t = INITIAL \<Longrightarrow> t \<notin> set (a_queue a)"
      using that R(2,3) sched_repD(2,5) [OF R(1)] by (auto simp: sched_ok_def mem_rep_def)
    from start_writes [OF R(1) this prod.collapse [symmetric]] show ?thesis by simp
  qed
  moreover have "frame (region t 36 \<union> region (stack + stack_size - 20) 20) (kmem k)
      (kmem (snd (task_create k t entry arg stack stack_size)))" if "t \<in> T" for t
    by (rule create_writes [OF sched_repD(1) [OF R(1)] that prod.collapse [symmetric]])
  ultimately show ?thesis using C by auto
qed

text \<open>The sample system's task at 0x700, on the stack at 0x2000, yields: address 0x5000 is as before.\<close>

theorem scheduler_writes_witness:
  "\<exists>k1. task_reschedule demo_running = Some k1 \<and> kmem k1 0x5000 = kmem demo_running 0x5000"
proof -
  have n: "count_of demo_running + 1 \<noteq> 0" "count_of demo_running + 2 \<noteq> 0" by (simp_all add: demo_facts)
  from scheduler_writes [OF demo_boot_ok demo_facts(5,10) n] obtain k1 where
    k1: "task_reschedule demo_running = Some k1"
      "frame (sched_area demo_tasks (run_queue demo_boot) \<union> region (esp demo_running - 20) 20) (kmem demo_running) (kmem k1)" by blast
  have "esp demo_running = 0x2200" using demo_running_at by (auto simp: regs_def first_ctx_def)
  then have "0x5000 \<notin> sched_area demo_tasks (run_queue demo_boot) \<union> region (esp demo_running - 20) 20"
    by (simp add: sched_area_def demo_tasks_def demo_boot_def region_def)
  then show ?thesis using k1 by (simp add: frame_def)
qed

end
