(* ===== verification/Messages.thy ===== *)
theory Messages
  imports Machine
begin

text \<open>
  Messages on the machine: literal text and texts with numbers (\<open>MessageText\<close>) reach the screen as
  they are described, one after another.
\<close>

section \<open>Messages reach the screen\<close>

lemma message_says:
  assumes "message_ok ds l" "on_screen (vst s)"
  shows "says (fmt_text ds l) s (say (fmt_text ds l) s)"
proof -
  have "short_text (223 * length ds + 100) (fmt_text ds l)" "length ds \<le> 100"
    using assms(1) by (simp_all add: message_ok_def fmt_text_short)
  then show ?thesis using assms(2) by (intro say_says) (simp_all add: short_text_def)
qed

lemma literal_says: "short_text 100 bs \<Longrightarrow> on_screen (vst s) \<Longrightarrow> says bs s (say bs s)"
  by (rule say_says) (simp_all add: short_text_def)

lemma says_message:
  "says as s s1 \<Longrightarrow> message_ok ds l \<Longrightarrow> says (as @ fmt_text ds l) s (say (fmt_text ds l) s1)"
  using says_trans [OF _ message_says] says_on_screen by blast

lemma says_literal: "says as s s1 \<Longrightarrow> short_text 100 bs \<Longrightarrow> says (as @ bs) s (say bs s1)"
  using says_trans [OF _ literal_says] says_on_screen by blast

lemma says_screen: "says bs s s' \<Longrightarrow> scr s' = scr_text (scr s) bs"
  by (simp add: says_def)

lemma says_frame: "says bs s s' \<Longrightarrow> frame vga_region (kmem (kern s)) (kmem (kern s'))"
  by (simp add: says_def)

end
