(* ===== verification/Report.thy ===== *)
theory Report
  imports Boot EntryProps Messages
begin

text \<open>
  What the kernel says about itself: the report of a processor exception, through the stub that leads
  to it, and the dump of the heap.
\<close>

section \<open>The report of a fault\<close>

text \<open>The registers of the interrupted code, as the report shows them: \<^verbatim>\<open>pusha\<close> stores the stack
  pointer as it is after nine words have been pushed.\<close>

definition vector_line :: "nat \<Rightarrow> u32 \<Rightarrow> u8 list" where
  "vector_line n e = fmt_text [(lit ''vector '', Uns (plain_spec\<lparr>flen := LLong\<rparr>) (of_nat n)),
     (lit '' ('', Hex False (hex_spec 0 True) (of_nat n)), (lit ''), err code '', Hex False (hex_spec 0 True) (ucast e))] [10]"

definition register_lines :: "u32 \<Rightarrow> xregs \<Rightarrow> kernel \<Rightarrow> u8 list" where
  "register_lines cr2 x k =
    fmt_text [(lit '' CS:     '', hx 4 (ucast (csel x))), (lit '' EIP: '', hx 8 (eip k)),
              (lit '' EFL: '', hx 8 (eflags x)), (lit '' CR2: '', hx 8 cr2)] [10]
    @ fmt_text [(lit ''EAX: '', hx 8 (eax x)), (lit '' ECX: '', hx 8 (ecx x)),
                (lit '' EDX: '', hx 8 (edx x)), (lit '' EBX: '', hx 8 (ebx k))] [10]
    @ fmt_text [(lit ''ESP: '', hx 8 (esp k - 36)), (lit '' EBP: '', hx 8 (ebp k)),
                (lit '' ESI: '', hx 8 (esi k)), (lit '' EDI: '', hx 8 (edi k))] [10]
    @ fmt_text [(lit '' DS:     '', hx 4 (ucast (sel x DS))), (lit ''  ES:     '', hx 4 (ucast (sel x ES))),
                (lit ''  FS:   '', hx 4 (ucast (sel x FS))), (lit ''    GS:     '', hx 4 (ucast (sel x GS)))] [10]"

definition fault_report :: "nat \<Rightarrow> u32 \<Rightarrow> u32 \<Rightarrow> xregs \<Rightarrow> kernel \<Rightarrow> u8 list" where
  "fault_report n e cr2 x k = vector_line n e @ lit ''unhandled exception'' @ [10] @ register_lines cr2 x k"

lemma fault_messages:
  "message_ok [(lit ''vector '', Uns (plain_spec\<lparr>flen := LLong\<rparr>) a), (lit '' ('', Hex False (hex_spec 0 True) b),
     (lit ''), err code '', Hex False (hex_spec 0 True) c)] [10]"
  "message_ok [(lit '' CS:     '', hx 4 w1), (lit '' EIP: '', hx 8 w2), (lit '' EFL: '', hx 8 w3), (lit '' CR2: '', hx 8 w4)] [10]"
  "message_ok [(lit ''EAX: '', hx 8 w1), (lit '' ECX: '', hx 8 w2), (lit '' EDX: '', hx 8 w3), (lit '' EBX: '', hx 8 w4)] [10]"
  "message_ok [(lit ''ESP: '', hx 8 w1), (lit '' EBP: '', hx 8 w2), (lit '' ESI: '', hx 8 w3), (lit '' EDI: '', hx 8 w4)] [10]"
  "message_ok [(lit '' DS:     '', hx 4 w1), (lit ''  ES:     '', hx 4 w2), (lit ''  FS:   '', hx 4 w3), (lit ''    GS:     '', hx 4 w4)] [10]"
  by (simp_all add: message_ok_def short_text_def plain_spec_def hex_spec_def hx_def)

lemma die_says:
  assumes "on_screen (vst s)" "i_vector f = of_nat n" "n < 32" "i_err_code f = e"
    and "i_cs f = ucast (csel x)" "i_ip f = eip k" "i_flags f = eflags x" "i_ax f = eax x" "i_cx f = ecx x" "i_dx f = edx x"
    "i_bx f = ebx k" "i_sp f = esp k - 36" "i_bp f = ebp k" "i_si f = esi k" "i_di f = edi k"
    "i_ds f = ucast (sel x DS)" "i_es f = ucast (sel x ES)" "i_fs f = ucast (sel x FS)" "i_gs f = ucast (sel x GS)"
  shows "\<exists>s1. says (fault_report n e cr2 x k) s s1
    \<and> x86_exception_handler dev f cr2 s = Halted (s1\<lparr>kern := x86_cli (kern s1)\<rparr>)"
proof -
  have n: "\<not> 0x20 \<le> i_vector f" "(ucast (i_vector f) :: u64) = of_nat n"
    using assms(2,3) unat_small32 [of n] by (simp_all add: word_le_nat_alt word_unat_eq_iff unsigned_ucast_eq unsigned_of_nat)
  let ?s1 = "say (lit ''unhandled exception'' @ [10]) (say (vector_line n e) s)"
  have "says (vector_line n e @ lit ''unhandled exception'' @ [10]) s ?s1"
    unfolding vector_line_def by (intro says_literal message_says fault_messages assms(1)) (simp add: short_text_def)
  then have "says (fault_report n e cr2 x k) s (dump_fault_frame f cr2 ?s1)"
    unfolding fault_report_def dump_fault_frame_def register_lines_def Let_def assms(5-) append_assoc [symmetric]
    by (intro says_message fault_messages)
  moreover have "x86_exception_handler dev f cr2 s = Halted ((dump_fault_frame f cr2 ?s1)\<lparr>kern := x86_cli (kern (dump_fault_frame f cr2 ?s1))\<rparr>)"
    using n assms(4) by (simp add: x86_exception_handler_def exception_die_def vector_line_def Let_def)
  ultimately show ?thesis by blast
qed

text \<open>Whatever the vector, the handler gets the frame \<open>frame_of\<close>, and the screen is as it was.\<close>

lemma screen_frame:
  assumes "frame R m m'" "R \<inter> vga_region = {}"
  shows "screen_of m' v = screen_of m v"
proof -
  have "ld16 m' (cell_addr i) = ld16 m (cell_addr i)" if "i < 2000" for i
    using assms cell_region [OF that] by (intro ld16_cong) (auto simp: frame_def)
  then have "cells m' = cells m" by (simp add: cells_def)
  then show ?thesis by (simp add: screen_of_def)
qed

lemma fault_run:
  fixes s :: machine and x :: xregs
  defines "k \<equiv> kern s"
  assumes n: "n < 32" and v: "on_screen (vst s)" and dis: "region (esp k - 72) 72 \<inter> vga_region = {}"
  shows "\<exists>s'. irun dev cr2 ra clob (isr_stub n @ x86_interrupt_common) (deliver c n err (s, x)) = Inl s'
    \<and> scr s' = scr_text (scr s) (fault_report n (err_word n err) cr2 x k) \<and> \<not> irq_on (kern s') \<and> io s' = io s
    \<and> frame (vga_region \<union> region (esp k - 72) 72) (kmem k) (kmem (kern s'))"
proof -
  let ?e = "err_word n err" and ?p = "esp k - 68"
  let ?ws = "frame_of ?e n x k @ [ra]"
  define m1 where "m1 = kmem (fold push ?ws k)"
  define K where "K = (fold push (frame_of ?e n x k) k)\<lparr>eip := gate_target (idt c ! n), irq_on := False\<rparr>"
  obtain x1 where entry: "irun dev cr2 ra clob (entry_code n) (deliver c n err (s, x)) = Inr (s\<lparr>kern := K\<rparr>, x1)" "ecx x1 = ?p"
    using entry_run [of dev cr2 ra clob n c err s x] by (simp add: K_def k_def)
  let ?s1 = "s\<lparr>kern := push ra K\<rparr>" and ?f = "read_iframe m1 ?p"
  have km: "kmem (kern ?s1) = m1" by (simp add: m1_def K_def)
  have fr: "frame (region (esp k - 72) 72) (kmem k) m1"
    using fold_push_frame [of ?ws k] by (simp add: m1_def frame_of_def)
  have sc: "scr ?s1 = scr s" using screen_frame [OF fr dis] km by (simp add: scr_def k_def)
  note W = frame_words_at [of k m1 ?e n x ra, unfolded m1_def, OF refl, folded m1_def]
  have "on_screen (vst ?s1)" using v by simp
  from die_says [OF this _ n, of ?f ?e x k cr2 dev] W obtain s2 where
    D: "says (fault_report n ?e cr2 x k) ?s1 s2" "x86_exception_handler dev ?f cr2 ?s1 = Halted (s2\<lparr>kern := x86_cli (kern s2)\<rparr>)"
    by (auto simp: read_iframe_def)
  let ?s' = "s2\<lparr>kern := x86_cli (kern s2)\<rparr>"
  have "irun dev cr2 ra clob (isr_stub n @ x86_interrupt_common) (deliver c n err (s, x)) = Inl ?s'"
    unfolding interrupt_code irun_append entry(1) using D(2) km entry(2) by (simp add: mpush_def)
  moreover have "scr ?s' = scr s2" by (simp add: scr_def x86_cli_def)
  then have "scr ?s' = scr_text (scr s) (fault_report n ?e cr2 x k)" using says_screen [OF D(1)] sc by simp
  moreover have "frame vga_region m1 (kmem (kern s2))" using D(1) km by (simp add: says_def)
  then have "frame (vga_region \<union> region (esp k - 72) 72) (kmem k) (kmem (kern ?s'))"
    using frame_trans [OF frame_mono [OF fr] frame_mono] by (simp add: x86_cli_def)
  ultimately show ?thesis using says_fields(1) [OF D(1)] by (auto simp: x86_cli_def)
qed

section \<open>The dump of the heap\<close>

definition chunk_line :: "chunk \<Rightarrow> u8 list" where
  "chunk_line c = fmt_text [([9, 9] @ lit ''base '', Ptr (fst c)), (lit '', end 0x'', hx 0 (fst c + snd c)),
     (lit '', len 0x'', Hex False size_spec (ucast (snd c)))] [10]"

definition heap_text :: "heap \<Rightarrow> chunk list \<Rightarrow> u8 list" where
  "heap_text h cs = lit ''Heap dump (using miniheap):'' @ [10]
     @ fmt_text [([9] @ lit ''base '', Ptr (h_base h)), (lit '', len 0x'', Hex False size_spec (ucast (h_len h)))] [10]
     @ [9] @ lit ''free list:'' @ [10] @ concat (map chunk_line cs)"

lemma dump_messages:
  "message_ok [([9, 9] @ lit ''base '', Ptr a), (lit '', end 0x'', hx 0 b), (lit '', len 0x'', Hex False size_spec c)] [10]"
  "message_ok [([9] @ lit ''base '', Ptr a), (lit '', len 0x'', Hex False size_spec c)] [10]"
  by (simp_all add: message_ok_def short_text_def plain_spec_def size_spec_def hex_spec_def hx_def)

lemma dump_loop_says:
  assumes "chunks_rep (kmem (kern s)) fl (us @ vs)" "objs_region fl (map fst (us @ vs)) \<inter> vga_region = {}" "on_screen (vst s)"
  shows "\<exists>s'. dump_loop fl (hd (map fst vs @ [fl])) s = Some s' \<and> says (concat (map chunk_line vs)) s s'"
  using assms
proof (induction vs arbitrary: us s)
  case Nil
  then show ?case by (simp add: dump_loop.simps says_refl)
next
  case (Cons v vs)
  let ?s1 = "dump_free_chunk (fst v) s"
  have "chunk_len (kmem (kern s)) (fst v) = snd v" using Cons.prems(1) by (simp add: chunks_rep_def)
  then have S: "says (chunk_line v) s ?s1"
    unfolding dump_free_chunk_def chunk_line_def Let_def using message_says [OF dump_messages(1) Cons.prems(3)] by simp
  have R: "chunks_rep (kmem (kern ?s1)) fl (us @ v # vs)"
    using Cons.prems(2) by (intro chunks_rep_frame [OF Cons.prems(1) says_frame [OF S]]) blast
  then have d: "dll (kmem (kern ?s1)) fl (map fst us @ fst v # map fst vs)" by (simp add: chunks_rep_def)
  have "fst v \<noteq> fl" "node_next (kmem (kern ?s1)) (fst v) = hd (map fst vs @ [fl])"
    using dllD(5) [OF d] dll_fields(2) [OF d] by auto
  moreover obtain s' where "dump_loop fl (hd (map fst vs @ [fl])) ?s1 = Some s'" "says (concat (map chunk_line vs)) ?s1 s'"
    using Cons.IH [of ?s1 "us @ [v]"] R Cons.prems(2) says_on_screen [OF S] by auto
  ultimately show ?case using says_trans [OF S] by (simp add: dump_loop.simps [of fl "fst v"] Let_def)
qed

lemma heap_dump_says:
  assumes "chunks_rep (kmem (kern s)) (free_list h) cs" "objs_region (free_list h) (map fst cs) \<inter> vga_region = {}" "on_screen (vst s)"
  shows "\<exists>s'. heap_dump h s = Some s' \<and> says (heap_text h cs) s s'"
proof -
  define s1 where "s1 = say ([9] @ lit ''free list:'' @ [10]) (say (fmt_text [([9] @ lit ''base '', Ptr (h_base h)),
      (lit '', len 0x'', Hex False size_spec (ucast (h_len h)))] [10]) (say (lit ''Heap dump (using miniheap):'' @ [10]) s))"
  have S: "says (((lit ''Heap dump (using miniheap):'' @ [10]) @ fmt_text [([9] @ lit ''base '', Ptr (h_base h)),
      (lit '', len 0x'', Hex False size_spec (ucast (h_len h)))] [10]) @ [9] @ lit ''free list:'' @ [10]) s s1"
    unfolding s1_def by (intro says_literal says_message literal_says dump_messages assms(3)) (simp_all add: short_text_def)
  have R: "chunks_rep (kmem (kern s1)) (free_list h) ([] @ cs)"
    using assms(2) by (simp, intro chunks_rep_frame [OF assms(1) says_frame [OF S]]) blast
  then have "node_next (kmem (kern s1)) (free_list h) = hd (map fst cs @ [free_list h])"
    using dll_head(1) by (simp add: chunks_rep_def)
  with dump_loop_says [OF R] assms(2) says_on_screen [OF S] obtain s' where
    "miniheap_dump h s = Some s'" "says (concat (map chunk_line cs)) s1 s'"
    unfolding miniheap_dump_def Let_def s1_def [symmetric] by auto
  then show ?thesis using says_trans [OF S] by (simp add: heap_dump_def heap_text_def)
qed

text \<open>Writes to the blocks in use and outside the arena and the heap's structure leave the heap alone.\<close>

definition payloads :: "block list \<Rightarrow> nat set" where
  "payloads bs = (\<Union>b\<in>set bs. payload b)"

lemma alloc_inv_frame:
  assumes inv: "alloc_inv A st cs bs" and f: "frame R (hmem st) m'" and dis: "R \<inter> bytes (struct_span st \<union> (A - payloads bs)) = {}"
  shows "alloc_inv A (st\<lparr>hmem := m'\<rparr>) cs bs"
proof -
  have A: "spans cs \<subseteq> A" "block_spans bs \<subseteq> A" "spans cs \<inter> block_spans bs = {}" using inv by (auto simp: alloc_inv_def)
  have ok: "block_ok (hmem st) b" "payload b \<subseteq> span (snd b)" "span (snd b) \<subseteq> A" "span (snd b) \<inter> spans cs = {}" if "b \<in> set bs" for b
  proof -
    show b: "block_ok (hmem st) b" using inv that by (auto simp: alloc_inv_def)
    show "payload b \<subseteq> span (snd b)" using block_okD(2) [OF b] by blast
    show "span (snd b) \<subseteq> A" "span (snd b) \<inter> spans cs = {}" using A that by (auto simp: block_spans_def spans_def)
  qed
  have "spans cs \<subseteq> A - payloads bs" using A(1) ok(2,4) by (fastforce simp: payloads_def)
  then have "R \<inter> bytes (struct_span st \<union> spans cs) = {}" using dis bytes_mono [of "spans cs"] by auto
  with inv f have "heap_rep (st\<lparr>hmem := m', h_remaining := h_remaining st, h_low := h_low st\<rparr>) cs"
    by (intro heap_rep_frame) (auto simp: alloc_inv_def)
  moreover have "block_ok m' b" if b: "b \<in> set bs" for b
  proof (rule block_ok_frame [OF ok(1) [OF b] f])
    have "b = d \<or> span (snd b) \<inter> span (snd d) = {}" if "d \<in> set bs" for d
      using inv b that by (auto simp: alloc_inv_def disjoint_blocks_def sorted_wrt_iff_nth_less in_set_conv_nth)
        (metis disjoint_iff linorder_neqE_nat)+
    then have "span (snd b) - payload b \<subseteq> A - payloads bs" using ok(2,3) b by (fastforce simp: payloads_def)
    from bytes_mono [OF this] show "R \<inter> bytes (span (snd b) - payload b) = {}" using dis by auto
  qed
  ultimately show ?thesis using inv by (simp add: alloc_inv_def struct_span_def)
qed

text \<open>The dump of a heap whose memory is the kernel's.\<close>

lemma heap_dump_inv:
  assumes "alloc_inv A (h\<lparr>hmem := kmem (kern s)\<rparr>) cs bs" "bytes (struct_span h \<union> A) \<inter> vga_region = {}" "on_screen (vst s)"
  shows "\<exists>s'. heap_dump h s = Some s' \<and> says (heap_text h cs) s s' \<and> alloc_inv A (h\<lparr>hmem := kmem (kern s')\<rparr>) cs bs"
proof -
  let ?h = "h\<lparr>hmem := kmem (kern s)\<rparr>"
  have h: "struct_span ?h = struct_span h" "free_list ?h = free_list h" by (simp_all add: struct_span_def free_list_def)
  have rep: "heap_rep ?h cs" and A: "spans cs \<subseteq> A" using assms(1) by (auto simp: alloc_inv_def)
  then have r: "chunks_rep (kmem (kern s)) (free_list h) cs" using h(2) by (simp add: heap_rep_def)
  have "objs_region (free_list h) (map fst cs) \<subseteq> bytes (struct_span h \<union> spans cs)"
    using objs_region_bytes [of cs ?h] rep h by (simp add: heap_rep_def free_ok_def)
  also have "\<dots> \<subseteq> bytes (struct_span h \<union> A)" using A by (intro bytes_mono) blast
  finally have "objs_region (free_list h) (map fst cs) \<inter> vga_region = {}" using assms(2) by blast
  from heap_dump_says [OF r this assms(3)] obtain s' where s': "heap_dump h s = Some s'" "says (heap_text h cs) s s'" by blast
  have "alloc_inv A (?h\<lparr>hmem := kmem (kern s')\<rparr>) cs bs"
    using says_frame [OF s'(2)] assms(2) h(1) by (intro alloc_inv_frame [OF assms(1)]) (auto simp: bytes_def)
  then show ?thesis using s' by auto
qed

section \<open>Properties\<close>

text \<open>
  C11. A fault is reported. With the tables of \<^verbatim>\<open>x86_init\<close>, an exception of the processor at any
  point of the kernel never comes back to the interrupted code: the stub, the common code and the
  handler write the vector, the error code (0 where the processor pushes none), the address, flags and
  registers of the interrupted code on the screen, its stack pointer 36 too low, and stop with
  interrupts off; no port is written and of the memory only the screen and the 72 bytes below the stack
  pointer change.
\<close>

theorem fault_reported:
  assumes "length (idt c) = NUM_INT" "n < 32" "on_screen (vst s)" "region (esp (kern s) - 72) 72 \<inter> vga_region = {}"
  shows "\<exists>s'. interrupt dev (x86_init g i isr tss c) isr cr2 ra clob n err (s, x) = Some (Inl s')
    \<and> scr s' = scr_text (scr s) (fault_report n (if has_error_code n then err else 0) cr2 x (kern s))
    \<and> \<not> irq_on (kern s') \<and> io s' = io s
    \<and> frame (vga_region \<union> region (esp (kern s) - 72) 72) (kmem (kern s)) (kmem (kern s'))"
  using fault_run [OF assms(2-4)] assms(2) by (simp add: interrupt_eq [OF assms(1)] err_word_def)

text \<open>A page fault: vector 14 with error code 2, at the address 0xdeadbeef.\<close>

theorem fault_reported_witness:
  "\<exists>s'. interrupt (\<lambda>_ _. 0) (x86_init 0 0 0x5000 0 sample_cpu) 0x5000 0xDEADBEEF 0 (0, 0, 0) 14 2 (busy_machine, busy_regs)
      = Some (Inl s') \<and> \<not> irq_on (kern s')
    \<and> scr s' = scr_text (scr busy_machine) (fault_report 14 2 0xDEADBEEF busy_regs (kern busy_machine))
    \<and> vector_line 14 2 = map ch ''vector 14 (0xe), err code 0x2'' @ [10]"
proof -
  have "apart (0x8000 - 72) 72 vga 4000" by (simp add: apart_def vga_def)
  then have d: "region (esp (kern busy_machine) - 72) 72 \<inter> vga_region = {}"
    by (simp add: busy_machine_def vga_region_def apart_iff_disjoint)
  have f: "length (idt sample_cpu) = NUM_INT" "on_screen (vst busy_machine)" "has_error_code 14"
    by (simp_all add: busy_machine_def sample_cpu_def NUM_INT_def has_error_code_def)
  have "vector_line 14 2 = map ch ''vector 14 (0xe), err code 0x2'' @ [10]" by code_simp
  then show ?thesis using fault_reported [OF f(1) _ f(2) d, of 14] f(3) by force
qed

text \<open>
  C20. The dump of the heap shows the heap. For every heap the allocator can have, outside the frame
  buffer, \<^verbatim>\<open>heap_dump\<close> returns after walking the free list while the console writes to the same memory,
  and has printed the base and length of the heap and one line for every free chunk, in address order,
  with its two ends and its length; the heap is as it was.
\<close>

theorem heap_dump_shows:
  assumes "alloc_inv A (h\<lparr>hmem := kmem (kern s)\<rparr>) cs bs" "bytes (struct_span h \<union> A) \<inter> vga_region = {}" "on_screen (vst s)"
  shows "\<exists>s'. heap_dump h s = Some s' \<and> says (heap_text h cs) s s' \<and> alloc_inv A (h\<lparr>hmem := kmem (kern s')\<rparr>) cs bs"
  by (rule heap_dump_inv [OF assms])

theorem heap_dump_shows_witness:
  "\<exists>s'. heap_dump boot_heap (idle_machine\<lparr>kern := idle_kernel\<lparr>kmem := hmem boot_heap\<rparr>\<rparr>) = Some s'
    \<and> scr s' = scr_text (scr idle_machine) (heap_text boot_heap [boot_arena])
    \<and> chunk_line boot_arena = [9, 9] @ map ch ''base 0x10000, end 0x14000, len 0x4000'' @ [10]"
proof -
  let ?s = "idle_machine\<lparr>kern := idle_kernel\<lparr>kmem := hmem boot_heap\<rparr>\<rparr>"
  obtain h where "miniheap_init no_heap 0x10000 16384 = Some h" "h_addr h = h_addr no_heap"
    "frame (bytes (struct_span no_heap \<union> span boot_arena)) (hmem no_heap) (hmem h)"
    using miniheap_init_inv [OF chunk_ok_boot [unfolded boot_arena_def]] unfolding boot_arena_def by auto
  then have a: "h_addr boot_heap = 0x8000" and
    f: "frame (bytes (struct_span boot_heap \<union> span boot_arena)) (hmem no_heap) (hmem boot_heap)"
    by (simp_all add: boot_heap_def heap_init_def sizeof_default_heap_def no_heap_def struct_span_def)
  have "apart 0x8000 24 vga 4000" "apart 0x10000 16384 vga 4000" by (simp_all add: apart_def vga_def)
  moreover have "bytes (struct_span boot_heap) = region 0x8000 24" "bytes (span boot_arena) = region 0x10000 16384"
    by (simp_all add: region_bytes struct_span_def a span_def boot_arena_def chunk_end_def)
  ultimately have d: "bytes (struct_span boot_heap \<union> span boot_arena) \<inter> vga_region = {}"
    by (auto simp: apart_iff_disjoint vga_region_def)
  have i: "alloc_inv (span boot_arena) (boot_heap\<lparr>hmem := kmem (kern ?s)\<rparr>) [boot_arena] []" using boot_heap_inv by simp
  have "screen_of (hmem boot_heap) v = screen_of (hmem no_heap) v" for v by (rule screen_frame [OF f d])
  then have "scr ?s = scr idle_machine" by (simp add: scr_def idle_machine_def idle_kernel_def no_heap_def)
  moreover have "on_screen (vst ?s)" by simp
  moreover have "hex_text False 65536 = map ch ''10000''" "hex_text False 81920 = map ch ''14000''" "hex_text False 16384 = map ch ''4000''"
    by (simp_all add: hex_text_def digits.simps hex_char_def hextable_def)
  then have "chunk_line boot_arena = [9, 9] @ map ch ''base 0x10000, end 0x14000, len 0x4000'' @ [10]"
    by (simp add: chunk_line_def boot_arena_def hx_def hex_spec_def size_spec_def plain_spec_def field_text_def unsigned_value_def)
  moreover from heap_dump_shows [OF i d] obtain s' where "heap_dump boot_heap ?s = Some s'" "says (heap_text boot_heap [boot_arena]) ?s s'"
    by auto
  ultimately show ?thesis using says_screen [of "heap_text boot_heap [boot_arena]" ?s s'] by auto
qed

end
