(* ===== verification/BootProps.thy ===== *)
theory BootProps
  imports Boot KeyProps TaskFrame Report
begin

text \<open>
  The parts of the kernel together: from the boot loader's call to the first task, and the memory
  dump. The scheduler runs on the machine's memory, the heap in an array of it, the console in
  the frame buffer; \<open>linked\<close> says that the linker has put them apart.
\<close>

section \<open>More tasks\<close>

text \<open>A task structure that is apart from all others can join, whatever its bytes are.\<close>

lemma run_inv_grow:
  assumes I: "run_inv T stk C k a" and L: "layout T' stk' (run_queue k)" and T: "T \<subseteq> T'" "\<And>t. t \<in> T \<Longrightarrow> stk t \<subseteq> stk' t"
  shows "\<exists>a'. run_inv T' stk' C k a' \<and> a_queue a' = a_queue a \<and> a_cur a' = a_cur a \<and> a_state a' (a_cur a) = a_state a (a_cur a)"
proof -
  note R = run_invD [OF I] and S = sched_repD [OF run_invD(1) [OF I]]
  let ?m = "kmem k"
  let ?a = "a\<lparr>a_state := \<lambda>t. fld ?m t off_state, a_count := \<lambda>t. fld ?m t off_count,
      a_code := \<lambda>t. (fld ?m t off_entry, fld ?m t off_arg)\<rparr>"
  have sub: "a_susp a \<subseteq> T" "set (a_queue a) \<subseteq> T" "a_cur a \<in> T" using S(2,5) by (auto simp: mem_rep_def)
  have same: "fld ?m t off_state = a_state a t" "fld ?m t off_count = a_count a t" if "t \<in> T" for t using S(6,7) that by auto
  have "mem_rep T' stk' (run_queue k) ?m ?a"
    using S(2) T(1) sub by (auto simp: mem_rep_def) (meson T(2) subsetD)
  then have "sched_rep T' stk' k ?a" using L S(3,4) sub(3) T(1) by (auto simp: sched_rep_def)
  moreover have "sched_ok k ?a" using R(2) sub same by (auto simp: sched_ok_def subset_eq)
  ultimately have "run_inv T' stk' C k ?a" using R(3,4) T(1) by (auto simp: run_inv_def)
  then show ?thesis using same sub(3) by (intro exI [of _ ?a]) simp
qed

lemma run_inv_memory:
  assumes "run_inv T stk C k a" "frame (task_writes T stk k) (kmem k) m'"
  shows "run_inv T stk C (k\<lparr>kmem := m'\<rparr>) a"
proof -
  have "k\<lparr>kmem := m', edi := edi k, esi := esi k, ebp := ebp k, ebx := ebx k, eip := eip k, esp := esp k\<rparr> = k\<lparr>kmem := m'\<rparr>" by simp
  then show ?thesis
    using step_compute [OF assms, of "esp k" "eip k" "ebx k" "ebp k" "esi k" "edi k"] by (simp only: step_to_def)
qed

section \<open>The heap at boot\<close>

definition linked :: "links \<Rightarrow> system \<Rightarrow> bool" where
  "linked L sys \<longleftrightarrow> (let k = kern (mach sys) in
     sorted_wrt (\<lambda>(a, n) (b, m). region a n \<inter> region b m = {})
       [(run_queue k, 8), (idle_task k, 36), (idle_stack k, 512), (h_addr (heapst sys), 24), (default_heap L, 16384), (vga, 4000)]
     \<and> run_queue k \<noteq> 0 \<and> idle_task k \<noteq> 0 \<and> chunk_ok (default_heap L, 16384) \<and> unat (h_addr (heapst sys)) + 24 < 2 ^ 32)"

lemma spans_apart:
  assumes "region a n \<inter> region b m = {}" "unat a + n \<le> 2 ^ 32" "unat b + m \<le> 2 ^ 32"
  shows "{unat a ..< unat a + n} \<inter> {unat b ..< unat b + m} = {}"
proof (rule ccontr)
  assume "\<not> ?thesis"
  then obtain x where x: "x \<in> {unat a ..< unat a + n}" "x \<in> {unat b ..< unat b + m}" by blast
  then have "unat (of_nat x :: u32) = x" using assms(2) by (intro u32_of_nat) simp
  then have "of_nat x \<in> region a n \<inter> region b m" using x region_bytes [OF assms(2)] region_bytes [OF assms(3)]
    by (simp add: bytes_def)
  then show False using assms(1) by blast
qed

lemma boot_sizes: "alloc_size 36 0 = (44, 0)" "alloc_size 512 0 = (520, 0)"
  by (simp_all add: alloc_size_def sizeof_alloc_struct_begin_def sizeof_free_heap_chunk_def ROUNDUP_def)

lemma malloc_fixed:
  assumes "malloc st r = Some (p, st')"
  shows "h_base st' = h_base st \<and> h_len st' = h_len st"
proof -
  have f: "alloc_from st sz al c = (q, h) \<Longrightarrow> h_base h = h_base st \<and> h_len h = h_len st" for st sz al c q h
    by (auto simp: alloc_from_def Let_def split: if_splits prod.splits)
  have t: "alloc_try st sz al = Some (q, h) \<Longrightarrow> h_base h = h_base st \<and> h_len h = h_len st" for st sz al q h
    using f [of st sz al _ q h] by (auto simp: alloc_try_def bind_eq_Some_conv split: option.splits)
  have g: "heap_grow st sz = Some (e, h) \<Longrightarrow> h_base h = h_base st \<and> h_len h = h_len st" for st sz e h
    by (auto simp: heap_grow_def page_alloc_def Let_def split: prod.splits)
  show ?thesis using assms
    by (auto simp: malloc_def miniheap_alloc_def bind_eq_Some_conv dest!: t g split: if_splits prod.splits)
qed

lemma malloc_from_one:
  assumes inv: "alloc_inv A st [(b, n)] bs" and r: "small_request r 0" "fst (alloc_size r 0) = sz"
    and n: "sz + 12 < n" "unat sz + 12 < 2 ^ 32" and room: "unat b + 8 < 2 ^ 32"
  shows "\<exists>st'. malloc st r = Some (b + 8, st') \<and> alloc_inv A st' [(b + sz, n - sz)] ((b + 8, (b, sz)) # bs)
    \<and> frame (bytes (struct_span st \<union> span (b, n))) (hmem st) (hmem st') \<and> h_addr st' = h_addr st
    \<and> h_base st' = h_base st \<and> h_len st' = h_len st \<and> h_vst st' = h_vst st"
proof -
  have le: "sz \<le> n"
  proof -
    have "unat (sz + 12) = unat sz + 12" using n(2) by (subst unat_add_lem [THEN iffD1]) simp_all
    then show ?thesis using n(1) by (simp add: word_le_nat_alt word_less_nat_alt)
  qed
  have f: "fl_alloc (fst (alloc_size r 0)) [(b, n)] = Some ((b, sz), [(b + sz, n - sz)])"
    using n(1) le by (simp add: r(2) fl_alloc_def fl_fit_def fl_taken_def fl_rest_def sizeof_free_heap_chunk_def)
  from miniheap_alloc_inv [OF inv r(1)] obtain p st' where
    a: "miniheap_alloc st r 0 = Some (p, st')" "alloc_inv A st' [(b + sz, n - sz)] ((p, (b, sz)) # bs)" "unat p = unat b + 8"
      "frame (bytes (struct_span st \<union> spans [(b, n)])) (hmem st) (hmem st')" "h_addr st' = h_addr st"
      "h_vst st' = h_vst st"
    unfolding f by auto
  have "p = b + 8" using a(3) room by (simp add: word_unat_eq_iff unat_word_ariths)
  moreover have "malloc st r = Some (p, st')" using a(1) by (simp add: malloc_def)
  ultimately show ?thesis using a malloc_fixed [of st r p st'] by (simp add: spans_def)
qed

lemma boot_heap:
  assumes c: "chunk_ok (b, 16384)" and d: "struct_span st \<inter> span (b, 16384) = {}" "unat (h_addr st) + 24 < 2 ^ 32"
  shows "\<exists>st1 st2 st3. heap_init st b = Some st1 \<and> malloc st1 36 = Some (b + 8, st2) \<and> malloc st2 512 = Some (b + 52, st3)
    \<and> alloc_inv (span (b, 16384)) st3 [(b + 564, 15820)] [(b + 52, (b + 44, 520)), (b + 8, (b, 44))]
    \<and> frame (bytes (struct_span st \<union> span (b, 16384))) (hmem st) (hmem st3)
    \<and> h_addr st3 = h_addr st \<and> h_base st3 = b \<and> h_len st3 = 16384 \<and> h_vst st3 = h_vst st"
proof -
  let ?A = "span (b, 16384)" and ?F = "bytes (struct_span st \<union> span (b, 16384))"
  have top: "unat b + 16384 < 2 ^ 32" using c by (simp add: chunk_ok_def chunk_end_def)
  from miniheap_init_inv [OF c d] obtain st1 where 1: "heap_init st b = Some st1" "alloc_inv ?A st1 [(b, 16384)] []"
    "h_addr st1 = h_addr st" "frame ?F (hmem st) (hmem st1)" "h_base st1 = b" "h_len st1 = 16384" "h_vst st1 = h_vst st" by (auto simp: heap_init_def sizeof_default_heap_def)
  have sr: "small_request 36 0" "small_request 512 0" by (simp_all add: small_request_def pow2_or_0_def)
  from malloc_from_one [OF 1(2) sr(1) _ _ _, of 44] top obtain st2 where
    2: "malloc st1 36 = Some (b + 8, st2)" "alloc_inv ?A st2 [(b + 44, 16340)] [(b + 8, (b, 44))]"
      "frame (bytes (struct_span st1 \<union> span (b, 16384))) (hmem st1) (hmem st2)" "h_addr st2 = h_addr st1" "h_base st2 = h_base st1" "h_len st2 = h_len st1"
      "h_vst st2 = h_vst st1"
    by (auto simp: boot_sizes)
  have b44: "unat (b + 44) = unat b + 44" using top by (subst unat_add_lem [THEN iffD1]) simp_all
  from malloc_from_one [OF 2(2) sr(2) _ _ _, of 520] top b44 obtain st3 where
    3: "malloc st2 512 = Some (b + 44 + 8, st3)" "alloc_inv ?A st3 [(b + 44 + 520, 15820)] [(b + 44 + 8, (b + 44, 520)), (b + 8, (b, 44))]"
      "frame (bytes (struct_span st2 \<union> span (b + 44, 16340))) (hmem st2) (hmem st3)"
      "h_addr st3 = h_addr st2" "h_base st3 = h_base st2" "h_len st3 = h_len st2" "h_vst st3 = h_vst st2"
    by (auto simp: boot_sizes)
  have "span (b + 44, 16340) \<subseteq> span (b, 16384)" using b44 by (auto simp: span_def chunk_end_def)
  then have sub: "bytes (struct_span st2 \<union> span (b + 44, 16340)) \<subseteq> ?F" "bytes (struct_span st1 \<union> span (b, 16384)) \<subseteq> ?F"
    using 1(3) 2(4) by (auto simp: struct_span_def bytes_def)
  have "frame ?F (hmem st) (hmem st3)"
    by (rule frame_trans [OF frame_trans [OF 1(4) frame_mono [OF 2(3) sub(2)]] frame_mono [OF 3(3) sub(1)]])
  then show ?thesis using 1(1,3,5-7) 2(1,4-7) 3(1,2,4-7) by (auto simp: add.assoc)
qed

section \<open>The early part\<close>

lemma dump_e820_printed: "printed s s' \<Longrightarrow> printed s (dump_e820 p i n s')"
  by (induction n arbitrary: i s') (simp_all add: say_prints)

lemma early_init_ok:
  assumes "reads_masks dev" "on_screen (vst s)"
  shows "\<exists>m. kern (early_init dev mem blk cnt vesa vptr s) = task_init ((kern s)\<lparr>kmem := m\<rparr>) \<and> frame vga_region (kmem (kern s)) m
    \<and> on_screen (vst (early_init dev mem blk cnt vesa vptr s)) \<and> pics_ready (early_init dev mem blk cnt vesa vptr s)
    \<and> (\<forall>n. n < 16 \<longrightarrow> masked (early_init dev mem blk cnt vesa vptr s) n = (n \<noteq> 0))"
proof -
  obtain ports m where c: "console_init (kmem (kern s)) = (ports, m)" by force
  have fm: "frame vga_region (kmem (kern s)) m"
    using vga_clears [of "kmem (kern s)"] c by (auto simp: console_init_def frame_def vga_region_def)
  let ?s1 = "s\<lparr>kern := (kern s)\<lparr>kmem := m\<rparr>, io := io s @ map (\<lambda>(p, v). PortOut p v) ports\<rparr>"
  let ?s2 = "dump_e820 blk 0 (unat cnt) (say (args_text mem blk cnt vesa vptr) (say (lit ''Welcome to 3x86 OS'' @ [10]) ?s1))"
  have p: "printed ?s1 ?s2" by (intro dump_e820_printed say_prints printed_refl) (use assms(2) in simp)
  let ?s3 = "pic_init dev ?s2"
  have k3: "kern ?s3 = kern ?s2" "vst ?s3 = vst ?s2"
    by (simp_all add: pic_init_def pic_remap_def inp_eq Let_def)
  have v3: "on_screen (vst ?s3)" using printed_on_screen [OF p] unfolding k3 .
  note P = pit_init_ok [OF assms(1) masked_init(1) v3]
  have e: "early_init dev mem blk cnt vesa vptr s = (pit_init dev ?s3)\<lparr>kern := task_init (kern (pit_init dev ?s3))\<rparr>"
    unfolding early_init_def Let_def c prod.case ..
  have k2: "kern ?s2 = (kern ?s1)\<lparr>kmem := kmem (kern ?s2)\<rparr>"
  proof -
    have 1: "?s2 = ?s1\<lparr>kern := (kern ?s1)\<lparr>kmem := kmem (kern ?s2)\<rparr>, vst := vst ?s2\<rparr>" using p by (simp only: printed_def)
    show ?thesis by (subst 1) simp
  qed
  let ?m = "kmem (kern (pit_init dev ?s3))"
  have "kern (pit_init dev ?s3) = (kern ?s2)\<lparr>kmem := ?m\<rparr>" using P(8) unfolding k3 .
  also have "\<dots> = (kern s)\<lparr>kmem := ?m\<rparr>" by (subst k2) simp
  finally have K: "kern (pit_init dev ?s3) = (kern s)\<lparr>kmem := ?m\<rparr>" .
  have "frame vga_region m (kmem (kern ?s2))" using p by (simp add: printed_def)
  then have F: "frame vga_region (kmem (kern s)) ?m" using P(9) fm frame_trans unfolding k3 by blast
  have same: "pics_ready (early_init dev mem blk cnt vesa vptr s) = pics_ready (pit_init dev ?s3)"
    "masked (early_init dev mem blk cnt vesa vptr s) = masked (pit_init dev ?s3)"
    unfolding e by (simp_all add: pics_ready_def masked_def fun_eq_iff)
  have M: "masked (pit_init dev ?s3) n = (n \<noteq> 0)" if "n < 16" for n
    using P(2) [OF that] masked_init(2) [OF that] by simp
  show ?thesis
  proof (intro exI [of _ ?m] conjI)
    show "kern (early_init dev mem blk cnt vesa vptr s) = task_init ((kern s)\<lparr>kmem := ?m\<rparr>)"
      unfolding e K [symmetric] by simp
    show "on_screen (vst (early_init dev mem blk cnt vesa vptr s))" unfolding e using P(4) by simp
  qed (use F P(1) M in \<open>simp_all add: same\<close>)
qed

text \<open>What the early part shows, on a cleared screen. The memory map is read while the console writes.\<close>

definition e820_lines :: "mem \<Rightarrow> addr \<Rightarrow> nat \<Rightarrow> nat \<Rightarrow> u8 list" where
  "e820_lines m p i n = concat (map (\<lambda>j. e820_text j (get_e820 m (p + 32 * of_nat j))) [i..<i + n])"

definition early_log :: "u32 \<Rightarrow> addr \<Rightarrow> u32 \<Rightarrow> u32 \<Rightarrow> addr \<Rightarrow> mem \<Rightarrow> u8 list" where
  "early_log mem blk cnt vesa vptr m = lit ''Welcome to 3x86 OS'' @ [10] @ args_text mem blk cnt vesa vptr
     @ e820_lines m blk 0 (unat cnt) @ lit ''PIT started at 100 Hz'' @ [10]"

definition cleared :: "vga_state \<Rightarrow> screen" where
  "cleared v = \<lparr>s_cells = replicate 2000 blank, s_row = unat (vline v), s_col = unat (vcol v)\<rparr>"

lemma e820_text_says: "on_screen (vst s) \<Longrightarrow> says (e820_text i e) s (say (e820_text i e) s)"
  unfolding e820_text_def Let_def
  by (intro message_says) (simp_all add: message_ok_def short_text_def plain_spec_def size_spec_def)

lemma args_text_says: "on_screen (vst s) \<Longrightarrow> says (args_text a b c d e) s (say (args_text a b c d e) s)"
  unfolding args_text_def by (intro message_says) (simp_all add: message_ok_def short_text_def plain_spec_def size_spec_def)

lemma dump_e820_says:
  assumes "32 * (i + n) \<le> 2 ^ 32" "region p (32 * (i + n)) \<inter> vga_region = {}" "on_screen (vst s)" "frame vga_region m (kmem (kern s))"
  shows "says (e820_lines m p i n) s (dump_e820 p i n s)"
  using assms
proof (induction n arbitrary: i s)
  case 0
  then show ?case by (simp add: e820_lines_def says_refl)
next
  case (Suc n)
  have u: "unat (32 * of_nat i :: u32) = 32 * i"
    using Suc.prems(1) u32_of_nat [of "32 * i"] by simp
  have "region (p + 32 * of_nat i) 20 \<subseteq> region p (32 * (i + Suc n))" using Suc.prems(1) u by (intro region_field) simp
  then have e: "get_e820 (kmem (kern s)) (p + 32 * of_nat i) = get_e820 m (p + 32 * of_nat i)"
    using Suc.prems(2) by (intro get_e820_frame [OF Suc.prems(4)]) blast
  let ?s1 = "say (e820_text i (get_e820 m (p + 32 * of_nat i))) s"
  note S = e820_text_says [OF Suc.prems(3), of i "get_e820 m (p + 32 * of_nat i)"]
  have "says (e820_lines m p (i + 1) n) ?s1 (dump_e820 p (i + 1) n ?s1)"
    using Suc.prems says_on_screen [OF S] frame_trans [OF Suc.prems(4) says_frame [OF S]] by (intro Suc.IH) simp_all
  moreover have "[i..<i + Suc n] = i # [i + 1..<i + 1 + n]" by (simp add: upt_rec)
  ultimately show ?case using says_trans [OF S] by (simp add: e820_lines_def e)
qed

lemma early_init_shows:
  fixes s :: machine
  assumes dev: "reads_masks dev" and v: "on_screen (vst s)" and lay: "layout T stk (run_queue (kern s))" "idle_task (kern s) \<in> T"
    and dis: "(sched_area T (run_queue (kern s)) \<union> region (idle_stack (kern s) + 512 - 20) 20) \<inter> vga_region = {}"
    and blk: "32 * unat cnt \<le> 2 ^ 32" "region blk (32 * unat cnt) \<inter> vga_region = {}"
  shows "scr (early_init dev mem blk cnt vesa vptr s) = scr_text (cleared (vst s)) (early_log mem blk cnt vesa vptr (kmem (kern s)))"
proof -
  obtain ports m where c: "console_init (kmem (kern s)) = (ports, m)" by force
  have fm: "frame vga_region (kmem (kern s)) m" and cl: "cells m = replicate 2000 blank"
    using vga_clears [of "kmem (kern s)"] c by (auto simp: console_init_def frame_def vga_region_def)
  let ?s1 = "s\<lparr>kern := (kern s)\<lparr>kmem := m\<rparr>, io := io s @ map (\<lambda>(p, v). PortOut p v) ports\<rparr>"
  let ?w = "lit ''Welcome to 3x86 OS'' @ [10]" and ?e = "e820_lines (kmem (kern s)) blk 0 (unat cnt)"
  let ?sw = "say ?w ?s1"
  let ?sa = "say (args_text mem blk cnt vesa vptr) ?sw"
  let ?s2 = "dump_e820 blk 0 (unat cnt) ?sa"
  have W: "says ?w ?s1 ?sw" using v by (intro literal_says) (simp_all add: short_text_def)
  note A = says_trans [OF W args_text_says [OF says_on_screen [OF W], of mem blk cnt vesa vptr]]
  have "frame vga_region (kmem (kern s)) (kmem (kern ?sa))" using frame_trans [OF fm] says_frame [OF A] by simp
  with dump_e820_says [of 0 "unat cnt" blk ?sa "kmem (kern s)"] blk says_on_screen [OF A] have "says ?e ?sa ?s2" by simp
  note E = says_trans [OF A this]
  let ?s3 = "pic_init dev ?s2"
  have k3: "kern ?s3 = kern ?s2" "vst ?s3 = vst ?s2"
    by (simp_all add: pic_init_def pic_remap_def inp_eq Let_def)
  have v3: "on_screen (vst ?s3)" using says_on_screen [OF E] unfolding k3 .
  note P = pit_init_ok [OF dev masked_init(1) v3]
  let ?s4 = "pit_init dev ?s3"
  have kk: "kern ?s4 = (kern s)\<lparr>kmem := kmem (kern ?s4)\<rparr>"
  proof -
    have "kern ?s4 = (kern ?s2)\<lparr>kmem := kmem (kern ?s4)\<rparr>" using P(8) unfolding k3 .
    also have "\<dots> = (kern s)\<lparr>kmem := kmem (kern ?s4)\<rparr>" by (subst says_kern [OF E]) simp
    finally show ?thesis .
  qed
  have "scr ?s1 = cleared (vst s)" by (simp add: scr_def screen_of_def cleared_def cl)
  then have "scr ?s4 = scr_text (cleared (vst s)) (early_log mem blk cnt vesa vptr (kmem (kern s)))"
    using P(5) says_screen [OF E] k3 by (simp add: scr_def early_log_def)
  moreover have "early_init dev mem blk cnt vesa vptr s = ?s4\<lparr>kern := task_init (kern ?s4)\<rparr>"
    unfolding early_init_def Let_def c prod.case ..
  moreover have q: "run_queue (kern ?s4) = run_queue (kern s)" "idle_task (kern ?s4) = idle_task (kern s)" "idle_stack (kern ?s4) = idle_stack (kern s)"
    by (subst kk, simp)+
  have "frame (sched_area T (run_queue (kern s)) \<union> region (idle_stack (kern s) + 512 - 20) 20) (kmem (kern ?s4)) (kmem (task_init (kern ?s4)))"
    using init_writes [of T stk "kern ?s4"] lay unfolding q by blast
  from screen_frame [OF this dis] have "scr (?s4\<lparr>kern := task_init (kern ?s4)\<rparr>) = scr ?s4" by (simp add: scr_def)
  ultimately show ?thesis by simp
qed

section \<open>From the boot loader to the first task\<close>

text \<open>The boot task is the first block of the heap, its stack the second.\<close>

definition boot_stacks :: "addr \<Rightarrow> addr \<Rightarrow> addr \<Rightarrow> addr set" where
  "boot_stacks b idle_stk u = (if u = b + 8 then region (b + 52) 512 else region idle_stk 512)"

lemma heap_parts: "region (b + 8) 36 \<subseteq> region (b :: addr) 16384" "region (b + 52) 512 \<subseteq> region b 16384"
    "region (b + 52) 512 \<inter> region (b + 8) 36 = {}" "region (b + 52 + 512 - 20) 20 \<subseteq> region (b + 52) 512" "apart (b + 8) 36 (b + 8) 36 = False"
proof -
  show "region (b + 8) 36 \<subseteq> region b 16384" "region (b + 52) 512 \<subseteq> region b 16384" by (rule region_field, simp)+
  show "region (b + 52) 512 \<inter> region (b + 8) 36 = {}"
    by (simp add: apart_def flip: apart_iff_disjoint)
  show "region (b + 52 + 512 - 20) 20 \<subseteq> region (b + 52) 512"
    using region_field [of 492 20 512 "b + 52"] by (simp add: ac_simps)
  show "apart (b + 8) 36 (b + 8) 36 = False" by (simp add: apart_def)
qed

lemma linkedD:
  assumes "linked L sys"
  defines "k \<equiv> kern (mach sys)" and "b \<equiv> default_heap L" and "h \<equiv> h_addr (heapst sys)"
  shows "region (run_queue k) 8 \<inter> region (idle_task k) 36 = {}" "region (idle_stack k) 512 \<inter> region (run_queue k) 8 = {}"
    "region (idle_stack k) 512 \<inter> region (idle_task k) 36 = {}" "run_queue k \<noteq> 0" "idle_task k \<noteq> 0"
    "chunk_ok (b, 16384)" "unat h + 24 < 2 ^ 32" "region h 24 \<inter> region b 16384 = {}"
    "region b 16384 \<inter> region (run_queue k) 8 = {}" "region b 16384 \<inter> region (idle_task k) 36 = {}"
    "region b 16384 \<inter> region (idle_stack k) 512 = {}" "region h 24 \<inter> region (run_queue k) 8 = {}"
    "region h 24 \<inter> region (idle_task k) 36 = {}" "vga_region \<inter> region (run_queue k) 8 = {}"
    "vga_region \<inter> region (idle_task k) 36 = {}" "vga_region \<inter> region b 16384 = {}"
    "vga_region \<inter> region (idle_stack k) 512 = {}" "vga_region \<inter> region h 24 = {}" "region h 24 \<inter> region (idle_stack k) 512 = {}"
  using assms(1) by (auto simp: linked_def Let_def k_def b_def h_def vga_region_def)

lemma boot_layout:
  assumes "linked L sys"
  defines "k \<equiv> kern (mach sys)" and "b \<equiv> default_heap L"
  shows "layout {idle_task k} (\<lambda>_. region (idle_stack k) 512) (run_queue k)"
    "layout {idle_task k, b + 8} (boot_stacks b (idle_stack k)) (run_queue k)" "b + 8 \<noteq> idle_task k"
proof -
  note D = linkedD [OF assms(1), folded k_def b_def] and H = heap_parts [of b]
  have i: "idle_task k \<in> region (idle_task k) 36" "b + 8 \<in> region (b + 8) 36" by (simp_all add: region_def)
  show ne: "b + 8 \<noteq> idle_task k" using D(10) subsetD [OF H(1) i(2)] i(1) by auto
  have nz: "b + 8 \<noteq> 0"
  proof
    assume "b + 8 = 0"
    moreover have "unat (b + 8) = unat b + 8" using D(6) by (subst unat_add_lem [THEN iffD1]) (simp_all add: chunk_ok_def chunk_end_def)
    ultimately show False by simp
  qed
  show "layout {idle_task k} (\<lambda>_. region (idle_stack k) 512) (run_queue k)"
    using D by (simp add: layout_def apart_iff_disjoint)
  show "layout {idle_task k, b + 8} (boot_stacks b (idle_stack k)) (run_queue k)"
  proof -
    let ?Q = "region (run_queue k) 8" and ?I = "region (idle_task k) 36" and ?S = "region (idle_stack k) 512"
      and ?t = "region (b + 8) 36" and ?s = "region (b + 52) 512"
    have "?Q \<inter> ?t = {}" "?I \<inter> ?t = {}" "?S \<inter> ?s = {}" "?s \<inter> ?Q = {}" "?S \<inter> ?t = {}" "?s \<inter> ?I = {}"
      using D(9-11) H(1,2) by blast+
    note F = this D(1-3) H(3) and F' = this [THEN trans [OF Int_commute]] D(1-3) [THEN trans [OF Int_commute]]
    show ?thesis unfolding layout_def boot_stacks_def using D(4,5) ne nz F F' by (simp add: apart_iff_disjoint)
  qed
qed

text \<open>Up to the two blocks: the idle task is the running one, the boot task's structure can join.\<close>

lemma boot_prepared:
  assumes L: "linked L sys" and dev: "reads_masks dev" and scr: "on_screen (vst (mach sys))" and irq: "\<not> irq_on (kern (mach sys))"
    and s1: "s1 = early_init dev mem blk cnt vesa vptr (mach sys)"
  defines "k \<equiv> kern (mach sys)" and "b \<equiv> default_heap L"
  shows "on_screen (vst s1) \<and> pics_ready s1 \<and> (\<forall>n. n < 16 \<longrightarrow> masked s1 n = (n \<noteq> 0))
    \<and> consts_of (kern s1) = consts_of k \<and> regs (kern s1) = regs k
    \<and> (\<exists>h1 h2 h3 a. heap_init ((heapst sys)\<lparr>hmem := kmem (kern s1), h_vst := vst s1\<rparr>) b = Some h1 \<and> malloc h1 36 = Some (b + 8, h2)
      \<and> malloc h2 512 = Some (b + 52, h3)
      \<and> alloc_inv (span (b, 16384)) h3 [(b + 564, 15820)] [(b + 52, (b + 44, 520)), (b + 8, (b, 44))]
      \<and> run_inv {idle_task k, b + 8} (boot_stacks b (idle_stack k)) {idle_task k} ((kern s1)\<lparr>kmem := hmem h3\<rparr>) a
      \<and> a_queue a = [] \<and> a_cur a = idle_task k \<and> a_state a (idle_task k) = INITIAL \<and> count_of ((kern s1)\<lparr>kmem := hmem h3\<rparr>) = 1
      \<and> h_addr h3 = h_addr (heapst sys) \<and> h_base h3 = b \<and> h_len h3 = 16384 \<and> h_vst h3 = vst s1
      \<and> frame (region (h_addr (heapst sys)) 24 \<union> region b 16384) (kmem (kern s1)) (hmem h3))"
proof -
  let ?i = "idle_task k" and ?idlestk = "\<lambda>_. region (idle_stack k) 512"
  note D = linkedD [OF L, folded b_def k_def] and Lay = boot_layout [OF L, folded b_def k_def]
  from early_init_ok [OF dev scr, of mem blk cnt vesa vptr] obtain m where
    E: "kern s1 = task_init (k\<lparr>kmem := m\<rparr>)" "on_screen (vst s1)" "pics_ready s1"
    "\<forall>n. n < 16 \<longrightarrow> masked s1 n = (n \<noteq> 0)" unfolding s1 k_def by blast
  have "boot_ok {?i} ?idlestk (k\<lparr>kmem := m\<rparr>)"
    using Lay(1) irq region_field [of 492 20 512 "idle_stack k"] by (simp add: boot_ok_def k_def ac_simps)
  from rep_init [OF this] obtain a where a: "sched_rep {?i} ?idlestk (kern s1) a" "sched_ok (kern s1) a" "same_cpu (k\<lparr>kmem := m\<rparr>) (kern s1)"
    "a_cur a = ?i" "a_susp a = {}" "a_queue a = []" "a_state a ?i = INITIAL" "a_count a ?i = 1" unfolding E(1) by auto
  have con: "consts_of (kern s1) = consts_of k" "regs (kern s1) = regs k" using a(3) by (simp_all add: same_cpu_def consts_of_def regs_def)
  note C = consts_ofD [OF con(1)]
  have I: "run_inv {?i} ?idlestk {?i} (kern s1) a" using a C by (simp add: run_inv_def)
  let ?st = "(heapst sys)\<lparr>hmem := kmem (kern s1), h_vst := vst s1\<rparr>"
  have top: "unat b + 16384 < 2 ^ 32" using D(6) by (simp add: chunk_ok_def chunk_end_def)
  have rb: "region (h_addr (heapst sys)) 24 = bytes (struct_span ?st)" "region b 16384 = bytes (span (b, 16384))"
    using region_bytes [of "h_addr (heapst sys)" 24] region_bytes [of b 16384] D(7) top by (simp_all add: struct_span_def span_def chunk_end_def)
  have "struct_span ?st \<inter> span (b, 16384) = {}"
    using spans_apart [OF D(8)] D(7) top by (simp add: struct_span_def span_def chunk_end_def)
  from boot_heap [OF D(6) this] D(7) obtain h1 h2 h3 where h: "heap_init ?st b = Some h1" "malloc h1 36 = Some (b + 8, h2)"
    "malloc h2 512 = Some (b + 52, h3)" "alloc_inv (span (b, 16384)) h3 [(b + 564, 15820)] [(b + 52, (b + 44, 520)), (b + 8, (b, 44))]"
    "frame (bytes (struct_span ?st \<union> span (b, 16384))) (kmem (kern s1)) (hmem h3)"
    "h_addr h3 = h_addr (heapst sys)" "h_base h3 = b" "h_len h3 = 16384" "h_vst h3 = vst s1" by auto
  have fr: "frame (region (h_addr (heapst sys)) 24 \<union> region b 16384) (kmem (kern s1)) (hmem h3)" using h(5) by (simp only: rb bytes_simps)
  have "current_task (kern s1) = ?i" using run_invD(6) [OF I] a(4) by simp
  then have "bytes (struct_span ?st \<union> span (b, 16384)) \<subseteq> task_writes {?i} ?idlestk (kern s1)"
    using D(9,10,12,13) C unfolding bytes_simps(2) rb [symmetric] by (auto simp: task_writes_def)
  from run_inv_memory [OF I frame_mono [OF h(5) this]] have I2: "run_inv {?i} ?idlestk {?i} ((kern s1)\<lparr>kmem := hmem h3\<rparr>) a" .
  have "layout {?i, b + 8} (boot_stacks b (idle_stack k)) (run_queue ((kern s1)\<lparr>kmem := hmem h3\<rparr>))" using Lay(2) C by simp
  from run_inv_grow [OF I2 this] Lay(3) obtain a1 where
    "run_inv {?i, b + 8} (boot_stacks b (idle_stack k)) {?i} ((kern s1)\<lparr>kmem := hmem h3\<rparr>) a1" "a_queue a1 = []" "a_cur a1 = ?i" "a_state a1 ?i = INITIAL"
    using a by (auto simp: boot_stacks_def)
  moreover have "count_of ((kern s1)\<lparr>kmem := hmem h3\<rparr>) = 1" using run_invD(5) [OF I2] a by simp
  ultimately show ?thesis using E(2-4) con h(1-4,6-9) fr by blast
qed

text \<open>
  The state in which the first task starts. From the two blocks on, the kernel has written the screen
  and \<open>kernel_area\<close>: the run queue, the task structures and the stacks.
\<close>

definition kernel_area :: "links \<Rightarrow> system \<Rightarrow> addr set" where
  "kernel_area L sys = (let k = kern (mach sys); b = default_heap L in
     region (run_queue k) 8 \<union> region (idle_task k) 36 \<union> region (b + 8) 36 \<union> region (idle_stack k) 512 \<union> region (b + 52) 512)"

definition first_task :: "links \<Rightarrow> system \<Rightarrow> system \<Rightarrow> sched \<Rightarrow> bool" where
  "first_task L sys sys' a \<longleftrightarrow> (let k = kern (mach sys); b = default_heap L; k' = kern (mach sys'); h = heapst sys' in
     run_inv {idle_task k, b + 8} (boot_stacks b (idle_stack k)) {b + 8, idle_task k} k' a
     \<and> a_cur a = b + 8 \<and> a_queue a = [] \<and> a_state a (b + 8) = RUNNING \<and> a_count a (b + 8) = 0
     \<and> a_state a (idle_task k) = INITIAL \<and> a_count a (idle_task k) = 2 \<and> a_ctx a (idle_task k) = call_ctx k
     \<and> a_code a (b + 8) = (main2_addr L, 0) \<and> a_irq a
     \<and> consts_of k' = consts_of k \<and> regs k' = first_ctx k (b + 52 + 512)
     \<and> alloc_inv (span (b, 16384)) h [(b + 564, 15820)] [(b + 52, (b + 44, 520)), (b + 8, (b, 44))]
     \<and> h_addr h = h_addr (heapst sys) \<and> h_base h = b \<and> h_len h = 16384
     \<and> frame (vga_region \<union> kernel_area L sys) (hmem h) (kmem k'))"

lemma kernel_area_parts:
  "sched_area {idle_task (kern (mach sys)), default_heap L + 8} (run_queue (kern (mach sys))) \<subseteq> kernel_area L sys"
  "region (idle_stack (kern (mach sys))) 512 \<subseteq> kernel_area L sys" "region (default_heap L + 52) 512 \<subseteq> kernel_area L sys"
  by (auto simp: kernel_area_def sched_area_def Let_def)

lemma kernel_area_screen: "linked L sys \<Longrightarrow> kernel_area L sys \<inter> vga_region = {}"
  using linkedD(14-17) [of L sys] heap_parts(1,2) [of "default_heap L"] by (auto simp: kernel_area_def Let_def)

lemma boot_reaches:
  assumes L: "linked L sys" and dev: "reads_masks dev" and scr: "on_screen (vst (mach sys))"
    and cpu: "\<not> irq_on (kern (mach sys))"
      "region (esp (kern (mach sys)) - 20) 20 \<subseteq> region (idle_stack (kern (mach sys))) 512"
  defines "b \<equiv> default_heap L"
  shows "\<exists>sys' a. start_c dev L mem blk cnt vesa vptr sys = Some (b + 8, b + 52, sys') \<and> first_task L sys sys' a
    \<and> scr (mach sys') = scr_text (scr (early_init dev mem blk cnt vesa vptr (mach sys))) (lit ''starting multitasking'' @ [10])
    \<and> on_screen (vst (mach sys')) \<and> pics_ready (mach sys') \<and> (\<forall>n < 16. masked (mach sys') n \<longleftrightarrow> n \<noteq> 0)"
proof -
  let ?k = "kern (mach sys)" and ?s1 = "early_init dev mem blk cnt vesa vptr (mach sys)"
  let ?i = "idle_task ?k" and ?t = "b + 8" and ?stk = "boot_stacks b (idle_stack ?k)" and ?W = "kernel_area L sys"
  note D = linkedD [OF L, folded b_def] and ne = boot_layout(3) [OF L, folded b_def] and H = heap_parts [of b]
  from boot_prepared [OF L dev scr cpu(1) refl, of mem blk cnt vesa vptr, folded b_def] obtain h1 h2 h3 a where
    E: "on_screen (vst ?s1)" "pics_ready ?s1" "\<forall>n. n < 16 \<longrightarrow> masked ?s1 n = (n \<noteq> 0)"
      and con: "consts_of (kern ?s1) = consts_of ?k" "regs (kern ?s1) = regs ?k"
      and h: "heap_init ((heapst sys)\<lparr>hmem := kmem (kern ?s1), h_vst := vst ?s1\<rparr>) b = Some h1" "malloc h1 36 = Some (?t, h2)" "malloc h2 512 = Some (b + 52, h3)"
        "alloc_inv (span (b, 16384)) h3 [(b + 564, 15820)] [(b + 52, (b + 44, 520)), (b + 8, (b, 44))]"
      and hf: "h_addr h3 = h_addr (heapst sys)" "h_base h3 = b" "h_len h3 = 16384" "h_vst h3 = vst ?s1"
        "frame (region (h_addr (heapst sys)) 24 \<union> region b 16384) (kmem (kern ?s1)) (hmem h3)"
      and a: "run_inv {?i, ?t} ?stk {?i} ((kern ?s1)\<lparr>kmem := hmem h3\<rparr>) a" "a_queue a = []" "a_cur a = ?i" "a_state a ?i = INITIAL"
        "count_of ((kern ?s1)\<lparr>kmem := hmem h3\<rparr>) = 1" by blast
  note C = consts_ofD [OF con(1)]
  let ?k2 = "(kern ?s1)\<lparr>kmem := hmem h3\<rparr>"
  have t: "?t \<in> {?i, ?t} - {?i}" "region (b + 52 + 512 - 20) 20 \<subseteq> ?stk ?t" using ne H(4) by (auto simp: boot_stacks_def)
  from launch [OF a(1) t, of "main2_addr L" 0] a(5) obtain k3 k4 a2 where
    l: "task_create ?k2 ?t (main2_addr L) 0 (b + 52) 512 = (0, k3)" "task_start k3 ?t = (0, k4)" "run_inv {?i, ?t} ?stk {?t, ?i} k4 a2"
      "regs k4 = regs ?k2" "consts_of k4 = consts_of ?k2" "count_of k4 = 1" "a_queue a2 = [?t]" "a_cur a2 = ?i" "a_count a2 ?t = 1"
      "a_code a2 ?t = (main2_addr L, 0)" "a_ctx a2 ?t = first_ctx ?k2 (b + 52 + 512)" "a_state a2 ?i = INITIAL"
    using a(2-4) by auto
  have f4: "frame ?W (hmem h3) (kmem k4)"
    using frame_mono [OF launch_writes [OF a(1) t l(1,2)], of ?W] kernel_area_parts [where sys = sys and L = L] H(4) C by (auto simp: b_def)
  let ?s5 = "say (lit ''starting multitasking'' @ [10]) (?s1\<lparr>kern := k4\<rparr>)"
  have S: "says (lit ''starting multitasking'' @ [10]) (?s1\<lparr>kern := k4\<rparr>) ?s5" by (rule say_says) (use E(1) in auto)
  have k5: "kern ?s5 = k4\<lparr>kmem := kmem (kern ?s5)\<rparr>" using says_kern [OF S] by simp
  have c4: "current_task k4 = ?i" "run_queue k4 = run_queue ?k" "idle_task k4 = ?i"
    using run_invD(6) [OF l(3)] l(8) consts_ofD [OF l(5)] C by simp_all
  have "vga_region \<inter> region ?t 36 = {}" "vga_region \<inter> region (b + 52) 512 = {}" using D(16) H(1,2) by blast+
  then have "vga_region \<subseteq> task_writes {?i, ?t} ?stk k4"
    using D(14,15) c4 ne by (auto simp: task_writes_def boot_stacks_def)
  then have "frame (task_writes {?i, ?t} ?stk k4) (kmem k4) (kmem (kern ?s5))" using S by (auto simp: says_def intro: frame_mono)
  from run_inv_memory [OF l(3) this] have I5: "run_inv {?i, ?t} ?stk {?t, ?i} (kern ?s5) a2" by (subst k5)
  have con5: "consts_of (kern ?s5) = consts_of ?k" using l(5) con(1) by (subst k5, simp add: consts_of_def)
  have r5: "regs (kern ?s5) = regs ?k" "count_of (kern ?s5) = 1"
    using l(4) con(2) run_invD(5) [OF I5] run_invD(5) [OF l(3)] l(6) by (subst k5, simp add: regs_def, simp)
  have call5: "call_ctx (kern ?s5) = call_ctx ?k" using r5(1) consts_ofD [OF con5] by (simp add: call_ctx_def)
  have sp5: "esp (kern ?s5) = esp ?k" using r5(1) by (simp add: regs_def)
  have room: "has_room ?stk (kern ?s5)"
    using cpu(2) r5(1) run_invD(6) [OF I5] l(8) ne by (simp add: has_room_def regs_def boot_stacks_def)
  have n5: "count_of (kern ?s5) + 1 \<noteq> 0" "a_count a2 ?i = 1" using r5(2) run_invD(5) [OF I5] l(8) by simp_all
  let ?a6 = "a_reschedule ?i (call_ctx ?k) a2"
  from step_yield [OF I5 room n5(1)] call5 consts_ofD [OF con5] obtain k6 where
    k6: "task_reschedule (kern ?s5) = Some k6" "step_to {?i, ?t} ?stk (kern ?s5) a2 {?t, ?i} k6 ?a6" by auto
  have A: "a_cur ?a6 = ?t" "a_queue ?a6 = []" "a_state ?a6 ?t = RUNNING" "a_count ?a6 ?t = 0" "a_irq ?a6"
    "a_state ?a6 ?i = INITIAL" "a_count ?a6 ?i = 2" "a_ctx ?a6 ?i = call_ctx ?k" "a_code ?a6 ?t = (main2_addr L, 0)"
    using l(7-10,12) n5(2) ne
    by (simp_all add: a_reschedule_def a_exit_def a_switch_def a_pick_def a_requeue_def a_enter_def Let_def)
  have I6: "run_inv {?i, ?t} ?stk {?t, ?i} k6 ?a6" "consts_of k6 = consts_of ?k" "regs k6 = first_ctx ?k (b + 52 + 512)"
    using k6(2) A(1) l(8,11) ne con5 C by (auto simp: step_to_def first_ctx_def)
  have idle5: "idle_task (kern ?s5) \<in> {?i, ?t}" using consts_ofD [OF con5] by simp
  note R5 = reschedule_writes [OF run_invD(1,2) [OF I5] idle5 k6(1)]
  have "frame ?W (kmem (kern ?s5)) (kmem k6)"
    by (rule frame_mono [OF R5]) (use kernel_area_parts [where sys = sys and L = L] cpu(2) consts_ofD [OF con5] sp5 in \<open>auto simp: b_def\<close>)
  note f6 = this
  have "frame vga_region (kmem k4) (kmem (kern ?s5))" using says_frame [OF S] by simp
  then have f: "frame (vga_region \<union> ?W) (hmem h3) (kmem k6)"
    using frame_trans [OF frame_mono [OF f4 Un_upper2] frame_trans [OF frame_mono [OF _ Un_upper1] frame_mono [OF f6 Un_upper2]]] by blast
  let ?sys = "\<lparr>mach = ?s5\<lparr>kern := k6\<rparr>, heapst = h3, proc = x86_init (gdt_addr L) (idt_addr L) (isr_table L) (kernel_tss_addr L) (proc sys)\<rparr>"
  have st: "of_nat sizeof_task = (36 :: u32)" by (simp add: sizeof_task_def)
  have "start_c dev L mem blk cnt vesa vptr sys = Some (?t, b + 52, ?sys)"
    unfolding start_c_def Let_def st using h(1-3) hf(4) l(1,2) k6(1) by (simp add: b_def task_become_idle_def)
  moreover have "first_task L sys ?sys ?a6"
    using I6 A h(4) hf(1-3) f by (simp add: first_task_def Let_def flip: b_def)
  moreover have "scr (?s5\<lparr>kern := k6\<rparr>) = scr_text (scr ?s1) (lit ''starting multitasking'' @ [10])"
  proof -
    have w: "?W \<inter> vga_region = {}" by (rule kernel_area_screen [OF L])
    have "scr (?s5\<lparr>kern := k6\<rparr>) = scr ?s5"
      using screen_frame [OF f6 w] by (simp add: scr_def)
    moreover have "region (h_addr (heapst sys)) 24 \<union> region b 16384 \<subseteq> - vga_region" using D(16,18) by blast
    then have "scr (?s1\<lparr>kern := ?k2\<rparr>) = scr ?s1" using screen_frame [OF hf(5)] by (simp add: scr_def disjoint_eq_subset_Compl)
    moreover have "scr (?s1\<lparr>kern := k4\<rparr>) = scr (?s1\<lparr>kern := ?k2\<rparr>)" using screen_frame [OF f4 w] by (simp add: scr_def)
    ultimately show ?thesis using says_screen [OF S] by simp
  qed
  moreover have "io ?s5 = io ?s1" using says_fields(1) [OF S] by simp
  then have "master (?s5\<lparr>kern := k6\<rparr>) = master ?s1 \<and> slave (?s5\<lparr>kern := k6\<rparr>) = slave ?s1" by (intro chips_io) simp
  then have "pics_ready (?s5\<lparr>kern := k6\<rparr>) = pics_ready ?s1 \<and> masked (?s5\<lparr>kern := k6\<rparr>) = masked ?s1" by (intro ready_transfer) simp_all
  ultimately show ?thesis using says_on_screen [OF S] E(2,3) by (intro exI [of _ ?sys] exI [of _ ?a6]) simp
qed

text \<open>
  Booting. When the linker has put the kernel's objects apart, \<^verbatim>\<open>_start_c\<close> gets to the first
  task: both calls of \<^verbatim>\<open>malloc\<close>, whose results it does not test, succeed; the heap has given out
  exactly these two blocks; the processor comes out of \<^verbatim>\<open>task_become_idle\<close> in the new boot task, on
  the top of the stack from the heap, with interrupts on, no other task waiting, about to call
  \<^verbatim>\<open>main2\<close>; and of the 16 interrupt lines only the timer's is open.
\<close>

theorem boot_to_first_task:
  assumes L: "linked L sys" and dev: "reads_masks dev" and scr: "on_screen (vst (mach sys))"
    and cpu: "\<not> irq_on (kern (mach sys))"
      "region (esp (kern (mach sys)) - 20) 20 \<subseteq> region (idle_stack (kern (mach sys))) 512"
  defines "b \<equiv> default_heap L"
  shows "\<exists>sys'. start_c dev L mem blk cnt vesa vptr sys = Some (b + 8, b + 52, sys')
    \<and> current_task (kern (mach sys')) = b + 8 \<and> esp (kern (mach sys')) = b + 52 + 512
    \<and> eip (kern (mach sys')) = task_trampoline_addr (kern (mach sys)) \<and> irq_on (kern (mach sys'))
    \<and> (fld (kmem (kern (mach sys'))) (b + 8) off_entry, fld (kmem (kern (mach sys'))) (b + 8) off_arg) = (main2_addr L, 0)
    \<and> ready_list (kern (mach sys')) = Some []
    \<and> alloc_inv (span (b, 16384)) (heapst sys') [(b + 564, 15820)] [(b + 52, (b + 44, 520)), (b + 8, (b, 44))]
    \<and> on_screen (vst (mach sys')) \<and> pics_ready (mach sys') \<and> (\<forall>n < 16. masked (mach sys') n \<longleftrightarrow> n \<noteq> 0)"
proof -
  from boot_reaches [OF L dev scr cpu, of mem blk cnt vesa vptr, folded b_def] obtain sys' a where
    s: "start_c dev L mem blk cnt vesa vptr sys = Some (b + 8, b + 52, sys')" "first_task L sys sys' a"
      "on_screen (vst (mach sys')) \<and> pics_ready (mach sys') \<and> (\<forall>n < 16. masked (mach sys') n \<longleftrightarrow> n \<noteq> 0)" by blast
  note F = s(2) [unfolded first_task_def Let_def, folded b_def]
  then have I: "run_inv {idle_task (kern (mach sys)), b + 8} (boot_stacks b (idle_stack (kern (mach sys))))
      {b + 8, idle_task (kern (mach sys))} (kern (mach sys')) a" by blast
  have M: "mem_rep {idle_task (kern (mach sys)), b + 8} (boot_stacks b (idle_stack (kern (mach sys))))
      (run_queue (kern (mach sys'))) (kmem (kern (mach sys'))) a" by (rule sched_repD(2) [OF run_invD(1) [OF I]])
  have "irq_on (kern (mach sys'))" "current_task (kern (mach sys')) = b + 8" "ready_list (kern (mach sys')) = Some []"
    using F run_inv_reads(1,3) [OF I] run_invD(6) [OF I] by simp_all
  moreover have "esp (kern (mach sys')) = b + 52 + 512" "eip (kern (mach sys')) = task_trampoline_addr (kern (mach sys))"
    using F by (auto simp: regs_def first_ctx_def)
  ultimately show ?thesis using s M F by (auto simp: mem_rep_def)
qed

text \<open>A small machine, linked at low addresses, without memory map.\<close>

definition sample_links :: links where
  "sample_links = \<lparr>gdt_addr = 0x5000, idt_addr = 0x5100, isr_table = 0x6000, kernel_tss_addr = 0x5400,
     default_heap = 0x10000, main2_addr = 0x7000\<rparr>"

definition sample_system :: system where
  "sample_system = \<lparr>mach = idle_machine\<lparr>kern := demo_boot\<rparr>,
     heapst = \<lparr>hmem = \<lambda>_. 0, h_base = 0, h_len = 0, h_remaining = 0, h_low = 0, h_addr = 0x800,
       h_vst = \<lparr>vcol = 0, vline = 0\<rparr>\<rparr>, proc = sample_cpu\<rparr>"

lemma sample_linked: "linked sample_links sample_system"
  by (simp add: linked_def sample_links_def sample_system_def demo_boot_def idle_machine_def vga_def Let_def
      chunk_ok_def chunk_end_def apart_def flip: apart_iff_disjoint)

lemma quiet_reads_masks: "reads_masks quiet"
  by (simp add: reads_masks_def quiet_def PIC1_DATA_def PIC2_DATA_def)

theorem boot_to_first_task_witness:
  "\<exists>sys'. start_c quiet sample_links 0 0 0 0 0 sample_system = Some (0x10008, 0x10034, sys')
    \<and> current_task (kern (mach sys')) = 0x10008 \<and> esp (kern (mach sys')) = 0x10234 \<and> irq_on (kern (mach sys'))
    \<and> fld (kmem (kern (mach sys'))) 0x10008 off_entry = 0x7000"
proof -
  have "on_screen (vst (mach sample_system))" "\<not> irq_on (kern (mach sample_system))"
    "region (esp (kern (mach sample_system)) - 20) 20 \<subseteq> region (idle_stack (kern (mach sample_system))) 512"
    using region_field [of 492 20 512 "0x300 :: u32"] idle_machine_simps(2) by (simp_all add: sample_system_def demo_boot_def)
  from boot_to_first_task [OF sample_linked quiet_reads_masks this, of 0 0 0 0 0] show ?thesis
    by (auto simp: sample_links_def)
qed

text \<open>
  C40. \<^verbatim>\<open>hexdump\<close> of up to 2^32 - 16 bytes outside the frame buffer returns, and prints one line for
  every 16 bytes: the address, the words, and the printable characters among the bytes they are
  made of, the last line filled up. It reads up to three bytes past the end, the rest of the last
  word. Nothing changes but the screen.
\<close>

theorem hexdump_prints:
  assumes "unat len \<le> 2 ^ 32 - 16" "region ptr (unat len + 3) \<inter> vga_region = {}" "on_screen (vst s)"
  shows "\<exists>s'. hexdump ptr len s = Some s' \<and> says (dump_text (kmem (kern s)) ptr (unat len) [0..<(unat len + 15) div 16]) s s'"
  using hexdump_loop_says [OF assms(1,2,3), of "kmem (kern s)" 0] by (simp add: hexdump_def)

theorem hexdump_prints_witness:
  "\<exists>s'. hexdump 0x100 20 idle_machine = Some s' \<and> says (dump_text (\<lambda>_. 0) 0x100 20 [0, 1]) idle_machine s'"
proof -
  have "region (0x100 :: u32) 23 \<inter> vga_region = {}"
    by (simp add: vga_region_def vga_def apart_def flip: apart_iff_disjoint)
  moreover have "kmem (kern idle_machine) = (\<lambda>_. 0)" by (simp add: idle_machine_def idle_kernel_def)
  moreover have "[0..<(20 + 15) div 16] = [0, 1 :: nat]" by (simp add: upt_rec)
  ultimately show ?thesis using hexdump_prints [of 20 "0x100" idle_machine] by simp
qed

end
