(* ===== verification/KernelRun.thy ===== *)
theory KernelRun
  imports BootProps
begin

text \<open>
  The whole life of the kernel as the sources have it: from the boot loader's call to the idle task,
  which is all that is left when the one boot task has initialised the keyboard, dumped the heap and
  ended. Interrupts are the subject of theory \<open>System\<close>; here none arrives.
\<close>

section \<open>The program\<close>

text \<open>The trampoline calls the entry of the task, and \<^verbatim>\<open>task_exit\<close> when that returns.\<close>

definition first_thread :: "device \<Rightarrow> links \<Rightarrow> system \<Rightarrow> system option" where
  "first_thread dev L sys =
    (let k = kern (mach sys)
     in if fld (kmem k) (current_task k) off_entry = main2_addr L then
          Option.bind (main2 dev (heapst sys) (mach sys)) (\<lambda>s.
            map_option (\<lambda>k. sys\<lparr>mach := s\<lparr>kern := k\<rparr>\<rparr>) (task_exit (kern s)))
        else None)"

text \<open>The code the processor goes on with follows from the instruction pointer and the current task.\<close>

definition kernel_run :: "device \<Rightarrow> links \<Rightarrow> u32 \<Rightarrow> addr \<Rightarrow> u32 \<Rightarrow> u32 \<Rightarrow> addr \<Rightarrow> system \<Rightarrow> system option" where
  "kernel_run dev L mem ext_mem_block ext_mem_count in_vesa vesa_ptr sys =
    Option.bind (start_c dev L mem ext_mem_block ext_mem_count in_vesa vesa_ptr sys) (\<lambda>(_, _, sys).
      if eip (kern (mach sys)) = task_trampoline_addr (kern (mach sys)) then
        Option.bind (first_thread dev L sys) (\<lambda>sys.
          let k = kern (mach sys)
          in if current_task k = idle_task k \<and> eip k = switch_return_addr k
             then Some (sys\<lparr>mach := (mach sys)\<lparr>kern := idle_resumed k\<rparr>\<rparr>) else None)
      else None)"

section \<open>Drivers that only use ports\<close>

definition ports_only :: "machine \<Rightarrow> machine \<Rightarrow> bool" where
  "ports_only s s' \<longleftrightarrow> (\<exists>h. s' = s\<lparr>io := h\<rparr>)"

lemma ports_only_refl [simp]: "ports_only s s"
  unfolding ports_only_def by (rule exI [of _ "io s"]) simp

lemma ports_only_trans: "ports_only s s1 \<Longrightarrow> ports_only s1 s2 \<Longrightarrow> ports_only s s2"
  by (auto simp: ports_only_def)

lemma ports_only_fields: "ports_only s s' \<Longrightarrow> kern s' = kern s \<and> vst s' = vst s"
  by (auto simp: ports_only_def)

lemma ports_only_steps:
  "ports_only s (outp p v s)" "ports_only s (snd (inp dev p s))" "ports_only s (snd (i8042_wait_write dev s))"
  using wait_run(1) [of dev s] by (auto simp: ports_only_def outp_def inp_eq)

lemma command_write_ports: "ports_only s (snd (command_write dev param i n s))"
proof (induction n arbitrary: i s)
  case (Suc n)
  obtain r s1 where w: "i8042_wait_write dev s = (r, s1)" by force
  then have 1: "ports_only s s1" using ports_only_steps(3) [of s dev] by simp
  have "ports_only s1 (i8042_write_data v s1)" for v by (simp add: i8042_write_data_def ports_only_steps)
  then have "ports_only s (snd (command_write dev param (i + 1) n (i8042_write_data v s1)))" for v
    using ports_only_trans [OF ports_only_trans [OF 1] Suc.IH] by blast
  then show ?case using w 1 by simp
qed simp

text \<open>A command is a critical section around port accesses: no reply byte is ever read.\<close>

lemma command_ports:
  "\<exists>r s1 p. i8042_command dev param command s = (r, p, m_exit s1) \<and> ports_only (m_enter s) s1"
proof -
  obtain r s1 where w: "i8042_wait_write dev (m_enter s) = (r, s1)" by force
  then have 1: "ports_only (m_enter s) s1" using ports_only_steps(3) [of "m_enter s" dev] by simp
  let ?s2 = "i8042_write_command (ucast (command AND 0xFF)) s1"
  obtain r' s3 where c: "command_write dev param 0 (unat (drop_bit 12 command AND 0xF)) ?s2 = (r', s3)" by force
  have "ports_only s1 ?s2" by (simp add: i8042_write_command_def ports_only_steps)
  moreover have "ports_only ?s2 s3" using command_write_ports [of ?s2] c by (metis snd_conv)
  ultimately have 2: "ports_only (m_enter s) s3" using 1 ports_only_trans by blast
  show ?thesis
  proof (cases "r = 0")
    case True
    then show ?thesis using w c 2 by (auto simp: i8042_command_def Let_def no_reply_bytes)
  next
    case False
    then show ?thesis using w 1 by (auto simp: i8042_command_def Let_def no_reply_bytes)
  qed
qed

lemma pic_ports: "ports_only s (pic_set_mask dev irq b (pic_send_eoi irq' s))"
proof -
  have "ports_only s (pic_send_eoi irq' s)" for s
    using ports_only_trans [OF ports_only_steps(1) ports_only_steps(1)] by (simp add: pic_send_eoi_def Let_def ports_only_steps)
  moreover have "ports_only s (pic_set_mask dev irq b s)" for s
    using ports_only_trans [OF ports_only_steps(2) ports_only_steps(1)]
    by (simp add: pic_set_mask_def Let_def split: prod.split) (metis snd_conv)
  ultimately show ?thesis using ports_only_trans by blast
qed

section \<open>A task that talks\<close>

text \<open>
  The running task prints, uses ports and critical sections: the scheduler's abstract state is the same
  at the end, and only the screen, by the text \<open>bs\<close>, and the task's own structure have changed.
\<close>

definition quiet_task :: "addr set \<Rightarrow> (addr \<Rightarrow> addr set) \<Rightarrow> addr set \<Rightarrow> sched \<Rightarrow> machine \<Rightarrow> bool" where
  "quiet_task T stk C a s \<longleftrightarrow> run_inv T stk C (kern s) a \<and> on_screen (vst s) \<and> a_count a (a_cur a) + 1 \<noteq> 0
     \<and> vga_region \<subseteq> task_writes T stk (kern s)"

definition talks :: "addr set \<Rightarrow> (addr \<Rightarrow> addr set) \<Rightarrow> addr set \<Rightarrow> sched \<Rightarrow> machine \<Rightarrow> u8 list \<Rightarrow> sched \<Rightarrow> machine \<Rightarrow> bool" where
  "talks T stk C a s bs a' s' \<longleftrightarrow> quiet_task T stk C a s \<and> run_inv T stk C (kern s') a' \<and> a_cur a' = a_cur a \<and> on_screen (vst s')
     \<and> consts_of (kern s') = consts_of (kern s) \<and> regs (kern s') = regs (kern s)
     \<and> frame (vga_region \<union> region (a_cur a) 36) (kmem (kern s)) (kmem (kern s')) \<and> scr s' = scr_text (scr s) bs"

lemma talks_refl: "quiet_task T stk C a s \<Longrightarrow> talks T stk C a s [] a s"
  by (simp add: talks_def quiet_task_def)

lemma talks_on_screen: "talks T stk C a s bs a' s' \<Longrightarrow> on_screen (vst s')"
  by (simp add: talks_def)

lemma talks_writes:
  assumes "talks T stk C a s bs a' s'"
  shows "vga_region \<subseteq> task_writes T stk (kern s')" "region (a_cur a) 36 \<inter> vga_region = {}"
proof -
  have T: "run_inv T stk C (kern s) a" "run_inv T stk C (kern s') a'" "a_cur a' = a_cur a" "consts_of (kern s') = consts_of (kern s)"
    "vga_region \<subseteq> task_writes T stk (kern s)" using assms by (auto simp: talks_def quiet_task_def)
  show "vga_region \<subseteq> task_writes T stk (kern s')"
    using T(3,5) run_invD(6) [OF T(1)] run_invD(6) [OF T(2)] consts_ofD [OF T(4)] by (simp add: task_writes_def)
  show "region (a_cur a) 36 \<inter> vga_region = {}"
    using T(5) sched_repD(5) [OF run_invD(1) [OF T(1)]] by (auto simp: task_writes_def)
qed

lemma talks_says:
  assumes t: "talks T stk C a s as a' s'" and S: "says bs s' s''"
  shows "talks T stk C a s (as @ bs) a' s''"
proof -
  have I: "run_inv T stk C (kern s') a'" using t by (simp add: talks_def)
  note k = says_kern [OF S]
  have "frame (task_writes T stk (kern s')) (kmem (kern s')) (kmem (kern s''))"
    by (rule frame_mono [OF says_frame [OF S] talks_writes(1) [OF t]])
  from run_inv_memory [OF I this] have I': "run_inv T stk C (kern s'') a'" by (subst k)
  have c: "consts_of (kern s'') = consts_of (kern s')" "regs (kern s'') = regs (kern s')"
    by (subst k, simp add: consts_of_def, subst k, simp add: regs_def)
  have "frame (vga_region \<union> region (a_cur a) 36) (kmem (kern s)) (kmem (kern s'))" using t by (simp add: talks_def)
  then have "frame (vga_region \<union> region (a_cur a) 36) (kmem (kern s)) (kmem (kern s''))"
    by (rule frame_trans) (rule frame_mono [OF says_frame [OF S] Un_upper1])
  then show ?thesis using t I' c says_on_screen [OF S] says_screen [OF S] by (simp add: talks_def)
qed

lemma talks_ports: "talks T stk C a s bs a' s' \<Longrightarrow> ports_only s' s'' \<Longrightarrow> talks T stk C a s bs a' s''"
  by (auto simp: talks_def scr_def dest!: ports_only_fields)

lemma talks_message:
  "talks T stk C a s bs a' s' \<Longrightarrow> message_ok ds l \<Longrightarrow> talks T stk C a s (bs @ fmt_text ds l) a' (say (fmt_text ds l) s')"
  using talks_says [OF _ message_says] talks_on_screen by blast

lemma talks_literal:
  "talks T stk C a s bs a' s' \<Longrightarrow> short_text 100 cs \<Longrightarrow> talks T stk C a s (bs @ cs) a' (say cs s')"
  using talks_says [OF _ literal_says] talks_on_screen by blast

text \<open>A critical section, from its two ends.\<close>

lemma talks_enter:
  assumes t: "talks T stk C a s bs a s'"
  shows "talks T stk C a s bs (a_enter a) (m_enter s')"
proof -
  have I: "run_inv T stk C (kern s') a" and n: "a_count a (a_cur a) + 1 \<noteq> 0" using t by (auto simp: talks_def quiet_task_def)
  note R = run_invD [OF I]
  have "step_to T stk (kern s') a C (kern (m_enter s')) (a_enter a)"
    using step_enter [OF I] n R(5) by (simp add: m_enter_def)
  moreover have "same_cpu (kern s') (kern (m_enter s'))" using rep_enter(2) [OF R(1)] by (simp add: m_enter_def)
  moreover have f: "frame (region (a_cur a) 36) (kmem (kern s')) (kmem (kern (m_enter s')))"
    using set_fld_frame R(6) by (simp add: m_enter_def enter_critical_section_def Let_def x86_cli_def)
  moreover have "scr (m_enter s') = scr s'" using screen_frame [OF f talks_writes(2) [OF t]] by (simp add: scr_def m_enter_def)
  moreover have "vst (m_enter s') = vst s'" by (simp add: m_enter_def)
  moreover have "frame (vga_region \<union> region (a_cur a) 36) (kmem (kern s)) (kmem (kern s'))" using t by (simp add: talks_def)
  from frame_trans [OF this frame_mono [OF f Un_upper2]]
  have "frame (vga_region \<union> region (a_cur a) 36) (kmem (kern s)) (kmem (kern (m_enter s')))" .
  ultimately show ?thesis using t by (simp add: talks_def step_to_def same_cpu_def)
qed

lemma talks_exit:
  assumes t: "talks T stk C a s bs (a_enter a) s'"
  shows "talks T stk C a s bs a (m_exit s')"
proof -
  have I: "run_inv T stk C (kern s') (a_enter a)" and I0: "run_inv T stk C (kern s) a"
    and n: "a_count a (a_cur a) + 1 \<noteq> 0" using t by (auto simp: talks_def quiet_task_def)
  note R = run_invD [OF I] and e = a_start_net(2) [OF run_invD(2) [OF I0] n]
  have "count_of (kern s') \<noteq> 0" using R(5) n by (simp add: a_enter_def Let_def)
  from step_leave [OF I this] have "step_to T stk (kern s') (a_enter a) C (kern (m_exit s')) a" by (simp add: m_exit_def e)
  moreover have "same_cpu (kern s') (kern (m_exit s'))" using rep_exit(2) [OF R(1)] by (simp add: m_exit_def)
  moreover have f: "frame (region (a_cur a) 36) (kmem (kern s')) (kmem (kern (m_exit s')))"
    using set_fld_frame R(6) by (simp add: m_exit_def exit_critical_section_def Let_def x86_sti_def)
  moreover have "scr (m_exit s') = scr s'" using screen_frame [OF f talks_writes(2) [OF t]] by (simp add: scr_def m_exit_def)
  moreover have "vst (m_exit s') = vst s'" by (simp add: m_exit_def)
  moreover have "frame (vga_region \<union> region (a_cur a) 36) (kmem (kern s)) (kmem (kern s'))" using t by (simp add: talks_def)
  from frame_trans [OF this frame_mono [OF f Un_upper2]]
  have "frame (vga_region \<union> region (a_cur a) 36) (kmem (kern s)) (kmem (kern (m_exit s')))" .
  ultimately show ?thesis using t by (simp add: talks_def step_to_def same_cpu_def)
qed

section \<open>Initialising the keyboard\<close>

definition trace_text :: "nat \<Rightarrow> u8 list" where
  "trace_text n = fmt_text [(lit ''keyboard_init:'', Dec plain_spec (of_nat n))] [10]"

text \<open>What it prints when the controller takes its commands and \<open>n\<close> old bytes were in its buffer.\<close>

definition keyboard_log :: "nat \<Rightarrow> u8 list" where
  "keyboard_log n = trace_text 287 @ concat (map flush_text [1..<n + 1]) @ trace_text 290 @ trace_text 296
     @ trace_text 305 @ trace_text 311 @ trace_text 315"

lemma talks_trace: "talks T stk C a s bs a' s' \<Longrightarrow> talks T stk C a s (bs @ trace_text n) a' (trace_line n s')"
  unfolding trace_line_def trace_text_def by (rule talks_message) (simp_all add: message_ok_def short_text_def plain_spec_def)

lemma flush_loop_talks:
  "talks T stk C a s bs a' s' \<Longrightarrow> i \<le> 32 \<Longrightarrow>
    \<exists>j\<ge>i. j \<le> 32 \<and> talks T stk C a s (bs @ concat (map flush_text [i + 1..<j + 1])) a' (snd (i8042_flush_loop dev i s'))"
proof (induction dev i s' arbitrary: bs rule: i8042_flush_loop.induct)
  case (1 dev i s')
  obtain st s1 where st: "i8042_read_status dev s' = (st, s1)" by force
  have 1: "talks T stk C a s bs a' s1"
    using talks_ports [OF "1.prems"(1) ports_only_steps(2), of dev I8042_STATUS_REG] st by (simp add: i8042_read_status_def)
  have 2: "talks T stk C a s (bs @ flush_text (i + 1)) a' (say (flush_text (i + 1)) s1)"
    unfolding flush_text_def by (rule talks_message [OF 1]) (simp add: message_ok_def short_text_def plain_spec_def)
  obtain d s2 where d: "i8042_read_data dev (say (flush_text (i + 1)) s1) = (d, s2)" by force
  have 3: "talks T stk C a s (bs @ flush_text (i + 1)) a' s2"
    using talks_ports [OF 2 ports_only_steps(2), of dev I8042_DATA_REG] d by (simp add: i8042_read_data_def)
  show ?case
  proof (cases "st AND I8042_STR_OBF \<noteq> 0 \<and> i < I8042_BUFFER_LENGTH")
    case True
    from "1.IH" [OF st [symmetric] refl _ _ refl d [symmetric] refl 3] True obtain j where
      j: "i + 1 \<le> j" "j \<le> 32" "talks T stk C a s ((bs @ flush_text (i + 1)) @ concat (map flush_text [i + 1 + 1..<j + 1])) a' (snd (i8042_flush_loop dev (i + 1) s2))"
      by (auto simp: I8042_BUFFER_LENGTH_def)
    have "[i + 1..<j + 1] = (i + 1) # [i + 1 + 1..<j + 1]" using j(1) by (simp add: upt_rec)
    moreover have "i8042_flush_loop dev i s' = i8042_flush_loop dev (i + 1) s2"
      using True d by (subst i8042_flush_loop.simps) (simp add: st)
    ultimately show ?thesis using j by (intro exI [of _ j]) simp
  next
    case False
    then have "snd (i8042_flush_loop dev i s') = s1" by (subst i8042_flush_loop.simps) (auto simp: st)
    then show ?thesis using 1 "1.prems"(2) by (intro exI [of _ i]) simp
  qed
qed

lemma keyboard_init_talks:
  assumes t: "talks T stk C a s cs a s'" and ok: "accepts dev"
  shows "\<exists>n\<le>32. talks T stk C a s (cs @ keyboard_log n) a (keyboard_init dev s')"
proof -
  have command: "\<exists>p' s2. i8042_command dev p c s1 = (0, p', s2) \<and> talks T stk C a s bs a s2" if "talks T stk C a s bs a s1" for s1 p c bs
    using command_ports [of dev p c s1] command_accepts [OF ok, of p c s1] talks_exit [OF talks_ports [OF talks_enter [OF that]]] by auto
  from flush_loop_talks [OF talks_enter [OF talks_trace [OF t, of 287]], of 0 dev] obtain n where
    n: "n \<le> 32" "talks T stk C a s ((cs @ trace_text 287) @ concat (map flush_text [1..<n + 1])) (a_enter a)
      (snd (i8042_flush_loop dev 0 (m_enter (trace_line 287 s'))))" by auto
  obtain k s2 where 2: "i8042_flush dev (trace_line 287 s') = (k, s2)" by force
  have t2: "talks T stk C a s ((cs @ trace_text 287) @ concat (map flush_text [1..<n + 1])) a s2"
    using talks_exit [OF n(2)] 2 by (simp add: i8042_flush_def del: upt_Suc split: prod.splits)
  from command [OF talks_trace [OF t2, of 290], of "[0]" I8042_CMD_CTL_RCTR] obtain p s3 where
    3: "i8042_command dev [0] I8042_CMD_CTL_RCTR (trace_line 290 s2) = (0, p, s3)"
    and t3: "talks T stk C a s (((cs @ trace_text 287) @ concat (map flush_text [1..<n + 1])) @ trace_text 290) a s3" by blast
  let ?ctr = "(hd p OR I8042_CTR_XLATE) AND NOT I8042_CTR_KBDDIS OR I8042_CTR_KBDINT"
  from command [OF talks_trace [OF talks_trace [OF t3, of 296], of 305], of "[?ctr]" I8042_CMD_CTL_WCTR] obtain p' s4 where
    4: "i8042_command dev [?ctr] I8042_CMD_CTL_WCTR (trace_line 305 (trace_line 296 s3)) = (0, p', s4)"
    and t4: "talks T stk C a s (((((cs @ trace_text 287) @ concat (map flush_text [1..<n + 1])) @ trace_text 290) @ trace_text 296) @ trace_text 305) a s4" by blast
  have "keyboard_init dev s' = trace_line 315 (pic_set_mask dev IRQ_KEYBOARD False (pic_send_eoi IRQ_KEYBOARD (trace_line 311 s4)))"
    by (simp add: keyboard_init_def Let_def 2 3 4)
  moreover note talks_trace [OF talks_ports [OF talks_trace [OF t4, of 311] pic_ports], of 315 dev IRQ_KEYBOARD False IRQ_KEYBOARD]
  ultimately show ?thesis using n(1) by (auto simp: keyboard_log_def)
qed

section \<open>The boot task\<close>

text \<open>What the kernel writes after the heap is set up leaves the heap alone: the task structure and the
  stack from the heap are its blocks in use.\<close>

lemma kernel_area_heap:
  assumes L: "linked L sys" and h: "h_addr h = h_addr (heapst sys)"
  defines "b \<equiv> default_heap L"
  shows "(vga_region \<union> kernel_area L sys) \<inter>
    bytes (struct_span h \<union> (span (b, 16384) - payloads [(b + 52, (b + 44, 520)), (b + 8, (b, 44))])) = {}"
proof -
  note D = linkedD [OF L, folded b_def]
  have top: "unat b + 16384 < 2 ^ 32" using D(6) by (simp add: chunk_ok_def chunk_end_def)
  have u: "unat (b + 8) = unat b + 8" "unat (b + 44) = unat b + 44" "unat (b + 52) = unat b + 52"
    using top by (subst unat_add_lem [THEN iffD1]; simp)+
  have bs: "bytes (struct_span h) = region (h_addr (heapst sys)) 24" "bytes (span (b, 16384)) = region b 16384"
    using region_bytes [of "h_addr (heapst sys)" 24] region_bytes [of b 16384] D(7) top h by (simp_all add: struct_span_def span_def chunk_end_def)
  have p: "region (b + 8) 36 = bytes (payload (b + 8, (b, 44)))" "region (b + 52) 512 = bytes (payload (b + 52, (b + 44, 520)))"
  proof -
    have "unat (44 :: u32) = 44" "unat (520 :: u32) = 520" by simp_all
    then have "payload (b + 8, (b, 44)) = {unat (b + 8) ..< unat (b + 8) + 36}"
      "payload (b + 52, (b + 44, 520)) = {unat (b + 52) ..< unat (b + 52) + 512}"
      unfolding payload_def chunk_end_def fst_conv snd_conv u by (simp_all add: add.commute)
    then show "region (b + 8) 36 = bytes (payload (b + 8, (b, 44)))" "region (b + 52) 512 = bytes (payload (b + 52, (b + 44, 520)))"
      using region_bytes [of "b + 8" 36] region_bytes [of "b + 52" 512] top u by simp_all
  qed
  let ?P = "payloads [(b + 52, (b + 44, 520)), (b + 8, (b, 44))]"
  have x: "bytes (span (b, 16384) - ?P) \<subseteq> region b 16384 - (region (b + 8) 36 \<union> region (b + 52) 512)"
    unfolding p bs(2) [symmetric] by (auto simp: bytes_def payloads_def)
  have "region (b + 8) 36 \<subseteq> region b 16384" "region (b + 52) 512 \<subseteq> region b 16384" using heap_parts by blast+
  then have 1: "(vga_region \<union> kernel_area L sys) \<inter> region (h_addr (heapst sys)) 24 = {}"
    using D(8,12,13,18,19) unfolding kernel_area_def Let_def b_def [symmetric] by (simp add: Int_Un_distrib2 Int_commute) blast
  have 2: "(vga_region \<union> kernel_area L sys) \<inter> (region b 16384 - (region (b + 8) 36 \<union> region (b + 52) 512)) = {}"
    using D(9-11,16) unfolding kernel_area_def Let_def b_def [symmetric] by blast
  show ?thesis using x 1 2 bs(1) by auto
qed

definition main2_log :: "nat \<Rightarrow> heap \<Rightarrow> chunk list \<Rightarrow> u8 list" where
  "main2_log n h cs = lit ''top of secondary boot thread'' @ [10] @ keyboard_log n @ heap_text h cs
     @ lit ''secondary boot thread exiting'' @ [10]"

lemma main2_talks:
  assumes L: "linked L sys" and F: "first_task L sys sys' a" and v: "on_screen (vst (mach sys'))" and ok: "accepts dev"
  defines "b \<equiv> default_heap L"
  shows "\<exists>s n. main2 dev (heapst sys') (mach sys') = Some s \<and> n \<le> 32
    \<and> talks {idle_task (kern (mach sys)), b + 8} (boot_stacks b (idle_stack (kern (mach sys)))) {b + 8, idle_task (kern (mach sys))} a
        (mach sys') (main2_log n (heapst sys') [(b + 564, 15820)]) a s
    \<and> io s = io (keyboard_init dev (say (lit ''top of secondary boot thread'' @ [10]) (mach sys')))"
proof -
  let ?T = "{idle_task (kern (mach sys)), b + 8}" and ?stk = "boot_stacks b (idle_stack (kern (mach sys)))"
    and ?C = "{b + 8, idle_task (kern (mach sys))}" and ?s = "mach sys'" and ?h = "heapst sys'"
  let ?cs = "[(b + 564, 15820)]" and ?bs = "[(b + 52, (b + 44, 520)), (b + 8, (b, 44))]"
  note F = F [unfolded first_task_def Let_def, folded b_def] and D = linkedD [OF L, folded b_def] and H = heap_parts [of b]
  have I: "run_inv ?T ?stk ?C (kern ?s) a" using F by blast
  have "vga_region \<inter> region (b + 8) 36 = {}" using D(16) H(1) by blast
  then have "vga_region \<subseteq> task_writes ?T ?stk (kern ?s)"
    using D(14,15,17) run_invD(6) [OF I] F consts_ofD [of "kern ?s" "kern (mach sys)"] boot_layout(3) [OF L, folded b_def]
    by (auto simp: task_writes_def boot_stacks_def)
  then have q: "quiet_task ?T ?stk ?C a ?s" using I v F by (simp add: quiet_task_def)
  let ?s1 = "say (lit ''top of secondary boot thread'' @ [10]) ?s"
  let ?s2 = "keyboard_init dev ?s1"
  have T1: "talks ?T ?stk ?C a ?s (lit ''top of secondary boot thread'' @ [10]) a ?s1"
    using talks_literal [OF talks_refl [OF q], of "lit ''top of secondary boot thread'' @ [10]"] by (simp add: short_text_def)
  from keyboard_init_talks [OF T1 ok] obtain n where n: "n \<le> 32"
    and T2: "talks ?T ?stk ?C a ?s ((lit ''top of secondary boot thread'' @ [10]) @ keyboard_log n) a ?s2" by blast
  have f: "frame (vga_region \<union> kernel_area L sys) (hmem ?h) (kmem (kern ?s))" using F by blast
  have "frame (vga_region \<union> region (b + 8) 36) (kmem (kern ?s)) (kmem (kern ?s2))" using T2 F by (simp add: talks_def)
  then have "frame (vga_region \<union> kernel_area L sys) (kmem (kern ?s)) (kmem (kern ?s2))"
    by (rule frame_mono) (auto simp: kernel_area_def Let_def b_def)
  note f2 = frame_trans [OF f this]
  have inv: "alloc_inv (span (b, 16384)) (?h\<lparr>hmem := kmem (kern ?s2)\<rparr>) ?cs ?bs"
    by (rule alloc_inv_frame [OF _ f2]) (use F kernel_area_heap [OF L, of ?h, folded b_def] in blast)+
  have "bytes (struct_span ?h) = region (h_addr (heapst sys)) 24" "bytes (span (b, 16384)) = region b 16384"
    using region_bytes [of "h_addr (heapst sys)" 24] region_bytes [of b 16384] D(6,7) F
    by (simp_all add: struct_span_def span_def chunk_end_def chunk_ok_def)
  then have "bytes (struct_span ?h \<union> span (b, 16384)) \<inter> vga_region = {}" using D(16,18) by auto
  from heap_dump_inv [OF inv this talks_on_screen [OF T2]] obtain s3 where
    s3: "heap_dump ?h ?s2 = Some s3" "says (heap_text ?h ?cs) ?s2 s3" by blast
  let ?s4 = "say (lit ''secondary boot thread exiting'' @ [10]) s3"
  have T4: "talks ?T ?stk ?C a ?s (main2_log n ?h ?cs) a ?s4"
    using talks_literal [OF talks_says [OF T2 s3(2)], of "lit ''secondary boot thread exiting'' @ [10]"]
    by (simp add: short_text_def main2_log_def)
  have "main2 dev ?h ?s = Some ?s4" unfolding main2_def Let_def s3(1) by simp
  moreover have "io ?s4 = io ?s2" using says_fields(1) [OF s3(2)] by simp
  ultimately show ?thesis using n T4 by blast
qed

section \<open>The end of the boot task\<close>

lemma task_end:
  assumes L: "linked L sys" and F: "first_task L sys sys' a" and ok: "on_screen (vst (mach sys'))" "accepts dev"
    and sp: "region (esp (kern (mach sys)) - 20) 20 \<subseteq> region (idle_stack (kern (mach sys))) 512"
  defines "b \<equiv> default_heap L" and "k \<equiv> kern (mach sys)"
  shows "\<exists>s2 k2 n a2. first_thread dev L sys' = Some (sys'\<lparr>mach := s2\<lparr>kern := k2\<rparr>\<rparr>) \<and> n \<le> 32
    \<and> run_inv {idle_task k, b + 8} (boot_stacks b (idle_stack k)) {b + 8, idle_task k} (idle_resumed k2) a2
    \<and> a_cur a2 = idle_task k \<and> a_queue a2 = [] \<and> a_state a2 (b + 8) = DEAD \<and> a_irq a2
    \<and> consts_of k2 = consts_of k \<and> regs k2 = call_ctx k
    \<and> frame (vga_region \<union> kernel_area L sys) (hmem (heapst sys')) (kmem (idle_resumed k2))
    \<and> scr (s2\<lparr>kern := idle_resumed k2\<rparr>) = scr_text (scr (mach sys')) (main2_log n (heapst sys') [(b + 564, 15820)])
    \<and> io s2 = io (keyboard_init dev (say (lit ''top of secondary boot thread'' @ [10]) (mach sys')))"
proof -
  let ?T = "{idle_task k, b + 8}" and ?stk = "boot_stacks b (idle_stack k)" and ?C = "{b + 8, idle_task k}" and ?i = "idle_task k"
    and ?W = "kernel_area L sys"
  note F' = F [unfolded first_task_def Let_def, folded b_def k_def] and ne = boot_layout(3) [OF L, folded b_def k_def]
  have I: "run_inv ?T ?stk ?C (kern (mach sys')) a" using F' by blast
  from main2_talks [OF L F ok, folded b_def k_def] obtain s2 n where
    m: "main2 dev (heapst sys') (mach sys') = Some s2" "n \<le> 32"
      "talks ?T ?stk ?C a (mach sys') (main2_log n (heapst sys') [(b + 564, 15820)]) a s2"
      "io s2 = io (keyboard_init dev (say (lit ''top of secondary boot thread'' @ [10]) (mach sys')))" by blast
  have I2: "run_inv ?T ?stk ?C (kern s2) a" "consts_of (kern s2) = consts_of k" "regs (kern s2) = first_ctx k (b + 52 + 512)"
    "scr s2 = scr_text (scr (mach sys')) (main2_log n (heapst sys') [(b + 564, 15820)])"
    using m(3) F' by (auto simp: talks_def)
  note R = run_invD [OF I2(1)] and C = consts_ofD [OF I2(2)]
  have e: "esp (kern s2) = b + 52 + 512" using I2(3) by (simp add: regs_def first_ctx_def)
  have room: "has_room ?stk (kern s2)" using R(6) F' e heap_parts(4) [of b] by (simp add: has_room_def boot_stacks_def)
  have n0: "count_of (kern s2) + 1 \<noteq> 0" "count_of (kern s2) + 2 \<noteq> 0" using R(5) F' by simp_all
  let ?a1 = "a_exit_task (call_ctx (kern s2)) ?i a"
  from step_quit [OF I2(1) room n0] C obtain k2 where
    q: "task_exit (kern s2) = Some k2" "step_to ?T ?stk (kern s2) a ?C k2 ?a1" by auto
  have A: "a_cur ?a1 = ?i" "a_queue ?a1 = []" "a_state ?a1 (b + 8) = DEAD" "a_count ?a1 ?i = 1" "a_ctx a ?i = call_ctx k"
    using F' ne by (simp_all add: a_exit_task_def a_reschedule_def a_exit_def a_switch_def a_pick_def a_requeue_def a_enter_def Let_def)
  have I3: "run_inv ?T ?stk ?C k2 ?a1" "consts_of k2 = consts_of k" "regs k2 = call_ctx k"
    using q(2) A(1,5) F' ne I2(2) by (auto simp: step_to_def)
  have "count_of k2 \<noteq> 0" using run_invD(5) [OF I3(1)] A(1,4) by simp
  from step_leave [OF I3(1) this] have I4: "run_inv ?T ?stk ?C (idle_resumed k2) (a_exit ?a1)" by (simp add: step_to_def idle_resumed_def)
  have A4: "a_cur (a_exit ?a1) = ?i" "a_queue (a_exit ?a1) = []" "a_state (a_exit ?a1) (b + 8) = DEAD" "a_irq (a_exit ?a1)"
    using A by (simp_all add: a_exit_def Let_def)
  have w: "sched_area ?T (run_queue k) \<subseteq> ?W" using kernel_area_parts(1) [where sys = sys and L = L] by (simp add: b_def k_def)
  have f3: "frame ?W (kmem (kern s2)) (kmem k2)"
  proof (rule frame_mono [OF die_writes [OF R(1,2,4) _ q(1)]])
    show "a_count a (a_cur a) + 1 \<noteq> 0" using n0(1) R(5) by simp
    show "sched_area ?T (run_queue (kern s2)) \<union> region (esp (kern s2) - 20) 20 \<subseteq> ?W"
      using w C heap_parts(4) [of b] kernel_area_parts(3) [where sys = sys and L = L] unfolding e by (auto simp: b_def)
  qed
  have "current_task k2 \<in> ?T" using run_invD(6) [OF I3(1)] A(1) by simp
  from frame_mono [OF exit_writes [OF this] w] have f4: "frame ?W (kmem k2) (kmem (idle_resumed k2))" by (simp add: idle_resumed_def)
  have f34: "frame ?W (kmem (kern s2)) (kmem (idle_resumed k2))" by (rule frame_trans [OF f3 f4])
  have "frame (vga_region \<union> region (b + 8) 36) (kmem (kern (mach sys'))) (kmem (kern s2))" using m(3) F' by (simp add: talks_def)
  then have "frame (vga_region \<union> ?W) (kmem (kern (mach sys'))) (kmem (kern s2))"
    by (rule frame_mono) (auto simp: kernel_area_def Let_def b_def)
  moreover have "frame (vga_region \<union> ?W) (hmem (heapst sys')) (kmem (kern (mach sys')))" using F' by blast
  ultimately have f: "frame (vga_region \<union> ?W) (hmem (heapst sys')) (kmem (idle_resumed k2))"
    using frame_trans [OF frame_trans frame_mono [OF f34 Un_upper2]] by blast
  have "scr (s2\<lparr>kern := idle_resumed k2\<rparr>) = scr s2" using screen_frame [OF f34 kernel_area_screen [OF L]] by (simp add: scr_def)
  moreover have "fld (kmem (kern (mach sys'))) (b + 8) off_entry = main2_addr L"
    using sched_repD(2) [OF run_invD(1) [OF I]] F' by (simp add: mem_rep_def)
  then have "first_thread dev L sys' = Some (sys'\<lparr>mach := s2\<lparr>kern := k2\<rparr>\<rparr>)"
    using run_invD(6) [OF I] F' m(1) q(1) by (simp add: first_thread_def Let_def)
  ultimately show ?thesis using m(2,4) I4 A4 I3(2,3) f I2(4) by fastforce
qed

section \<open>The log and the lines\<close>

lemma early_screen:
  assumes L: "linked L sys" and dev: "reads_masks dev" and scr: "on_screen (vst (mach sys))"
    and blk: "32 * unat cnt \<le> 2 ^ 32" "region blk (32 * unat cnt) \<inter> vga_region = {}"
  shows "scr (early_init dev mem blk cnt vesa vptr (mach sys)) =
    scr_text (cleared (vst (mach sys))) (early_log mem blk cnt vesa vptr (kmem (kern (mach sys))))"
proof -
  let ?k = "kern (mach sys)" and ?T = "{idle_task (kern (mach sys)), default_heap L + 8}"
  have "region (idle_stack ?k + 512 - 20) 20 \<subseteq> region (idle_stack ?k) 512"
    using region_field [of 492 20 512 "idle_stack ?k"] by (simp add: ac_simps)
  then have "sched_area ?T (run_queue ?k) \<union> region (idle_stack ?k + 512 - 20) 20 \<subseteq> kernel_area L sys"
    using kernel_area_parts(1,2) [where sys = sys and L = L] by auto
  then have "(sched_area ?T (run_queue ?k) \<union> region (idle_stack ?k + 512 - 20) 20) \<inter> vga_region = {}"
    using kernel_area_screen [OF L] by blast
  from early_init_shows [OF dev scr boot_layout(2) [OF L] insertI1 this blk] show ?thesis .
qed

lemma keyboard_opens:
  assumes dev: "reads_masks dev" "accepts dev" and s: "pics_ready s" "\<forall>l < 16. masked s l \<longleftrightarrow> l \<noteq> 0"
    and i: "io s' = io (keyboard_init dev (say bs s))"
  shows "pics_ready s' \<and> (\<forall>l < 16. masked s' l \<longleftrightarrow> l \<noteq> 0 \<and> l \<noteq> 1)"
proof -
  let ?t = "say bs s"
  have "master ?t = master s \<and> slave ?t = slave s" by (rule chips_io) simp
  then have "pics_ready ?t = pics_ready s \<and> masked ?t = masked s" by (intro ready_transfer) simp_all
  then have t: "pics_ready ?t" "masked ?t = masked s" using s(1) by simp_all
  note K = keyboard_init_line [OF dev t(1)]
  have "master s' = master (keyboard_init dev ?t) \<and> slave s' = slave (keyboard_init dev ?t)" by (rule chips_io [OF i])
  then have "pics_ready s' = pics_ready (keyboard_init dev ?t) \<and> masked s' = masked (keyboard_init dev ?t)"
    by (intro ready_transfer) simp_all
  moreover have "pics_ready (keyboard_init dev ?t)" using K(1) [of 0] by simp
  moreover have "\<forall>l < 16. masked (keyboard_init dev ?t) l \<longleftrightarrow> l \<noteq> 0 \<and> l \<noteq> 1" using K(2) s(2) by (auto simp only: t(2))
  ultimately show ?thesis by simp
qed

section \<open>From entry to idle\<close>

lemma run_to_idle:
  assumes L: "linked L sys" and dev: "reads_masks dev" "accepts dev" and scr: "on_screen (vst (mach sys))"
    and cpu: "\<not> irq_on (kern (mach sys))"
      "region (esp (kern (mach sys)) - 20) 20 \<subseteq> region (idle_stack (kern (mach sys))) 512"
    and blk: "32 * unat cnt \<le> 2 ^ 32" "region blk (32 * unat cnt) \<inter> vga_region = {}"
  defines "b \<equiv> default_heap L"
  shows "\<exists>sys' n. kernel_run dev L mem blk cnt vesa vptr sys = Some sys'
    \<and> current_task (kern (mach sys')) = idle_task (kern (mach sys)) \<and> esp (kern (mach sys')) = esp (kern (mach sys))
    \<and> irq_on (kern (mach sys')) \<and> ready_list (kern (mach sys')) = Some [] \<and> state_of (kern (mach sys')) (b + 8) = DEAD
    \<and> pics_ready (mach sys') \<and> (\<forall>l < 16. masked (mach sys') l \<longleftrightarrow> l \<noteq> 0 \<and> l \<noteq> 1)
    \<and> alloc_inv (span (b, 16384)) ((heapst sys')\<lparr>hmem := kmem (kern (mach sys'))\<rparr>) [(b + 564, 15820)]
        [(b + 52, (b + 44, 520)), (b + 8, (b, 44))]
    \<and> h_base (heapst sys') = b \<and> h_len (heapst sys') = 16384 \<and> n \<le> 32
    \<and> scr (mach sys') = scr_text (cleared (vst (mach sys)))
        (early_log mem blk cnt vesa vptr (kmem (kern (mach sys))) @ lit ''starting multitasking'' @ [10]
         @ main2_log n (heapst sys') [(b + 564, 15820)])"
proof -
  let ?k = "kern (mach sys)" and ?bs = "[(b + 52, (b + 44, 520)), (b + 8, (b, 44))]"
  let ?T = "{idle_task ?k, b + 8}"
  from boot_reaches [OF L dev(1) scr cpu, of mem blk cnt vesa vptr, folded b_def] obtain sys1 a where
    B: "start_c dev L mem blk cnt vesa vptr sys = Some (b + 8, b + 52, sys1)" "first_task L sys sys1 a"
      "scr (mach sys1) = scr_text (scr (early_init dev mem blk cnt vesa vptr (mach sys))) (lit ''starting multitasking'' @ [10])"
      "on_screen (vst (mach sys1))" "pics_ready (mach sys1)" "\<forall>l < 16. masked (mach sys1) l \<longleftrightarrow> l \<noteq> 0" by blast
  note F = B(2) [unfolded first_task_def Let_def, folded b_def]
  from task_end [OF L B(2,4) dev(2) cpu(2), folded b_def] obtain s2 k2 n a2 where
    E: "first_thread dev L sys1 = Some (sys1\<lparr>mach := s2\<lparr>kern := k2\<rparr>\<rparr>)" "n \<le> 32"
      "run_inv ?T (boot_stacks b (idle_stack ?k)) {b + 8, idle_task ?k} (idle_resumed k2) a2"
      "a_cur a2 = idle_task ?k" "a_queue a2 = []" "a_state a2 (b + 8) = DEAD" "a_irq a2"
      "consts_of k2 = consts_of ?k" "regs k2 = call_ctx ?k"
      "frame (vga_region \<union> kernel_area L sys) (hmem (heapst sys1)) (kmem (idle_resumed k2))"
      "scr (s2\<lparr>kern := idle_resumed k2\<rparr>) = scr_text (scr (mach sys1)) (main2_log n (heapst sys1) [(b + 564, 15820)])"
      "io s2 = io (keyboard_init dev (say (lit ''top of secondary boot thread'' @ [10]) (mach sys1)))" by blast
  let ?s3 = "s2\<lparr>kern := idle_resumed k2\<rparr>"
  let ?sys = "sys1\<lparr>mach := ?s3\<rparr>" and ?k3 = "idle_resumed k2"
  note C = consts_ofD [OF E(8)] and R = run_invD [OF E(3)] and V = run_inv_reads [OF E(3)]
  have same: "current_task ?k3 = current_task k2" "esp ?k3 = esp k2"
    by (simp_all add: idle_resumed_def exit_critical_section_def Let_def x86_sti_def)
  have regs: "eip k2 = switch_return_addr ?k" "esp k2 = esp ?k" using E(9) by (simp_all add: regs_def call_ctx_def)
  have "eip (kern (mach sys1)) = task_trampoline_addr (kern (mach sys1))"
    using F consts_ofD [of "kern (mach sys1)" ?k] by (simp add: regs_def first_ctx_def)
  then have run: "kernel_run dev L mem blk cnt vesa vptr sys = Some ?sys"
    using B(1) E(1) R(6) E(4) C regs same by (simp add: kernel_run_def Let_def)
  note S = early_screen [OF L dev(1) scr blk, of mem vesa vptr]
  have M: "pics_ready ?s3 \<and> (\<forall>l < 16. masked ?s3 l \<longleftrightarrow> l \<noteq> 0 \<and> l \<noteq> 1)"
    by (rule keyboard_opens [OF dev B(5,6)]) (simp add: E(12))
  have inv: "alloc_inv (span (b, 16384)) ((heapst sys1)\<lparr>hmem := kmem ?k3\<rparr>) [(b + 564, 15820)] ?bs"
    by (rule alloc_inv_frame [OF _ E(10)]) (use F kernel_area_heap [OF L, of "heapst sys1", folded b_def] in blast)+
  show ?thesis
  proof (intro exI [of _ ?sys] exI [of _ n] conjI)
    show "irq_on (kern (mach ?sys))" "ready_list (kern (mach ?sys)) = Some []" "state_of (kern (mach ?sys)) (b + 8) = DEAD"
      using sched_repD(4) [OF R(1)] E(5-7) V(1,2) by simp_all
    show "scr (mach ?sys) = scr_text (cleared (vst (mach sys)))
        (early_log mem blk cnt vesa vptr (kmem (kern (mach sys))) @ lit ''starting multitasking'' @ [10]
         @ main2_log n (heapst ?sys) [(b + 564, 15820)])"
      using E(11) B(3) S by (simp del: list.map)
  qed (use run R(6) E(2,4) same regs M inv F in auto)
qed

section \<open>Property\<close>

text \<open>
  C4. The kernel runs to its end. When the linker has put its objects apart, the memory map lies outside
  the frame buffer and the keyboard controller takes its commands, \<^verbatim>\<open>_start_c\<close> and everything after it
  returns from every loop and arrives in the idle task, on the stack it came from, with interrupts on: the
  boot task has run and is DEAD, no task waits, exactly the timer's and the keyboard's lines are open, and
  the heap has the two blocks of the boot task, its structure and its stack, which nobody frees. The screen
  shows, after it was cleared, the complete log: the arguments, the memory map, the drivers' messages with
  the \<open>n \<le> 32\<close> stale bytes of the keyboard's buffer, and the one free chunk of the heap.
\<close>

theorem kernel_runs:
  assumes L: "linked L sys" and dev: "reads_masks dev" "accepts dev" and scr: "on_screen (vst (mach sys))"
    and cpu: "\<not> irq_on (kern (mach sys))"
      "region (esp (kern (mach sys)) - 20) 20 \<subseteq> region (idle_stack (kern (mach sys))) 512"
    and blk: "32 * unat cnt \<le> 2 ^ 32" "region blk (32 * unat cnt) \<inter> vga_region = {}"
  defines "b \<equiv> default_heap L"
  shows "\<exists>sys' n. kernel_run dev L mem blk cnt vesa vptr sys = Some sys'
    \<and> current_task (kern (mach sys')) = idle_task (kern (mach sys)) \<and> esp (kern (mach sys')) = esp (kern (mach sys))
    \<and> irq_on (kern (mach sys')) \<and> ready_list (kern (mach sys')) = Some [] \<and> state_of (kern (mach sys')) (b + 8) = DEAD
    \<and> pics_ready (mach sys') \<and> (\<forall>l < 16. masked (mach sys') l \<longleftrightarrow> l \<noteq> 0 \<and> l \<noteq> 1)
    \<and> alloc_inv (span (b, 16384)) ((heapst sys')\<lparr>hmem := kmem (kern (mach sys'))\<rparr>) [(b + 564, 15820)]
        [(b + 52, (b + 44, 520)), (b + 8, (b, 44))]
    \<and> h_base (heapst sys') = b \<and> h_len (heapst sys') = 16384 \<and> n \<le> 32
    \<and> scr (mach sys') = scr_text (cleared (vst (mach sys)))
        (early_log mem blk cnt vesa vptr (kmem (kern (mach sys))) @ lit ''starting multitasking'' @ [10]
         @ main2_log n (heapst sys') [(b + 564, 15820)])"
  unfolding b_def by (rule run_to_idle [OF L dev scr cpu blk])

text \<open>The small machine, linked at low addresses, with an empty memory map.\<close>

theorem kernel_runs_witness:
  "\<exists>sys' n. kernel_run quiet sample_links 0 0 0 0 0 sample_system = Some sys'
    \<and> current_task (kern (mach sys')) = 0x200 \<and> irq_on (kern (mach sys')) \<and> state_of (kern (mach sys')) 0x10008 = DEAD
    \<and> scr (mach sys') = scr_text (cleared (vst idle_machine))
        (early_log 0 0 0 0 0 (\<lambda>_. 0) @ lit ''starting multitasking'' @ [10] @ main2_log n (heapst sys') [(0x10234, 15820)])"
proof -
  have d: "accepts quiet" by (simp add: accepts_def quiet_def PIC1_DATA_def PIC2_DATA_def I8042_STATUS_REG_def)
  have c: "on_screen (vst (mach sample_system))" "\<not> irq_on (kern (mach sample_system))"
    "region (esp (kern (mach sample_system)) - 20) 20 \<subseteq> region (idle_stack (kern (mach sample_system))) 512"
    using region_field [of 492 20 512 "0x300 :: u32"] idle_machine_simps(2) by (simp_all add: sample_system_def demo_boot_def)
  have "32 * unat (0 :: u32) \<le> 2 ^ 32" "region (0 :: u32) (32 * unat (0 :: u32)) \<inter> vga_region = {}" by (simp_all add: region_def)
  from kernel_runs [OF sample_linked quiet_reads_masks d c this, of 0 0 0] obtain sys' n where
    r: "kernel_run quiet sample_links 0 0 0 0 0 sample_system = Some sys'"
      "current_task (kern (mach sys')) = idle_task (kern (mach sample_system))" "irq_on (kern (mach sys'))"
      "state_of (kern (mach sys')) (default_heap sample_links + 8) = DEAD"
      "scr (mach sys') = scr_text (cleared (vst (mach sample_system)))
        (early_log 0 0 0 0 0 (kmem (kern (mach sample_system))) @ lit ''starting multitasking'' @ [10]
         @ main2_log n (heapst sys') [(default_heap sample_links + 564, 15820)])" by blast
  have s: "idle_task (kern (mach sample_system)) = 0x200" "default_heap sample_links + 8 = 0x10008"
    "default_heap sample_links + 564 = 0x10234" "kmem (kern (mach sample_system)) = (\<lambda>_. 0)" "vst (mach sample_system) = vst idle_machine"
    by (simp_all add: sample_links_def sample_system_def demo_boot_def)
  show ?thesis using r unfolding s by blast
qed

end
