(* ===== verification/BootLoader.thy ===== *)
theory BootLoader
  imports CString
begin

text \<open>
  The boot loader (\<^verbatim>\<open>bootblock.S\<close>) and the kernel's entry code (\<^verbatim>\<open>start.S\<close>). The 16-bit registers of
  a routine are its arguments. The two words that \<^verbatim>\<open>load_floppy\<close> pushes are arguments too, so the
  stack below 0x7c00 is not part of the memory here; the stack of the 32-bit code is. The bytes of
  data that only the loader uses are fields of the state. The BIOS is a parameter: the disk
  service, which is told how often it has been called, and the memory map service. So are the
  installed memory and what the keyboard controller's status port returns.
\<close>

section \<open>State\<close>

record loader =
  lmem :: mem
  calls :: nat
  retrycnt :: u8
  shown :: "u8 list"
  ports :: "(u16 \<times> u8) list"

text \<open>int 13h: ax, bx, cx, dx and the memory to the carry flag, ax and the memory; the other
  registers are preserved. int 15h, function e820h: eax, ebx, ecx, edx, edi and the memory to the
  carry flag, ebx and the memory.\<close>

type_synonym disk_bios = "nat \<Rightarrow> u16 \<Rightarrow> u16 \<Rightarrow> u16 \<Rightarrow> u16 \<Rightarrow> mem \<Rightarrow> bool \<times> u16 \<times> mem"
type_synonym memory_bios = "u32 \<Rightarrow> u32 \<Rightarrow> u32 \<Rightarrow> u32 \<Rightarrow> u32 \<Rightarrow> mem \<Rightarrow> bool \<times> u32 \<times> mem"

definition int13 :: "disk_bios \<Rightarrow> u16 \<Rightarrow> u16 \<Rightarrow> u16 \<Rightarrow> u16 \<Rightarrow> loader \<Rightarrow> bool \<times> u16 \<times> loader" where
  "int13 B ax bx cx dx s =
    (case B (calls s) ax bx cx dx (lmem s) of (cf, ax, m) \<Rightarrow> (cf, ax, s\<lparr>lmem := m, calls := calls s + 1\<rparr>))"

definition print_text :: "u8 list \<Rightarrow> loader \<Rightarrow> loader" where "print_text bs s = s\<lparr>shown := shown s @ bs\<rparr>"

definition out_port :: "u16 \<Rightarrow> u8 \<Rightarrow> loader \<Rightarrow> loader" where "out_port p v s = s\<lparr>ports := ports s @ [(p, v)]\<rparr>"

text \<open>The halves of a 16-bit register.\<close>

definition hl :: "u8 \<Rightarrow> u8 \<Rightarrow> u16" where "hl h l = push_bit 8 (ucast h) OR ucast l"
definition hi :: "u16 \<Rightarrow> u8" where "hi w = ucast (drop_bit 8 w)"
definition lo :: "u16 \<Rightarrow> u8" where "lo w = ucast w"

definition boot_char :: "char \<Rightarrow> u8" where "boot_char c = of_char c"
definition okmsg :: "u8 list" where "okmsg = map boot_char ''OK'' @ [10, 13]"
definition loadmsg :: "u8 list" where "loadmsg = map boot_char ''Loading''"
definition errormsg :: "u8 list" where "errormsg = [10, 13] @ map boot_char ''Error reading disk.'' @ [10, 13]"

section \<open>The A20 gate\<close>

text \<open>\<open>kbc i\<close> is what the read number \<open>i\<close> of port 0x64 returns. The loop counts down cx, which is 0 at
  its start, so there are at most 65536 reads. The result says whether the controller is busy.\<close>

fun a20_loop :: "(nat \<Rightarrow> u8) \<Rightarrow> nat \<Rightarrow> nat \<Rightarrow> bool \<times> nat" where
  "a20_loop kbc 0 i = (True, i)"
| "a20_loop kbc (Suc cx) i =
    (let busy = kbc i AND 0x2 \<noteq> 0 in if busy \<and> cx \<noteq> 0 then a20_loop kbc cx (i + 1) else (busy, i + 1))"

definition enable_a20 :: "(nat \<Rightarrow> u8) \<Rightarrow> loader \<Rightarrow> loader" where
  "enable_a20 kbc s =
    (let (busy, i) = a20_loop kbc 65536 0
     in if busy then s
        else let s = out_port 0x64 0xd1 s; (busy, i) = a20_loop kbc 65536 i
             in if busy then s else out_port 0x60 0xdf s)"

section \<open>Reading the floppy\<close>

text \<open>\<^verbatim>\<open>rep movsd\<close>\<close>

fun rep_movsd :: "mem \<Rightarrow> addr \<Rightarrow> addr \<Rightarrow> nat \<Rightarrow> mem" where
  "rep_movsd m edi esi 0 = m"
| "rep_movsd m edi esi (Suc ecx) = rep_movsd (st32 m edi (ld32 m esi)) (edi + 4) (esi + 4) ecx"

text \<open>At \<^verbatim>\<open>fail\<close>: the message, a key and a reboot.\<close>

definition fail_boot :: "loader \<Rightarrow> loader" where "fail_boot s = print_text errormsg s"

text \<open>The code from \<^verbatim>\<open>tryagain\<close> on, with the pushed words \<open>sbx\<close> and \<open>scx\<close>. \<open>Inl\<close>: the reboot.\<close>

partial_function (option) tryagain ::
    "disk_bios \<Rightarrow> u16 \<Rightarrow> u16 \<Rightarrow> u16 \<Rightarrow> u16 \<Rightarrow> u16 \<Rightarrow> u32 \<Rightarrow> loader \<Rightarrow> (loader + loader) option" where
  "tryagain B sbx scx bx cx dx edi s =
    (let al = 0x13 - lo bx;
         ax = (let ax = hl 0 al in if ax <s cx then ax else cx);
         (cf, ax, s) = int13 B (hl 2 (lo ax)) 0x8000 bx dx s
     in if cf then
          (let s = s\<lparr>retrycnt := retrycnt s - 1\<rparr>
           in if retrycnt s = 0 then Some (Inl (fail_boot s))
              else (case int13 B (hl 0 (lo ax)) 0x8000 bx dx s of
                      (cf, ax, s) \<Rightarrow> tryagain B sbx scx 0x8000 bx dx edi s))
        else
          (let s = print_text [boot_char CHR ''.''] (s\<lparr>retrycnt := 3\<rparr>);
               ecx = unat (push_bit 7 (hl 0 (lo ax)));
               s = s\<lparr>lmem := rep_movsd (lmem s) edi 0x8000 ecx\<rparr>;
               edi = edi + 4 * of_nat ecx;
               dx = hl (hi dx XOR 1) (lo dx);
               bx = hl (if hi dx \<noteq> 0 then hi sbx else hi sbx + 1) 1;
               ax = hl 0 (lo ax)
           in if ax <s scx then tryagain B bx (scx - ax) bx (scx - ax) dx edi s else Some (Inr s)))"

definition load_floppy :: "disk_bios \<Rightarrow> u16 \<Rightarrow> u16 \<Rightarrow> u16 \<Rightarrow> u32 \<Rightarrow> loader \<Rightarrow> (loader + loader) option" where
  "load_floppy B bx cx dx edi s = tryagain B bx cx bx cx dx edi s"

section \<open>The size of the memory\<close>

text \<open>The result has \<^verbatim>\<open>ext_mem_count\<close> and the memory.\<close>

partial_function (option) find_mem_next :: "memory_bios \<Rightarrow> u32 \<Rightarrow> u32 \<Rightarrow> u8 \<Rightarrow> mem \<Rightarrow> (u8 \<times> mem) option" where
  "find_mem_next B ebx edi ext_mem_count m =
    (case B 0xe820 ebx 0x20 0x534d4150 edi m of (cf, ebx, m) \<Rightarrow>
       if cf then Some (ext_mem_count, m)
       else let ext_mem_count = ext_mem_count + 1; edi = edi + 0x20
            in if ebx \<noteq> 0 then find_mem_next B ebx edi ext_mem_count m else Some (ext_mem_count, m))"

definition ext_mem_info :: u32 where "ext_mem_info = 0x7000"

definition find_mem_size_real :: "memory_bios \<Rightarrow> mem \<Rightarrow> (u8 \<times> mem) option" where
  "find_mem_size_real B m = find_mem_next B 0 ext_mem_info 0 m"

text \<open>Loads and stores where no memory may be: \<open>ram\<close> are the addresses with memory behind them, and
  a load from elsewhere gives \<open>bus\<close>.\<close>

definition bus_ld32 :: "(addr \<Rightarrow> bool) \<Rightarrow> u32 \<Rightarrow> mem \<Rightarrow> addr \<Rightarrow> u32" where
  "bus_ld32 ram bus m a = (if ram a then ld32 m a else bus)"

definition bus_st32 :: "(addr \<Rightarrow> bool) \<Rightarrow> mem \<Rightarrow> addr \<Rightarrow> u32 \<Rightarrow> mem" where
  "bus_st32 ram m a v = (if ram a then st32 m a v else m)"

partial_function (option) fms_loop :: "(addr \<Rightarrow> bool) \<Rightarrow> u32 \<Rightarrow> u32 \<Rightarrow> mem \<Rightarrow> (u32 \<times> mem) option" where
  "fms_loop ram bus esi m =
    (let eax = 0x31323738;
         edx = bus_ld32 ram bus m esi;
         m = bus_st32 ram m esi eax;
         ecx = bus_ld32 ram bus m esi;
         m = bus_st32 ram m esi edx
     in if ecx \<noteq> eax then Some (esi - 0x1000 + 0x10, m) else fms_loop ram bus (esi + 0x1000) m)"

definition find_mem_size_probe :: "(addr \<Rightarrow> bool) \<Rightarrow> u32 \<Rightarrow> mem \<Rightarrow> (u32 \<times> mem) option" where
  "find_mem_size_probe ram bus m = fms_loop ram bus 0x100ff0 m"

section \<open>From the BIOS to the kernel\<close>

definition push32 :: "u32 \<Rightarrow> mem \<times> addr \<Rightarrow> mem \<times> addr" where
  "push32 v st = (case st of (m, esp) \<Rightarrow> (st32 m (esp - 4) v, esp - 4))"

text \<open>The 32-bit code: memory and stack pointer at the kernel's entry. The return address of the
  call is \<open>ra\<close>; \<^verbatim>\<open>vesa_info\<close> and \<^verbatim>\<open>in_vesa\<close> are still 0, as the display mode is not probed.\<close>

definition code32 :: "(addr \<Rightarrow> bool) \<Rightarrow> u32 \<Rightarrow> addr \<Rightarrow> u8 \<Rightarrow> mem \<Rightarrow> (mem \<times> addr) option" where
  "code32 ram bus ra ext_mem_count m =
    (let st = (m, 0x10000);
         st = push32 0 st;
         st = push32 0 st;
         st = push32 (ucast ext_mem_count) st;
         st = push32 ext_mem_info st
     in map_option (push32 ra)
          (if ext_mem_count \<noteq> 0 then Some (push32 0 st)
           else map_option (\<lambda>(eax, m). push32 eax (m, snd st)) (find_mem_size_probe ram bus (fst st))))"

text \<open>The whole loader, started by the BIOS at 0x7c00. \<open>Inl\<close>: the reboot after a read error.\<close>

definition boot_start :: "disk_bios \<Rightarrow> memory_bios \<Rightarrow> (nat \<Rightarrow> u8) \<Rightarrow> (addr \<Rightarrow> bool) \<Rightarrow> u32 \<Rightarrow> addr \<Rightarrow> loader
    \<Rightarrow> (loader + loader \<times> addr) option" where
  "boot_start B M kbc ram bus ra s =
    (let s = enable_a20 kbc s in
     Option.bind (load_floppy B 2 1 0 0x7e00 s) (\<lambda>r. case r of Inl s \<Rightarrow> Some (Inl s) | Inr s \<Rightarrow>
       (let cx = ld16 (lmem s) 0x7c02; s = print_text loadmsg s in
        Option.bind (load_floppy B 3 cx 0 0x100000 s) (\<lambda>r. case r of Inl s \<Rightarrow> Some (Inl s) | Inr s \<Rightarrow>
          (let s = print_text okmsg (out_port 0x3f2 0 s) in
           Option.bind (find_mem_size_real M (lmem s)) (\<lambda>(ext_mem_count, m).
           Option.bind (code32 ram bus ra ext_mem_count m) (\<lambda>(m, esp).
             Some (Inr (s\<lparr>lmem := m\<rparr>, esp)))))))))"

section \<open>start.S\<close>

text \<open>The kernel's entry: memory and stack pointer at the first instruction of \<^verbatim>\<open>_start_c\<close>.\<close>

definition start_entry :: "addr \<Rightarrow> addr \<Rightarrow> addr \<Rightarrow> addr \<Rightarrow> mem \<Rightarrow> addr \<Rightarrow> mem \<times> addr" where
  "start_entry bss_start bss_end idle_stack ra m esp =
    (let ecx = bss_end - bss_start;
         m = rep_stosb m bss_start 0 (unat ecx);
         eax = esp;
         st = (m, idle_stack + 512);
         st = push32 (ld32 (fst st) (eax + 0x14)) st;
         st = push32 (ld32 (fst st) (eax + 0x10)) st;
         st = push32 (ld32 (fst st) (eax + 0xc)) st;
         st = push32 (ld32 (fst st) (eax + 0x8)) st;
         st = push32 (ld32 (fst st) (eax + 0x4)) st
     in push32 ra st)"

text \<open>The five arguments of a C function on the stack.\<close>

definition args5 :: "mem \<Rightarrow> addr \<Rightarrow> u32 list" where
  "args5 m esp = map (\<lambda>i. ld32 m (esp + 4 * of_nat i)) [1..<6]"

end
