(* ===== verification/LoaderProps.thy ===== *)
theory LoaderProps
  imports BootLoader
begin

text \<open>
  Properties of the boot loader's routines and of the kernel's entry: a request is read completely
  and into place whatever tracks it spans (\<open>read_sectors\<close>), the retry after an error never works,
  the memory probe finds the size of the memory, and \<^verbatim>\<open>start.S\<close> passes its arguments on.
\<close>

section \<open>Registers and copies\<close>

lemma hl_halves [simp]: "hi (hl h l) = h" "lo (hl h l) = l" "hl (hi w) (lo w) = w"
  by (rule bit_word_eqI; auto simp: hi_def lo_def hl_def bit_simps dest: bit_imp_le_length)+

lemma unat_hl_0 [simp]: "unat (hl 0 l) = unat l"
proof -
  have "unat l < 256" using unsigned_less [of l] by simp
  then show ?thesis by (simp add: hl_def unsigned_ucast_eq take_bit_nat_eq_self)
qed

lemma unat_hl: "unat (hl h l) = 256 * unat h + unat l"
proof -
  have b: "unat h < 256" "unat l < 256" using unsigned_less [of h] unsigned_less [of l] by simp_all
  have "take_bit 16 (unat h * 256) = unat h * 256" using b by (intro take_bit_nat_eq_self) simp
  then have h: "unat (push_bit 8 (ucast h) :: u16) = 256 * unat h"
    using b by (simp only: unsigned_push_bit_eq unsigned_ucast_eq) (simp add: push_bit_eq_mult take_bit_nat_eq_self)
  have l: "unat (ucast l :: u16) = unat l" using b by (simp add: unsigned_ucast_eq take_bit_nat_eq_self)
  have "hl h l = push_bit 8 (ucast h) + ucast l"
    unfolding hl_def by (rule disjunctive_add [symmetric]) (auto simp: bit_simps dest: bit_imp_le_length)
  then show ?thesis using b h l by (simp add: unat_add_lem [THEN iffD1])
qed

lemma ld16_hl: "ld16 m a = hl (m (a + 1)) (m a)"
  by (simp add: ld16_def hl_def or.commute)

lemma unat_ecx: "unat (push_bit 7 (hl 0 l)) = 128 * unat l"
proof -
  have "unat l < 256" using unsigned_less [of l] by simp
  then have "take_bit 16 (128 * unat l) = 128 * unat l" by (intro take_bit_nat_eq_self) simp
  then show ?thesis by (simp only: unsigned_push_bit_eq unat_hl_0) (simp add: push_bit_eq_mult mult.commute)
qed

lemma sless16: "unat a < 2 ^ 15 \<Longrightarrow> unat b < 2 ^ 15 \<Longrightarrow> a <s b \<longleftrightarrow> unat a < unat b" for a b :: u16
proof -
  have "sint x = int (unat x)" if "unat x < 2 ^ 15" for x :: u16
  proof -
    have "int (unat x) < int (2 ^ 15)" using that by (simp only: of_nat_less_iff)
    then have u: "uint x < 2 ^ 15" "0 \<le> uint x" by simp_all
    then have "signed_take_bit 15 (uint x) = uint x" by (intro signed_take_bit_int_eq_self) (use u order_trans [OF _ u(2)] in simp_all)
    then show ?thesis by (simp add: sint_uint)
  qed
  then show "unat a < 2 ^ 15 \<Longrightarrow> unat b < 2 ^ 15 \<Longrightarrow> ?thesis" by (simp only: word_sless_alt of_nat_less_iff)
qed

lemma region_append: "n + k \<le> 2 ^ 32 \<Longrightarrow> region a (n + k) = region a n \<union> region (a + of_nat n) k"
proof (rule set_eqI)
  fix x
  assume nk: "n + k \<le> 2 ^ 32"
  show "x \<in> region a (n + k) \<longleftrightarrow> x \<in> region a n \<union> region (a + of_nat n) k"
  proof (cases "n = 2 ^ 32")
    case True
    then show ?thesis using nk unat_lt32 [of "x - a"] by (simp add: region_def)
  next
    case False
    have n: "unat (of_nat n :: u32) = n" using nk False by (simp add: unsigned_of_nat take_bit_nat_eq_self)
    define y where "y = x - a"
    have "x - (a + of_nat n) = y - of_nat n" by (simp add: y_def)
    moreover have "unat (y - of_nat n) = (if n \<le> unat y then unat y - n else unat y + 2 ^ 32 - n)"
      by (simp add: unat_sub_if' n)
    ultimately have "unat (x - (a + of_nat n)) = (if n \<le> unat (x - a) then unat (x - a) - n else unat (x - a) + 2 ^ 32 - n)"
      by (simp only: y_def)
    then show ?thesis using nk by (auto simp: region_def)
  qed
qed

lemma copy_word: "st32 m d (ld32 m s) = m(d := m s, d + 1 := m (s + 1), d + 2 := m (s + 2), d + 3 := m (s + 3))"
  unfolding st32_def ld32_def word_bytes by (rule refl)

lemma rep_movsd_eq:
  assumes "4 * n \<le> 2 ^ 32" "region d (4 * n) \<inter> region s (4 * n) = {}"
  shows "rep_movsd m d s n x = (if x \<in> region d (4 * n) then m (s + (x - d)) else m x)"
  using assms
proof (induction n arbitrary: m d s)
  case 0
  then show ?case by simp
next
  case (Suc n)
  let ?m = "st32 m d (ld32 m s)"
  have R: "region a (4 * Suc n) = region a 4 \<union> region (a + 4) (4 * n)" for a
    using region_append [of 4 "4 * n" a] Suc.prems(1) by simp
  have "rep_movsd ?m (d + 4) (s + 4) n x = (if x \<in> region (d + 4) (4 * n) then ?m (s + 4 + (x - (d + 4))) else ?m x)"
    using Suc.prems(2) unfolding R by (intro Suc.IH) (use Suc.prems(1) in auto)
  moreover have "s + 4 + (x - (d + 4)) = s + (x - d)" by simp
  moreover have "?m (s + (x - d)) = m (s + (x - d))" if "x \<in> region (d + 4) (4 * n)"
  proof (rule st32_frame)
    have "x \<in> region d (4 * Suc n)" using that R by blast
    then have "s + (x - d) \<in> region s (4 * Suc n)" by (simp add: region_def)
    then show "s + (x - d) \<notin> region d 4" using Suc.prems(2) R by blast
  qed
  moreover have "?m x = m (s + (x - d))" if "x \<in> region d 4"
    using that unfolding region_small copy_word by auto
  moreover have "?m x = m x" if "x \<notin> region d 4" using that by (rule st32_frame)
  ultimately show ?case unfolding R by simp
qed

section \<open>The disk\<close>

text \<open>The documented behaviour of the disk service on a 1.44 MB floppy without faults: \<open>k\<close> sectors
  that lie on one track are read into the buffer. \<open>D\<close> are the bytes of the disk.\<close>

definition sector_no :: "nat \<Rightarrow> nat \<Rightarrow> nat \<Rightarrow> nat" where
  "sector_no cyl head sec = (cyl * 2 + head) * 18 + (sec - 1)"

definition reads_disk :: "disk_bios \<Rightarrow> (nat \<Rightarrow> u8) \<Rightarrow> bool" where
  "reads_disk B D \<longleftrightarrow> (\<forall>n k cyl head sec m. 1 \<le> unat sec \<and> 0 < k \<and> unat sec + k \<le> 19 \<and> head < 2 \<and> unat cyl < 80 \<longrightarrow>
     (\<exists>m'. B n (hl 2 (of_nat k)) 0x8000 (hl cyl sec) (hl head 0) m = (False, hl 0 (of_nat k), m')
       \<and> frame (region 0x8000 (512 * k)) m m'
       \<and> (\<forall>i < 512 * k. m' (0x8000 + of_nat i) = D (512 * sector_no (unat cyl) (unat head) (unat sec) + i))))"

definition buffer :: "addr set" where "buffer = region 0x8000 9216"

text \<open>One round of the loop: as many sectors as the track and the request have.\<close>

lemma read_track:
  assumes B: "reads_disk B D" and sec: "1 \<le> unat sec" "unat sec \<le> 18" and g: "head < 2" "unat cyl < 80"
    and cx: "0 < unat cx" "unat cx < 2 ^ 15" and k: "k = min (19 - unat sec) (unat cx)"
    and d: "512 * unat cx \<le> 2 ^ 31" "region edi (512 * unat cx) \<inter> buffer = {}"
  shows "\<exists>s'. tryagain B (hl cyl sec) cx (hl cyl sec) cx (hl head 0) edi s =
      (if k < unat cx then
         tryagain B (hl (if head = 0 then cyl else cyl + 1) 1) (cx - of_nat k) (hl (if head = 0 then cyl else cyl + 1) 1)
           (cx - of_nat k) (hl (head XOR 1) 0) (edi + of_nat (512 * k)) s'
       else Some (Inr s'))
    \<and> (\<forall>i < 512 * k. lmem s' (edi + of_nat i) = D (512 * sector_no (unat cyl) (unat head) (unat sec) + i))
    \<and> frame (region edi (512 * k) \<union> buffer) (lmem s) (lmem s') \<and> ports s' = ports s \<and> retrycnt s' = 3"
proof -
  have k0: "0 < k" "k \<le> 18" "unat sec + k \<le> 19" "k \<le> unat cx" using sec cx k by auto
  have uk: "unat (of_nat k :: u8) = k" "unat (of_nat k :: u16) = k" using k0 by (simp_all add: unsigned_of_nat take_bit_nat_eq_self)
  have hk: "hl 0 (of_nat k) = of_nat k" using uk by (simp add: word_unat_eq_iff)
  have al: "unat (0x13 - sec) = 19 - unat sec" using sec by (simp add: unat_sub word_le_nat_alt)
  have ax: "(if hl 0 (0x13 - sec) <s cx then hl 0 (0x13 - sec) else cx) = of_nat k"
  proof -
    have "hl 0 (0x13 - sec) <s cx \<longleftrightarrow> 19 - unat sec < unat cx"
      using sless16 [of "hl 0 (0x13 - sec)" cx] cx(2) al by simp
    then show ?thesis using uk k al by (auto simp: word_unat_eq_iff min_def)
  qed
  have lk: "lo (of_nat k) = of_nat k" using hk hl_halves(2) by metis
  obtain m where m: "B (calls s) (hl 2 (of_nat k)) 0x8000 (hl cyl sec) (hl head 0) (lmem s) = (False, hl 0 (of_nat k), m)"
      "frame (region 0x8000 (512 * k)) (lmem s) m"
      "\<forall>i < 512 * k. m (0x8000 + of_nat i) = D (512 * sector_no (unat cyl) (unat head) (unat sec) + i)"
    using B sec k0 g unfolding reads_disk_def by meson
  define s1 where "s1 = s\<lparr>calls := Suc (calls s), retrycnt := 3, shown := shown s @ [boot_char CHR ''.''], lmem := rep_movsd m edi 0x8000 (128 * k)\<rparr>"
  have bx: "(if head XOR 1 \<noteq> 0 then cyl else cyl + 1) = (if head = 0 then cyl else cyl + 1)"
  proof -
    have "unat head = 0 \<or> unat head = 1" using g(1) by (auto simp: word_less_nat_alt)
    then have "head = 0 \<or> head = 1" by (auto simp: word_unat_eq_iff)
    then show ?thesis by auto
  qed
  have less: "of_nat k <s cx \<longleftrightarrow> k < unat cx" using sless16 [of "of_nat k" cx] cx k0 uk by simp
  have e: "edi + 4 * of_nat (128 * k) = edi + of_nat (512 * k)" by simp
  have "tryagain B (hl cyl sec) cx (hl cyl sec) cx (hl head 0) edi s =
      (if k < unat cx then
         tryagain B (hl (if head = 0 then cyl else cyl + 1) 1) (cx - of_nat k) (hl (if head = 0 then cyl else cyl + 1) 1)
           (cx - of_nat k) (hl (head XOR 1) 0) (edi + of_nat (512 * k)) s1
       else Some (Inr s1))"
    by (subst tryagain.simps)
      (simp only: Let_def int13_def hl_halves ax lk m(1) split prod.case if_False simp_thms hk less unat_ecx uk bx e [symmetric]
        s1_def print_text_def, simp add: hk unat_ecx uk bx less)
  moreover have "4 * (128 * k) = 512 * k" by simp
  moreover have sub: "region edi (512 * k) \<inter> buffer = {}" "region 0x8000 (512 * k) \<subseteq> buffer"
    using d(2) region_mono [of "512 * k" "512 * unat cx" edi] k0 region_mono [of "512 * k" 9216 "0x8000"]
    by (auto simp: buffer_def)
  then have disj: "region edi (512 * k) \<inter> region 0x8000 (512 * k) = {}" by blast
  moreover have M: "rep_movsd m edi 0x8000 (128 * k) x = (if x \<in> region edi (512 * k) then m (0x8000 + (x - edi)) else m x)" for x
    using rep_movsd_eq [of "128 * k" edi "0x8000" m x] disj k0 by simp
  moreover have "rep_movsd m edi 0x8000 (128 * k) (edi + of_nat i) = D (512 * sector_no (unat cyl) (unat head) (unat sec) + i)"
    if i: "i < 512 * k" for i
  proof -
    have "unat (of_nat i :: u32) = i" using i k0 by (simp add: unsigned_of_nat take_bit_nat_eq_self)
    then have "edi + of_nat i \<in> region edi (512 * k)" using i by (simp add: region_def)
    then show ?thesis using m(3) i by (simp add: M)
  qed
  moreover have "frame (region edi (512 * k) \<union> buffer) (lmem s) (rep_movsd m edi 0x8000 (128 * k))"
    using m(2) sub(2) by (auto simp: frame_def M)
  ultimately show ?thesis by (intro exI [of _ s1] conjI) (simp_all add: s1_def)
qed

text \<open>All of a request, track after track.\<close>

lemma read_sectors:
  assumes "reads_disk B D" "1 \<le> unat sec" "unat sec \<le> 18" "head < 2" "0 < unat cx" "unat cx < 2 ^ 15"
    and "sector_no (unat cyl) (unat head) (unat sec) + unat cx \<le> 2880" "region edi (512 * unat cx) \<inter> buffer = {}"
  shows "\<exists>s'. tryagain B (hl cyl sec) cx (hl cyl sec) cx (hl head 0) edi s = Some (Inr s')
    \<and> (\<forall>i < 512 * unat cx. lmem s' (edi + of_nat i) = D (512 * sector_no (unat cyl) (unat head) (unat sec) + i))
    \<and> frame (region edi (512 * unat cx) \<union> buffer) (lmem s) (lmem s') \<and> ports s' = ports s \<and> retrycnt s' = 3"
  using assms
proof (induction "unat cx" arbitrary: cx cyl head sec edi s rule: less_induct)
  case less
  define k where "k = min (19 - unat sec) (unat cx)"
  let ?from = "512 * sector_no (unat cyl) (unat head) (unat sec)"
  have cyl: "unat cyl < 80" using less.prems(5,7) by (simp add: sector_no_def)
  have "512 * unat cx \<le> 2 ^ 31" using less.prems(6) by simp
  from read_track [OF less.prems(1-4) cyl less.prems(5,6) k_def this less.prems(8), of s]
  obtain s1 where s1: "tryagain B (hl cyl sec) cx (hl cyl sec) cx (hl head 0) edi s =
      (if k < unat cx then
         tryagain B (hl (if head = 0 then cyl else cyl + 1) 1) (cx - of_nat k) (hl (if head = 0 then cyl else cyl + 1) 1)
           (cx - of_nat k) (hl (head XOR 1) 0) (edi + of_nat (512 * k)) s1
       else Some (Inr s1))"
    "\<forall>i < 512 * k. lmem s1 (edi + of_nat i) = D (?from + i)"
    "frame (region edi (512 * k) \<union> buffer) (lmem s) (lmem s1)" "ports s1 = ports s" "retrycnt s1 = 3" by blast
  show ?case
  proof (cases "k < unat cx")
    case False
    then have "k = unat cx" by (simp add: k_def)
    then show ?thesis using s1 False by (intro exI [of _ s1]) simp
  next
    case True
    let ?cx = "cx - of_nat k" and ?cyl = "if head = 0 then cyl else cyl + 1" and ?e = "edi + of_nat (512 * k)"
    have k: "k = 19 - unat sec" "0 < k" using True less.prems(3) by (auto simp: k_def)
    have ucx: "unat ?cx = unat cx - k"
      using True less.prems(6) by (subst unat_sub) (simp_all add: word_le_nat_alt unsigned_of_nat take_bit_nat_eq_self)
    have e32: "unat (of_nat (512 * k) :: u32) = 512 * k"
      using True less.prems(6) by (simp add: unsigned_of_nat take_bit_nat_eq_self del: of_nat_mult)
    have c1: "unat (cyl + 1) = unat cyl + 1" using cyl by (subst unat_add_lem [THEN iffD1]) simp_all
    have hd: "head = 0 \<or> head = 1"
      using less.prems(4) unat_0_iff [of head] by (auto simp: word_less_nat_alt word_unat_eq_iff)
    have sn: "sector_no (unat ?cyl) (unat (head XOR 1)) (unat (1 :: u8)) = sector_no (unat cyl) (unat head) (unat sec) + k"
      using hd c1 k(1) less.prems(2,3) by (auto simp: sector_no_def)
    have split: "region edi (512 * unat cx) = region edi (512 * k) \<union> region ?e (512 * unat ?cx)"
    proof -
      have "512 * k + 512 * unat ?cx = 512 * unat cx" using ucx True by simp
      then show ?thesis using region_append [of "512 * k" "512 * unat ?cx" edi] less.prems(6) by simp
    qed
    have P: "head XOR 1 < 2" "1 \<le> unat (1 :: u8)" "unat (1 :: u8) \<le> 18" using hd by auto
    have Q: "unat ?cx < unat cx" "0 < unat ?cx" "unat ?cx < 2 ^ 15" using ucx True k(2) less.prems(6) by simp_all
    have R: "sector_no (unat ?cyl) (unat (head XOR 1)) (unat (1 :: u8)) + unat ?cx \<le> 2880"
      using sn ucx True less.prems(7) by linarith
    have S: "region ?e (512 * unat ?cx) \<inter> buffer = {}" using split less.prems(8) by blast
    from less.hyps [OF Q(1) less.prems(1) P(2,3,1) Q(2,3) R S, of s1, unfolded sn distrib_left]
    obtain s2 where s2: "tryagain B (hl ?cyl 1) ?cx (hl ?cyl 1) ?cx (hl (head XOR 1) 0) ?e s1 = Some (Inr s2)"
      "\<forall>i < 512 * unat ?cx. lmem s2 (?e + of_nat i) = D (?from + 512 * k + i)"
      "frame (region ?e (512 * unat ?cx) \<union> buffer) (lmem s1) (lmem s2)" "ports s2 = ports s1" "retrycnt s2 = 3" by blast
    have "lmem s2 (edi + of_nat i) = D (?from + i)" if i: "i < 512 * unat cx" for i
    proof (cases "i < 512 * k")
      case True
      have ui: "unat (of_nat i :: u32) = i" using i less.prems(6) by (simp add: unsigned_of_nat take_bit_nat_eq_self)
      have "edi + of_nat i \<in> region edi (512 * k)" using True ui by (simp add: region_def)
      moreover have "edi + of_nat i \<notin> region ?e (512 * unat ?cx)"
      proof -
        have "edi + of_nat i - ?e = of_nat i - of_nat (512 * k)" by simp
        moreover have "unat (of_nat i - of_nat (512 * k) :: u32) = i + 2 ^ 32 - 512 * k"
          using True ui e32 by (simp add: unat_sub_if')
        ultimately show ?thesis using ucx less.prems(6) \<open>k < unat cx\<close> unfolding in_region_iff by simp
      qed
      ultimately have "lmem s2 (edi + of_nat i) = lmem s1 (edi + of_nat i)"
        using s2(3) less.prems(8) split by (auto simp: frame_def)
      then show ?thesis using s1(2) True by simp
    next
      case False
      have "?e + of_nat (i - 512 * k) = edi + of_nat i" using False by (simp flip: of_nat_add add: add.assoc)
      then show ?thesis using s2(2) [rule_format, of "i - 512 * k"] i False ucx by (simp add: add.assoc)
    qed
    moreover have "frame (region edi (512 * unat cx) \<union> buffer) (lmem s) (lmem s2)"
      using s1(3) s2(3) split by (auto simp: frame_def)
    ultimately show ?thesis using s1(1,4) s2(1,4,5) True by (intro exI [of _ s2]) simp
  qed
qed

section \<open>Stacks\<close>

definition stack_at :: "mem \<Rightarrow> addr \<Rightarrow> u32 list \<Rightarrow> bool" where
  "stack_at m esp vs \<longleftrightarrow> (\<forall>i < length vs. ld32 m (esp + 4 * of_nat i) = vs ! i)"

lemma stack_at_Nil [simp]: "stack_at m esp []"
  by (simp add: stack_at_def)

lemma stack_at_push:
  assumes "stack_at m esp vs" "length vs < 2 ^ 20"
  shows "stack_at (st32 m (esp - 4) v) (esp - 4) (v # vs)"
  unfolding stack_at_def
proof (intro allI impI)
  fix i assume i: "i < length (v # vs)"
  show "ld32 (st32 m (esp - 4) v) (esp - 4 + 4 * of_nat i) = (v # vs) ! i"
  proof (cases i)
    case 0
    then show ?thesis by (simp add: ld32_st32_same)
  next
    case (Suc j)
    have a: "esp - 4 + 4 * of_nat i = esp + 4 * of_nat j" using Suc by (simp add: algebra_simps)
    define d :: u32 where "d = of_nat (4 * j + 4)"
    have d: "unat d = 4 * j + 4"
      using i Suc assms(2) by (simp add: d_def unsigned_of_nat take_bit_nat_eq_self del: of_nat_add of_nat_mult)
    have "esp + 4 * of_nat j - (esp - 4) = d" "(esp - 4) - (esp + 4 * of_nat j) = 0 - d" by (simp_all add: d_def)
    moreover have "unat (0 - d) = 2 ^ 32 - unat d" using unat_diff_swap [of 0 d] d by fastforce
    ultimately have "apart (esp - 4) 4 (esp + 4 * of_nat j) 4" using d i Suc assms(2) by (simp add: apart_def)
    then have "ld32 (st32 m (esp - 4) v) (esp + 4 * of_nat j) = ld32 m (esp + 4 * of_nat j)" by (rule ld32_st32_apart)
    then show ?thesis using assms(1) i Suc by (simp only: a) (simp add: stack_at_def)
  qed
qed

text \<open>The words \<open>vs\<close>, top of the stack first, have been pushed on a stack that started at \<open>sp\<close>.\<close>

definition pushed :: "mem \<Rightarrow> addr \<Rightarrow> u32 list \<Rightarrow> mem \<times> addr \<Rightarrow> bool" where
  "pushed m sp vs st \<longleftrightarrow> snd st = sp - 4 * of_nat (length vs) \<and> stack_at (fst st) (snd st) vs
     \<and> frame (region (snd st) (4 * length vs)) m (fst st)"

lemma pushedD:
  assumes "pushed m sp vs st"
  shows "snd st = sp - 4 * of_nat (length vs)" "stack_at (fst st) (snd st) vs" "frame (region (snd st) (4 * length vs)) m (fst st)"
  using assms unfolding pushed_def by blast+

lemma pushed_Nil: "pushed m sp [] (m, sp)"
  by (simp add: pushed_def)

lemma pushed_push:
  assumes "pushed m sp vs st" "length vs < 2 ^ 20"
  shows "pushed m sp (v # vs) (push32 v st)"
proof -
  obtain m' e where st: "st = (m', e)" by (cases st)
  have R: "region (e - 4) (4 * length (v # vs)) = region (e - 4) 4 \<union> region e (4 * length vs)"
    using region_append [of 4 "4 * length vs" "e - 4"] assms(2) by simp
  have "frame (region e (4 * length vs)) m m'" using pushedD(3) [OF assms(1)] by (simp only: st fst_conv snd_conv)
  then have "frame (region (e - 4) (4 * length (v # vs))) m m'" by (rule frame_mono) (unfold R, blast)
  then have "frame (region (e - 4) (4 * length (v # vs))) m (st32 m' (e - 4) v)" by (rule frame_st32) (unfold R, blast)
  then show ?thesis
    using assms stack_at_push [of m' e vs v] by (simp add: pushed_def push32_def st algebra_simps)
qed

lemma stack_word: "stack_at m esp vs \<Longrightarrow> i < length vs \<Longrightarrow> ld32 m (esp + 4 * of_nat i) = vs ! i"
  by (simp add: stack_at_def)

lemma stack_words5:
  assumes "stack_at m esp [r, a, b, c, d, e]"
  shows "ld32 m (esp + 0x4) = a" "ld32 m (esp + 0x8) = b" "ld32 m (esp + 0xc) = c" "ld32 m (esp + 0x10) = d"
    "ld32 m (esp + 0x14) = e"
  using stack_word [OF assms, of 1] stack_word [OF assms, of 2] stack_word [OF assms, of 3] stack_word [OF assms, of 4]
    stack_word [OF assms, of 5] by simp_all

lemma args5_stack: "stack_at m esp [r, a, b, c, d, e] \<Longrightarrow> args5 m esp = [a, b, c, d, e]"
  using stack_words5 [of m esp r a b c d e] by (simp add: args5_def upt_rec)

section \<open>The entry of the kernel\<close>

text \<open>The first instructions of the kernel clear its variables and pass the arguments on.\<close>

lemma start_entry_stack:
  assumes s: "stack_at m esp [r, a, b, c, d, e]"
    and b: "bss = region bss_start (unat (bss_end - bss_start))" "region (idle_stack + 488) 24 \<subseteq> bss" "region esp 24 \<inter> bss = {}"
    and st: "start_entry bss_start bss_end idle_stack ra m esp = st"
  shows "snd st = idle_stack + 488" "stack_at (fst st) (snd st) [ra, a, b, c, d, e]" "frame bss m (fst st)"
    "\<forall>x \<in> bss - region (idle_stack + 488) 24. fst st x = 0"
proof -
  define m0 where "m0 = rep_stosb m bss_start 0 (unat (bss_end - bss_start))"
  have z: "m0 x = (if x \<in> bss then 0 else m x)" for x
    unfolding m0_def b(1) by (rule rep_stosb_eq) (use unat_lt32 [of "bss_end - bss_start"] in simp)
  have fm: "frame bss m m0" by (simp add: frame_def z)
  have old: "ld32 (fst st') (esp + i) = ld32 m (esp + i)"
    if "pushed m0 (idle_stack + 512) vs st'" "length vs \<le> 6" "unat i \<le> 20" for vs st' i
  proof -
    have "region (snd st') (4 * length vs) \<subseteq> region (idle_stack + 488) 24"
    proof -
      define j :: u32 where "j = of_nat (24 - 4 * length vs)"
      have "unat j = 24 - 4 * length vs" by (simp add: j_def unsigned_of_nat take_bit_nat_eq_self del: of_nat_diff)
      moreover have "snd st' = idle_stack + 488 + j" using that(1,2) by (simp add: pushed_def j_def of_nat_diff)
      ultimately show ?thesis using region_field [of j "4 * length vs" 24 "idle_stack + 488"] that(2) by simp
    qed
    then have "region (snd st') (4 * length vs) \<subseteq> bss" using b(2) by blast
    from frame_trans [OF fm frame_mono [OF pushedD(3) [OF that(1)] this]] have "frame bss m (fst st')" .
    moreover have "region (esp + i) 4 \<inter> bss = {}" using region_field [of i 4 24 esp] that(3) b(3) by auto
    ultimately show ?thesis by (rule frame_ld32)
  qed
  note W = stack_words5 [OF s] and N = pushed_Nil [of m0 "idle_stack + 512"]
  define s1 where "s1 = push32 (ld32 m0 (esp + 0x14)) (m0, idle_stack + 512)"
  define s2 where "s2 = push32 (ld32 (fst s1) (esp + 0x10)) s1"
  define s3 where "s3 = push32 (ld32 (fst s2) (esp + 0xc)) s2"
  define s4 where "s4 = push32 (ld32 (fst s3) (esp + 0x8)) s3"
  define s5 where "s5 = push32 (ld32 (fst s4) (esp + 0x4)) s4"
  have p1: "pushed m0 (idle_stack + 512) [e] s1" unfolding s1_def using pushed_push [OF N, of e] old [OF N, of "0x14"] W by simp
  have p2: "pushed m0 (idle_stack + 512) [d, e] s2" unfolding s2_def using pushed_push [OF p1, of d] old [OF p1, of "0x10"] W by simp
  have p3: "pushed m0 (idle_stack + 512) [c, d, e] s3" unfolding s3_def using pushed_push [OF p2, of c] old [OF p2, of "0xc"] W by simp
  have p4: "pushed m0 (idle_stack + 512) [b, c, d, e] s4" unfolding s4_def using pushed_push [OF p3, of b] old [OF p3, of "0x8"] W by simp
  have p5: "pushed m0 (idle_stack + 512) [a, b, c, d, e] s5" unfolding s5_def using pushed_push [OF p4, of a] old [OF p4, of "0x4"] W by simp
  have e: "st = push32 ra s5"
    unfolding st [symmetric] start_entry_def Let_def s5_def s4_def s3_def s2_def s1_def m0_def by simp
  have P: "pushed m0 (idle_stack + 512) [ra, a, b, c, d, e] st" unfolding e by (rule pushed_push [OF p5]) simp
  have sp: "snd st = idle_stack + 488" using pushedD(1) [OF P] by simp
  then show "snd st = idle_stack + 488" .
  show "stack_at (fst st) (snd st) [ra, a, b, c, d, e]" by (rule pushedD(2) [OF P])
  have "frame (region (idle_stack + 488) 24) m0 (fst st)" using pushedD(3) [OF P] unfolding sp by simp
  then show "frame bss m (fst st)" "\<forall>x \<in> bss - region (idle_stack + 488) 24. fst st x = 0"
    using b(2) z by (auto simp: frame_def)
qed

section \<open>Read errors\<close>

text \<open>The documented behaviour of the disk service on a sector number of 0: the request is invalid.\<close>

definition rejects_sector_0 :: "disk_bios \<Rightarrow> bool" where
  "rejects_sector_0 B \<longleftrightarrow> (\<forall>n k bx cx dx m. lo cx AND 0x3f = 0 \<longrightarrow> fst (B n (hl 2 k) bx cx dx m))"

lemma tryagain_error:
  assumes "\<forall>k. fst (B (calls s) (hl 2 k) 0x8000 bx dx (lmem s))"
  shows "\<exists>s'. tryagain B sbx scx bx cx dx edi s =
      (if retrycnt s - 1 = 0 then Some (Inl (fail_boot s')) else tryagain B sbx scx 0x8000 bx dx edi s')
    \<and> retrycnt s' = retrycnt s - 1 \<and> shown s' = shown s \<and> calls s < calls s'"
proof -
  let ?ax = "(let ax = hl 0 (0x13 - lo bx) in if ax <s cx then ax else cx)"
  obtain c ax m where r: "B (calls s) (hl 2 (lo ?ax)) 0x8000 bx dx (lmem s) = (c, ax, m)" by (rule prod_cases3)
  then have c: c using assms [rule_format, of "lo ?ax"] by simp
  have "int13 B (hl 2 (lo ?ax)) 0x8000 bx dx s = (True, ax, s\<lparr>lmem := m, calls := calls s + 1\<rparr>)"
    unfolding int13_def r using c by simp
  note 1 = this [unfolded Let_def]
  let ?s1 = "s\<lparr>lmem := m, calls := calls s + 1, retrycnt := retrycnt s - 1\<rparr>"
  obtain cf ax' m' where 2: "B (calls s + 1) (hl 0 (lo ax)) 0x8000 bx dx m = (cf, ax', m')" by (rule prod_cases3)
  then have 3: "int13 B (hl 0 (lo ax)) 0x8000 bx dx ?s1 = (cf, ax', ?s1\<lparr>lmem := m', calls := calls s + 2\<rparr>)"
    by (simp add: int13_def)
  have e: "tryagain B sbx scx bx cx dx edi s = (if retrycnt s - 1 = 0 then Some (Inl (fail_boot ?s1))
      else tryagain B sbx scx 0x8000 bx dx edi (?s1\<lparr>lmem := m', calls := calls s + 2\<rparr>))"
    by (subst tryagain.simps, simp only: Let_def 1 split prod.case if_True) (use 3 in simp)
  show ?thesis
    by (rule exI [of _ "if retrycnt s - 1 = 0 then ?s1 else ?s1\<lparr>lmem := m', calls := calls s + 2\<rparr>"]) (simp add: e)
qed

text \<open>
  C38. After a read error the loader never reads the sectors it was asked for. The retry takes the
  buffer address for the sector number and asks for sector 0 of cylinder 128: with a disk service
  that rejects sector 0, one error of any kind, however short, ends in the error message and a
  reboot, although two more attempts are meant to follow.
\<close>

theorem read_error_is_final:
  assumes "rejects_sector_0 B" "\<forall>k. fst (B (calls s) (hl 2 k) 0x8000 bx dx (lmem s))" "retrycnt s = 3"
  shows "\<exists>s'. load_floppy B bx cx dx edi s = Some (Inl s') \<and> shown s' = shown s @ errormsg"
proof -
  have z: "lo (0x8000 :: u16) AND 0x3f = 0" by (simp add: lo_def)
  have rej: "\<forall>k. fst (B n (hl 2 k) 0x8000 0x8000 dx m)" for n m using assms(1) z unfolding rejects_sector_0_def by blast
  obtain s1 where 1: "tryagain B bx cx bx cx dx edi s = tryagain B bx cx 0x8000 bx dx edi s1" "retrycnt s1 = 2" "shown s1 = shown s"
    using tryagain_error [where B = B and s = s and bx = bx and dx = dx, OF assms(2), of bx cx cx edi] assms(3) by auto
  obtain s2 where 2: "tryagain B bx cx 0x8000 bx dx edi s1 = tryagain B bx cx 0x8000 0x8000 dx edi s2" "retrycnt s2 = 1" "shown s2 = shown s"
    using tryagain_error [where B = B and s = s1 and bx = "0x8000" and dx = dx, OF rej, of bx cx bx edi] 1 by auto
  obtain s3 where 3: "tryagain B bx cx 0x8000 0x8000 dx edi s2 = Some (Inl (fail_boot s3))" "shown s3 = shown s"
    using tryagain_error [where B = B and s = s2 and bx = "0x8000" and dx = dx, OF rej, of bx cx "0x8000" edi] 2 by auto
  show ?thesis using 1(1) 2(1) 3 by (simp add: load_floppy_def fail_boot_def print_text_def)
qed

text \<open>A disk that is read without faults, but for the requests before number \<open>n0\<close>.\<close>

definition sample_disk :: "nat \<Rightarrow> (nat \<Rightarrow> u8) \<Rightarrow> disk_bios" where
  "sample_disk n0 D n ax bx cx dx m =
    (if n < n0 \<or> lo cx AND 0x3f = 0 then (True, hl 1 0, m)
     else if hi ax \<noteq> 2 then (False, hl 0 0, m)
     else (False, hl 0 (lo ax),
       \<lambda>x. if x \<in> region (ucast bx) (512 * unat (lo ax))
           then D (512 * sector_no (unat (hi cx)) (unat (hi dx)) (unat (lo cx)) + unat (x - ucast bx)) else m x))"

lemma sample_disk_rejects: "rejects_sector_0 (sample_disk n0 D)"
  by (simp add: rejects_sector_0_def sample_disk_def)

lemma sample_disk_reads: "reads_disk (sample_disk 0 D) D"
  unfolding reads_disk_def
proof (intro allI impI)
  fix n k and cyl head sec :: u8 and m
  assume a: "1 \<le> unat sec \<and> 0 < k \<and> unat sec + k \<le> 19 \<and> head < 2 \<and> unat cyl < 80"
  have sec: "sec AND 0x3f \<noteq> 0"
  proof -
    have "sec AND 0x3f = take_bit 6 sec" by (simp add: take_bit_eq_mask mask_eq_exp_minus_1)
    moreover have "unat (take_bit 6 sec) = unat sec"
      using a by (simp add: unsigned_take_bit_eq take_bit_nat_eq_self)
    ultimately show ?thesis using a by (metis not_one_le_zero unsigned_0)
  qed
  have uk: "unat (of_nat k :: u8) = k" using a by (simp add: unsigned_of_nat take_bit_nat_eq_self)
  have i: "0x8000 + of_nat i \<in> region 0x8000 (512 * k)" "unat (of_nat i :: u32) = i" if "i < 512 * k" for i
  proof -
    show "unat (of_nat i :: u32) = i" using that a by (simp add: unsigned_of_nat take_bit_nat_eq_self)
    then show "0x8000 + of_nat i \<in> region 0x8000 (512 * k)" using that by (simp add: region_def)
  qed
  show "\<exists>m'. sample_disk 0 D n (hl 2 (of_nat k)) 0x8000 (hl cyl sec) (hl head 0) m = (False, hl 0 (of_nat k), m')
       \<and> frame (region 0x8000 (512 * k)) m m'
       \<and> (\<forall>i < 512 * k. m' (0x8000 + of_nat i) = D (512 * sector_no (unat cyl) (unat head) (unat sec) + i))"
    using sec i by (simp add: sample_disk_def uk frame_def)
qed

text \<open>The first read of a disk fails: so does the boot, and the second read would have been good.\<close>

definition cold_loader :: loader where
  "cold_loader = \<lparr>lmem = (\<lambda>_. 0)(0x7c02 := 1), calls = 0, retrycnt = 3, shown = [], ports = []\<rparr>"

theorem read_error_is_final_witness:
  "\<exists>s'. load_floppy (sample_disk 1 (\<lambda>i. of_nat i)) 2 1 0 0x7e00 cold_loader = Some (Inl s') \<and> shown s' = errormsg"
  using read_error_is_final [OF sample_disk_rejects [of 1 "\<lambda>i. of_nat i"], of cold_loader 2 0 1 "0x7e00"]
  by (simp add: cold_loader_def sample_disk_def)

section \<open>Probing for memory\<close>

text \<open>\<open>L\<close> bytes of memory from address 0 on, and a bus that does not give the test value by itself.\<close>

definition ram_up_to :: "(addr \<Rightarrow> bool) \<Rightarrow> u32 \<Rightarrow> nat \<Rightarrow> bool" where
  "ram_up_to ram bus L \<longleftrightarrow> (\<forall>a. ram a \<longleftrightarrow> unat a < L) \<and> bus \<noteq> 0x31323738 \<and> 4096 dvd L \<and> 0x100000 \<le> L \<and> L \<le> 2 ^ 32 - 4096"

lemma fms_loop_end:
  assumes r: "ram_up_to ram bus L" and p: "4096 dvd p" "p \<le> L"
  shows "fms_loop ram bus (of_nat (p + 0xff0)) m = Some (of_nat L, m)"
  using p
proof (induction "L - p" arbitrary: p rule: less_induct)
  case less
  let ?a = "of_nat (p + 0xff0) :: u32"
  have L: "L \<le> 2 ^ 32 - 4096" "4096 dvd L" "bus \<noteq> 0x31323738" and ram: "ram x \<longleftrightarrow> unat x < L" for x
    using r by (auto simp: ram_up_to_def)
  have u: "unat ?a = p + 0xff0"
    using less.prems(2) L(1) by (simp add: unsigned_of_nat take_bit_nat_eq_self del: of_nat_add)
  show ?case
  proof (cases "p < L")
    case True
    have "4096 dvd L - p" using less.prems(1) L(2) by (rule dvd_diff_nat [rotated])
    then have step: "p + 4096 \<le> L" using True dvd_imp_le [of 4096 "L - p"] by simp
    have "ram ?a" using ram u step by simp
    then have "fms_loop ram bus ?a m = fms_loop ram bus (?a + 0x1000) m"
      by (subst fms_loop.simps) (simp add: bus_ld32_def bus_st32_def ld32_st32_same st32_st32_same st32_ld32_same)
    also have "?a + 0x1000 = of_nat (p + 4096 + 0xff0)" by simp
    also have "fms_loop ram bus (of_nat (p + 4096 + 0xff0)) m = Some (of_nat L, m)"
      using less.prems(1) step True by (intro less.hyps) simp_all
    finally show ?thesis .
  next
    case False
    then have p: "p = L" using less.prems(2) by simp
    have "\<not> ram ?a" using ram u p by simp
    then have "fms_loop ram bus ?a m = Some (?a - 0x1000 + 0x10, m)"
      using L(3) by (subst fms_loop.simps) (simp add: bus_ld32_def bus_st32_def)
    also have "?a - 0x1000 + 0x10 = of_nat L" by (simp add: p)
    finally show ?thesis .
  qed
qed

text \<open>
  The probe ends, finds the size of the memory exactly and leaves every byte of it as it was,
  the kernel that it walks over included.
\<close>

lemma probe_finds_memory: "ram_up_to ram bus L \<Longrightarrow> find_mem_size_probe ram bus m = Some (of_nat L, m)"
  using fms_loop_end [of ram bus L "0x100000" m] by (simp add: find_mem_size_probe_def ram_up_to_def)

end
