(* ===== verification/MakeFlop.thy ===== *)
theory MakeFlop
  imports Prelude
begin

text \<open>
  The host tool \<^verbatim>\<open>makeflop.c\<close>, which puts the boot sectors and the kernel into a floppy image. The
  options come as the stream \<^verbatim>\<open>getopt\<close> returns (option character and argument), a parameter, with
  the remaining arguments. The host's files are lists of bytes by name; a file can be closed to the
  user, have a place where reading fails, and the disk has a number of free bytes, after which a
  write is short. \<^verbatim>\<open>calloc\<close> of the padding succeeds; the messages on the terminal are left out.
\<close>

section \<open>The host\<close>

record host =
  files :: "string \<Rightarrow> u8 list option"
  denied :: "string \<Rightarrow> bool"
  bad_at :: "string \<Rightarrow> nat option"
  room :: nat

definition contents :: "host \<Rightarrow> string \<Rightarrow> u8 list" where
  "contents h f = (case files h f of None \<Rightarrow> [] | Some bs \<Rightarrow> bs)"

definition can_open :: "host \<Rightarrow> string \<Rightarrow> bool" where
  "can_open h f \<longleftrightarrow> files h f \<noteq> None \<and> \<not> denied h f"

text \<open>\<^verbatim>\<open>read\<close>: the result and the bytes; -1 at a bad place, else the bytes up to the count, the end of
  the file or the bad place.\<close>

definition read_file :: "host \<Rightarrow> string \<Rightarrow> nat \<Rightarrow> nat \<Rightarrow> int \<times> u8 list" where
  "read_file h f off n =
    (case bad_at h f of
       None \<Rightarrow> (let bs = take n (drop off (contents h f)) in (int (length bs), bs))
     | Some b \<Rightarrow> if b \<le> off \<and> off < length (contents h f) then (- 1, [])
         else (let bs = take (min n (b - off)) (drop off (contents h f)) in (int (length bs), bs)))"

text \<open>\<^verbatim>\<open>write\<close> of the first \<open>count\<close> bytes of a buffer at the end of the file; -1 when there is no room
  or the count is larger than the buffer (a bad address).\<close>

definition write_file :: "string \<Rightarrow> u8 list \<Rightarrow> nat \<Rightarrow> host \<Rightarrow> int \<times> host" where
  "write_file f buf count h =
    (let k = min count (room h)
     in if length buf < count \<or> k = 0 \<and> 0 < count then (- 1, h)
        else (int k, h\<lparr>files := (files h)(f := Some (contents h f @ take k buf)), room := room h - k\<rparr>))"

section \<open>Options\<close>

text \<open>The decimal number at the start of a string, after blanks and a sign, as an int; the C library
  leaves a number out of range undefined.\<close>

fun digits_value :: "int \<Rightarrow> string \<Rightarrow> int" where
  "digits_value a [] = a"
| "digits_value a (c # cs) =
    (if 48 \<le> (of_char c :: int) \<and> (of_char c :: int) \<le> 57 then digits_value (10 * a + (of_char c - 48)) cs else a)"

definition atoi :: "string \<Rightarrow> u32" where
  "atoi s =
    (case dropWhile (\<lambda>c. c = CHR '' '' \<or> 9 \<le> (of_char c :: int) \<and> (of_char c :: int) \<le> 13) s of
       [] \<Rightarrow> 0
     | c # cs \<Rightarrow> of_int (if c = CHR ''-'' then - digits_value 0 cs
                        else if c = CHR ''+'' then digits_value 0 cs else digits_value 0 (c # cs)))"

record settings =
  padding :: u32
  enable_vesa :: bool
  vesa_x :: u32
  vesa_y :: u32
  vesa_bit :: u32

definition defaults :: settings where
  "defaults = \<lparr>padding = 0, enable_vesa = False, vesa_x = 640, vesa_y = 480, vesa_bit = 16\<rparr>"

text \<open>\<open>None\<close>: the usage message and the result -1.\<close>

fun parse_options :: "(char \<times> string) list \<Rightarrow> settings \<Rightarrow> settings option" where
  "parse_options [] c = Some c"
| "parse_options ((opt, optarg) # os) c =
    (let n = atoi optarg
     in if opt = CHR ''p'' then (if sint n < 0 then None else parse_options os (c\<lparr>padding := n\<rparr>))
        else if opt = CHR ''v'' then parse_options os (c\<lparr>enable_vesa := True\<rparr>)
        else if opt = CHR ''x'' then (if sint n < 0 then None else parse_options os (c\<lparr>vesa_x := n\<rparr>))
        else if opt = CHR ''y'' then (if sint n < 0 then None else parse_options os (c\<lparr>vesa_y := n\<rparr>))
        else if opt = CHR ''d'' then (if sint n < 0 then None else parse_options os (c\<lparr>vesa_bit := n\<rparr>))
        else None)"

section \<open>The image\<close>

definition block_count :: "nat \<Rightarrow> u32" where
  "block_count st_size =
    (let blocks = of_nat (st_size div 512) in if st_size mod 512 \<noteq> 0 then blocks + 1 else blocks)"

definition patch_size :: "u32 \<Rightarrow> u8 list \<Rightarrow> u8 list" where
  "patch_size blocks bs = bs[2 := ucast (blocks AND 0x00FF), 3 := ucast (drop_bit 8 (blocks AND 0xFF00))]"

definition patch_vesa :: "settings \<Rightarrow> u8 list \<Rightarrow> u8 list" where
  "patch_vesa c bs =
    (if enable_vesa c
     then bs[512 := 1, 513 := ucast (vesa_x c AND 0x00FF), 514 := ucast (drop_bit 8 (vesa_x c AND 0xFF00)),
             515 := ucast (vesa_y c AND 0x00FF), 516 := ucast (drop_bit 8 (vesa_y c AND 0xFF00)), 517 := ucast (vesa_bit c)]
     else bs)"

text \<open>The copy loop: what \<^verbatim>\<open>read\<close> returns is stored in an unsigned variable, and compared with what
  \<^verbatim>\<open>write\<close> returns as an unsigned number.\<close>

partial_function (option) copy_payload :: "string \<Rightarrow> string \<Rightarrow> nat \<Rightarrow> u64 \<Rightarrow> host \<Rightarrow> (bool \<times> u64 \<times> host) option" where
  "copy_payload infd outf off written_bytes h =
    (let (n, buf) = read_file h infd off 512;
         read_size = (of_int n :: u64)
     in if read_size > 0 then
          (let (written, h) = write_file outf buf (unat read_size) h
           in if (of_int written :: u64) \<noteq> read_size then Some (False, written_bytes, h)
              else copy_payload infd outf (off + length buf) (written_bytes + of_int written) h)
        else Some (True, written_bytes, h))"

definition pad_output :: "u32 \<Rightarrow> string \<Rightarrow> u64 \<Rightarrow> host \<Rightarrow> bool \<times> host" where
  "pad_output pad outf written_bytes h =
    (if pad \<noteq> 0 \<and> written_bytes mod scast pad \<noteq> 0 then
       (let towrite = scast pad - written_bytes mod scast pad;
            (written, h) = write_file outf (replicate (unat towrite) 0) (unat towrite) h
        in ((of_int written :: u64) = towrite, h))
     else (True, h))"

text \<open>The bytes that the failed \<^verbatim>\<open>read\<close> of the boot sectors leaves in the buffer are those of \<open>junk\<close>.\<close>

definition makeflop :: "u8 list \<Rightarrow> (char \<times> string) list \<Rightarrow> string list \<Rightarrow> host \<Rightarrow> (int \<times> host) option" where
  "makeflop junk opts args h =
    (case parse_options opts defaults of
       None \<Rightarrow> Some (- 1, h)
     | Some c \<Rightarrow>
       if length args < 3 then Some (- 1, h)
       else
         (let boot = args ! 0; payload = args ! 1; out = args ! 2
          in case files h payload of
               None \<Rightarrow> Some (- 1, h)
             | Some st \<Rightarrow>
               if denied h out then Some (- 1, h)
               else
                 (let h = h\<lparr>files := (files h)(out := Some [])\<rparr>
                  in if \<not> can_open h boot then Some (- 1, h)
                     else
                       (let (n, buf) = read_file h boot 0 1024
                        in if (of_int n :: u64) < 1024 \<or> length (contents h boot) \<noteq> 1024 then Some (- 1, h)
                           else
                             (let bootsector = (if n < 0 then junk else buf);
                                  bootsector = patch_vesa c (patch_size (block_count (length st)) bootsector);
                                  (written, h) = write_file out bootsector 1024 h
                              in if written \<noteq> 1024 then Some (1, h)
                                 else if \<not> can_open h payload then Some (- 1, h)
                                 else Option.bind (copy_payload payload out 0 (of_int written) h)
                                   (\<lambda>(ok, written_bytes, h).
                                      if \<not> ok then Some (1, h)
                                      else (let (ok, h) = pad_output (padding c) out written_bytes h
                                            in Some (if ok then 0 else 1, h))))))))"

section \<open>Reading and writing\<close>

lemma u64_of_nat: "n < 2 ^ 64 \<Longrightarrow> unat (of_nat n :: u64) = n"
  by (simp add: unsigned_of_nat take_bit_nat_eq_self)

lemma read_good: "bad_at h f = None \<Longrightarrow> read_file h f off n = (int (length (take n (drop off (contents h f)))), take n (drop off (contents h f)))"
  by (simp add: read_file_def Let_def)

lemma write_enough:
  "count \<le> length buf \<Longrightarrow> count \<le> room h \<Longrightarrow>
    write_file f buf count h = (int count, h\<lparr>files := (files h)(f := Some (contents h f @ take count buf)), room := room h - count\<rparr>)"
  by (auto simp: write_file_def Let_def min_def)

lemma write_short:
  assumes "count \<le> length buf" "room h < count" "count < 2 ^ 62"
  shows "\<exists>w h'. write_file f buf count h = (w, h') \<and> (of_int w :: u64) \<noteq> of_nat count \<and> w \<noteq> int count
    \<and> (\<forall>g. g \<noteq> f \<longrightarrow> files h' g = files h g)"
proof (cases "room h = 0")
  case True
  have "(of_int (- 1) :: u64) \<noteq> of_nat count"
  proof
    assume "(of_int (- 1) :: u64) = of_nat count"
    moreover have "unat (of_int (- 1) :: u64) = 2 ^ 64 - 1"
      by (simp add: unsigned_minus_1_eq_mask mask_eq_exp_minus_1)
    ultimately show False using assms(3) u64_of_nat [of count] by simp
  qed
  then show ?thesis using True assms by (simp add: write_file_def)
next
  case False
  have "(of_int (int (room h)) :: u64) \<noteq> of_nat count"
  proof
    assume "(of_int (int (room h)) :: u64) = of_nat count"
    then have "unat (of_nat (room h) :: u64) = unat (of_nat count :: u64)" by simp
    then show False using assms u64_of_nat [of count] u64_of_nat [of "room h"] by simp
  qed
  then show ?thesis using False assms by (simp add: write_file_def Let_def min_def)
qed

lemma contents_upd: "contents (h\<lparr>files := F, room := r\<rparr>) f = (case F f of None \<Rightarrow> [] | Some bs \<Rightarrow> bs)"
  by (simp add: contents_def)

section \<open>The copy loop\<close>

lemma copy_payload_copies:
  assumes "infd \<noteq> outf" "length ps < 2 ^ 62"
  shows "bad_at h infd = None \<Longrightarrow> contents h infd = ps \<Longrightarrow> off \<le> length ps \<Longrightarrow> length ps - off \<le> room h \<Longrightarrow> files h outf \<noteq> None \<Longrightarrow>
    copy_payload infd outf off wb h = Some (True, wb + of_nat (length ps - off),
      h\<lparr>files := (files h)(outf := Some (contents h outf @ drop off ps)), room := room h - (length ps - off)\<rparr>)"
proof (induction "length ps - off" arbitrary: off wb h rule: less_induct)
  case less
  define buf n where buf: "buf = take 512 (drop off ps)" and nd: "n = length buf"
  have r: "read_file h infd off 512 = (int n, buf)" using read_good [OF less.prems(1)] less.prems(2) by (simp add: buf nd)
  have len: "length buf = n" by (simp add: nd)
  show ?case
  proof (cases "off = length ps")
    case True
    have r0: "read_file h infd (length ps) 512 = (0, [])" using read_good [OF less.prems(1)] less.prems(2) by simp
    have "(files h)(outf := Some (contents h outf)) = files h" using less.prems(5) by (auto simp: contents_def)
    then show ?thesis using True by (subst copy_payload.simps) (simp add: r0)
  next
    case False
    have n: "0 < n" "n \<le> 512" "n \<le> length ps - off" "n \<le> room h" using less.prems(3,4) False by (auto simp: nd buf)
    have u: "unat (of_nat n :: u64) = n" using u64_of_nat [of n] n(2) by simp
    then have pos: "(of_int (int n) :: u64) > 0" using n(1) by (simp add: word_less_nat_alt)
    let ?h = "h\<lparr>files := (files h)(outf := Some (contents h outf @ buf)), room := room h - n\<rparr>"
    have w: "write_file outf buf n h = (int n, ?h)" using write_enough [of n buf h outf] n(4) by (simp add: len)
    have "copy_payload infd outf off wb h = copy_payload infd outf (off + n) (wb + of_int (int n)) ?h"
      by (subst copy_payload.simps) (use pos in \<open>simp add: r w u len Let_def\<close>)
    also have "\<dots> = Some (True, wb + of_int (int n) + of_nat (length ps - (off + n)),
      ?h\<lparr>files := (files ?h)(outf := Some (contents ?h outf @ drop (off + n) ps)), room := room ?h - (length ps - (off + n))\<rparr>)"
      by (rule less.hyps) (use less.prems assms n in \<open>auto simp: contents_def\<close>)
    also have "?h\<lparr>files := (files ?h)(outf := Some (contents ?h outf @ drop (off + n) ps)), room := room ?h - (length ps - (off + n))\<rparr>
       = h\<lparr>files := (files h)(outf := Some (contents h outf @ drop off ps)), room := room h - (length ps - off)\<rparr>"
    proof -
      have "buf @ drop (off + n) ps = drop off ps"
      proof -
        have "take k xs @ drop (length (take k xs)) xs = xs" for k and xs :: "u8 list" by (cases "k \<le> length xs") simp_all
        from this [of 512 "drop off ps"] show ?thesis unfolding nd buf drop_drop by (simp only: add.commute)
      qed
      moreover have "room h - n - (length ps - (off + n)) = room h - (length ps - off)" using n by simp
      ultimately show ?thesis by (simp add: contents_upd)
    qed
    also have "wb + of_int (int n) + of_nat (length ps - (off + n)) = wb + (of_nat (length ps - off) :: u64)"
    proof -
      have "n + (length ps - (off + n)) = length ps - off" using n(3) by simp
      then show ?thesis by (simp flip: of_nat_add)
    qed
    finally show ?thesis .
  qed
qed

lemma copy_payload_full:
  assumes "infd \<noteq> outf" "length ps < 2 ^ 62"
  shows "bad_at h infd = None \<Longrightarrow> contents h infd = ps \<Longrightarrow> off \<le> length ps \<Longrightarrow> room h < length ps - off \<Longrightarrow>
    \<exists>wb' h'. copy_payload infd outf off wb h = Some (False, wb', h') \<and> (\<forall>g. g \<noteq> outf \<longrightarrow> files h' g = files h g)"
proof (induction "length ps - off" arbitrary: off wb h rule: less_induct)
  case less
  define buf n where buf: "buf = take 512 (drop off ps)" and nd: "n = length buf"
  have r: "read_file h infd off 512 = (int n, buf)" using read_good [OF less.prems(1)] less.prems(2) by (simp add: buf nd)
  have len: "length buf = n" by (simp add: nd)
  have n: "0 < n" "n \<le> 512" "n \<le> length ps - off" using less.prems(3,4) by (auto simp: nd buf)
  have u: "unat (of_nat n :: u64) = n" using u64_of_nat [of n] n(2) by simp
  then have pos: "(of_int (int n) :: u64) > 0" using n(1) by (simp add: word_less_nat_alt)
  show ?case
  proof (cases "n \<le> room h")
    case False
    have "n \<le> length buf" by (simp add: len)
    from write_short [OF this, of h outf] False n(2) obtain w h' where
      w: "write_file outf buf n h = (w, h')" "(of_int w :: u64) \<noteq> of_nat n" "\<forall>g. g \<noteq> outf \<longrightarrow> files h' g = files h g" by auto
    then show ?thesis
      by (subst copy_payload.simps) (use pos in \<open>simp add: r w u len Let_def\<close>)
  next
    case True
    let ?h = "h\<lparr>files := (files h)(outf := Some (contents h outf @ buf)), room := room h - n\<rparr>"
    have w: "write_file outf buf n h = (int n, ?h)" using write_enough [of n buf h outf] True by (simp add: len)
    have e: "copy_payload infd outf off wb h = copy_payload infd outf (off + n) (wb + of_int (int n)) ?h"
      by (subst copy_payload.simps) (use pos in \<open>simp add: r w u len Let_def\<close>)
    have "\<exists>wb' h'. copy_payload infd outf (off + n) (wb + of_int (int n)) ?h = Some (False, wb', h') \<and> (\<forall>g. g \<noteq> outf \<longrightarrow> files h' g = files ?h g)"
      by (rule less.hyps) (use less.prems assms n True in \<open>auto simp: contents_def\<close>)
    then show ?thesis unfolding e by auto
  qed
qed

section \<open>The whole tool\<close>

text \<open>The number of zero bytes after \<open>len\<close> bytes.\<close>

definition pad_bytes :: "u32 \<Rightarrow> nat \<Rightarrow> nat" where
  "pad_bytes pad len = (if pad = 0 \<or> len mod unat pad = 0 then 0 else unat pad - len mod unat pad)"

lemma pad_bytes_multiple: "pad \<noteq> 0 \<Longrightarrow> (len + pad_bytes pad len) mod unat pad = 0"
proof -
  assume "pad \<noteq> 0"
  then have p: "0 < unat pad" by (simp add: unat_gt_0)
  show ?thesis
  proof (cases "len mod unat pad = 0")
    case False
    define q r where "q = len div unat pad" and "r = len mod unat pad"
    have "len = unat pad * q + r" "r < unat pad" using mod_less_divisor [OF p] by (simp_all add: q_def r_def)
    then have "len + (unat pad - r) = unat pad * (q + 1)" by (simp add: algebra_simps)
    then have "len + (unat pad - len mod unat pad) = unat pad * (q + 1)" by (simp add: r_def)
    then show ?thesis using False p by (simp add: pad_bytes_def \<open>pad \<noteq> 0\<close>)
  qed (simp add: pad_bytes_def)
qed

lemma pad_bytes_less: "pad \<noteq> 0 \<Longrightarrow> pad_bytes pad len < unat pad"
  using unat_gt_0 [of pad] by (simp add: pad_bytes_def diff_less)

lemma scast_pad: "0 \<le> sint (pad :: u32) \<Longrightarrow> unat (scast pad :: u64) = unat pad"
proof -
  assume a: "0 \<le> sint pad"
  have r: "sint pad < 2 ^ 31" using sint_lt [of pad] by simp
  have "uint pad = take_bit 32 (sint pad)" using uint_lt2p [of pad] by (simp add: take_bit_signed_take_bit sint_uint take_bit_int_eq_self)
  then have 1: "uint pad = sint pad" using a r by (simp add: take_bit_int_eq_self)
  have "uint (scast pad :: u64) = take_bit 64 (sint pad)" by (simp only: scast_eq uint_word_of_int_eq) simp
  also have "take_bit 64 (sint pad) = sint pad" by (rule take_bit_int_eq_self) (use a r in simp_all)
  finally have "uint (scast pad :: u64) = uint pad" using 1 by simp
  then show ?thesis by (simp only: unat_eq_nat_uint)
qed

lemma pad_output_ok:
  assumes "0 \<le> sint pad" "len < 2 ^ 63"
  shows "\<exists>ok h'. pad_output pad out (of_nat len) h = (ok, h') \<and> (ok \<longleftrightarrow> pad_bytes pad len \<le> room h) \<and> (\<forall>g. g \<noteq> out \<longrightarrow> files h' g = files h g)
    \<and> (ok \<longrightarrow> contents h' out = contents h out @ replicate (pad_bytes pad len) 0)"
proof -
  have m: "unat (of_nat len mod scast pad :: u64) = len mod unat pad"
    using assms(2) u64_of_nat [of len] by (simp add: unat_mod scast_pad [OF assms(1)])
  have m0: "(of_nat len mod scast pad :: u64) = 0 \<longleftrightarrow> len mod unat pad = 0"
    unfolding m [symmetric] by (simp add: unat_eq_0)
  show ?thesis
  proof (cases "pad = 0 \<or> len mod unat pad = 0")
    case True
    then show ?thesis using m0 by (auto simp: pad_output_def pad_bytes_def)
  next
    case False
    then have p: "0 < unat pad" by (simp add: unat_gt_0)
    let ?n = "pad_bytes pad len"
    let ?t = "scast pad - of_nat len mod scast pad :: u64"
    have "unat ?t = ?n" using False p mod_less_divisor [OF p, of len]
      by (simp add: unat_sub word_le_nat_alt m scast_pad [OF assms(1)] pad_bytes_def)
    note u = this
    have "unat pad < 2 ^ 32" using unat_lt32 [of pad] by simp
    then have n: "?n < 2 ^ 62" "?n \<le> length (replicate ?n (0 :: u8))" by (auto simp: pad_bytes_def intro: le_less_trans [OF diff_le_self])
    have "unat (of_nat ?n :: u64) = ?n" using n(1) by (intro u64_of_nat) simp
    with u have t: "?t = of_nat ?n" "unat ?t = ?n" by (simp_all only: word_unat_eq_iff)
    have e: "pad_output pad out (of_nat len) h =
      (let (written, h) = write_file out (replicate ?n 0) ?n h in ((of_int written :: u64) = of_nat ?n, h))"
      unfolding pad_output_def Let_def t(2) using False m0 t(1) by simp
    show ?thesis
    proof (cases "?n \<le> room h")
      case True
      then show ?thesis unfolding e using write_enough [OF n(2) True, of out] True by (auto simp: contents_def)
    next
      case False
      then have "room h < ?n" by simp
      from write_short [OF n(2) this n(1), of out] show ?thesis unfolding e using False by auto
    qed
  qed
qed

lemma parse_options_padding:
  "parse_options opts c = Some c' \<Longrightarrow> 0 \<le> sint (padding c) \<Longrightarrow> 0 \<le> sint (padding c')"
  by (induction opts c rule: parse_options.induct) (auto simp: Let_def split: if_splits)

lemma block_count_value: "block_count len = of_nat ((len + 511) div 512)"
proof -
  have "(len + 511) div 512 = (if len mod 512 \<noteq> 0 then len div 512 + 1 else len div 512)" 
  proof -
    define q r where "q = len div 512" and "r = len mod 512"
    have l: "len = 512 * q + r" "r < 512" by (simp_all add: q_def r_def)
    have "(512 * q + r + 511) div 512 = (if r \<noteq> 0 then q + 1 else q)"
    proof (cases "r = 0")
      case False
      then have "512 * q + r + 511 = (r - 1) + (q + 1) * 512" by simp
      then have "(512 * q + r + 511) div 512 = (r - 1) div 512 + (q + 1)" by (simp only: div_mult_self1)
      then show ?thesis using False l(2) by simp
    qed simp
    then show ?thesis using l by simp
  qed
  then show ?thesis by (simp add: block_count_def)
qed

lemma patch_size_bytes:
  assumes "length bs = 1024"
  shows "unat (patch_size b bs ! 2) + 256 * unat (patch_size b bs ! 3) = unat b mod 65536" "length (patch_size b bs) = 1024"
    "i \<notin> {2, 3} \<Longrightarrow> patch_size b bs ! i = bs ! i"
proof -
  have lo: "unat (ucast (b AND 0x00FF) :: u8) = unat b mod 256"
  proof -
    have "(0x00FF :: u32) = mask 8" by (simp add: mask_eq_exp_minus_1)
    then have "ucast (b AND 0x00FF) = (ucast b :: u8)" by (simp only: flip: take_bit_eq_mask) (rule bit_word_eqI, simp add: bit_simps)
    then show ?thesis by (simp add: unsigned_ucast_eq take_bit_eq_mod)
  qed
  have hi: "unat (ucast (drop_bit 8 (b AND 0xFF00)) :: u8) = unat b div 256 mod 256"
  proof -
    have "(0xFF00 :: u32) = push_bit 8 (mask 8)" by (simp add: mask_eq_exp_minus_1)
    moreover have "(ucast (drop_bit 8 (b AND push_bit 8 (mask 8))) :: u8) = ucast (drop_bit 8 b)"
      by (rule bit_word_eqI) (auto simp: bit_simps)
    ultimately have "(ucast (drop_bit 8 (b AND 0xFF00)) :: u8) = ucast (drop_bit 8 b)" by simp
    moreover have "unat (drop_bit 8 b) = unat b div 256"
      using unat_lt32 [of b] by (simp only: unsigned_drop_bit_eq) (simp add: take_bit_nat_eq_self drop_bit_eq_div [where 'a = nat])
    ultimately show ?thesis by (simp add: unsigned_ucast_eq take_bit_eq_mod)
  qed
  have "unat b mod 65536 = unat b mod 256 + 256 * (unat b div 256 mod 256)"
    using mod_mult2_eq [of "unat b" 256 256] by simp
  then show "unat (patch_size b bs ! 2) + 256 * unat (patch_size b bs ! 3) = unat b mod 65536"
    using assms by (simp only: patch_size_def lo hi nth_list_update_eq length_list_update) (simp add: lo hi)
  show "length (patch_size b bs) = 1024" "i \<notin> {2, 3} \<Longrightarrow> patch_size b bs ! i = bs ! i"
    using assms by (auto simp: patch_size_def)
qed

lemma patch_vesa_bytes: "length (patch_vesa c bs) = length bs" "i \<notin> {512..517} \<Longrightarrow> patch_vesa c bs ! i = bs ! i"
  by (auto simp: patch_vesa_def)

text \<open>The word the boot loader reads its number of sectors from.\<close>

lemma patched_boot_sectors:
  assumes "length bs = 1024" "n < 2 ^ 40"
  defines "b c \<equiv> patch_vesa c (patch_size (block_count n) bs)"
  shows "length (b c) = 1024" "unat (b c ! 2) + 256 * unat (b c ! 3) = (n + 511) div 512 mod 65536"
proof -
  note S = patch_size_bytes [OF assms(1)]
  show "length (b c) = 1024" using S(2) by (simp add: b_def patch_vesa_bytes)
  have "unat (b c ! 2) + 256 * unat (b c ! 3) = unat (block_count n) mod 65536"
    using S(1) patch_vesa_bytes(2) [of 2 c] patch_vesa_bytes(2) [of 3 c] by (simp add: b_def)
  also have "(n + 511) div 512 < 2 ^ 32" using assms(2) by simp
  then have "unat (block_count n) = (n + 511) div 512"
    unfolding block_count_value by (simp add: unsigned_of_nat take_bit_nat_eq_self)
  finally show "unat (b c ! 2) + 256 * unat (b c ! 3) = (n + 511) div 512 mod 65536" .
qed

text \<open>From the open files on, for readable inputs.\<close>

lemma makeflop_run:
  assumes "parse_options opts defaults = Some c" "distinct [boot, payload, out]"
    "files h boot = Some bs" "files h payload = Some ps" "\<not> denied h boot" "\<not> denied h payload" "\<not> denied h out"
    "bad_at h boot = None" "bad_at h payload = None" "length bs = 1024" "length ps < 2 ^ 62"
    "b = patch_vesa c (patch_size (block_count (length ps)) bs)"
  shows "\<exists>r h'. makeflop junk opts [boot, payload, out] h = Some (r, h')
    \<and> (r = 0 \<longleftrightarrow> 1024 + length ps + pad_bytes (padding c) (1024 + length ps) \<le> room h)
    \<and> (r = 0 \<longrightarrow> files h' out = Some (b @ ps @ replicate (pad_bytes (padding c) (1024 + length ps)) 0))
    \<and> (\<forall>g. g \<noteq> out \<longrightarrow> files h' g = files h g)"
proof -
  let ?h0 = "h\<lparr>files := (files h)(out := Some [])\<rparr>"
  have p: "0 \<le> sint (padding c)" using parse_options_padding [OF assms(1)] by (simp add: defaults_def)
  have lb: "length b = 1024" using assms(10,12) by (simp add: patch_vesa_bytes patch_size_bytes)
  have r: "read_file ?h0 boot 0 1024 = (1024, bs)" using read_good [of ?h0 boot 0 1024] assms(2,3,8,10) by (simp add: contents_def)
  have e: "makeflop junk opts [boot, payload, out] h =
    (let (written, h1) = write_file out b 1024 ?h0
     in if written \<noteq> 1024 then Some (1, h1)
        else if \<not> can_open h1 payload then Some (- 1, h1)
        else Option.bind (copy_payload payload out 0 (of_int written) h1)
          (\<lambda>(ok, written_bytes, h). if \<not> ok then Some (1, h)
             else (let (ok, h) = pad_output (padding c) out written_bytes h in Some (if ok then 0 else 1, h))))"
    using assms(1-7,10) by (simp add: makeflop_def can_open_def r contents_def assms(12) [symmetric])
  show ?thesis
  proof (cases "1024 \<le> room h")
    case False
    then have rm: "room ?h0 < 1024" by simp
    have l: "1024 \<le> length b" using lb by simp
    from write_short [OF l rm, of out] obtain w h1 where
      "write_file out b 1024 ?h0 = (w, h1)" "w \<noteq> 1024" "\<forall>g. g \<noteq> out \<longrightarrow> files h1 g = files h g" by auto
    then show ?thesis unfolding e using False by auto
  next
    case True
    let ?h1 = "?h0\<lparr>files := (files ?h0)(out := Some b), room := room h - 1024\<rparr>"
    have w: "write_file out b 1024 ?h0 = (1024, ?h1)" using write_enough [of 1024 b ?h0 out] True lb by (simp add: contents_def)
    have c1: "contents ?h1 payload = ps" "can_open ?h1 payload" "bad_at ?h1 payload = None" "contents ?h1 out = b" "files ?h1 out \<noteq> None"
      using assms(2,4,6,9) by (simp_all add: contents_def can_open_def)
    have ne: "payload \<noteq> out" using assms(2) by simp
    show ?thesis
    proof (cases "length ps \<le> room h - 1024")
      case False
      from copy_payload_full [OF ne assms(11) c1(3,1), of 0 "of_int 1024"] False obtain wb' h2 where
        "copy_payload payload out 0 (of_int 1024) ?h1 = Some (False, wb', h2)" "\<forall>g. g \<noteq> out \<longrightarrow> files h2 g = files ?h1 g" by auto
      then show ?thesis unfolding e w using False True c1(2) by auto
    next
      case len: True
      let ?h2 = "?h1\<lparr>files := (files ?h1)(out := Some (b @ ps)), room := room h - 1024 - length ps\<rparr>"
      have "of_int 1024 + of_nat (length ps) = (of_nat (1024 + length ps) :: u64)" by simp
      then have k: "copy_payload payload out 0 (of_int 1024) ?h1 = Some (True, of_nat (1024 + length ps), ?h2)"
        using copy_payload_copies [OF ne assms(11) c1(3,1), of 0 "of_int 1024"] len c1(4,5) by simp
      have "1024 + length ps < 2 ^ 63" using assms(11) by simp
      from pad_output_ok [OF p this, of out ?h2] obtain ok h3 where
        q: "pad_output (padding c) out (of_nat (1024 + length ps)) ?h2 = (ok, h3)"
          "ok \<longleftrightarrow> pad_bytes (padding c) (1024 + length ps) \<le> room ?h2" "\<forall>g. g \<noteq> out \<longrightarrow> files h3 g = files ?h2 g"
          "ok \<longrightarrow> contents h3 out = contents ?h2 out @ replicate (pad_bytes (padding c) (1024 + length ps)) 0" by blast
      have "makeflop junk opts [boot, payload, out] h = Some (if ok then 0 else 1, h3)"
        unfolding e w using c1(2) k q(1) by (simp del: of_nat_add)
      moreover have "ok \<longrightarrow> files h3 out = Some (b @ ps @ replicate (pad_bytes (padding c) (1024 + length ps)) 0)"
      proof
        assume "ok"
        then have "contents h3 out = b @ ps @ replicate (pad_bytes (padding c) (1024 + length ps)) 0" using q(4) by (simp add: contents_def)
        moreover have "contents h3 out \<noteq> []" using calculation lb by auto
        ultimately show "files h3 out = Some (b @ ps @ replicate (pad_bytes (padding c) (1024 + length ps)) 0)"
          by (auto simp: contents_def split: option.splits)
      qed
      ultimately show ?thesis using q(2,3) True len by auto
    qed
  qed
qed

text \<open>
  C35. For three different files, a readable boot file of 1024 bytes and a readable kernel,
  \<^verbatim>\<open>makeflop\<close> returns; it returns 0 exactly when the disk has room for the image, and then the image
  is the boot sectors, the kernel and zeros up to a multiple of the padding, where the word at
  offset 2 of the boot sectors is the number of 512-byte sectors the kernel takes (modulo 2^16, the
  room there is) and no other byte is changed but the six of the display mode, and those only with
  the option for it. No file but the image changes.
\<close>

theorem image_layout:
  assumes "parse_options opts defaults = Some c" "distinct [boot, payload, out]"
    "files h boot = Some bs" "files h payload = Some ps" "\<not> denied h boot" "\<not> denied h payload" "\<not> denied h out"
    "bad_at h boot = None" "bad_at h payload = None" "length bs = 1024" "length ps < 2 ^ 40"
  shows "\<exists>r h'. makeflop junk opts [boot, payload, out] h = Some (r, h')
    \<and> (r = 0 \<longleftrightarrow> 1024 + length ps + pad_bytes (padding c) (1024 + length ps) \<le> room h)
    \<and> (\<forall>g. g \<noteq> out \<longrightarrow> files h' g = files h g)
    \<and> (r = 0 \<longrightarrow> (\<exists>b z. files h' out = Some (b @ ps @ replicate z 0) \<and> length b = 1024
        \<and> (padding c = 0 \<longrightarrow> z = 0) \<and> (padding c \<noteq> 0 \<longrightarrow> (1024 + length ps + z) mod unat (padding c) = 0 \<and> z < unat (padding c))
        \<and> unat (b ! 2) + 256 * unat (b ! 3) = (length ps + 511) div 512 mod 65536
        \<and> (\<forall>i. i \<notin> {2, 3} \<and> (enable_vesa c \<longrightarrow> i \<notin> {512..517}) \<longrightarrow> b ! i = bs ! i)))"
proof -
  define b where "b = patch_vesa c (patch_size (block_count (length ps)) bs)"
  define z where "z = pad_bytes (padding c) (1024 + length ps)"
  have len: "length ps < 2 ^ 62" using assms(11) by simp
  from makeflop_run [OF assms(1-10) len b_def, of junk] obtain r h' where
    r: "makeflop junk opts [boot, payload, out] h = Some (r, h')" "r = 0 \<longleftrightarrow> 1024 + length ps + z \<le> room h"
      "r = 0 \<longrightarrow> files h' out = Some (b @ ps @ replicate z 0)" "\<forall>g. g \<noteq> out \<longrightarrow> files h' g = files h g"
    unfolding z_def by blast
  note S = patch_size_bytes [OF assms(10)]
  note B1 = patched_boot_sectors(1) [OF assms(10,11), of c, folded b_def]
  have B2: "padding c = 0 \<longrightarrow> z = 0" by (simp add: z_def pad_bytes_def)
  have B3: "padding c \<noteq> 0 \<longrightarrow> (1024 + length ps + z) mod unat (padding c) = 0 \<and> z < unat (padding c)"
    using pad_bytes_multiple [of "padding c" "1024 + length ps"] pad_bytes_less [of "padding c" "1024 + length ps"]
    unfolding z_def by blast
  note B4 = patched_boot_sectors(2) [OF assms(10,11), of c, folded b_def]
  have B5: "b ! i = bs ! i" if "i \<notin> {2, 3}" "enable_vesa c \<longrightarrow> i \<notin> {512..517}" for i
    using S(3) [OF that(1)] that(2) patch_vesa_bytes(2) [of i c] by (cases "enable_vesa c") (simp_all add: b_def patch_vesa_def)
  then have B6: "\<forall>i. i \<notin> {2, 3} \<and> (enable_vesa c \<longrightarrow> i \<notin> {512..517}) \<longrightarrow> b ! i = bs ! i" by blast
  show ?thesis
  proof (intro exI [of _ r] exI [of _ h'] conjI impI)
    show "makeflop junk opts [boot, payload, out] h = Some (r, h')" "\<forall>g. g \<noteq> out \<longrightarrow> files h' g = files h g"
      "r = 0 \<longleftrightarrow> 1024 + length ps + pad_bytes (padding c) (1024 + length ps) \<le> room h"
      using r by (simp_all only: z_def [symmetric])
    assume "r = 0"
    then show "\<exists>b z. files h' out = Some (b @ ps @ replicate z 0) \<and> length b = 1024
        \<and> (padding c = 0 \<longrightarrow> z = 0) \<and> (padding c \<noteq> 0 \<longrightarrow> (1024 + length ps + z) mod unat (padding c) = 0 \<and> z < unat (padding c))
        \<and> unat (b ! 2) + 256 * unat (b ! 3) = (length ps + 511) div 512 mod 65536
        \<and> (\<forall>i. i \<notin> {2, 3} \<and> (enable_vesa c \<longrightarrow> i \<notin> {512..517}) \<longrightarrow> b ! i = bs ! i)"
      using r(3) B6 by (intro exI [of _ b] exI [of _ z] conjI B1 B2 B3 B4) blast+
  qed
qed

text \<open>A 5-byte kernel in a world with room for 1600 bytes, padded to 512.\<close>

definition sample_host :: host where
  "sample_host = \<lparr>files = (\<lambda>_. None)(''boot'' := Some (replicate 1024 0), ''kernel'' := Some [1, 2, 3, 4, 5]),
     denied = \<lambda>_. False, bad_at = \<lambda>_. None, room = 1600\<rparr>"

theorem image_layout_witness:
  "\<exists>h'. makeflop [] [(CHR ''p'', ''512'')] [''boot'', ''kernel'', ''image''] sample_host = Some (0, h')
    \<and> (\<exists>b. files h' ''image'' = Some (b @ [1, 2, 3, 4, 5] @ replicate 507 0) \<and> unat (b ! 2) + 256 * unat (b ! 3) = 1)"
proof -
  have o: "parse_options [(CHR ''p'', ''512'')] defaults = Some (defaults\<lparr>padding := 512\<rparr>)" by (simp add: atoi_def)
  have r: "pad_bytes 512 1029 = 507" "room sample_host = 1600" by (simp_all add: pad_bytes_def sample_host_def)
  from image_layout [OF o, of "''boot''" "''kernel''" "''image''" sample_host "replicate 1024 0" "[1, 2, 3, 4, 5]" "[]"] r
  obtain h' b z where a: "makeflop [] [(CHR ''p'', ''512'')] [''boot'', ''kernel'', ''image''] sample_host = Some (0, h')"
    "files h' ''image'' = Some (b @ [1, 2, 3, 4, 5] @ replicate z 0)" "unat (b ! 2) + 256 * unat (b ! 3) = 1"
    "(1029 + z) mod 512 = 0" "z < 512" by (auto simp: sample_host_def)
  have "z = 507"
  proof -
    obtain q where q: "1029 + z = 512 * q" using a(4) by (auto simp: mod_eq_0_iff_dvd elim: dvdE)
    then have "512 * q < 512 * 4" "512 * 2 < 512 * q" using a(5) by linarith+
    then have "q = 3" by simp
    then show ?thesis using q by simp
  qed
  then show ?thesis using a by blast
qed

section \<open>A read error\<close>

lemma copy_payload_bad:
  assumes "copy_payload infd outf off wb h = Some r" "infd \<noteq> outf" "bad_at h infd = Some b" "b < length (contents h infd)"
    "off \<le> b" "b - off \<le> room h"
  shows False
proof -
  have "infd \<noteq> outf \<and> bad_at h infd = Some b \<and> b < length (contents h infd) \<and> off \<le> b \<and> b - off \<le> room h \<longrightarrow> False"
  proof (rule copy_payload.raw_induct [where P = "\<lambda>infd outf off wb h r.
      infd \<noteq> outf \<and> bad_at h infd = Some b \<and> b < length (contents h infd) \<and> off \<le> b \<and> b - off \<le> room h \<longrightarrow> False", OF _ assms(1)], intro impI)
    fix f infd outf off wb h r
    assume IH: "\<And>infd outf off wb h r. f infd outf off wb h = Some r \<Longrightarrow>
        infd \<noteq> outf \<and> bad_at h infd = Some b \<and> b < length (contents h infd) \<and> off \<le> b \<and> b - off \<le> room h \<longrightarrow> False"
      and step: "(let (n, buf) = read_file h infd off 512; read_size = (of_int n :: u64)
         in if read_size > 0 then
              (let (written, h) = write_file outf buf (unat read_size) h
               in if (of_int written :: u64) \<noteq> read_size then Some (False, wb, h)
                  else f infd outf (off + length buf) (wb + of_int written) h)
            else Some (True, wb, h)) = Some r"
      and p: "infd \<noteq> outf \<and> bad_at h infd = Some b \<and> b < length (contents h infd) \<and> off \<le> b \<and> b - off \<le> room h"
    show False
    proof (cases "off = b")
      case True
      then have rd: "read_file h infd off 512 = (- 1, [])" using p by (simp add: read_file_def)
      have w: "write_file outf [] (unat (- 1 :: u64)) h = (- 1, h)"
        by (simp add: write_file_def unsigned_minus_1_eq_mask mask_eq_exp_minus_1)
      have "(- 1 :: u64) > 0" by (simp add: word_gt_0)
      then have "f infd outf off (wb - 1) h = Some r" using step rd w by (simp add: Let_def)
      then show False using IH p by blast
    next
      case False
      define buf n where buf: "buf = take (min 512 (b - off)) (drop off (contents h infd))" and nd: "n = length buf"
      have n: "0 < n" "n \<le> 512" "n \<le> b - off" using p False by (auto simp: nd buf)
      have rd: "read_file h infd off 512 = (int n, buf)" using p False by (auto simp: read_file_def buf nd Let_def)
      have u: "unat (of_nat n :: u64) = n" using u64_of_nat [of n] n(2) by simp
      then have pos: "(of_int (int n) :: u64) > 0" using n(1) by (simp add: word_less_nat_alt)
      let ?h = "h\<lparr>files := (files h)(outf := Some (contents h outf @ buf)), room := room h - n\<rparr>"
      have w: "write_file outf buf n h = (int n, ?h)" using write_enough [of n buf h outf] n(3) p by (simp add: nd)
      have "f infd outf (off + n) (wb + of_int (int n)) ?h = Some r"
        using step pos by (simp add: rd w u nd [symmetric] Let_def)
      moreover have "infd \<noteq> outf \<and> bad_at ?h infd = Some b \<and> b < length (contents ?h infd) \<and> off + n \<le> b \<and> b - (off + n) \<le> room ?h"
        using p n(3) by (auto simp: contents_def)
      ultimately show False using IH by blast
    qed
  qed
  then show False using assms by blast
qed

text \<open>
  C39. A read error never ends: if the kernel file has a place that cannot be read and the disk has
  room for what comes before it, the copy loop does not return. \<^verbatim>\<open>read_size\<close> is unsigned, so the -1 of
  \<^verbatim>\<open>read\<close> is not recognised as the end; \<^verbatim>\<open>write\<close> is asked for 2^64 - 1 bytes and returns -1 as well,
  which the comparison takes for a complete write; nothing has moved, and the loop goes on.
\<close>

theorem read_error_never_ends:
  assumes "infd \<noteq> outf" "bad_at h infd = Some b" "b < length (contents h infd)" "b \<le> room h"
  shows "copy_payload infd outf 0 written_bytes h = None"
  using copy_payload_bad [of infd outf 0 written_bytes h _ b] assms
  by (cases "copy_payload infd outf 0 written_bytes h") auto

theorem read_error_never_ends_witness:
  "copy_payload ''kernel'' ''image'' 0 1024 (sample_host\<lparr>bad_at := (\<lambda>_. None)(''kernel'' := Some 3)\<rparr>) = None"
  by (rule read_error_never_ends [where b = 3]) (simp_all add: sample_host_def contents_def)

end
