(* ===== verification/BootChain.thy ===== *)
theory BootChain
  imports LoaderProps MakeFlop Boot
begin

text \<open>
  From the image file to the kernel's first C function: \<^verbatim>\<open>makeflop\<close> writes the floppy, the BIOS starts
  the boot loader on it, the loader reads the kernel to 1 MB and calls it, and \<^verbatim>\<open>start.S\<close> clears the
  kernel's variables and passes the arguments on. Shown: the kernel in memory is the kernel file,
  and the arguments are what the BIOS told about the memory.
\<close>

section \<open>The memory map\<close>

text \<open>The documented behaviour of int 15h, function e820h: the ranges \<open>es\<close> one after the other, each
  call given the value of ebx that the call before returned; 0 after the last one. A BIOS without
  the function sets the carry flag.\<close>

definition gives_ranges :: "memory_bios \<Rightarrow> e820 list \<Rightarrow> (nat \<Rightarrow> u32) \<Rightarrow> bool" where
  "gives_ranges M es c \<longleftrightarrow> c 0 = 0 \<and> (\<forall>i < length es. (c (Suc i) = 0 \<longleftrightarrow> Suc i = length es) \<and>
        (\<forall>edi m. \<exists>m'. M 0xe820 (c i) 0x20 0x534d4150 edi m = (False, c (Suc i), m')
          \<and> frame (region edi 32) m m' \<and> get_e820 m' edi = es ! i))"

definition map_service :: "memory_bios \<Rightarrow> e820 list \<Rightarrow> bool" where
  "map_service M es \<longleftrightarrow> (if es = [] then \<forall>edi m. \<exists>ebx. M 0xe820 0 0x20 0x534d4150 edi m = (True, ebx, m)
     else \<exists>c. gives_ranges M es c)"

lemma find_mem_run:
  assumes c: "gives_ranges M es c"
    and l: "length es \<le> 64" and j: "j < length es"
  shows "\<exists>m'. find_mem_next M (c j) (base + of_nat (32 * j)) (of_nat j) m = Some (of_nat (length es), m')
    \<and> frame (region (base + of_nat (32 * j)) (32 * (length es - j))) m m'
    \<and> (\<forall>i. j \<le> i \<and> i < length es \<longrightarrow> get_e820 m' (base + of_nat (32 * i)) = es ! i)"
  using j
proof (induction "length es - j" arbitrary: j m rule: less_induct)
  case less
  let ?p = "\<lambda>i. base + of_nat (32 * i)"
  have cj: "c (Suc j) = 0 \<longleftrightarrow> Suc j = length es" "\<forall>edi m. \<exists>m'. M 0xe820 (c j) 0x20 0x534d4150 edi m = (False, c (Suc j), m')
      \<and> frame (region edi 32) m m' \<and> get_e820 m' edi = es ! j"
    using c less.prems unfolding gives_ranges_def by simp_all
  obtain m1 where m1: "M 0xe820 (c j) 0x20 0x534d4150 (?p j) m = (False, c (Suc j), m1)"
    "frame (region (?p j) 32) m m1" "get_e820 m1 (?p j) = es ! j" using cj(2) by blast
  note z = cj(1)
  have R: "region (?p j) (32 * (length es - j)) = region (?p j) 32 \<union> region (?p (Suc j)) (32 * (length es - Suc j))"
  proof -
    have "32 * (length es - j) = 32 + 32 * (length es - Suc j)" using less.prems by simp
    moreover have "?p j + of_nat 32 = ?p (Suc j)" by simp
    moreover have "32 + 32 * (length es - Suc j) \<le> 2 ^ 32" using l by simp
    note region_append [OF this, of "?p j"]
    ultimately show ?thesis by (simp only:)
  qed
  show ?case
  proof (cases "Suc j = length es")
    case True
    have z0: "c (Suc j) = 0" using z True by blast
    have "of_nat j + 1 = (of_nat (length es) :: u8)" by (simp only: True [symmetric]) simp
    then have "find_mem_next M (c j) (?p j) (of_nat j) m = Some (of_nat (length es), m1)"
      by (subst find_mem_next.simps) (simp add: m1(1) z0 del: of_nat_mult)
    moreover have "\<forall>i. j \<le> i \<and> i < length es \<longrightarrow> get_e820 m1 (?p i) = es ! i"
    proof (intro allI impI)
      fix i assume "j \<le> i \<and> i < length es"
      then have "i = j" using True by linarith
      then show "get_e820 m1 (?p i) = es ! i" using m1(3) by (simp only:)
    qed
    moreover have "frame (region (?p j) (32 * (length es - j))) m m1"
      by (rule frame_mono [OF m1(2)]) (simp only: R Un_upper1)
    ultimately show ?thesis by blast
  next
    case False
    then have j': "Suc j < length es" using less.prems by simp
    have "length es - Suc j < length es - j" using j' by simp
    from less.hyps [OF this j', of m1] obtain m2 where
      m2: "find_mem_next M (c (Suc j)) (?p (Suc j)) (of_nat (Suc j)) m1 = Some (of_nat (length es), m2)"
        "frame (region (?p (Suc j)) (32 * (length es - Suc j))) m1 m2"
        "\<forall>i. Suc j \<le> i \<and> i < length es \<longrightarrow> get_e820 m2 (?p i) = es ! i" by blast
    have e: "?p j + 0x20 = ?p (Suc j)" "of_nat j + 1 = (of_nat (Suc j) :: u8)" by simp_all
    have "find_mem_next M (c j) (?p j) (of_nat j) m = find_mem_next M (c (Suc j)) (?p (Suc j)) (of_nat (Suc j)) m1"
      using z False by (subst find_mem_next.simps) (simp add: m1(1) e del: of_nat_mult of_nat_Suc)
    moreover have "get_e820 m2 (?p j) = es ! j"
    proof -
      have "region (?p j) 20 \<inter> region (?p (Suc j)) (32 * (length es - Suc j)) = {}"
      proof -
        have "apart (?p j) 32 (?p j + 32) (32 * (length es - Suc j))"
          using l by (simp add: apart_def)
        then have "region (?p j) 32 \<inter> region (?p j + 32) (32 * (length es - Suc j)) = {}"
          using j' by (subst (asm) apart_iff_disjoint) simp_all
        then have "region (?p j) 32 \<inter> region (?p (Suc j)) (32 * (length es - Suc j)) = {}" by (simp only: e(1))
        moreover have "region (?p j) 20 \<subseteq> region (?p j) 32" by (rule region_mono) simp
        ultimately show ?thesis by blast
      qed
      then show ?thesis using get_e820_frame [OF m2(2)] m1(3) by simp
    qed
    moreover have "frame (region (?p j) (32 * (length es - j))) m m2"
      using m1(2) m2(2) unfolding R by (auto simp: frame_def)
    moreover have "\<forall>i. j \<le> i \<and> i < length es \<longrightarrow> get_e820 m2 (?p i) = es ! i"
      using calculation(2) m2(3) by (metis Suc_leI le_neq_implies_less)
    ultimately show ?thesis using m2(1) by (intro exI [of _ m2]) (simp only: simp_thms)
  qed
qed

lemma find_mem_size_real_map:
  assumes "map_service M es" "length es \<le> 64"
  shows "\<exists>m'. find_mem_size_real M m = Some (of_nat (length es), m') \<and> frame (region ext_mem_info (32 * length es)) m m'
    \<and> (\<forall>i < length es. get_e820 m' (ext_mem_info + of_nat (32 * i)) = es ! i)"
proof (cases "es = []")
  case True
  then obtain ebx where "M 0xe820 0 0x20 0x534d4150 ext_mem_info m = (True, ebx, m)"
    using assms(1) unfolding map_service_def by (auto split: if_splits)
  then show ?thesis using True by (simp add: find_mem_size_real_def find_mem_next.simps)
next
  case False
  then obtain c where c: "gives_ranges M es c" using assms(1) unfolding map_service_def by auto
  have "c 0 = 0" using c by (simp add: gives_ranges_def)
  then show ?thesis using find_mem_run [OF c assms(2), of 0 ext_mem_info m] False
    by (simp add: find_mem_size_real_def)
qed

section \<open>The loader\<close>

lemma enable_a20_mem: "lmem (enable_a20 kbc s) = lmem s"
  by (simp add: enable_a20_def out_port_def Let_def split: prod.splits)

lemma load_floppy_reads:
  assumes "reads_disk B D" "1 \<le> unat sec" "unat sec \<le> 18" "0 < unat cx" "unat sec - 1 + unat cx \<le> 2880"
    and "region dest (512 * unat cx) \<inter> buffer = {}"
  shows "\<exists>s'. load_floppy B (hl 0 sec) cx 0 dest s = Some (Inr s')
    \<and> (\<forall>i < 512 * unat cx. lmem s' (dest + of_nat i) = D (512 * (unat sec - 1) + i))
    \<and> frame (region dest (512 * unat cx) \<union> buffer) (lmem s) (lmem s')"
proof -
  have "hl 0 0 = 0" by (simp add: hl_def)
  then show ?thesis
    using read_sectors [OF assms(1-3), of 0 cx 0 dest s] assms(4-6) by (auto simp: load_floppy_def sector_no_def)
qed

lemma code32_stack:
  assumes "ram_up_to ram bus L"
  shows "\<exists>st. code32 ram bus ra n m = Some st
    \<and> pushed m 0x10000 [ra, if n = 0 then of_nat L else 0, ext_mem_info, ucast n, 0, 0] st"
proof -
  define st where "st = push32 ext_mem_info (push32 (ucast n) (push32 0 (push32 0 (m, 0x10000))))"
  have P: "pushed m 0x10000 [ext_mem_info, ucast n, 0, 0] st"
    unfolding st_def by (intro pushed_push pushed_Nil) simp_all
  have "code32 ram bus ra n m = Some (push32 ra (push32 (if n = 0 then of_nat L else 0) st))"
    unfolding code32_def Let_def st_def [symmetric]
    using probe_finds_memory [OF assms, of "fst st"] by (cases st) (simp, metis surj_pair)
  moreover have "pushed m 0x10000 [ra, if n = 0 then of_nat L else 0, ext_mem_info, ucast n, 0, 0]
      (push32 ra (push32 (if n = 0 then of_nat L else 0) st))"
    by (intro pushed_push P) simp_all
  ultimately show ?thesis by blast
qed

text \<open>The areas the loader works in, below the kernel.\<close>

lemma low_areas:
  assumes "n \<le> 2878"
  shows "region 0x7e00 512 \<inter> buffer = {}" "region 0x100000 (512 * n) \<inter> buffer = {}"
    "region 0x100000 (512 * n) \<inter> region 0xffe8 24 = {}" "region 0x100000 (512 * n) \<inter> region 0x7000 2048 = {}"
    "region 0x7000 2048 \<inter> region 0xffe8 24 = {}" "region 0x7c02 2 \<inter> (region 0x7e00 512 \<union> buffer) = {}"
proof -
  have ap: "region a i \<inter> region b j = {}" if "unat a + i \<le> unat b" "unat b + j \<le> 2 ^ 32" "0 < i" for a b :: u32 and i j
  proof (cases "j = 0")
    case False
    then show ?thesis using apart_nat [OF that] that(3) by (subst (asm) apart_iff_disjoint) simp_all
  qed simp
  have hi: "region (0x100000 :: u32) (512 * n) \<inter> region b j = {}" if "unat b + j \<le> 0x100000" "0 < j" for b :: u32 and j
    using ap [of b j "0x100000" "512 * n"] that assms by (simp add: Int_commute)
  show "region 0x7e00 512 \<inter> buffer = {}" unfolding buffer_def by (rule ap) simp_all
  show "region 0x7000 2048 \<inter> region 0xffe8 24 = {}" by (rule ap) simp_all
  show "region 0x100000 (512 * n) \<inter> buffer = {}" unfolding buffer_def by (rule hi) simp_all
  show "region 0x100000 (512 * n) \<inter> region 0xffe8 24 = {}" by (rule hi) simp_all
  show "region 0x100000 (512 * n) \<inter> region 0x7000 2048 = {}" by (rule hi) simp_all
  have "region 0x7c02 2 \<inter> region 0x7e00 512 = {}" "region 0x7c02 2 \<inter> buffer = {}"
    unfolding buffer_def by (rule ap; simp)+
  then show "region 0x7c02 2 \<inter> (region 0x7e00 512 \<union> buffer) = {}" by blast
qed

lemma loader_run:
  assumes disk: "reads_disk B D" and map: "map_service M es" "length es \<le> 64" and ram: "ram_up_to ram bus L"
    and n: "n = unat (D 2) + 256 * unat (D 3)" "0 < n" "n \<le> 2878" and boot: "lmem s 0x7c02 = D 2" "lmem s 0x7c03 = D 3"
  shows "\<exists>s'. boot_start B M kbc ram bus ra s = Some (Inr (s', 0xffe8))
    \<and> (\<forall>i < 512 * n. lmem s' (0x100000 + of_nat i) = D (1024 + i))
    \<and> stack_at (lmem s') 0xffe8 [ra, if es = [] then of_nat L else 0, 0x7000, of_nat (length es), 0, 0]
    \<and> (\<forall>i < length es. get_e820 (lmem s') (0x7000 + of_nat (32 * i)) = es ! i)"
proof -
  note A = low_areas [OF n(3)]
  define s0 where "s0 = enable_a20 kbc s"
  have h: "hl 0 2 = 2" "hl 0 3 = 3" by (simp_all add: hl_def)
  have one: "unat (1 :: u16) = 1" by simp
  obtain s1 where s1: "load_floppy B 2 1 0 0x7e00 s0 = Some (Inr s1)" "frame (region 0x7e00 512 \<union> buffer) (lmem s0) (lmem s1)"
    using load_floppy_reads [OF disk, of 2 1 "0x7e00" s0] A(1) by (auto simp: h)
  define cx where "cx = ld16 (lmem s1) 0x7c02"
  have "lmem s1 0x7c02 = D 2" "lmem s1 0x7c03 = D 3"
  proof -
    have "x \<in> region (0x7c02 :: u32) 2" if "x = 0x7c02 \<or> x = 0x7c03" for x using that by (auto simp: in_region_iff)
    then have "lmem s1 x = lmem s x" if "x = 0x7c02 \<or> x = 0x7c03" for x
      using s1(2) A(6) that by (auto simp: frame_def s0_def enable_a20_mem)
    then show "lmem s1 0x7c02 = D 2" "lmem s1 0x7c03 = D 3" using boot by simp_all
  qed
  then have cx: "unat cx = n"
    unfolding cx_def ld16_hl unat_hl n(1) by simp
  obtain s2 where s2: "load_floppy B 3 cx 0 0x100000 (print_text loadmsg s1) = Some (Inr s2)"
      "\<forall>i < 512 * n. lmem s2 (0x100000 + of_nat i) = D (1024 + i)"
    using load_floppy_reads [OF disk, of 3 cx "0x100000" "print_text loadmsg s1"] A(2) n(2,3) by (auto simp: h cx)
  define s3 where "s3 = print_text okmsg (out_port 0x3f2 0 s2)"
  have l3: "lmem s3 = lmem s2" by (simp add: s3_def print_text_def out_port_def)
  from find_mem_size_real_map [OF map, of "lmem s3"] obtain m4 where m4: "find_mem_size_real M (lmem s3) = Some (of_nat (length es), m4)"
      "frame (region 0x7000 (32 * length es)) (lmem s3) m4" "\<forall>i < length es. get_e820 m4 (0x7000 + of_nat (32 * i)) = es ! i"
    unfolding ext_mem_info_def by blast
  have f4: "frame (region 0x7000 2048) (lmem s3) m4" by (rule frame_mono [OF m4(2) region_mono]) (use map(2) in simp)
  from code32_stack [OF ram, of ra "of_nat (length es)" m4] obtain m5 e where
    "code32 ram bus ra (of_nat (length es)) m4 = Some (m5, e)"
    "pushed m4 0x10000 [ra, if (of_nat (length es) :: u8) = 0 then of_nat L else 0, ext_mem_info, ucast (of_nat (length es) :: u8), 0, 0] (m5, e)"
    by (metis surj_pair)
  moreover have u: "unat (of_nat (length es) :: u8) = length es" "unat (of_nat (length es) :: u32) = length es"
    using map(2) by (simp_all add: unsigned_of_nat take_bit_nat_eq_self)
  then have "(of_nat (length es) :: u8) = 0 \<longleftrightarrow> es = []" by (metis length_0_conv unat_0_iff)
  moreover have "unat (ucast (of_nat (length es) :: u8) :: u32) = unat (of_nat (length es) :: u32)"
    using u map(2) by (simp add: unsigned_ucast_eq take_bit_nat_eq_self)
  then have "ucast (of_nat (length es) :: u8) = (of_nat (length es) :: u32)" by (simp only: word_unat_eq_iff)
  ultimately have m5: "code32 ram bus ra (of_nat (length es)) m4 = Some (m5, e)"
    "pushed m4 0x10000 [ra, if es = [] then of_nat L else 0, 0x7000, of_nat (length es), 0, 0] (m5, e)"
    by (simp_all add: ext_mem_info_def)
  note P = pushedD [OF m5(2), simplified]
  have f5: "frame (region 0xffe8 24) m4 m5" using P(1,3) by simp
  have "boot_start B M kbc ram bus ra s = Some (Inr (s3\<lparr>lmem := m5\<rparr>, 0xffe8))"
    using P(1) by (simp add: boot_start_def Let_def s0_def [symmetric] s1(1) cx_def [symmetric] s2(1) s3_def [symmetric] m4(1) m5(1))
  moreover have "m5 (0x100000 + of_nat i) = D (1024 + i)" if i: "i < 512 * n" for i
  proof -
    have "unat (of_nat i :: u32) = i" using i n(3) by (simp add: unsigned_of_nat take_bit_nat_eq_self)
    then have "0x100000 + of_nat i \<in> region 0x100000 (512 * n)" using i by (simp add: in_region_iff)
    then have "m5 (0x100000 + of_nat i) = lmem s2 (0x100000 + of_nat i)"
      using f5 f4 A(3,4) l3 unfolding frame_def by (metis disjoint_iff)
    then show ?thesis using s2(2) i by simp
  qed
  moreover have "get_e820 m5 (0x7000 + of_nat (32 * i)) = es ! i" if i: "i < length es" for i
  proof -
    have "region (0x7000 + of_nat (32 * i)) 20 \<subseteq> region 0x7000 2048"
      by (rule region_field) (use i map(2) in \<open>simp add: unsigned_of_nat take_bit_nat_eq_self del: of_nat_mult\<close>)
    then have "region (0x7000 + of_nat (32 * i)) 20 \<inter> region 0xffe8 24 = {}" using A(5) by blast
    then show ?thesis using get_e820_frame [OF f5] m4(3) i by simp
  qed
  ultimately show ?thesis using P(1,2) by (intro exI [of _ "s3\<lparr>lmem := m5\<rparr>"]) simp
qed

section \<open>From the image to the kernel\<close>

text \<open>
  The BIOS starts whatever the disk holds. \<open>code\<close> is the assembled loader, two sectors; the image tool
  stores the size of the kernel in its bytes 2 and 3. A disk with these sectors behaves as the loader;
  with other bytes in them it is an unknown program, \<open>other\<close>. Such is a disk written with \<^verbatim>\<open>-v\<close>: the
  option overwrites the first instruction of \<^verbatim>\<open>find_mem_size_real\<close>.
\<close>

definition boot_floppy :: "u8 list \<Rightarrow> (loader \<Rightarrow> (loader + loader \<times> addr) option) \<Rightarrow> (nat \<Rightarrow> u8) \<Rightarrow> disk_bios \<Rightarrow> memory_bios
    \<Rightarrow> (nat \<Rightarrow> u8) \<Rightarrow> (addr \<Rightarrow> bool) \<Rightarrow> u32 \<Rightarrow> addr \<Rightarrow> loader \<Rightarrow> (loader + loader \<times> addr) option" where
  "boot_floppy code other D B M kbc ram bus ra s =
    (if \<forall>i < 1024. i \<notin> {2, 3} \<longrightarrow> D i = code ! i then boot_start B M kbc ram bus ra s else other s)"

text \<open>From the image file to the first C function; the property below says it in words.\<close>

lemma image_boots:
  assumes img: "parse_options opts defaults = Some c" "distinct [loadf, kernf, out]"
    "files h loadf = Some bs" "files h kernf = Some ps" "\<not> denied h loadf" "\<not> denied h kernf" "\<not> denied h out"
    "bad_at h loadf = None" "bad_at h kernf = None" "length bs = 1024" "ps \<noteq> []" "length ps \<le> 512 * 2878" "\<not> enable_vesa c"
    and mk: "makeflop junk opts [loadf, kernf, out] h = Some (0, h')"
    and D: "\<forall>i < length (contents h' out). D i = contents h' out ! i"
    and disk: "reads_disk B D" and map: "map_service M es" "length es \<le> 64" and ram: "ram_up_to ram bus L"
    and bios: "\<forall>i < 512. lmem s (0x7c00 + of_nat i) = D i"
    and bss: "bss = region bss_start (unat (bss_end - bss_start))" "\<forall>x \<in> bss. 0x100000 \<le> x" "region (idle_stk + 488) 24 \<subseteq> bss"
  shows "\<exists>s' m. boot_floppy bs other D B M kbc ram bus ra s = Some (Inr (s', 0xffe8))
    \<and> start_entry bss_start bss_end idle_stk ra2 (lmem s') 0xffe8 = (m, idle_stk + 488)
    \<and> (\<forall>i < length ps. 0x100000 + of_nat i \<notin> bss \<longrightarrow> m (0x100000 + of_nat i) = ps ! i)
    \<and> (\<forall>x \<in> bss - region (idle_stk + 488) 24. m x = 0)
    \<and> args5 m (idle_stk + 488) = [if es = [] then of_nat L else 0, 0x7000, of_nat (length es), 0, 0]
    \<and> (\<forall>i < length es. get_e820 m (0x7000 + of_nat (32 * i)) = es ! i)"
proof -
  define b where "b = patch_vesa c (patch_size (block_count (length ps)) bs)"
  define n where "n = (length ps + 511) div 512"
  have l: "length ps < 2 ^ 62" "length ps < 2 ^ 40" using img(12) by simp_all
  have f: "\<exists>z. contents h' out = b @ ps @ replicate z 0"
    using makeflop_run [OF img(1-10) l(1) b_def, of junk] mk by (auto simp: contents_def)
  note P = patched_boot_sectors [OF img(10) l(2), of c, folded b_def]
  have "0 < length ps" using img(11) by simp
  then have n: "0 < n" "n \<le> 2878" "length ps \<le> 512 * n" "n mod 65536 = n"
    using img(12) unfolding n_def by (simp_all add: div_greater_zero_iff Suc_le_eq)
  have D2: "D 2 = b ! 2" "D 3 = b ! 3" and Dp: "\<And>i. i < length ps \<Longrightarrow> D (1024 + i) = ps ! i"
    using f D P(1) by (auto simp: nth_append)
  have w: "n = unat (D 2) + 256 * unat (D 3)" using P(2) D2 n(4) by (simp add: n_def)
  have s2: "lmem s 0x7c02 = D 2" "lmem s 0x7c03 = D 3" using bios [rule_format, of 2] bios [rule_format, of 3] by simp_all
  from loader_run [OF disk map ram w n(1,2) s2, of kbc ra] obtain s' where
    s': "boot_start B M kbc ram bus ra s = Some (Inr (s', 0xffe8))"
      "\<forall>i < 512 * n. lmem s' (0x100000 + of_nat i) = D (1024 + i)"
      "stack_at (lmem s') 0xffe8 [ra, if es = [] then of_nat L else 0, 0x7000, of_nat (length es), 0, 0]"
      "\<forall>i < length es. get_e820 (lmem s') (0x7000 + of_nat (32 * i)) = es ! i" by blast
  have "D i = bs ! i" if "i < 1024" "i \<notin> {2, 3}" for i
    using f D P(1) that patch_size_bytes(3) [OF img(10) that(2)] img(13) by (auto simp: nth_append b_def patch_vesa_def)
  then have B: "boot_floppy bs other D B M kbc ram bus ra s = Some (Inr (s', 0xffe8))" using s'(1) by (simp add: boot_floppy_def)
  have low: "region a k \<inter> bss = {}" if "unat a + k \<le> 0x100000" for a k
  proof -
    have "\<not> 0x100000 \<le> x" if "x \<in> region a k" for x
    proof -
      have "unat (a + (x - a)) \<le> unat a + unat (x - a)" by (rule unat_add_le)
      then show ?thesis using that \<open>unat a + k \<le> 0x100000\<close> by (simp add: in_region_iff word_le_nat_alt)
    qed
    then show ?thesis using bss(2) by blast
  qed
  define st where "st = start_entry bss_start bss_end idle_stk ra2 (lmem s') 0xffe8"
  have "region 0xffe8 24 \<inter> bss = {}" by (rule low) simp
  note E = start_entry_stack [OF s'(3) bss(1,3) this st_def [symmetric]]
  have "fst st (0x100000 + of_nat i) = ps ! i" if "i < length ps" "0x100000 + of_nat i \<notin> bss" for i
    using E(3) s'(2) Dp that n(3) by (simp add: frame_def)
  moreover have "get_e820 (fst st) (0x7000 + of_nat (32 * i)) = es ! i" if i: "i < length es" for i
  proof -
    have "unat (0x7000 + of_nat (32 * i) :: u32) \<le> 0x7000 + 32 * i"
      using unat_add_le [of "0x7000" "of_nat (32 * i)"] unat_of_nat [of "32 * i", where 'a = 32]
        mod_less_eq_dividend [of "32 * i" "2 ^ 32"] by simp
    then have "region (0x7000 + of_nat (32 * i)) 20 \<inter> bss = {}" using i map(2) by (intro low) simp
    then show ?thesis using get_e820_frame [OF E(3)] s'(4) i by simp
  qed
  moreover have "st = (fst st, idle_stk + 488)" using E(1) by (metis prod.collapse)
  moreover have "args5 (fst st) (idle_stk + 488) = [if es = [] then of_nat L else 0, 0x7000, of_nat (length es), 0, 0]"
    using args5_stack [OF E(2)] E(1) by simp
  ultimately show ?thesis
    using B E(4) by (intro exI [of _ s'] exI [of _ "fst st"] conjI) (simp_all only: st_def [symmetric], blast+)
qed

text \<open>
  C13. The floppy that \<^verbatim>\<open>makeflop\<close> writes starts the kernel. When the tool has returned 0 for the assembled
  loader and a kernel that fits on a 1.44 MB floppy, without the option \<^verbatim>\<open>-v\<close>, which would overwrite code of
  the loader, and the BIOS reads that floppy without faults, the floppy's program ends with
  the call of the kernel. \<^verbatim>\<open>start.S\<close> then reaches the first C function with every byte of the kernel
  file in its place from 1 MB on, but for those under the kernel's cleared variables, with the
  variables zero and on a stack inside them, and with the five arguments of the loader: the size of
  the memory found by probing, if the BIOS has no memory map, the address and the number of the
  ranges of the map, and two zeros. The table at that address is the map.
\<close>

theorem floppy_boots:
  assumes img: "parse_options opts defaults = Some c" "distinct [loadf, kernf, out]"
    "files h loadf = Some bs" "files h kernf = Some ps" "\<not> denied h loadf" "\<not> denied h kernf" "\<not> denied h out"
    "bad_at h loadf = None" "bad_at h kernf = None" "length bs = 1024" "ps \<noteq> []" "length ps \<le> 512 * 2878" "\<not> enable_vesa c"
    and mk: "makeflop junk opts [loadf, kernf, out] h = Some (0, h')"
    and D: "\<forall>i < length (contents h' out). D i = contents h' out ! i"
    and disk: "reads_disk B D" and map: "map_service M es" "length es \<le> 64" and ram: "ram_up_to ram bus L"
    and bios: "\<forall>i < 512. lmem s (0x7c00 + of_nat i) = D i"
    and bss: "bss = region bss_start (unat (bss_end - bss_start))" "\<forall>x \<in> bss. 0x100000 \<le> x" "region (idle_stk + 488) 24 \<subseteq> bss"
  shows "\<exists>s' m. boot_floppy bs other D B M kbc ram bus ra s = Some (Inr (s', 0xffe8))
    \<and> start_entry bss_start bss_end idle_stk ra2 (lmem s') 0xffe8 = (m, idle_stk + 488)
    \<and> (\<forall>i < length ps. 0x100000 + of_nat i \<notin> bss \<longrightarrow> m (0x100000 + of_nat i) = ps ! i)
    \<and> (\<forall>x \<in> bss - region (idle_stk + 488) 24. m x = 0)
    \<and> args5 m (idle_stk + 488) = [if es = [] then of_nat L else 0, 0x7000, of_nat (length es), 0, 0]
    \<and> (\<forall>i < length es. get_e820 m (0x7000 + of_nat (32 * i)) = es ! i)"
  by (rule image_boots [OF assms])

text \<open>A BIOS that knows one range of memory.\<close>

definition put_e820 :: "mem \<Rightarrow> addr \<Rightarrow> e820 \<Rightarrow> mem" where
  "put_e820 m p e = st32 (st32 (st32 (st32 (st32 m p (ucast (e_base e))) (p + 4) (ucast (drop_bit 32 (e_base e))))
     (p + 8) (ucast (e_len e))) (p + 12) (ucast (drop_bit 32 (e_len e)))) (p + 16) (e_type e)"

lemma get_put_e820: "get_e820 (put_e820 m p e) p = e"
proof -
  have w: "ucast (ucast x :: u32) OR push_bit 32 (ucast (ucast (drop_bit 32 x) :: u32)) = x" for x :: u64
    by (rule bit_word_eqI) (auto simp: bit_simps dest: bit_imp_le_length)
  have a: "apart (p + i) 4 (p + j) 4" if "4 \<le> unat (j - i)" "4 \<le> unat (i - j)" for i j
    using that by (simp add: apart_def)
  have a0: "apart (p + i) 4 p 4" "apart p 4 (p + i) 4" if "4 \<le> unat (0 - i)" "4 \<le> unat i" for i
    using that by (simp_all add: apart_def)
  show ?thesis
    by (simp add: get_e820_def put_e820_def ld64_def ld32_st32_same ld32_st32_apart a a0 w add.commute [of 12 p])
qed

lemma put_e820_frame: "frame (region p 32) m (put_e820 m p e)"
proof -
  have "region (p + i) 4 \<subseteq> region p 32" if "unat i \<le> 28" for i using that by (intro region_field) simp
  from this [of 0] this [of 4] this [of 8] this [of 12] this [of 16] show ?thesis
    unfolding put_e820_def by (intro frame_st32 frame_refl) simp_all
qed

definition sample_range :: e820 where "sample_range = \<lparr>e_base = 0, e_len = 0x1000000, e_type = 1\<rparr>"

definition sample_map :: memory_bios where
  "sample_map a b c d p m = (False, 0, put_e820 m p sample_range)"

lemma sample_map_service: "map_service sample_map [sample_range]"
proof -
  have "gives_ranges sample_map [sample_range] (\<lambda>_. 0)"
    by (simp add: gives_ranges_def sample_map_def put_e820_frame get_put_e820)
  then show ?thesis unfolding map_service_def by auto
qed

theorem floppy_boots_witness:
  "\<exists>h' s' m. makeflop [] [(CHR ''p'', ''512'')] [''boot'', ''kernel'', ''image''] sample_host = Some (0, h')
    \<and> boot_floppy (replicate 1024 0) (\<lambda>_. None) ((!) (contents h' ''image'')) (sample_disk 0 ((!) (contents h' ''image''))) sample_map (\<lambda>_. 0) (\<lambda>a. unat a < 0x1000000) 0 0x1000
        (cold_loader\<lparr>lmem := \<lambda>x. contents h' ''image'' ! unat (x - 0x7c00)\<rparr>) = Some (Inr (s', 0xffe8))
    \<and> start_entry 0x101000 0x101800 0x101000 0x100030 (lmem s') 0xffe8 = (m, 0x1011e8)
    \<and> map (\<lambda>i. m (0x100000 + of_nat i)) [0, 1, 2, 3, 4] = [1, 2, 3, 4, 5]
    \<and> args5 m 0x1011e8 = [0, 0x7000, 1, 0, 0] \<and> get_e820 m 0x7000 = sample_range"
proof -
  have o: "parse_options [(CHR ''p'', ''512'')] defaults = Some (defaults\<lparr>padding := 512\<rparr>)" by (simp add: atoi_def)
  have f: "distinct [''boot'', ''kernel'', ''image'']" "files sample_host ''boot'' = Some (replicate 1024 0)"
    "files sample_host ''kernel'' = Some [1, 2, 3, 4, 5]" "\<not> denied sample_host ''boot''" "\<not> denied sample_host ''kernel''"
    "\<not> denied sample_host ''image''" "bad_at sample_host ''boot'' = None" "bad_at sample_host ''kernel'' = None"
    "length (replicate 1024 (0 :: u8)) = 1024" by (simp_all add: sample_host_def)
  have "length [1, 2, 3, 4, 5 :: u8] < 2 ^ 62" by simp
  from makeflop_run [OF o f this refl, of "[]"] obtain h' where
    h': "makeflop [] [(CHR ''p'', ''512'')] [''boot'', ''kernel'', ''image''] sample_host = Some (0, h')"
    by (auto simp: sample_host_def pad_bytes_def)
  let ?D = "(!) (contents h' ''image'')"
  have ram: "ram_up_to (\<lambda>a. unat a < 0x1000000) 0 0x1000000" by (simp add: ram_up_to_def)
  have bios: "\<forall>i < 512. lmem (cold_loader\<lparr>lmem := \<lambda>x. ?D (unat (x - 0x7c00))\<rparr>) (0x7c00 + of_nat i) = ?D i"
    by (simp add: unsigned_of_nat take_bit_nat_eq_self)
  let ?bss = "region (0x101000 :: u32) (unat (0x101800 - 0x101000 :: u32))"
  have low: "\<forall>x \<in> ?bss. 0x100000 \<le> x"
  proof
    fix x :: u32 assume "x \<in> ?bss"
    then have "unat (x - 0x101000) < 0x800" by (simp add: in_region_iff)
    then have "unat (0x101000 + (x - 0x101000)) = 0x101000 + unat (x - 0x101000)" by (subst unat_add_lem [THEN iffD1]) simp_all
    then show "0x100000 \<le> x" by (simp add: word_le_nat_alt)
  qed
  have stk: "region (0x101000 + 488) 24 \<subseteq> ?bss" using region_field [of 488 24 "0x800" "0x101000 :: u32"] by simp
  have ps: "[1, 2, 3, 4, 5 :: u8] \<noteq> []" "length [1, 2, 3, 4, 5 :: u8] \<le> 512 * 2878" "length [sample_range] \<le> 64" by simp_all
  have nv: "\<not> enable_vesa (defaults\<lparr>padding := 512\<rparr>)" by (simp add: defaults_def)
  from floppy_boots [OF o f ps(1,2) nv h' _ sample_disk_reads [of ?D] sample_map_service ps(3) ram bios refl low stk,
      of "\<lambda>_. None" "\<lambda>_. 0" "0x1000" "0x100030"]
  obtain s' m where r: "boot_floppy (replicate 1024 0) (\<lambda>_. None) ?D (sample_disk 0 ?D) sample_map (\<lambda>_. 0) (\<lambda>a. unat a < 0x1000000) 0 0x1000
        (cold_loader\<lparr>lmem := \<lambda>x. ?D (unat (x - 0x7c00))\<rparr>) = Some (Inr (s', 0xffe8))"
      "start_entry 0x101000 0x101800 0x101000 0x100030 (lmem s') 0xffe8 = (m, 0x101000 + 488)"
      "\<forall>i < 5. 0x100000 + of_nat i \<notin> ?bss \<longrightarrow> m (0x100000 + of_nat i) = [1, 2, 3, 4, 5] ! i"
      "args5 m (0x101000 + 488) = [0, 0x7000, 1, 0, 0]" "get_e820 m (0x7000 + of_nat (32 * 0)) = sample_range" by auto
  have "m (0x100000 + of_nat i) = [1, 2, 3, 4, 5] ! i" if "i \<in> {0, 1, 2, 3, 4}" for i
  proof -
    have "0x100000 + of_nat i \<notin> ?bss" "i < 5" using that by (auto simp: in_region_iff)
    then show ?thesis using r(3) by blast
  qed
  from this [of 0] this [of 1] this [of 2] this [of 3] this [of 4]
  have "map (\<lambda>i. m (0x100000 + of_nat i)) [0, 1, 2, 3, 4] = [1, 2, 3, 4, 5]" by simp
  then show ?thesis using h' r(1,2,4,5) by (intro exI [of _ h'] exI [of _ s'] exI [of _ m]) simp
qed

end
