(* ===== verification/PowerOn.thy ===== *)
theory PowerOn
  imports KernelRun BootChain
begin

text \<open>
  The whole machine: the image tool writes the floppy, the loader reads it and asks the BIOS for the
  memory map, the entry code calls the kernel, and the kernel runs to its idle task.
\<close>

section \<open>From one stage to the next\<close>

text \<open>The kernel's state when \<^verbatim>\<open>start.S\<close> has called \<^verbatim>\<open>_start_c\<close>: the memory and the stack pointer are
  those of the entry code.\<close>

definition entered :: "system \<Rightarrow> mem \<Rightarrow> u32 \<Rightarrow> system" where
  "entered sys m sp = sys\<lparr>mach := (mach sys)\<lparr>kern := (kern (mach sys))\<lparr>kmem := m, esp := sp\<rparr>\<rparr>\<rparr>"

lemma entered_fields [simp]:
  "kern (mach (entered sys m sp)) = (kern (mach sys))\<lparr>kmem := m, esp := sp\<rparr>" "vst (mach (entered sys m sp)) = vst (mach sys)"
  "heapst (entered sys m sp) = heapst sys"
  by (simp_all add: entered_def)

lemma linked_entered: "linked L (entered sys m sp) = linked L sys"
  by (simp add: linked_def Let_def)

text \<open>
  \<open>img\<close> is the linked kernel. Memory that holds it (outside its zeroed variables) runs as the kernel;
  other bytes are an unknown program, \<open>other\<close>.
\<close>

definition run_kernel :: "u8 list \<Rightarrow> addr set \<Rightarrow> (system \<Rightarrow> system option) \<Rightarrow> device \<Rightarrow> links \<Rightarrow> u32 list \<Rightarrow> system \<Rightarrow> mem \<Rightarrow> u32
    \<Rightarrow> system option" where
  "run_kernel img bss other dev L args sys m sp =
    (if \<forall>i < length img. 0x100000 + of_nat i \<notin> bss \<longrightarrow> m (0x100000 + of_nat i) = img ! i
     then kernel_run dev L (args ! 0) (args ! 1) (args ! 2) (args ! 3) (args ! 4) (entered sys m sp)
     else other (entered sys m sp))"

text \<open>The log of a kernel that was given the memory map \<open>es\<close>.\<close>

definition map_log :: "e820 list \<Rightarrow> u8 list" where
  "map_log es = concat (map (\<lambda>i. e820_text i (es ! i)) [0..<length es])"

lemma e820_lines_map:
  assumes "\<forall>i < length es. get_e820 m (p + of_nat (32 * i)) = es ! i"
  shows "e820_lines m p 0 (length es) = map_log es"
proof -
  have "get_e820 m (p + 32 * of_nat i) = es ! i" if "i < length es" for i using assms that by simp
  then show ?thesis unfolding e820_lines_def map_log_def by (intro arg_cong [of _ _ concat] map_cong) simp_all
qed

lemma idle_slot: "region (stk + 488 - 20) 20 \<subseteq> region (stk :: addr) 512"
proof -
  have "stk + 488 - 20 = stk + 468" by simp
  moreover have "region (stk + 468) 20 \<subseteq> region stk 512" by (rule region_field) simp
  ultimately show ?thesis by (simp only:)
qed

section \<open>Property\<close>

text \<open>
  C3. From the image file to the idle task. When the image tool has returned 0 for the assembled loader
  and the linked kernel, without its option \<^verbatim>\<open>-v\<close> (which overwrites code of the loader), the kernel fits on
  the floppy, the BIOS reads that floppy without faults and the kernel is linked with its idle stack as the
  entry code's stack, the machine boots: loader and entry code arrive in \<^verbatim>\<open>_start_c\<close>, which takes the
  loader's arguments, initialises everything, runs the boot task to its end and arrives in the idle
  task with interrupts on. The log on the screen shows the memory map that the BIOS gave the loader, range by
  range.
\<close>

theorem power_on:
  assumes img: "parse_options opts defaults = Some c" "distinct [loadf, kernf, out]"
    "files h loadf = Some bs" "files h kernf = Some ps" "\<not> denied h loadf" "\<not> denied h kernf" "\<not> denied h out"
    "bad_at h loadf = None" "bad_at h kernf = None" "length bs = 1024" "ps \<noteq> []" "length ps \<le> 512 * 2878" "\<not> enable_vesa c"
    and mk: "makeflop junk opts [loadf, kernf, out] h = Some (0, h')"
    and D: "\<forall>i < length (contents h' out). D i = contents h' out ! i"
    and disk: "reads_disk B D" and map: "map_service M es" "length es \<le> 64" and ram: "ram_up_to ram bus RAM"
    and bios: "\<forall>i < 512. lmem s (0x7c00 + of_nat i) = D i"
    and bss: "bss = region bss_start (unat (bss_end - bss_start))" "\<forall>x \<in> bss. 0x100000 \<le> x"
      "region (idle_stack (kern (mach sys)) + 488) 24 \<subseteq> bss"
    and L: "linked L sys" and dev: "reads_masks dev" "accepts dev" and scr: "on_screen (vst (mach sys))"
    and irq: "\<not> irq_on (kern (mach sys))"
  defines "stk \<equiv> idle_stack (kern (mach sys)) + 488" and "b \<equiv> default_heap L"
  shows "\<exists>s' m sys' j. boot_floppy bs other D B M kbc ram bus ra s = Some (Inr (s', 0xffe8))
    \<and> start_entry bss_start bss_end (idle_stack (kern (mach sys))) ra2 (lmem s') 0xffe8 = (m, stk)
    \<and> args5 m stk = [if es = [] then of_nat RAM else 0, 0x7000, of_nat (length es), 0, 0]
    \<and> run_kernel ps bss unknown dev L (args5 m stk) sys m stk = Some sys'
    \<and> current_task (kern (mach sys')) = idle_task (kern (mach sys)) \<and> irq_on (kern (mach sys'))
    \<and> ready_list (kern (mach sys')) = Some [] \<and> state_of (kern (mach sys')) (b + 8) = DEAD
    \<and> scr (mach sys') = scr_text (cleared (vst (mach sys)))
        ((lit ''Welcome to 3x86 OS'' @ [10] @ args_text (if es = [] then of_nat RAM else 0) 0x7000 (of_nat (length es)) 0 0
          @ map_log es @ lit ''PIT started at 100 Hz'' @ [10])
         @ lit ''starting multitasking'' @ [10] @ main2_log j (heapst sys') [(b + 564, 15820)])"
proof -
  let ?sp = "idle_stack (kern (mach sys)) + 488" and ?n = "of_nat (length es) :: u32" and ?a = "if es = [] then of_nat RAM else (0 :: u32)"
  from image_boots [OF img mk D disk map ram bios bss, of other kbc ra ra2] obtain s' m where
    boot: "boot_floppy bs other D B M kbc ram bus ra s = Some (Inr (s', 0xffe8))"
      "start_entry bss_start bss_end (idle_stack (kern (mach sys))) ra2 (lmem s') 0xffe8 = (m, ?sp)"
      "args5 m ?sp = [?a, 0x7000, ?n, 0, 0]" "\<forall>i < length es. get_e820 m (0x7000 + of_nat (32 * i)) = es ! i"
      "\<forall>i < length ps. 0x100000 + of_nat i \<notin> bss \<longrightarrow> m (0x100000 + of_nat i) = ps ! i" by blast
  let ?sys = "entered sys m ?sp"
  have n: "unat ?n = length es" using map(2) by (simp add: unsigned_of_nat take_bit_nat_eq_self)
  have "region (0x7000 :: u32) (32 * length es) \<subseteq> region 0x7000 2048" using map(2) by (intro region_mono) simp
  moreover have "apart 0x7000 2048 vga 4000" by (simp add: apart_def vga_def)
  then have "region 0x7000 2048 \<inter> vga_region = {}" by (simp add: apart_iff_disjoint vga_region_def)
  ultimately have blk: "32 * unat ?n \<le> 2 ^ 32" "region 0x7000 (32 * unat ?n) \<inter> vga_region = {}" using map(2) n by auto
  have k: "linked L ?sys" "on_screen (vst (mach ?sys))" "\<not> irq_on (kern (mach ?sys))"
    "region (esp (kern (mach ?sys)) - 20) 20 \<subseteq> region (idle_stack (kern (mach ?sys))) 512"
    using L scr irq idle_slot by (simp_all add: linked_entered)
  from run_to_idle [OF k(1) dev k(2-4) blk, of ?a 0 0, folded b_def] obtain sys' j where
    raw: "kernel_run dev L ?a 0x7000 ?n 0 0 ?sys = Some sys'"
      "current_task (kern (mach sys')) = idle_task (kern (mach ?sys))" "irq_on (kern (mach sys'))"
      "ready_list (kern (mach sys')) = Some []" "state_of (kern (mach sys')) (b + 8) = DEAD"
      "scr (mach sys') = scr_text (cleared (vst (mach ?sys))) (early_log ?a 0x7000 ?n 0 0 (kmem (kern (mach ?sys)))
         @ lit ''starting multitasking'' @ [10] @ main2_log j (heapst sys') [(b + 564, 15820)])" by blast
  have "idle_task (kern (mach ?sys)) = idle_task (kern (mach sys))" "kmem (kern (mach ?sys)) = m" by simp_all
  note run = raw [unfolded this entered_fields(2)]
  have k: "run_kernel ps bss unknown dev L (args5 m ?sp) sys m ?sp = Some sys'"
    using boot(5) run(1) by (simp add: run_kernel_def boot(3))
  have "early_log ?a 0x7000 ?n 0 0 m = lit ''Welcome to 3x86 OS'' @ [10] @ args_text ?a 0x7000 ?n 0 0 @ map_log es
      @ lit ''PIT started at 100 Hz'' @ [10]"
    unfolding early_log_def n e820_lines_map [OF boot(4)] ..
  note run' = k run(2-5) run(6) [unfolded this]
  show ?thesis unfolding stk_def by (intro exI conjI) (rule boot(1-3) run')+
qed

text \<open>A kernel of five bytes on a machine whose BIOS knows one range, linked above 1 MB.\<close>

definition floppy_links :: links where
  "floppy_links = sample_links\<lparr>default_heap := 0x102000\<rparr>"

definition floppy_system :: system where
  "floppy_system = sample_system\<lparr>mach := idle_machine\<lparr>kern := demo_boot\<lparr>idle_stack := 0x101000, idle_task := 0x101200, run_queue := 0x101240\<rparr>\<rparr>,
     heapst := (heapst sample_system)\<lparr>h_addr := 0x101280\<rparr>\<rparr>"

lemma floppy_linked: "linked floppy_links floppy_system"
  by (simp add: linked_def floppy_links_def floppy_system_def sample_links_def sample_system_def demo_boot_def idle_machine_def vga_def Let_def
      chunk_ok_def chunk_end_def apart_def flip: apart_iff_disjoint)

theorem power_on_witness:
  "\<exists>h' s' m sys'. makeflop [] [(CHR ''p'', ''512'')] [''boot'', ''kernel'', ''image''] sample_host = Some (0, h')
    \<and> boot_floppy (replicate 1024 0) (\<lambda>_. None) ((!) (contents h' ''image'')) (sample_disk 0 ((!) (contents h' ''image''))) sample_map (\<lambda>_. 0) (\<lambda>a. unat a < 0x1000000) 0 0x1000
        (cold_loader\<lparr>lmem := \<lambda>x. contents h' ''image'' ! unat (x - 0x7c00)\<rparr>) = Some (Inr (s', 0xffe8))
    \<and> start_entry 0x101000 0x108000 0x101000 0x100030 (lmem s') 0xffe8 = (m, 0x1011e8)
    \<and> run_kernel [1, 2, 3, 4, 5] (region 0x101000 0x7000) (\<lambda>_. None) quiet floppy_links [0, 0x7000, 1, 0, 0] floppy_system m 0x1011e8 = Some sys'
    \<and> current_task (kern (mach sys')) = 0x101200 \<and> irq_on (kern (mach sys')) \<and> state_of (kern (mach sys')) 0x102008 = DEAD
    \<and> map_log [sample_range] = e820_text 0 sample_range"
proof -
  have o: "parse_options [(CHR ''p'', ''512'')] defaults = Some (defaults\<lparr>padding := 512\<rparr>)" by (simp add: atoi_def)
  have f: "distinct [''boot'', ''kernel'', ''image'']" "files sample_host ''boot'' = Some (replicate 1024 0)"
    "files sample_host ''kernel'' = Some [1, 2, 3, 4, 5]" "\<not> denied sample_host ''boot''" "\<not> denied sample_host ''kernel''"
    "\<not> denied sample_host ''image''" "bad_at sample_host ''boot'' = None" "bad_at sample_host ''kernel'' = None"
    "length (replicate 1024 (0 :: u8)) = 1024" by (simp_all add: sample_host_def)
  have "length [1, 2, 3, 4, 5 :: u8] < 2 ^ 62" by simp
  from makeflop_run [OF o f this refl, of "[]"] obtain h' where
    h': "makeflop [] [(CHR ''p'', ''512'')] [''boot'', ''kernel'', ''image''] sample_host = Some (0, h')"
    by (auto simp: sample_host_def pad_bytes_def)
  let ?D = "(!) (contents h' ''image'')"
  have ram: "ram_up_to (\<lambda>a. unat a < 0x1000000) 0 0x1000000" by (simp add: ram_up_to_def)
  have bios: "\<forall>i < 512. lmem (cold_loader\<lparr>lmem := \<lambda>x. ?D (unat (x - 0x7c00))\<rparr>) (0x7c00 + of_nat i) = ?D i"
    by (simp add: unsigned_of_nat take_bit_nat_eq_self)
  let ?bss = "region (0x101000 :: u32) (unat (0x108000 - 0x101000 :: u32))"
  have low: "\<forall>x \<in> ?bss. 0x100000 \<le> x"
  proof
    fix x :: u32 assume "x \<in> ?bss"
    then have "unat (x - 0x101000) < 0x7000" by (simp add: in_region_iff)
    then have "unat (0x101000 + (x - 0x101000)) = 0x101000 + unat (x - 0x101000)" by (subst unat_add_lem [THEN iffD1]) simp_all
    then show "0x100000 \<le> x" by (simp add: word_le_nat_alt)
  qed
  have s: "idle_stack (kern (mach floppy_system)) = 0x101000" "idle_task (kern (mach floppy_system)) = 0x101200"
    "default_heap floppy_links + 8 = 0x102008" "on_screen (vst (mach floppy_system))" "\<not> irq_on (kern (mach floppy_system))"
    by (simp_all add: floppy_system_def sample_system_def floppy_links_def demo_boot_def)
  have stk: "region (idle_stack (kern (mach floppy_system)) + 488) 24 \<subseteq> ?bss"
    unfolding s(1) using region_field [of 488 24 "0x7000" "0x101000 :: u32"] by simp
  have ps: "[1, 2, 3, 4, 5 :: u8] \<noteq> []" "length [1, 2, 3, 4, 5 :: u8] \<le> 512 * 2878" "length [sample_range] \<le> 64" by simp_all
  have q: "accepts quiet" by (simp add: accepts_def quiet_def PIC1_DATA_def PIC2_DATA_def I8042_STATUS_REG_def)
  have nv: "\<not> enable_vesa (defaults\<lparr>padding := 512\<rparr>)" by (simp add: defaults_def)
  have "\<forall>i < length (contents h' ''image''). ?D i = contents h' ''image'' ! i" by simp
  from power_on [OF o f ps(1,2) nv h' this sample_disk_reads [of ?D] sample_map_service ps(3) ram bios refl low stk
      floppy_linked quiet_reads_masks q s(4,5), of "\<lambda>_. None" "\<lambda>_. 0" "0x1000" "0x100030" "\<lambda>_. None"]
  obtain s' m sys' where r: "boot_floppy (replicate 1024 0) (\<lambda>_. None) ?D (sample_disk 0 ?D) sample_map (\<lambda>_. 0) (\<lambda>a. unat a < 0x1000000) 0 0x1000
        (cold_loader\<lparr>lmem := \<lambda>x. ?D (unat (x - 0x7c00))\<rparr>) = Some (Inr (s', 0xffe8))"
      "start_entry 0x101000 0x108000 0x101000 0x100030 (lmem s') 0xffe8 = (m, 0x101000 + 488)"
      "args5 m (0x101000 + 488) = [if [sample_range] = [] then of_nat 0x1000000 else 0, 0x7000, of_nat (length [sample_range]), 0, 0]"
      "run_kernel [1, 2, 3, 4, 5] ?bss (\<lambda>_. None) quiet floppy_links (args5 m (0x101000 + 488)) floppy_system m (0x101000 + 488) = Some sys'"
      "current_task (kern (mach sys')) = 0x101200" "irq_on (kern (mach sys'))" "state_of (kern (mach sys')) 0x102008 = DEAD"
    unfolding s(1-3) by blast
  have "args5 m (0x101000 + 488) = [0, 0x7000, 1, 0, 0]" "?bss = region 0x101000 0x7000" using r(3) by simp_all
  note r4 = r(4) [unfolded this]
  show ?thesis using h' r(1,2,5-7) r4 by (intro exI [of _ h'] exI [of _ s'] exI [of _ m] exI [of _ sys'])
     (simp add: map_log_def)
qed

end
