(* ===== verification/Spec2Isabelle.thy ===== *)
theory Spec2Isabelle
  imports SafeTraversal HeapProps Trim PrintfProps FloatProps System KeyProps PowerOn
begin

text \<open>
  A verification development for 3x86, a small kernel for 386 machines: one address space, a
  cooperative scheduler with interrupts, a heap, a VGA text console, the PC's interrupt
  controllers, timer and keyboard, a freestanding C library, and the host tool that writes its
  boot floppy.

  \<^bold>\<open>How the program is modelled.\<close> The code is C on a 386, so pointers are 32-bit words and memory is
  a function from addresses to bytes (\<open>mem\<close>, theory \<^theory_text>\<open>Prelude\<close>), with little-endian loads and
  stores; integers are words of their width and wrap. A C function that changes memory takes and
  returns it. A \<^verbatim>\<open>struct\<close> that other code points into (list nodes, tasks, heap chunks) lives in that
  memory at the offsets the compiler gives it; a \<^verbatim>\<open>static\<close> variable that nothing points to is a
  record field. A loop that need not end is a \<^theory_text>\<open>partial_function (option)\<close>, and every theorem about
  it proves that it returns; the other loops are structural or have a measure. No fuel is used.
  Error returns are the values the C code returns. A halted processor is \<open>Halted\<close>.

  \<^bold>\<open>The theories and the code they model.\<close>
  \<^item> \<^theory_text>\<open>Prelude\<close>: \<^verbatim>\<open>include/stdlib.h\<close>, memory, regions and frames, lemmas on words (\<open>mem_simps\<close>).
  \<^item> \<^theory_text>\<open>CString\<close>: \<^verbatim>\<open>string.c\<close>. \<^theory_text>\<open>Ctype\<close>: \<^verbatim>\<open>ctype.c\<close>. \<^theory_text>\<open>LinkedList\<close>: \<^verbatim>\<open>include/list.h\<close>,
    with its loops that may delete the current node in \<^theory_text>\<open>SafeTraversal\<close>.
  \<^item> \<^theory_text>\<open>MiniHeap\<close>: \<^verbatim>\<open>miniheap.c\<close>. \<^theory_text>\<open>FreeList\<close> is what its free list stands for, \<^theory_text>\<open>HeapRefine\<close> shows that
    the pointer code implements it, \<^theory_text>\<open>Allocator\<close> adds the blocks in use and states the contract of
    allocation and release. A failing allocation prints (\<^verbatim>\<open>TRACEF\<close> in \<^verbatim>\<open>heap_grow\<close>), so the heap's
    state has the console's cursor and its memory the screen. \<^theory_text>\<open>Heap\<close>: \<^verbatim>\<open>heap.c\<close> and the locale \<open>byte_heap\<close> for the heap's clients;
    \<^theory_text>\<open>HeapProps\<close>: the properties; \<^theory_text>\<open>Trim\<close>: what \<^verbatim>\<open>miniheap_trim\<close> leaves of the free list.
  \<^item> \<^theory_text>\<open>Numbers\<close>, \<^theory_text>\<open>Printf\<close>: \<^verbatim>\<open>printf.c\<close>. \<^theory_text>\<open>PrintfSpec\<close> is the specification of a format: its
    spellings (\<open>fmt_spelled\<close>: any order of flags, \<^verbatim>\<open>%i\<close> and \<^verbatim>\<open>%d\<close>), the text this engine gives
    (\<open>fmt_shown\<close>), the text of the C standard (\<open>fmt_std\<close>) and the directives for which the two agree (\<open>conforms\<close>),
    \<^theory_text>\<open>PrintfEngine\<close> the locale \<open>printf_sink\<close> for output functions with the engine's correctness inside
    it, interpreted for \<^verbatim>\<open>_vsnprintf_output\<close> there and for the console in \<^theory_text>\<open>Console\<close>;
    \<^theory_text>\<open>PrintfProps\<close>: the properties. \<^theory_text>\<open>FloatText\<close>: its floating-point conversions, \<^theory_text>\<open>FloatProps\<close>: what
    they print.
  \<^item> \<^theory_text>\<open>Vga\<close>: \<^verbatim>\<open>hw/vga.c\<close> and the terminal it implements. \<^theory_text>\<open>Console\<close>: \<^verbatim>\<open>console.c\<close>, \<^verbatim>\<open>stdio.c\<close>, \<^verbatim>\<open>printf\<close>;
    \<^theory_text>\<open>MessageText\<close>: the texts of messages with numbers.
  \<^item> \<^theory_text>\<open>Task\<close>: \<^verbatim>\<open>task.c\<close>, \<^verbatim>\<open>x86/task.c\<close>, \<^verbatim>\<open>x86/task_asm.S\<close>. \<^theory_text>\<open>TaskRefine\<close> and \<^theory_text>\<open>TaskSched\<close>: the abstract
    scheduler and the simulation; \<^theory_text>\<open>TaskRun\<close>: the step relation \<open>run_step\<close> of the whole system and its
    reachable states; \<^theory_text>\<open>TaskDemo\<close>: a sample system; \<^theory_text>\<open>TaskProps\<close>: the properties; \<^theory_text>\<open>TaskFrame\<close>: what
    each operation writes.
  \<^item> \<^theory_text>\<open>Machine\<close>: the port instructions of \<^verbatim>\<open>include/x86/x86.h\<close>, the state the drivers share and their
    messages; \<^theory_text>\<open>Messages\<close>: how these reach the screen. \<^theory_text>\<open>Pic\<close>: \<^verbatim>\<open>hw/pic.c\<close>, \<^verbatim>\<open>hw/pit.c\<close>. \<^theory_text>\<open>Keyboard\<close>: \<^verbatim>\<open>hw/keyboard.c\<close>, with the lemmas in
    \<^theory_text>\<open>KeyText\<close>. \<^theory_text>\<open>X86\<close>: \<^verbatim>\<open>x86/x86.c\<close>, \<^verbatim>\<open>x86/tss.c\<close> and \<^verbatim>\<open>pic_irq\<close>. \<^theory_text>\<open>X86Props\<close>, \<^theory_text>\<open>KeyProps\<close>: the
    properties.
  \<^item> \<^theory_text>\<open>Entry\<close>: \<^verbatim>\<open>x86/exceptions.S\<close>, the processor's delivery of an interrupt and the return;
    \<^theory_text>\<open>EntryProps\<close>: an interrupt is invisible to the code it interrupts. \<^theory_text>\<open>System\<close>: the step relation of
    tasks, printing and interrupts together. A print is one step, so the relation has prints only while
    interrupts are off; the console is not made for an interrupt inside \<^verbatim>\<open>vga_console_putchar\<close>, and
    \<open>key_lost_inside_print\<close> shows a key that is lost then. An interrupt needs 72 bytes of stack for what
    the processor and the entry code push and \<open>D\<close> bytes, a parameter, for the C functions' frames; these
    may be left with any contents.
  \<^item> \<^theory_text>\<open>Debug\<close>: \<^verbatim>\<open>debug.c\<close>. \<^theory_text>\<open>Boot\<close>: \<^verbatim>\<open>main.c\<close> and the heap's dump. \<^theory_text>\<open>Report\<close>: the report of a
    fault and the text of the heap's dump. \<^theory_text>\<open>BootProps\<close>: up to the first task; \<^theory_text>\<open>KernelRun\<close>: the whole life
    of the kernel.
  \<^item> \<^theory_text>\<open>MakeFlop\<close>: \<^verbatim>\<open>makeflop.c\<close> over a model of the host's files. \<^theory_text>\<open>BootLoader\<close>: \<^verbatim>\<open>bootblock.S\<close> and \<^verbatim>\<open>start.S\<close>;
    \<^theory_text>\<open>LoaderProps\<close>: the loader's routines; \<^theory_text>\<open>BootChain\<close>: from the image file to the kernel's entry; \<^theory_text>\<open>PowerOn\<close>:
    from the image file to the idle task. A floppy whose loader is not the assembled one (as after
    \<^verbatim>\<open>makeflop -v\<close>, which overwrites code of the loader) and a memory that does not hold the linked kernel are
    unknown programs, the arguments \<open>other\<close> of \<open>boot_floppy\<close> and \<open>run_kernel\<close>.

  \<^bold>\<open>How the parts interact.\<close> The scheduler's queue and the heap's free list are the intrusive lists;
  \<^verbatim>\<open>printf\<close> drives an output function, \<^verbatim>\<open>console_write\<close> on the machine; the console writes to the frame
  buffer of the same memory; the interrupt handler acknowledges the controllers and calls the timer
  or the keyboard, which prints what is typed; the boot loader reads what the image tool wrote and
  calls the kernel, whose entry code calls \<^verbatim>\<open>_start_c\<close>; \<^verbatim>\<open>_start_c\<close> initialises all of them, takes the boot
  task and its stack from the heap and gives the processor to the scheduler.

  \<^bold>\<open>What is shown.\<close> Heap: any session of \<^verbatim>\<open>malloc\<close>, \<^verbatim>\<open>free\<close> and writes keeps the blocks disjoint and
  their contents, and gives all memory back; a failure is reported on the screen and changes nothing else; contracts of \<^verbatim>\<open>memalign\<close>, \<^verbatim>\<open>calloc\<close>, \<^verbatim>\<open>realloc\<close>, \<^verbatim>\<open>free\<close>,
  \<^verbatim>\<open>heap_trim\<close>, statistics. Scheduler: an invariant of every reachable state, round robin order, every ready task
  runs, a resumed task finds its registers and stack, dead tasks stay dead. Formatted output: the
  engine prints exactly the text of a format, for every conversion, flag and width, within
  the buffer, and where it differs from the standard's is stated; the numerals round trip; \<^verbatim>\<open>%a\<close> prints a double exactly and \<^verbatim>\<open>%f\<close> to half a unit of its
  last digit. Console: the driver is a 25 by 80 terminal. Drivers: typing
  a text shows it, interrupts reach their driver and are acknowledged, waits are bounded, exactly
  the timer's and the keyboard's line are open after initialisation, the descriptor tables. Boot:
  the image the tool writes without \<^verbatim>\<open>-v\<close> is loaded byte for byte and entered with the memory map as its
  arguments; from there the kernel runs to the first task, through it and back to the idle task, with
  the whole log on the screen; composed with the loader, the log shows the memory map the BIOS gave. A fault is reported with the registers of the code it stopped. The scheduler
  writes only its own memory. Image tool: the layout of the image and the exit
  code. Running system: interrupts through the stubs, between any two of its steps, keep
  registers, run queue and screen, and every reachable state is well formed. The defects the proofs uncovered are theorems as well (heap request wrap-around, lost sign,
  zero-length buffer, directives that differ from the standard, lost carry of \<^verbatim>\<open>%f\<close>, retry of the boot loader, keyboard prefix and reply bytes, segment limit, read error, key lost inside a print).

  \<^bold>\<open>Parameters and hypotheses.\<close> What a port read returns is a function of the port accesses so far
  (\<open>device\<close>); the theorems that need more assume documented behaviour of the chips: \<open>reads_masks\<close>
  (an 8259A's data port reads its mask register, theory \<^theory_text>\<open>Pic\<close>), \<open>accepts\<close> (the keyboard
  controller's input buffer is free) and \<open>keyboard_holds\<close> (it delivers the scan codes). The BIOS
  services of the boot loader are functions too, with \<open>reads_disk\<close>, \<open>rejects_sector_0\<close> and
  \<open>map_service\<close> for what is documented of them, and \<open>ram_up_to\<close> for the installed memory. Addresses
  that the linker chooses are parameters, with \<open>linked\<close> or \<open>layout\<close> saying that objects do not
  overlap. \<^verbatim>\<open>getopt\<close> and the host's files are parameters of the image tool. Every such hypothesis has a
  witness on a concrete device, kernel or host.

  The floating-point conversions, which the default build compiles out, take the precision \<open>p\<close> of the
  compiler's arithmetic as an argument.

  \<^bold>\<open>Not modelled.\<close> The boot loader's switches of the processor's mode, its descriptor table and its
  real-mode stack, and \<^verbatim>\<open>enable_vesa\<close>, which nothing calls; debug fills and the traces under \<^verbatim>\<open>LOCAL_TRACE\<close> and \<^verbatim>\<open>HEAP_TRACE\<close>,
  which the build compiles out; \<^verbatim>\<open>include/compiler.h\<close> and the other headers of attributes and
  types, which have no run-time meaning; the stack use of C code other than at a task switch; time
  (the busy wait of the keyboard driver). Preemption does not exist in this kernel. An interrupt
  is modelled between two steps of the code, not inside them: the prints that run with interrupts on, as
  those of the boot task, are modelled without an interrupt inside (see \<^theory_text>\<open>System\<close> above).
\<close>

end
